(* ===== verification/Prelude.thy ===== *)
theory Prelude
  imports Main "HOL-Library.Word"
begin

text \<open>
  Shared vocabulary of the development: what a Rust expression can do besides return a value
  (panic), the machine integers of the three crates, and the text that the code prints and
  parses.  The generic lemmas the component theories use are declared here, so that
  \<^theory_text>\<open>simp add: run_simps\<close> and \<^theory_text>\<open>auto\<close> carry the component proofs.
\<close>

unbundle bit_operations_syntax

section \<open>Panics and the result of running code\<close>

text \<open>
  A Rust function either returns or unwinds.  The constructors of \<open>panic\<close> say which construct of
  the source unwound: \<open>panic!("OOM")\<close>, an \<open>unreachable!\<close> arm, a failed \<open>expect\<close> or \<open>unwrap\<close>, an
  \<open>assert!\<close>, an explicit \<open>panic!\<close> with another text, an arithmetic overflow in a build with
  overflow checks, a slice index past the end, and \<open>unimplemented!\<close>.
\<close>

datatype panic =
    Oom | Unreachable | ExpectFailed | AssertFailed | Explicit | Overflow | SliceIndex
  | Unimplemented

type_synonym 'a run = "panic + 'a"

definition run_bind :: "'a run \<Rightarrow> ('a \<Rightarrow> 'b run) \<Rightarrow> 'b run" where
  "run_bind r f = (case r of Inl p \<Rightarrow> Inl p | Inr x \<Rightarrow> f x)"

definition run_map :: "('a \<Rightarrow> 'b) \<Rightarrow> 'a run \<Rightarrow> 'b run" where
  "run_map f r = run_bind r (\<lambda>x. Inr (f x))"

definition returns :: "'a run \<Rightarrow> bool" where
  "returns r \<longleftrightarrow> (case r of Inl _ \<Rightarrow> False | Inr _ \<Rightarrow> True)"

named_theorems run_simps \<open>equations for sequencing code that may panic\<close>

lemma run_bind_simps [simp, run_simps]:
  "run_bind (Inl p) f = Inl p"
  "run_bind (Inr x) f = f x"
  by (simp_all add: run_bind_def)

lemma run_map_simps [simp, run_simps]:
  "run_map f (Inl p) = Inl p"
  "run_map f (Inr x) = Inr (f x)"
  by (simp_all add: run_map_def)

lemma returns_simps [simp, run_simps]:
  "\<not> returns (Inl p)"
  "returns (Inr x)"
  by (simp_all add: returns_def)

lemma run_bind_eq_Inr [run_simps]:
  "run_bind r f = Inr y \<longleftrightarrow> (\<exists>x. r = Inr x \<and> f x = Inr y)"
  by (cases r) simp_all

lemma run_map_eq_Inr [run_simps]:
  "run_map f r = Inr y \<longleftrightarrow> (\<exists>x. r = Inr x \<and> y = f x)"
  by (cases r) auto

lemma returns_iff: "returns r \<longleftrightarrow> (\<exists>x. r = Inr x)"
  by (cases r) simp_all

text \<open>\<^verbatim>\<open>debug_assert!\<close>: \<open>da\<close> says whether debug assertions are compiled in.\<close>

definition debug_assert :: "bool \<Rightarrow> bool \<Rightarrow> 'a run \<Rightarrow> 'a run" where
  "debug_assert da c r = (if da \<and> \<not> c then Inl AssertFailed else r)"

lemma debug_assert_True [simp]: "debug_assert da True r = r"
  by (simp add: debug_assert_def)

text \<open>An optional value as a list of at most one.\<close>

definition opt_list :: "'a option \<Rightarrow> 'a list" where
  "opt_list x = (case x of None \<Rightarrow> [] | Some y \<Rightarrow> [y])"

lemma opt_list_simps [simp]: "opt_list None = []" "opt_list (Some x) = [x]"
  by (simp_all add: opt_list_def)

section \<open>Machine integers\<close>

type_synonym byte = "8 word"
type_synonym u16 = "16 word"
type_synonym u32 = "32 word"

text \<open>
  A C \<open>int\<close> has the bits of a \<open>u32\<close>: \<open>rv as u32\<close> keeps them, \<open>u32::try_from(rv)\<close> fails on the
  negative ones.
\<close>

type_synonym c_int = "32 word"

definition errno_u32 :: "c_int \<Rightarrow> u32 run" where
  "errno_u32 e = (if sint e < 0 then Inl ExpectFailed else Inr e)"

text \<open>
  \<open>usize\<close> is read as a natural number with its bound written out (64-bit targets).  The flag
  \<open>oc\<close> is the build's \<open>overflow-checks\<close>: with it an overflowing \<open>+\<close> panics, without it the sum
  wraps.
\<close>

definition usize_max :: nat where
  "usize_max = 2 ^ 64 - 1"

definition usize_add :: "bool \<Rightarrow> nat \<Rightarrow> nat \<Rightarrow> nat run" where
  "usize_add oc a b =
     (if a + b \<le> usize_max then Inr (a + b)
      else if oc then Inl Overflow else Inr ((a + b) mod (usize_max + 1)))"

definition saturating_add :: "nat \<Rightarrow> nat \<Rightarrow> nat" where
  "saturating_add a b = min usize_max (a + b)"

definition checked_sub :: "nat \<Rightarrow> nat \<Rightarrow> nat option" where
  "checked_sub a b = (if b \<le> a then Some (a - b) else None)"

definition i32_max :: int where
  "i32_max = 2 ^ 31 - 1"

definition i32_min :: int where
  "i32_min = - (2 ^ 31)"

definition i32_sat :: "int \<Rightarrow> int" where
  "i32_sat x = max i32_min (min i32_max x)"

lemma usize_add_ok [simp]: "a + b \<le> usize_max \<Longrightarrow> usize_add oc a b = Inr (a + b)"
  by (simp add: usize_add_def)

lemma errno_u32_zero [simp]: "errno_u32 0 = Inr 0"
  by (simp add: errno_u32_def)

section \<open>Decimal text\<close>

text \<open>
  \<open>Display\<close> of the unsigned integers, and \<open>str::parse\<close> on a string of ASCII digits, as the
  standard library defines them; characters are bytes.
\<close>

definition digit_char :: "nat \<Rightarrow> char" where
  "digit_char d = char_of (48 + d)"

fun show_nat :: "nat \<Rightarrow> string" where
  "show_nat n = (if n < 10 then [digit_char n] else show_nat (n div 10) @ [digit_char (n mod 10)])"

declare show_nat.simps [simp del]

definition show_int :: "int \<Rightarrow> string" where
  "show_int i = (if i < 0 then ''-'' @ show_nat (nat (- i)) else show_nat (nat i))"

definition char_digit :: "char \<Rightarrow> nat option" where
  "char_digit c = (let k = of_char c in if 48 \<le> k \<and> k \<le> (57::nat) then Some (k - 48) else None)"

fun read_digits :: "nat \<Rightarrow> string \<Rightarrow> nat option" where
  "read_digits acc [] = Some acc"
| "read_digits acc (c # cs) =
     (case char_digit c of None \<Rightarrow> None | Some d \<Rightarrow> read_digits (10 * acc + d) cs)"

lemma char_digit_digit_char [simp]: "d < 10 \<Longrightarrow> char_digit (digit_char d) = Some d"
  by (simp add: char_digit_def digit_char_def)

lemma read_digits_append:
  "read_digits acc (xs @ ys) =
     (case read_digits acc xs of None \<Rightarrow> None | Some a \<Rightarrow> read_digits a ys)"
  by (induction acc xs rule: read_digits.induct) (auto split: option.splits)

lemma read_digits_show_nat: "read_digits 0 (show_nat n) = Some n"
proof (induction n rule: show_nat.induct)
  case (1 n)
  then show ?case
    by (subst show_nat.simps) (simp add: read_digits_append)
qed

lemma show_nat_nonempty [simp]: "show_nat n \<noteq> []"
  by (subst show_nat.simps) simp

lemma show_nat_inject: "show_nat m = show_nat n \<longleftrightarrow> m = n"
  by (metis option.inject read_digits_show_nat)

lemma set_show_nat: "set (show_nat n) \<subseteq> digit_char ` {0..<10}"
proof (induction n rule: show_nat.induct)
  case (1 n)
  then show ?case
    by (subst show_nat.simps) auto
qed

end
