(* ===== verification/Errors.thy ===== *)
theory Errors
  imports Prelude
begin

text \<open>
  The three error vocabularies of the repository and the conversions between them:
  \<^verbatim>\<open>nng_sys::{nng_err, ErrorCode, ErrorKind}\<close> (nng-sys/src/bindings.rs, nng-sys/src/lib.rs),
  \<^verbatim>\<open>anng::AioError\<close> (anng/src/aio.rs) and \<^verbatim>\<open>nng::Error\<close> (nng/src/error.rs), with both
  conversions into \<^verbatim>\<open>std::io::Error\<close>.  What NNG and the platform supply (the text of
  \<^verbatim>\<open>nng_strerror\<close>, the kind of a raw OS error) is the parameter \<open>ffi_env\<close>.
\<close>

section \<open>Standard-library error kinds and the parameters\<close>

datatype io_error_kind =
    NotFound | PermissionDenied | ConnectionRefused | ConnectionReset | ConnectionAborted |
    NotConnected | AddrInUse | BrokenPipe | AlreadyExists | WouldBlock | InvalidInput |
    InvalidData | TimedOut | Interrupted | Unsupported | OutOfMemory | HostUnreachable |
    ResourceBusy | StorageFull | QuotaExceeded | WriteZero | Other | UnnamedKind nat

text \<open>
  \<open>UnnamedKind\<close> stands for the variants of \<^verbatim>\<open>std::io::ErrorKind\<close> that the source never names.
  An \<^verbatim>\<open>io::Error\<close> is built from a kind alone, from a kind and a text, or from a raw OS code.
\<close>

datatype io_error =
    IoSimple io_error_kind
  | IoCustom io_error_kind string
  | IoOs int

record ffi_env =
  strerror :: "u32 \<Rightarrow> string"
  os_kind :: "int \<Rightarrow> io_error_kind"

definition io_kind :: "ffi_env \<Rightarrow> io_error \<Rightarrow> io_error_kind" where
  "io_kind E e = (case e of IoSimple k \<Rightarrow> k | IoCustom k _ \<Rightarrow> k | IoOs c \<Rightarrow> os_kind E c)"

section \<open>nng-sys: error numbers, codes and kinds\<close>

datatype error_code =
    EINTR | ENOMEM | EINVAL | EBUSY | ETIMEDOUT | ECONNREFUSED | ECLOSED | EAGAIN |
    ENOTSUP | EADDRINUSE | ESTATE | ENOENT | EPROTO | EUNREACHABLE | EADDRINVAL | EPERM |
    EMSGSIZE | ECONNABORTED | ECONNRESET | ECANCELED | ENOFILES | ENOSPC | EEXIST |
    EREADONLY | EWRITEONLY | ECRYPTO | EPEERAUTH | EBADTYPE | ECONNSHUT | ESTOPPED |
    EINTERNAL

text \<open>The constants of \<^verbatim>\<open>impl nng_err\<close> in the bindings, and the discriminants of the enum.\<close>

fun nng_err_value :: "error_code \<Rightarrow> u32" where
  "nng_err_value EINTR = 1"
| "nng_err_value ENOMEM = 2"
| "nng_err_value EINVAL = 3"
| "nng_err_value EBUSY = 4"
| "nng_err_value ETIMEDOUT = 5"
| "nng_err_value ECONNREFUSED = 6"
| "nng_err_value ECLOSED = 7"
| "nng_err_value EAGAIN = 8"
| "nng_err_value ENOTSUP = 9"
| "nng_err_value EADDRINUSE = 10"
| "nng_err_value ESTATE = 11"
| "nng_err_value ENOENT = 12"
| "nng_err_value EPROTO = 13"
| "nng_err_value EUNREACHABLE = 14"
| "nng_err_value EADDRINVAL = 15"
| "nng_err_value EPERM = 16"
| "nng_err_value EMSGSIZE = 17"
| "nng_err_value ECONNABORTED = 18"
| "nng_err_value ECONNRESET = 19"
| "nng_err_value ECANCELED = 20"
| "nng_err_value ENOFILES = 21"
| "nng_err_value ENOSPC = 22"
| "nng_err_value EEXIST = 23"
| "nng_err_value EREADONLY = 24"
| "nng_err_value EWRITEONLY = 25"
| "nng_err_value ECRYPTO = 26"
| "nng_err_value EPEERAUTH = 27"
| "nng_err_value EBADTYPE = 30"
| "nng_err_value ECONNSHUT = 31"
| "nng_err_value ESTOPPED = 999"
| "nng_err_value EINTERNAL = 1000"

definition NNG_OK :: u32 where "NNG_OK = 0"
definition NNG_ESYSERR :: u32 where "NNG_ESYSERR = 268435456"
definition NNG_ETRANERR :: u32 where "NNG_ETRANERR = 536870912"

fun error_code_num :: "error_code \<Rightarrow> u32" where
  "error_code_num EINTR = 1"
| "error_code_num ENOMEM = 2"
| "error_code_num EINVAL = 3"
| "error_code_num EBUSY = 4"
| "error_code_num ETIMEDOUT = 5"
| "error_code_num ECONNREFUSED = 6"
| "error_code_num ECLOSED = 7"
| "error_code_num EAGAIN = 8"
| "error_code_num ENOTSUP = 9"
| "error_code_num EADDRINUSE = 10"
| "error_code_num ESTATE = 11"
| "error_code_num ENOENT = 12"
| "error_code_num EPROTO = 13"
| "error_code_num EUNREACHABLE = 14"
| "error_code_num EADDRINVAL = 15"
| "error_code_num EPERM = 16"
| "error_code_num EMSGSIZE = 17"
| "error_code_num ECONNABORTED = 18"
| "error_code_num ECONNRESET = 19"
| "error_code_num ECANCELED = 20"
| "error_code_num ENOFILES = 21"
| "error_code_num ENOSPC = 22"
| "error_code_num EEXIST = 23"
| "error_code_num EREADONLY = 24"
| "error_code_num EWRITEONLY = 25"
| "error_code_num ECRYPTO = 26"
| "error_code_num EPEERAUTH = 27"
| "error_code_num EBADTYPE = 30"
| "error_code_num ECONNSHUT = 31"
| "error_code_num ESTOPPED = 999"
| "error_code_num EINTERNAL = 1000"

datatype error_kind =
    NngError error_code
  | Transport u32
  | System io_error_kind
  | OtherKind u32

text \<open>
  The codes in the order of the enum, and the arms of \<^verbatim>\<open>ErrorKind::from_nng_err\<close>: the constants in order, then the transport flag, then
  the system flag, then \<^verbatim>\<open>Other\<close>, whose \<^verbatim>\<open>NonZeroU32::new(err.0).expect(..)\<close> panics on zero.
\<close>

definition all_error_codes :: "error_code list" where
  "all_error_codes =
     [EINTR, ENOMEM, EINVAL, EBUSY, ETIMEDOUT, ECONNREFUSED, ECLOSED, EAGAIN, ENOTSUP,
      EADDRINUSE, ESTATE, ENOENT, EPROTO, EUNREACHABLE, EADDRINVAL, EPERM, EMSGSIZE,
      ECONNABORTED, ECONNRESET, ECANCELED, ENOFILES, ENOSPC, EEXIST, EREADONLY, EWRITEONLY,
      ECRYPTO, EPEERAUTH, EBADTYPE, ECONNSHUT, ESTOPPED, EINTERNAL]"

text \<open>The arms of the match, in their order; \<open>nng_err_value X\<close> is the constant \<open>nng_err::NNG_X\<close>.\<close>

definition from_nng_err_arms :: "(u32 \<times> error_code) list" where
  "from_nng_err_arms =
     [(nng_err_value EINTR, EINTR),
      (nng_err_value ENOMEM, ENOMEM),
      (nng_err_value EINVAL, EINVAL),
      (nng_err_value EBUSY, EBUSY),
      (nng_err_value ETIMEDOUT, ETIMEDOUT),
      (nng_err_value ECONNREFUSED, ECONNREFUSED),
      (nng_err_value ECLOSED, ECLOSED),
      (nng_err_value EAGAIN, EAGAIN),
      (nng_err_value ENOTSUP, ENOTSUP),
      (nng_err_value EADDRINUSE, EADDRINUSE),
      (nng_err_value ESTATE, ESTATE),
      (nng_err_value ENOENT, ENOENT),
      (nng_err_value EPROTO, EPROTO),
      (nng_err_value EUNREACHABLE, EUNREACHABLE),
      (nng_err_value EADDRINVAL, EADDRINVAL),
      (nng_err_value EPERM, EPERM),
      (nng_err_value EMSGSIZE, EMSGSIZE),
      (nng_err_value ECONNABORTED, ECONNABORTED),
      (nng_err_value ECONNRESET, ECONNRESET),
      (nng_err_value ECANCELED, ECANCELED),
      (nng_err_value ENOFILES, ENOFILES),
      (nng_err_value ENOSPC, ENOSPC),
      (nng_err_value EEXIST, EEXIST),
      (nng_err_value EREADONLY, EREADONLY),
      (nng_err_value EWRITEONLY, EWRITEONLY),
      (nng_err_value ECRYPTO, ECRYPTO),
      (nng_err_value EPEERAUTH, EPEERAUTH),
      (nng_err_value EBADTYPE, EBADTYPE),
      (nng_err_value ECONNSHUT, ECONNSHUT),
      (nng_err_value ESTOPPED, ESTOPPED),
      (nng_err_value EINTERNAL, EINTERNAL)]"

definition from_nng_err :: "ffi_env \<Rightarrow> u32 \<Rightarrow> error_kind run" where
  "from_nng_err E err =
     (case map_of from_nng_err_arms err of
        Some c \<Rightarrow> Inr (NngError c)
      | None \<Rightarrow>
          if err AND NNG_ETRANERR \<noteq> 0 then Inr (Transport (err AND NOT NNG_ETRANERR))
          else if err AND NNG_ESYSERR \<noteq> 0
            then Inr (System (os_kind E (sint (err AND NOT NNG_ESYSERR))))
          else if err = 0 then Inl ExpectFailed
          else Inr (OtherKind err))"

section \<open>anng: AioError\<close>

datatype aio_error = TimedOut | Cancelled | Operation error_kind

text \<open>\<^verbatim>\<open>impl Display for ErrorCode\<close>, reached through \<^verbatim>\<open>AioError\<close>'s own \<^verbatim>\<open>Display\<close>.\<close>

definition error_code_display :: "ffi_env \<Rightarrow> error_code \<Rightarrow> string" where
  "error_code_display E c = strerror E (error_code_num c)"

text \<open>\<^verbatim>\<open>impl From<AioError> for io::Error\<close>: the three \<^verbatim>\<open>unreachable!\<close> arms are panics.\<close>

fun nng_code_io_kind :: "error_code \<Rightarrow> io_error_kind run" where
  "nng_code_io_kind ETIMEDOUT = Inl Unreachable"
| "nng_code_io_kind ECANCELED = Inl Unreachable"
| "nng_code_io_kind EINTR = Inl Unreachable"
| "nng_code_io_kind EBUSY = Inr io_error_kind.ResourceBusy"
| "nng_code_io_kind EAGAIN = Inr io_error_kind.WouldBlock"
| "nng_code_io_kind ENOTSUP = Inr io_error_kind.Unsupported"
| "nng_code_io_kind EADDRINUSE = Inr io_error_kind.AddrInUse"
| "nng_code_io_kind ENOENT = Inr io_error_kind.NotFound"
| "nng_code_io_kind EPERM = Inr io_error_kind.PermissionDenied"
| "nng_code_io_kind EMSGSIZE = Inr io_error_kind.InvalidData"
| "nng_code_io_kind ECONNABORTED = Inr io_error_kind.ConnectionAborted"
| "nng_code_io_kind ENOFILES = Inr io_error_kind.QuotaExceeded"
| "nng_code_io_kind ENOSPC = Inr io_error_kind.StorageFull"
| "nng_code_io_kind EEXIST = Inr io_error_kind.AlreadyExists"
| "nng_code_io_kind EREADONLY = Inr io_error_kind.Unsupported"
| "nng_code_io_kind EWRITEONLY = Inr io_error_kind.Unsupported"
| "nng_code_io_kind EBADTYPE = Inr io_error_kind.InvalidInput"
| "nng_code_io_kind EADDRINVAL = Inr io_error_kind.InvalidInput"
| "nng_code_io_kind EINVAL = Inr io_error_kind.InvalidInput"
| "nng_code_io_kind ECONNSHUT = Inr io_error_kind.BrokenPipe"
| "nng_code_io_kind ECLOSED = Inr io_error_kind.BrokenPipe"
| "nng_code_io_kind ECONNREFUSED = Inr io_error_kind.ConnectionRefused"
| "nng_code_io_kind ECONNRESET = Inr io_error_kind.ConnectionReset"
| "nng_code_io_kind ENOMEM = Inr io_error_kind.OutOfMemory"
| "nng_code_io_kind EPEERAUTH = Inr io_error_kind.ConnectionAborted"
| "nng_code_io_kind EUNREACHABLE = Inr io_error_kind.HostUnreachable"
| "nng_code_io_kind _ = Inr io_error_kind.Other"

fun aio_error_into_io :: "ffi_env \<Rightarrow> aio_error \<Rightarrow> io_error run" where
  "aio_error_into_io E aio_error.TimedOut =
     Inr (IoCustom io_error_kind.TimedOut ''operation timed out'')"
| "aio_error_into_io E Cancelled =
     Inr (IoCustom io_error_kind.Interrupted ''operation cancelled'')"
| "aio_error_into_io E (Operation (NngError c)) =
     run_map (\<lambda>k. IoCustom k (error_code_display E c)) (nng_code_io_kind c)"
| "aio_error_into_io E (Operation (Transport code)) =
     Inr (IoCustom io_error_kind.Other (''Transport error #'' @ show_nat (unat code)))"
| "aio_error_into_io E (Operation (System k)) = Inr (IoSimple k)"
| "aio_error_into_io E (Operation (OtherKind code)) =
     Inr (IoCustom io_error_kind.Other (show_nat (unat code)))"

text \<open>
  \<^verbatim>\<open>impl Display\<close> of \<^verbatim>\<open>ErrorKind\<close> and \<^verbatim>\<open>AioError\<close>, and of an \<^verbatim>\<open>io::Error\<close>: \<open>kt\<close> is the standard
  library's text of a kind, \<open>os\<close> the platform's text of a raw code.
\<close>

fun error_kind_display :: "ffi_env \<Rightarrow> (io_error_kind \<Rightarrow> string) \<Rightarrow> error_kind \<Rightarrow> string" where
  "error_kind_display E kt (NngError c) = error_code_display E c"
| "error_kind_display E kt (Transport code) = ''Transport error #'' @ show_nat (unat code)"
| "error_kind_display E kt (System kind) = ''System error: '' @ kt kind"
| "error_kind_display E kt (OtherKind code) = ''Unknown error #'' @ show_nat (unat code)"

fun aio_error_display :: "ffi_env \<Rightarrow> (io_error_kind \<Rightarrow> string) \<Rightarrow> aio_error \<Rightarrow> string" where
  "aio_error_display E kt aio_error.TimedOut = ''operation timed out''"
| "aio_error_display E kt Cancelled = ''operation was cancelled''"
| "aio_error_display E kt (Operation err) = error_kind_display E kt err"

fun io_error_text :: "(io_error_kind \<Rightarrow> string) \<Rightarrow> (int \<Rightarrow> string) \<Rightarrow> io_error \<Rightarrow> string" where
  "io_error_text kt os (IoSimple k) = kt k"
| "io_error_text kt os (IoCustom k s) = s"
| "io_error_text kt os (IoOs c) = os c"

text \<open>\<^verbatim>\<open>nng_sys::EnumFromIntError\<close> and the conversion that reports it.\<close>

datatype enum_from_int_error = EnumFromIntError int

fun enum_from_int_error_display :: "enum_from_int_error \<Rightarrow> string" where
  "enum_from_int_error_display (EnumFromIntError v) = ''EnumFromIntError('' @ show_int v @ '')''"

definition try_from_int :: "(int \<Rightarrow> 'a option) \<Rightarrow> int \<Rightarrow> enum_from_int_error + 'a" where
  "try_from_int try_convert_from v =
     (case try_convert_from v of None \<Rightarrow> Inl (EnumFromIntError v) | Some x \<Rightarrow> Inr x)"

section \<open>nng: Error\<close>

datatype error =
    Interrupted | OutOfMemory | InvalidInput | Busy | TimedOut | ConnectionRefused |
    Closed | TryAgain | NotSupported | AddressInUse | IncorrectState | EntryNotFound |
    Protocol | DestUnreachable | AddressInvalid | PermissionDenied | MessageTooLarge |
    ConnectionAborted | ConnectionReset | Canceled | OutOfFiles | OutOfSpace |
    ResourceExists | ReadOnly | WriteOnly | Crypto | PeerAuth | NoArgument | Ambiguous |
    BadType | ConnectionShutdown | Internal | SystemErr u32 | TransportErr u32 | Unknown u32

text \<open>\<^verbatim>\<open>impl From<NonZeroU32> for Error\<close>: here the system flag is tested before the transport flag.\<close>

definition error_from_arms :: "(u32 \<times> error) list" where
  "error_from_arms =
     [(nng_err_value EINTR, error.Interrupted),
      (nng_err_value ENOMEM, error.OutOfMemory),
      (nng_err_value EINVAL, error.InvalidInput),
      (nng_err_value EBUSY, error.Busy),
      (nng_err_value ETIMEDOUT, error.TimedOut),
      (nng_err_value ECONNREFUSED, error.ConnectionRefused),
      (nng_err_value ECLOSED, error.Closed),
      (nng_err_value EAGAIN, error.TryAgain),
      (nng_err_value ENOTSUP, error.NotSupported),
      (nng_err_value EADDRINUSE, error.AddressInUse),
      (nng_err_value ESTATE, error.IncorrectState),
      (nng_err_value ENOENT, error.EntryNotFound),
      (nng_err_value EPROTO, error.Protocol),
      (nng_err_value EUNREACHABLE, error.DestUnreachable),
      (nng_err_value EADDRINVAL, error.AddressInvalid),
      (nng_err_value EPERM, error.PermissionDenied),
      (nng_err_value EMSGSIZE, error.MessageTooLarge),
      (nng_err_value ECONNABORTED, error.ConnectionAborted),
      (nng_err_value ECONNRESET, error.ConnectionReset),
      (nng_err_value ECANCELED, error.Canceled),
      (nng_err_value ENOFILES, error.OutOfFiles),
      (nng_err_value ENOSPC, error.OutOfSpace),
      (nng_err_value EEXIST, error.ResourceExists),
      (nng_err_value EREADONLY, error.ReadOnly),
      (nng_err_value EWRITEONLY, error.WriteOnly),
      (nng_err_value ECRYPTO, error.Crypto),
      (nng_err_value EPEERAUTH, error.PeerAuth),
      (nng_err_value EBADTYPE, error.BadType),
      (nng_err_value ECONNSHUT, error.ConnectionShutdown),
      (nng_err_value EINTERNAL, error.Internal)]"

definition error_from :: "u32 \<Rightarrow> error" where
  "error_from c =
     (case map_of error_from_arms c of
        Some e \<Rightarrow> e
      | None \<Rightarrow>
          if c AND NNG_ESYSERR \<noteq> 0 then SystemErr (c AND NOT NNG_ESYSERR)
          else if c AND NNG_ETRANERR \<noteq> 0 then TransportErr (c AND NOT NNG_ETRANERR)
          else Unknown c)"

text \<open>The macro \<^verbatim>\<open>rv2res!\<close>: zero is success, anything else is the error of its bits.\<close>

definition rv2res :: "c_int \<Rightarrow> 'a \<Rightarrow> error + 'a" where
  "rv2res rv ok = (if rv = 0 then Inr ok else Inl (error_from rv))"

text \<open>
  \<^verbatim>\<open>validate_ptr\<close>: a null pointer is \<^term>\<open>None\<close>; a null pointer from a successful call panics.
\<close>

definition validate_ptr :: "c_int \<Rightarrow> 'p option \<Rightarrow> (error + 'p) run" where
  "validate_ptr rv ptr =
     (if rv \<noteq> 0 then Inr (Inl (error_from rv))
      else (case ptr of None \<Rightarrow> Inl ExpectFailed | Some p \<Rightarrow> Inr (Inr p)))"

text \<open>\<^verbatim>\<open>impl Display for Error\<close>; the text of a system error is the platform's.\<close>

fun error_display :: "(int \<Rightarrow> string) \<Rightarrow> error \<Rightarrow> string" where
  "error_display os error.Interrupted = ''Interrupted''"
| "error_display os error.OutOfMemory = ''Out of memory''"
| "error_display os error.InvalidInput = ''Invalid argument''"
| "error_display os error.Busy = ''Resource busy''"
| "error_display os error.TimedOut = ''Timed out''"
| "error_display os error.ConnectionRefused = ''Connection refused''"
| "error_display os error.Closed = ''Object closed''"
| "error_display os error.TryAgain = ''Try again''"
| "error_display os error.NotSupported = ''Not supported''"
| "error_display os error.AddressInUse = ''Address in use''"
| "error_display os error.IncorrectState = ''Incorrect state''"
| "error_display os error.EntryNotFound = ''Entry not found''"
| "error_display os error.Protocol = ''Protocol error''"
| "error_display os error.DestUnreachable = ''Destination unreachable''"
| "error_display os error.AddressInvalid = ''Address invalid''"
| "error_display os error.PermissionDenied = ''Permission denied''"
| "error_display os error.MessageTooLarge = ''Message too large''"
| "error_display os error.ConnectionReset = ''Connection reset''"
| "error_display os error.ConnectionAborted = ''Connection aborted''"
| "error_display os error.Canceled = ''Operation canceled''"
| "error_display os error.OutOfFiles = ''Out of files''"
| "error_display os error.OutOfSpace = ''Out of space''"
| "error_display os error.ResourceExists = ''Resource already exists''"
| "error_display os error.ReadOnly = ''Read only resource''"
| "error_display os error.WriteOnly = ''Write only resource''"
| "error_display os error.Crypto = ''Cryptographic error''"
| "error_display os error.PeerAuth = ''Peer could not be authenticated''"
| "error_display os error.NoArgument = ''Option requires argument''"
| "error_display os error.Ambiguous = ''Ambiguous option''"
| "error_display os error.BadType = ''Incorrect type''"
| "error_display os error.ConnectionShutdown = ''Connection shutdown''"
| "error_display os error.Internal = ''Internal error detected''"
| "error_display os (SystemErr c) = os (sint c)"
| "error_display os (TransportErr c) = ''Transport error #'' @ show_nat (unat c)"
| "error_display os (Unknown c) = ''Unknown error code #'' @ show_nat (unat c)"

text \<open>\<^verbatim>\<open>impl From<Error> for io::Error\<close>; the source of a custom error is the error's own text.\<close>

fun error_io_kind :: "error \<Rightarrow> io_error_kind" where
  "error_io_kind error.Interrupted = io_error_kind.Interrupted"
| "error_io_kind error.InvalidInput = io_error_kind.InvalidInput"
| "error_io_kind error.NoArgument = io_error_kind.InvalidInput"
| "error_io_kind error.TimedOut = io_error_kind.TimedOut"
| "error_io_kind error.TryAgain = io_error_kind.WouldBlock"
| "error_io_kind error.ConnectionRefused = io_error_kind.ConnectionRefused"
| "error_io_kind error.PermissionDenied = io_error_kind.PermissionDenied"
| "error_io_kind error.ConnectionAborted = io_error_kind.ConnectionAborted"
| "error_io_kind error.ConnectionReset = io_error_kind.ConnectionReset"
| "error_io_kind error.ResourceExists = io_error_kind.AlreadyExists"
| "error_io_kind error.BadType = io_error_kind.InvalidData"
| "error_io_kind error.ConnectionShutdown = io_error_kind.NotConnected"
| "error_io_kind _ = io_error_kind.Other"

definition error_into_io :: "(int \<Rightarrow> string) \<Rightarrow> error \<Rightarrow> io_error" where
  "error_into_io os e =
     (case e of SystemErr c \<Rightarrow> IoOs (sint c)
      | _ \<Rightarrow> IoCustom (error_io_kind e) (error_display os e))"

section \<open>Lemmas\<close>

lemma nng_err_value_eq_num: "nng_err_value c = error_code_num c"
  by (cases c) simp_all

lemma nng_err_value_inject: "nng_err_value c = nng_err_value d \<longleftrightarrow> c = d"
  by (cases c; cases d; simp)

lemma bit_NNG_ESYSERR [simp]: "bit NNG_ESYSERR n \<longleftrightarrow> n = 28"
proof -
  have eq: "NNG_ESYSERR = push_bit 28 1" by (simp add: NNG_ESYSERR_def)
  show ?thesis unfolding eq bit_push_bit_iff bit_1_iff by (auto simp: possible_bit_word)
qed

lemma bit_NNG_ETRANERR [simp]: "bit NNG_ETRANERR n \<longleftrightarrow> n = 29"
proof -
  have eq: "NNG_ETRANERR = push_bit 29 1" by (simp add: NNG_ETRANERR_def)
  show ?thesis unfolding eq bit_push_bit_iff bit_1_iff by (auto simp: possible_bit_word)
qed

lemma AND_flag_iff:
  "w AND NNG_ESYSERR \<noteq> 0 \<longleftrightarrow> bit w 28" "w AND NNG_ETRANERR \<noteq> 0 \<longleftrightarrow> bit w 29"
  using bit_eq_iff [of "w AND NNG_ESYSERR" 0] bit_eq_iff [of "w AND NNG_ETRANERR" 0]
  by (auto simp: bit_and_iff simp del: bit_eq_iff)

lemma nng_err_value_noflags [simp]:
  "\<not> bit (nng_err_value c) 28" "\<not> bit (nng_err_value c) 29" "nng_err_value c \<noteq> 0"
  by (cases c; simp)+

lemma set_all_error_codes [simp]: "set all_error_codes = UNIV"
proof -
  have "c \<in> set all_error_codes" for c
    by (cases c) (simp_all add: all_error_codes_def)
  then show ?thesis by blast
qed

lemma distinct_all_error_codes: "distinct all_error_codes"
  by (simp add: all_error_codes_def)

lemma from_nng_err_arms_map: "from_nng_err_arms = map (\<lambda>c. (nng_err_value c, c)) all_error_codes"
  by (simp add: from_nng_err_arms_def all_error_codes_def)

lemma from_nng_err_arms_Some:
  "map_of from_nng_err_arms w = Some c \<longleftrightarrow> w = nng_err_value c"
proof -
  have "inj nng_err_value"
    by (rule injI) (simp only: nng_err_value_inject)
  then have "distinct (map fst from_nng_err_arms)"
    using distinct_all_error_codes
    by (simp add: from_nng_err_arms_map o_def distinct_map inj_on_subset)
  then have "map_of from_nng_err_arms w = Some c \<longleftrightarrow> (w, c) \<in> set from_nng_err_arms"
    by (metis map_of_is_SomeI map_of_SomeD)
  then show ?thesis
    by (auto simp: from_nng_err_arms_map)
qed

lemma from_nng_err_arms_None:
  "map_of from_nng_err_arms w = None \<longleftrightarrow> (\<forall>c. w \<noteq> nng_err_value c)"
  by (metis from_nng_err_arms_Some not_None_eq)

lemma from_nng_err_arms_value [simp]: "map_of from_nng_err_arms (nng_err_value c) = Some c"
  by (simp add: from_nng_err_arms_Some)

lemma from_nng_err_value [simp]: "from_nng_err E (nng_err_value c) = Inr (NngError c)"
  by (simp add: from_nng_err_def)

lemma error_from_arms_None:
  "map_of error_from_arms w = None \<longleftrightarrow> (\<forall>c. c \<noteq> ESTOPPED \<longrightarrow> w \<noteq> nng_err_value c)"
proof
  assume "map_of error_from_arms w = None"
  then have n: "w \<notin> fst ` set error_from_arms" by (simp add: map_of_eq_None_iff)
  show "\<forall>c. c \<noteq> ESTOPPED \<longrightarrow> w \<noteq> nng_err_value c"
  proof (intro allI impI)
    fix c assume "c \<noteq> ESTOPPED"
    then show "w \<noteq> nng_err_value c"
      using n by (cases c) (simp_all add: error_from_arms_def)
  qed
next
  assume a: "\<forall>c. c \<noteq> ESTOPPED \<longrightarrow> w \<noteq> nng_err_value c"
  show "map_of error_from_arms w = None"
  proof (rule ccontr)
    assume "map_of error_from_arms w \<noteq> None"
    then have "w \<in> fst ` set error_from_arms" by (simp add: map_of_eq_None_iff)
    then have "\<exists>c. c \<noteq> ESTOPPED \<and> w = nng_err_value c"
      unfolding error_from_arms_def
      by (simp del: nng_err_value.simps) (elim disjE; blast)
    with a show False by blast
  qed
qed

text \<open>
  The \<^verbatim>\<open>nng::Error\<close> that stands for an \<^verbatim>\<open>nng_sys::ErrorCode\<close>, and when the two
  classifications of one number say the same thing.
\<close>

definition code_error :: "error_code \<Rightarrow> error option" where
  "code_error c = map_of error_from_arms (nng_err_value c)"

fun kind_matches :: "ffi_env \<Rightarrow> error_kind \<Rightarrow> error \<Rightarrow> bool" where
  "kind_matches E (NngError c) e \<longleftrightarrow> code_error c = Some e"
| "kind_matches E (Transport t) e \<longleftrightarrow> e = TransportErr t"
| "kind_matches E (System k) e \<longleftrightarrow>
     (case e of SystemErr s \<Rightarrow> k = os_kind E (sint s) | _ \<Rightarrow> False)"
| "kind_matches E (OtherKind c) e \<longleftrightarrow> e = Unknown c"

lemma code_error_None: "code_error c = None \<longleftrightarrow> c = ESTOPPED"
  by (auto simp: code_error_def error_from_arms_None nng_err_value_inject)

lemma error_from_value: "c \<noteq> ESTOPPED \<Longrightarrow> code_error c = Some (error_from (nng_err_value c))"
  using code_error_None [of c] by (auto simp: code_error_def error_from_def)

lemma nng_code_io_kind_panics:
  "nng_code_io_kind c = Inl p \<longleftrightarrow> c \<in> {ETIMEDOUT, ECANCELED, EINTR} \<and> p = Unreachable"
  by (cases c) auto

lemma aio_error_into_io_panics:
  "aio_error_into_io E e = Inl p \<longleftrightarrow>
     p = Unreachable \<and> e \<in> Operation ` NngError ` {ETIMEDOUT, ECANCELED, EINTR}"
proof (cases e)
  case (Operation k)
  then show ?thesis
  proof (cases k)
    case (NngError c)
    then show ?thesis
      using Operation nng_code_io_kind_panics [of c p]
      by (cases "nng_code_io_kind c") (auto simp: image_iff)
  qed auto
qed auto

lemma AND_flag_zero_iff: "w AND NNG_ETRANERR = 0 \<longleftrightarrow> \<not> bit w 29" "w AND NNG_ESYSERR = 0 \<longleftrightarrow> \<not> bit w 28"
  using AND_flag_iff by blast+

lemma from_nng_err_other:
  assumes "map_of from_nng_err_arms err = None"
  shows "from_nng_err E err =
     (if bit err 29 then Inr (Transport (err AND NOT NNG_ETRANERR))
      else if bit err 28 then Inr (System (os_kind E (sint (err AND NOT NNG_ESYSERR))))
      else if err = 0 then Inl ExpectFailed else Inr (OtherKind err))"
  using assms by (simp add: from_nng_err_def AND_flag_iff del: bit_eq_iff)

lemma transport_restore: "bit w 29 \<Longrightarrow> w = (w AND NOT NNG_ETRANERR) OR NNG_ETRANERR"
  by (rule bit_eqI) (auto simp: bit_simps)

text \<open>A closed environment for the witnesses: every OS code has the same kind.\<close>

definition sample_env :: ffi_env where
  "sample_env = \<lparr>strerror = (\<lambda>c. ''error '' @ show_nat (unat c)),
     os_kind = (\<lambda>c. if c = 111 then io_error_kind.ConnectionRefused else UnnamedKind 0)\<rparr>"

section \<open>Properties\<close>

text \<open>
  C23. Every number that NNG's documentation names is classified as that name: the enum's
  discriminants agree with the bindings' constants and \<^verbatim>\<open>from_nng_err\<close> is a left inverse of them,
  so no two codes are confused and no known code falls into the flag or the catch-all arms.
\<close>

theorem error_code_roundtrip:
  "error_code_num c = nng_err_value c
   \<and> from_nng_err E (error_code_num c) = Inr (NngError c)
   \<and> (from_nng_err E err = Inr (NngError c) \<longleftrightarrow> err = error_code_num c)"
proof -
  have "err = nng_err_value c" if "from_nng_err E err = Inr (NngError c)"
    using that
    by (auto simp: from_nng_err_def from_nng_err_arms_Some split: option.splits if_splits)
  then show ?thesis
    by (metis from_nng_err_value nng_err_value_eq_num)
qed

text \<open>
  \<^verbatim>\<open>from_nng_err\<close> loses nothing but the OS code's number: it panics exactly on zero, a
  transport error is the original with the flag put back, an unrecognised number is kept whole
  and has neither flag, and a system error comes from a number with the system flag and without
  the transport flag.
\<close>

theorem from_nng_err_classifies:
  "(from_nng_err E err = Inl p \<longleftrightarrow> err = 0 \<and> p = ExpectFailed)
   \<and> (from_nng_err E err = Inr (Transport t) \<longrightarrow>
        err = t OR NNG_ETRANERR \<and> t AND NNG_ETRANERR = 0)
   \<and> (from_nng_err E err = Inr (OtherKind n) \<longrightarrow>
        n = err \<and> err AND NNG_ETRANERR = 0 \<and> err AND NNG_ESYSERR = 0)
   \<and> (from_nng_err E err = Inr (System k) \<longrightarrow>
        err AND NNG_ESYSERR \<noteq> 0 \<and> err AND NNG_ETRANERR = 0)"
proof (cases "map_of from_nng_err_arms err")
  case None
  have "(err AND NOT NNG_ETRANERR) AND NNG_ETRANERR = 0"
    by (simp only: AND_flag_zero_iff) (simp add: bit_simps)
  then show ?thesis
    using transport_restore [of err] None
    by (auto simp: from_nng_err_other AND_flag_iff AND_flag_zero_iff split: if_splits)
next
  case (Some c)
  then show ?thesis by (auto simp: from_nng_err_arms_Some)
qed

theorem from_nng_err_classifies_witness:
  "from_nng_err sample_env 536870917 = Inr (Transport 5)
   \<and> (536870917 :: u32) = 5 OR NNG_ETRANERR"
proof -
  have "from_nng_err sample_env 536870917 = Inr (Transport 5)"
    by (simp add: from_nng_err_def from_nng_err_arms_def all_error_codes_def NNG_ETRANERR_def)
  then show ?thesis
    using from_nng_err_classifies [of sample_env 536870917 _ 5] by blast
qed



text \<open>
  What a user of \<^verbatim>\<open>anng\<close> reads of a failed operation.  The \<^verbatim>\<open>io::Error\<close> that an \<^verbatim>\<open>AioError\<close>
  becomes prints the same text as the \<^verbatim>\<open>AioError\<close> itself for a timeout, a documented code and a
  transport error; a cancellation, a system error and an unknown number print a text that is always
  another one.  The conversion panics for the three codes that \<^verbatim>\<open>AioError\<close> never carries.
\<close>

theorem aio_error_texts:
  "(aio_error_into_io E e = Inr io \<longrightarrow>
      (io_error_text kt os io = aio_error_display E kt e \<longleftrightarrow>
         (case e of
            aio_error.TimedOut \<Rightarrow> True
          | Cancelled \<Rightarrow> False
          | Operation (NngError c) \<Rightarrow> True
          | Operation (Transport c) \<Rightarrow> True
          | Operation (System k) \<Rightarrow> False
          | Operation (OtherKind c) \<Rightarrow> False)))
   \<and> (returns (aio_error_into_io E e) \<longleftrightarrow>
        e \<notin> Operation ` NngError ` {ETIMEDOUT, ECANCELED, EINTR})"
proof
  have neq: "kt k \<noteq> ''System error: '' @ kt k" for k
    using arg_cong [of "kt k" "''System error: '' @ kt k" length] by auto
  have num: "show_nat n \<noteq> ''Unknown error #'' @ show_nat n" for n
    using arg_cong [of "show_nat n" "''Unknown error #'' @ show_nat n" length] by auto
  show "aio_error_into_io E e = Inr io \<longrightarrow>
      (io_error_text kt os io = aio_error_display E kt e \<longleftrightarrow>
         (case e of
            aio_error.TimedOut \<Rightarrow> True
          | Cancelled \<Rightarrow> False
          | Operation (NngError c) \<Rightarrow> True
          | Operation (Transport c) \<Rightarrow> True
          | Operation (System k) \<Rightarrow> False
          | Operation (OtherKind c) \<Rightarrow> False))"
    using neq num by (auto simp: run_map_eq_Inr split: aio_error.split error_kind.split)
  show "returns (aio_error_into_io E e) \<longleftrightarrow>
      e \<notin> Operation ` NngError ` {ETIMEDOUT, ECANCELED, EINTR}"
    using aio_error_into_io_panics [of E e] by (cases "aio_error_into_io E e") auto
qed

theorem aio_error_texts_witness:
  "io_error_text (\<lambda>_. ''other'') (\<lambda>_. ''os'')
       (IoCustom io_error_kind.Interrupted ''operation cancelled'')
     \<noteq> aio_error_display sample_env (\<lambda>_. ''other'') Cancelled"
  using aio_error_texts [of sample_env Cancelled
      "IoCustom io_error_kind.Interrupted ''operation cancelled''" "\<lambda>_. ''other''" "\<lambda>_. ''os''"]
  by simp

end
