(* ===== verification/Options.thy ===== *)
theory Options
  imports Errors
begin

text \<open>
  Durations and option setters: \<^verbatim>\<open>duration_to_nng\<close> of the \<^verbatim>\<open>nng\<close> crate (nng/src/util.rs), the
  helpers of anng/src/options.rs, and the setters of anng/src/protocols that check a range before
  they call NNG (\<^verbatim>\<open>set_survey_timeout\<close>, \<^verbatim>\<open>set_send_buffer\<close>, \<^verbatim>\<open>set_max_ttl\<close>, \<^verbatim>\<open>prefer_new\<close>).
  The C setters are parameters: a function from the option's name, the value and the state of the
  NNG object to the return code and the new state.
\<close>

section \<open>Durations\<close>

text \<open>\<^verbatim>\<open>core::time::Duration\<close>: whole seconds (a \<^verbatim>\<open>u64\<close>) and nanoseconds below one second.\<close>

record duration =
  d_secs :: nat
  d_nanos :: nat

definition duration_ok :: "duration \<Rightarrow> bool" where
  "duration_ok d \<longleftrightarrow> d_secs d < 2 ^ 64 \<and> d_nanos d < 10 ^ 9"

definition as_millis :: "duration \<Rightarrow> nat" where
  "as_millis d = d_secs d * 1000 + d_nanos d div 10 ^ 6"

definition subsec_millis :: "duration \<Rightarrow> nat" where
  "subsec_millis d = d_nanos d div 10 ^ 6"

definition NNG_DURATION_INFINITE :: int where
  "NNG_DURATION_INFINITE = - 1"

definition NNG_DURATION_DEFAULT :: int where
  "NNG_DURATION_DEFAULT = - 2"

text \<open>\<^verbatim>\<open>nng::util::duration_to_nng\<close>, with its saturating \<^verbatim>\<open>i32\<close> arithmetic.\<close>

definition duration_to_nng :: "duration option \<Rightarrow> int" where
  "duration_to_nng dur =
     (case dur of
        None \<Rightarrow> NNG_DURATION_INFINITE
      | Some d \<Rightarrow>
          (let secs = (if int (d_secs d) > i32_max then i32_max else int (d_secs d));
               millis = int (subsec_millis d)
           in i32_sat (i32_sat (secs * 1000) + millis)))"

text \<open>\<^verbatim>\<open>anng::options::duration_to_nng_ms\<close> panics where the other crate saturates.\<close>

definition duration_to_nng_ms :: "duration \<Rightarrow> int run" where
  "duration_to_nng_ms d =
     (let ms = as_millis d in if int ms > i32_max then Inl Explicit else Inr (int ms))"

definition duration_opt_to_nng_ms :: "duration option \<Rightarrow> int run" where
  "duration_opt_to_nng_ms dur =
     (case dur of Some d \<Rightarrow> duration_to_nng_ms d | None \<Rightarrow> Inr NNG_DURATION_INFINITE)"

section \<open>Setting an option\<close>

type_synonym 'w set_ms = "string \<Rightarrow> int \<Rightarrow> 'w \<Rightarrow> c_int \<times> 'w"

definition check_map_set_ms_errno :: "ffi_env \<Rightarrow> u32 \<Rightarrow> (io_error + unit) run" where
  "check_map_set_ms_errno E errno =
     (if errno = 0 then Inr (Inr ())
      else if errno = error_code_num ECLOSED then Inl Unreachable
      else if errno = error_code_num EINVAL then Inl Unreachable
      else if errno = error_code_num ENOTSUP then Inl Unreachable
      else if errno = error_code_num EREADONLY then Inl Unreachable
      else if errno = error_code_num ESTATE
        then Inr (Inl (IoCustom io_error_kind.Other (error_code_display E ESTATE)))
      else Inl Unreachable)"

definition set_socket_ms ::
  "ffi_env \<Rightarrow> 'w set_ms \<Rightarrow> string \<Rightarrow> duration \<Rightarrow> 'w \<Rightarrow> ((io_error + unit) \<times> 'w) run" where
  "set_socket_ms E set_ms opt dur w =
     run_bind (duration_to_nng_ms dur) (\<lambda>ms.
       (case set_ms opt ms w of (raw_errno, w') \<Rightarrow>
          run_bind (errno_u32 raw_errno) (\<lambda>errno.
            run_map (\<lambda>r. (r, w')) (check_map_set_ms_errno E errno))))"

definition set_socket_ms_opt ::
  "ffi_env \<Rightarrow> 'w set_ms \<Rightarrow> string \<Rightarrow> duration option \<Rightarrow> 'w \<Rightarrow> ((io_error + unit) \<times> 'w) run" where
  "set_socket_ms_opt E set_ms opt dur w =
     run_bind (duration_opt_to_nng_ms dur) (\<lambda>ms.
       (case set_ms opt ms w of (raw_errno, w') \<Rightarrow>
          run_bind (errno_u32 raw_errno) (\<lambda>errno.
            run_map (\<lambda>r. (r, w')) (check_map_set_ms_errno E errno))))"

text \<open>\<^verbatim>\<open>set_ctx_ms_opt\<close> has the same body over \<^verbatim>\<open>nng_ctx_set_ms\<close>.\<close>

definition set_ctx_ms_opt ::
  "ffi_env \<Rightarrow> 'w set_ms \<Rightarrow> string \<Rightarrow> duration option \<Rightarrow> 'w \<Rightarrow> ((io_error + unit) \<times> 'w) run" where
  "set_ctx_ms_opt E ctx_set_ms opt dur w =
     run_bind (duration_opt_to_nng_ms dur) (\<lambda>ms.
       (case ctx_set_ms opt ms w of (raw_errno, w') \<Rightarrow>
          run_bind (errno_u32 raw_errno) (\<lambda>errno.
            run_map (\<lambda>r. (r, w')) (check_map_set_ms_errno E errno))))"

text \<open>The setters of \<^verbatim>\<open>Socket<Req0>\<close> and \<^verbatim>\<open>ContextfulSocket<Req0>\<close> (anng/src/protocols/reqrep0.rs).\<close>

definition req0_set_resend_time ::
  "ffi_env \<Rightarrow> 'w set_ms \<Rightarrow> duration option \<Rightarrow> 'w \<Rightarrow> ((io_error + unit) \<times> 'w) run" where
  "req0_set_resend_time E set_ms timeout w =
     set_socket_ms_opt E set_ms ''req:resend-time'' timeout w"

definition req0_set_resend_tick ::
  "ffi_env \<Rightarrow> 'w set_ms \<Rightarrow> duration \<Rightarrow> 'w \<Rightarrow> ((io_error + unit) \<times> 'w) run" where
  "req0_set_resend_tick E set_ms tick w =
     set_socket_ms E set_ms ''req:resend-tick'' tick w"

definition req0_ctx_set_resend_time ::
  "ffi_env \<Rightarrow> 'w set_ms \<Rightarrow> duration option \<Rightarrow> 'w \<Rightarrow> ((io_error + unit) \<times> 'w) run" where
  "req0_ctx_set_resend_time E ctx_set_ms timeout w =
     set_ctx_ms_opt E ctx_set_ms ''req:resend-time'' timeout w"

text \<open>
  \<^verbatim>\<open>ContextfulSocket<Surveyor0>::set_survey_timeout\<close>: every error of the setter is an
  \<^verbatim>\<open>unreachable!\<close> arm.  The world of the C calls is returned even when the function panics, so that
  what was called before the panic stays visible.
\<close>

definition set_survey_timeout :: "'w set_ms \<Rightarrow> duration \<Rightarrow> 'w \<Rightarrow> 'w \<times> unit run" where
  "set_survey_timeout ctx_set_ms timeout w =
     (let timeout_ms = as_millis timeout in
      if int timeout_ms > i32_max then (w, Inl Explicit)
      else
        (case ctx_set_ms ''surveyor:survey-time'' (int timeout_ms) w of (raw_errno, w') \<Rightarrow>
           (w', run_bind (errno_u32 raw_errno) (\<lambda>errno.
             if errno = 0 then Inr () else Inl Unreachable))))"

text \<open>\<^verbatim>\<open>Socket<Push0>::set_send_buffer\<close>; \<open>size\<close> is a \<^verbatim>\<open>u16\<close>.\<close>

definition set_send_buffer ::
  "'w set_ms \<Rightarrow> nat \<Rightarrow> 'w \<Rightarrow> ((io_error + unit) \<times> 'w) run" where
  "set_send_buffer set_int sz w =
     (if sz > 8192
      then Inr (Inl (IoCustom io_error_kind.InvalidInput
             (''send buffer size '' @ show_nat sz @ '' exceeds maximum of 8192'')), w)
      else
        (case set_int ''send-buffer'' (int sz) w of (raw_errno, w') \<Rightarrow>
           run_bind (errno_u32 raw_errno) (\<lambda>errno.
             if errno = 0 then Inr (Inr (), w')
             else if errno = error_code_num ECLOSED then Inl Unreachable
             else if errno = error_code_num EINVAL then Inl Unreachable
             else if errno = error_code_num ENOMEM
               then Inr (Inl (IoCustom io_error_kind.OutOfMemory
                      ''insufficient memory to resize send buffer''), w')
             else Inl Unreachable)))"

text \<open>\<^verbatim>\<open>Socket<Pair1>::set_max_ttl\<close> asserts its range.\<close>

definition set_max_ttl :: "'w set_ms \<Rightarrow> nat \<Rightarrow> 'w \<Rightarrow> 'w run" where
  "set_max_ttl set_int ttl w =
     (if \<not> (1 \<le> ttl \<and> ttl \<le> 15) then Inl AssertFailed
      else
        (case set_int ''ttl-max'' (int ttl) w of (raw_errno, w') \<Rightarrow>
           run_bind (errno_u32 raw_errno) (\<lambda>errno.
             if errno = 0 then Inr w' else Inl Unreachable)))"

text \<open>\<^verbatim>\<open>ContextfulSocket<Sub0>::prefer_new\<close>; the value is a Boolean.\<close>

definition prefer_new :: "(string \<Rightarrow> bool \<Rightarrow> 'w \<Rightarrow> c_int \<times> 'w) \<Rightarrow> bool \<Rightarrow> 'w \<Rightarrow> 'w run" where
  "prefer_new ctx_set_bool prefer w =
     (case ctx_set_bool ''sub:prefnew'' prefer w of (raw_errno, w') \<Rightarrow>
        run_bind (errno_u32 raw_errno) (\<lambda>errno.
          if errno = 0 then Inr w'
          else if errno = error_code_num ESTATE then Inl Explicit
          else Inl Unreachable))"

section \<open>Properties\<close>

text \<open>A legal \<^verbatim>\<open>nng_duration\<close>: infinite, or a count of milliseconds that fits.\<close>

definition nng_ms_ok :: "int \<Rightarrow> bool" where
  "nng_ms_ok ms \<longleftrightarrow> ms = NNG_DURATION_INFINITE \<or> (0 \<le> ms \<and> ms \<le> i32_max)"

lemma as_millis_split: "duration_ok d \<Longrightarrow> as_millis d = d_secs d * 1000 + subsec_millis d"
  by (simp add: as_millis_def subsec_millis_def)

lemma subsec_millis_less: "duration_ok d \<Longrightarrow> subsec_millis d < 1000"
  by (simp add: duration_ok_def subsec_millis_def less_mult_imp_div_less)

lemma duration_to_nng_eq:
  assumes "duration_ok d"
  shows "duration_to_nng (Some d) = min i32_max (int (as_millis d))"
proof (cases "int (d_secs d) > i32_max")
  case True
  then show ?thesis using subsec_millis_less [OF assms]
    by (simp add: duration_to_nng_def as_millis_split [OF assms] i32_sat_def i32_max_def i32_min_def)
next
  case False
  then show ?thesis using subsec_millis_less [OF assms]
    by (auto simp: duration_to_nng_def as_millis_split [OF assms] i32_sat_def i32_max_def
        i32_min_def)
qed

lemma duration_opt_Inr:
  assumes "duration_opt_to_nng_ms dur = Inr ms"
  shows "nng_ms_ok ms"
  using assms
  by (auto simp: duration_opt_to_nng_ms_def duration_to_nng_ms_def nng_ms_ok_def Let_def
      split: option.splits if_splits)

text \<open>
  The two duration conversions agree: the whole-millisecond value of a duration, the
  \<^verbatim>\<open>nng\<close> crate's saturating at \<^verbatim>\<open>i32::MAX\<close> exactly where the \<^verbatim>\<open>anng\<close> one panics; no duration
  becomes a negative number, so none is mistaken for "infinite" or "default".
\<close>

theorem duration_conversions_agree:
  assumes "duration_ok d"
  shows "duration_to_nng (Some d) = min i32_max (int (as_millis d))
     \<and> 0 \<le> duration_to_nng (Some d)
     \<and> duration_to_nng None = NNG_DURATION_INFINITE
     \<and> duration_opt_to_nng_ms None = Inr NNG_DURATION_INFINITE
     \<and> (if int (as_millis d) \<le> i32_max
        then duration_opt_to_nng_ms (Some d) = Inr (duration_to_nng (Some d))
        else duration_opt_to_nng_ms (Some d) = Inl Explicit)"
  using duration_to_nng_eq [OF assms]
  by (auto simp: duration_opt_to_nng_ms_def duration_to_nng_ms_def duration_to_nng_def
      i32_max_def Let_def)

theorem duration_conversions_agree_witness:
  "duration_opt_to_nng_ms (Some \<lparr>d_secs = 2147483, d_nanos = 647999999\<rparr>) = Inr 2147483647
   \<and> duration_to_nng (Some \<lparr>d_secs = 2147483, d_nanos = 648000000\<rparr>) = 2147483647"
proof -
  have "duration_ok \<lparr>d_secs = 2147483, d_nanos = 647999999\<rparr>"
    "duration_ok \<lparr>d_secs = 2147483, d_nanos = 648000000\<rparr>"
    by (simp_all add: duration_ok_def)
  from this [THEN duration_conversions_agree] show ?thesis
    by (simp add: as_millis_def i32_max_def)
qed

text \<open>
  The timeout setters only ever hand NNG a legal duration, and hand it exactly the one the
  caller asked for: two C setters that agree on legal durations are indistinguishable to all of
  \<^verbatim>\<open>set_resend_time\<close>, \<^verbatim>\<open>set_resend_tick\<close>, the context's \<^verbatim>\<open>set_resend_time\<close> and
  \<^verbatim>\<open>set_survey_timeout\<close>, whatever duration they are given.
\<close>

theorem setters_pass_valid_durations:
  assumes "\<And>opt ms w. nng_ms_ok ms \<Longrightarrow> set_ms opt ms w = set_ms' opt ms w"
  shows "req0_set_resend_time E set_ms dur w = req0_set_resend_time E set_ms' dur w
     \<and> req0_ctx_set_resend_time E set_ms dur w = req0_ctx_set_resend_time E set_ms' dur w
     \<and> req0_set_resend_tick E set_ms d w = req0_set_resend_tick E set_ms' d w
     \<and> set_survey_timeout set_ms d w = set_survey_timeout set_ms' d w"
proof -
  have "set_socket_ms_opt E set_ms opt dur w = set_socket_ms_opt E set_ms' opt dur w"
    "set_ctx_ms_opt E set_ms opt dur w = set_ctx_ms_opt E set_ms' opt dur w" for opt
    using duration_opt_Inr [of dur] assms
    by (cases "duration_opt_to_nng_ms dur"; simp add: set_socket_ms_opt_def set_ctx_ms_opt_def)+
  moreover have "set_socket_ms E set_ms opt d w = set_socket_ms E set_ms' opt d w" for opt
    using duration_opt_Inr [of "Some d"] assms
    by (cases "duration_to_nng_ms d") (simp_all add: set_socket_ms_def duration_opt_to_nng_ms_def)
  moreover have "set_survey_timeout set_ms d w = set_survey_timeout set_ms' d w"
    using assms [of "int (as_millis d)"] by (simp add: set_survey_timeout_def nng_ms_ok_def Let_def)
  ultimately show ?thesis
    by (simp add: req0_set_resend_time_def req0_ctx_set_resend_time_def req0_set_resend_tick_def)
qed

text \<open>A C setter that stores a legal duration and refuses any other; the state is the option map.\<close>

definition sample_set :: "(string \<Rightarrow> int option) set_ms" where
  "sample_set opt ms w =
     (if nng_ms_ok ms then (0, w(opt \<mapsto> ms)) else (error_code_num EINVAL, w))"

theorem setters_pass_valid_durations_witness:
  "req0_set_resend_time sample_env sample_set None Map.empty =
     req0_set_resend_time sample_env (\<lambda>opt ms w. (0, w(opt \<mapsto> ms))) None Map.empty"
proof -
  have "sample_set opt ms w = (0, w(opt \<mapsto> ms))" if "nng_ms_ok ms" for opt ms w
    using that by (simp add: sample_set_def)
  from setters_pass_valid_durations [where set_ms = sample_set
      and set_ms' = "\<lambda>opt ms w. (0, w(opt \<mapsto> ms))", OF this] show ?thesis by blast
qed

text \<open>
  What \<^verbatim>\<open>set_resend_time\<close> does, for every return code of the C setter: an over-long timeout
  panics before NNG is called; otherwise NNG gets the option and the milliseconds once, and the
  caller gets \<^verbatim>\<open>Ok\<close> on success, the \<^verbatim>\<open>NNG_ESTATE\<close> error as an \<^verbatim>\<open>io::Error\<close> of kind \<^verbatim>\<open>Other\<close>,
  and a panic for every other code; a negative code fails the \<^verbatim>\<open>expect\<close>.
\<close>

theorem set_resend_time_outcome:
  assumes "duration_opt_to_nng_ms timeout = Inr ms"
    and "set_ms ''req:resend-time'' ms w = (errno, w')"
  shows "req0_set_resend_time E set_ms timeout w =
     (if errno = 0 then Inr (Inr (), w')
      else if errno = error_code_num ESTATE
        then Inr (Inl (IoCustom io_error_kind.Other (error_code_display E ESTATE)), w')
      else if sint errno < 0 then Inl ExpectFailed else Inl Unreachable)
     \<and> (int (as_millis d) > i32_max \<longrightarrow>
          req0_set_resend_time E set_ms (Some d) w = Inl Explicit)"
  using assms
  by (auto simp: req0_set_resend_time_def set_socket_ms_opt_def errno_u32_def
      check_map_set_ms_errno_def duration_opt_to_nng_ms_def duration_to_nng_ms_def)

theorem set_resend_time_outcome_witness:
  "req0_set_resend_time sample_env sample_set (Some \<lparr>d_secs = 1, d_nanos = 5000000\<rparr>) Map.empty
     = Inr (Inr (), [''req:resend-time'' \<mapsto> 1005])"
proof -
  have "duration_opt_to_nng_ms (Some \<lparr>d_secs = 1, d_nanos = 5000000\<rparr>) = Inr 1005"
    by (simp add: duration_opt_to_nng_ms_def duration_to_nng_ms_def as_millis_def i32_max_def)
  moreover have "sample_set ''req:resend-time'' 1005 Map.empty = (0, [''req:resend-time'' \<mapsto> 1005])"
    by (simp add: sample_set_def nng_ms_ok_def i32_max_def)
  ultimately show ?thesis using set_resend_time_outcome by fastforce
qed

text \<open>
  The setters with a documented range check it before they call NNG.  \<^verbatim>\<open>set_send_buffer\<close>
  answers a size above 8192 with \<^verbatim>\<open>InvalidInput\<close> and leaves the socket as it was;
  \<^verbatim>\<open>set_max_ttl\<close> and \<^verbatim>\<open>set_survey_timeout\<close> panic on a value out of range.  Two C setters that agree
  in range cannot be told apart, and with a setter that succeeds in range the calls succeed.
\<close>

theorem range_checked_setters:
  assumes "\<And>k w. k \<le> 8192 \<Longrightarrow> set_int ''send-buffer'' (int k) w = (0, upd k w)"
    and "\<And>k w. 1 \<le> k \<Longrightarrow> k \<le> 15 \<Longrightarrow> set_int ''ttl-max'' (int k) w = (0, ttl k w)"
  shows "(if sz \<le> 8192 then set_send_buffer set_int sz w = Inr (Inr (), upd sz w)
      else \<exists>t. set_send_buffer set_int sz w
             = Inr (Inl (IoCustom io_error_kind.InvalidInput t), w))
     \<and> set_max_ttl set_int n w =
         (if 1 \<le> n \<and> n \<le> 15 then Inr (ttl n w) else Inl AssertFailed)"
  using assms by (auto simp: set_send_buffer_def set_max_ttl_def)

theorem range_checked_setters_witness:
  "set_send_buffer (\<lambda>opt k w. (0, k)) 8192 0 = Inr (Inr (), 8192)
   \<and> set_max_ttl (\<lambda>opt k w. (0, k)) 16 0 = Inl AssertFailed"
  using range_checked_setters [of "\<lambda>opt k w. (0, k)" "\<lambda>k w. int k" "\<lambda>k w. int k" 8192 0 16]
  by simp

end
