(* ===== verification/Init.thy ===== *)
theory Init
  imports Errors
begin

text \<open>
  Library initialisation: \<^verbatim>\<open>init_nng\<close> and its validation (anng/src/init.rs), and the tunables of
  the \<^verbatim>\<open>nng\<close> crate (\<^verbatim>\<open>Params\<close>, nng/src/lib.rs).  The C function \<^verbatim>\<open>nng_init\<close> is a parameter: from
  the parameter block (or a null pointer) and the library's state to a return code and a state.
\<close>

section \<open>anng: configuration and validation\<close>

text \<open>A \<^verbatim>\<open>NonZeroI16\<close> is an integer in range and not zero; it may be negative.\<close>

definition nonzero_i16 :: "int \<Rightarrow> bool" where
  "nonzero_i16 n \<longleftrightarrow> - 32768 \<le> n \<and> n \<le> 32767 \<and> n \<noteq> 0"

datatype thread_limit = Unlimited | Limit int

record thread_pool_config =
  pool_num :: int
  pool_max :: thread_limit

record nng_config =
  task_threads :: "thread_pool_config option"
  expire_threads :: "thread_pool_config option"
  poller_threads :: "thread_pool_config option"
  num_resolver_threads :: "int option"

datatype init_error = Invalid string | AlreadyInitialized

definition init_error_display :: "init_error \<Rightarrow> string" where
  "init_error_display e =
     (case e of Invalid msg \<Rightarrow> ''invalid config: '' @ msg
      | AlreadyInitialized \<Rightarrow> ''NNG already initialized'')"

text \<open>The C block \<^verbatim>\<open>nng_init_params\<close>; the allocator hooks are always null and are left out.\<close>

record nng_init_params =
  p_num_task :: int
  p_max_task :: int
  p_num_expire :: int
  p_max_expire :: int
  p_num_poller :: int
  p_max_poller :: int
  p_num_resolver :: int

definition nng_config_new :: nng_config where
  "nng_config_new = \<lparr>task_threads = None, expire_threads = None, poller_threads = None,
     num_resolver_threads = None\<rparr>"

definition limit_to_i16 :: "thread_limit \<Rightarrow> int" where
  "limit_to_i16 l = (case l of Unlimited \<Rightarrow> - 1 | Limit n \<Rightarrow> n)"

definition pool_num_to_i16 :: "thread_pool_config option \<Rightarrow> int" where
  "pool_num_to_i16 pool = (case pool of None \<Rightarrow> 0 | Some p \<Rightarrow> pool_num p)"

definition pool_max_to_i16 :: "thread_pool_config option \<Rightarrow> int" where
  "pool_max_to_i16 pool = (case pool of None \<Rightarrow> 0 | Some p \<Rightarrow> limit_to_i16 (pool_max p))"

definition validate_pool_config :: "string \<Rightarrow> thread_pool_config \<Rightarrow> init_error + unit" where
  "validate_pool_config name pool =
     (if pool_num pool \<le> 0
      then Inl (Invalid (name @ ''.num must be positive, got '' @ show_int (pool_num pool)))
      else
        (case pool_max pool of
           Limit mx \<Rightarrow>
             if mx \<le> 0
             then Inl (Invalid (name @ ''.max must be positive, got '' @ show_int mx))
             else if pool_num pool > mx
             then Inl (Invalid (name @ ''.num ('' @ show_int (pool_num pool) @ '') exceeds '' @ name
                    @ ''.max ('' @ show_int mx @ '')''))
             else Inr ()
         | Unlimited \<Rightarrow> Inr ()))"

text \<open>\<^verbatim>\<open>if let Some(ref pool) = .. { validate_pool_config(..)?; }\<close>\<close>

definition validate_opt :: "string \<Rightarrow> thread_pool_config option \<Rightarrow> init_error + unit" where
  "validate_opt name pool =
     (case pool of None \<Rightarrow> Inr () | Some p \<Rightarrow> validate_pool_config name p)"

definition params_of :: "nng_config \<Rightarrow> nng_init_params" where
  "params_of cfg =
     \<lparr>p_num_task = pool_num_to_i16 (task_threads cfg),
      p_max_task = pool_max_to_i16 (task_threads cfg),
      p_num_expire = pool_num_to_i16 (expire_threads cfg),
      p_max_expire = pool_max_to_i16 (expire_threads cfg),
      p_num_poller = pool_num_to_i16 (poller_threads cfg),
      p_max_poller = pool_max_to_i16 (poller_threads cfg),
      p_num_resolver = (case num_resolver_threads cfg of None \<Rightarrow> 0 | Some n \<Rightarrow> n)\<rparr>"

type_synonym 'w nng_init = "nng_init_params option \<Rightarrow> 'w \<Rightarrow> u32 \<times> 'w"

text \<open>\<open>ThreadPoolConfig::new\<close>, and \<open>deinit_nng\<close>, which only calls \<^verbatim>\<open>nng_fini\<close>.\<close>

definition pool_config_new :: "int \<Rightarrow> thread_limit \<Rightarrow> thread_pool_config" where
  "pool_config_new n mx = \<lparr>pool_num = n, pool_max = mx\<rparr>"

definition deinit_nng :: "('w \<Rightarrow> 'w) \<Rightarrow> 'w \<Rightarrow> 'w" where
  "deinit_nng nng_fini w = nng_fini w"

definition init_result :: "u32 \<Rightarrow> (init_error + unit) run" where
  "init_result r =
     (if r = NNG_OK then Inr (Inr ())
      else if r = nng_err_value EBUSY then Inr (Inl AlreadyInitialized)
      else Inl Unreachable)"

definition init_nng ::
  "'w nng_init \<Rightarrow> nng_config option \<Rightarrow> 'w \<Rightarrow> ((init_error + unit) \<times> 'w) run" where
  "init_nng nng_init config w =
     (case config of
        Some cfg \<Rightarrow>
          (case validate_opt ''task_threads'' (task_threads cfg) of Inl e \<Rightarrow> Inr (Inl e, w)
           | Inr _ \<Rightarrow>
          (case validate_opt ''expire_threads'' (expire_threads cfg) of Inl e \<Rightarrow> Inr (Inl e, w)
           | Inr _ \<Rightarrow>
          (case validate_opt ''poller_threads'' (poller_threads cfg) of Inl e \<Rightarrow> Inr (Inl e, w)
           | Inr _ \<Rightarrow>
          (case num_resolver_threads cfg of
             Some n \<Rightarrow>
               if n \<le> 0 then Inr (Inl (Invalid ''num_resolver_threads must be positive''), w)
               else (case nng_init (Some (params_of cfg)) w of (r, w') \<Rightarrow>
                 run_map (\<lambda>x. (x, w')) (init_result r))
           | None \<Rightarrow>
               (case nng_init (Some (params_of cfg)) w of (r, w') \<Rightarrow>
                 run_map (\<lambda>x. (x, w')) (init_result r))))))
      | None \<Rightarrow>
          (case nng_init None w of (r, w') \<Rightarrow> run_map (\<lambda>x. (x, w')) (init_result r)))"

section \<open>nng: Params\<close>

record params =
  num_task_threads :: "nat option"
  max_task_threads :: "nat option"
  num_expire_threads :: "nat option"
  max_expire_threads :: "nat option"
  num_poller_threads :: "nat option"
  max_poller_threads :: "nat option"
  resolver_threads :: "nat option"

text \<open>\<^verbatim>\<open>n.get() as i16\<close> on a \<^verbatim>\<open>NonZeroU16\<close>: the same sixteen bits, read as signed.\<close>

definition params_convert :: "nat \<Rightarrow> int" where
  "params_convert n = sint (word_of_nat n :: u16)"

definition convert_opt :: "nat option \<Rightarrow> int" where
  "convert_opt n = (case n of None \<Rightarrow> 0 | Some k \<Rightarrow> params_convert k)"

definition params_into :: "params \<Rightarrow> nng_init_params" where
  "params_into p =
     \<lparr>p_num_task = convert_opt (num_task_threads p),
      p_max_task = convert_opt (max_task_threads p),
      p_num_expire = convert_opt (num_expire_threads p),
      p_max_expire = convert_opt (max_expire_threads p),
      p_num_poller = convert_opt (num_poller_threads p),
      p_max_poller = convert_opt (max_poller_threads p),
      p_num_resolver = convert_opt (resolver_threads p)\<rparr>"

definition params_init :: "'w nng_init \<Rightarrow> params \<Rightarrow> 'w \<Rightarrow> (error + unit) \<times> 'w" where
  "params_init nng_init p w =
     (case nng_init (Some (params_into p)) w of (rv, w') \<Rightarrow> (rv2res rv (), w'))"

section \<open>Properties\<close>

text \<open>The configurations the documentation calls valid, and a parameter block NNG accepts.\<close>

definition pool_ok :: "thread_pool_config \<Rightarrow> bool" where
  "pool_ok p \<longleftrightarrow> 0 < pool_num p
     \<and> (case pool_max p of Unlimited \<Rightarrow> True | Limit n \<Rightarrow> 0 < n \<and> pool_num p \<le> n)"

definition cfg_ok :: "nng_config \<Rightarrow> bool" where
  "cfg_ok cfg \<longleftrightarrow>
     pred_option pool_ok (task_threads cfg) \<and> pred_option pool_ok (expire_threads cfg)
     \<and> pred_option pool_ok (poller_threads cfg)
     \<and> pred_option ((<) 0) (num_resolver_threads cfg)"

text \<open>A count and its maximum as NNG reads them: 0 is the default, \<open>-1\<close> a maximum without limit.\<close>

definition pair_ok :: "int \<Rightarrow> int \<Rightarrow> bool" where
  "pair_ok num mx \<longleftrightarrow> 0 \<le> num \<and> (mx = 0 \<and> num = 0 \<or> mx = - 1 \<or> num \<le> mx)"

definition params_ok :: "nng_init_params \<Rightarrow> bool" where
  "params_ok p \<longleftrightarrow>
     pair_ok (p_num_task p) (p_max_task p) \<and> pair_ok (p_num_expire p) (p_max_expire p)
     \<and> pair_ok (p_num_poller p) (p_max_poller p) \<and> 0 \<le> p_num_resolver p"

lemma validate_pool_config_iff: "(\<exists>u. validate_pool_config name p = Inr u) \<longleftrightarrow> pool_ok p"
  by (auto simp: validate_pool_config_def pool_ok_def split: thread_limit.splits)

lemma validate_pool_config_Inl: "validate_pool_config name p = Inl e \<Longrightarrow> \<exists>msg. e = Invalid msg"
  by (auto simp: validate_pool_config_def split: thread_limit.splits if_splits)

lemma validate_opt_iff: "(\<exists>u. validate_opt name p = Inr u) \<longleftrightarrow> pred_option pool_ok p"
  using validate_pool_config_iff by (cases p) (auto simp: validate_opt_def)

lemma validate_opt_cases:
  "(validate_opt name p = Inr () \<and> pred_option pool_ok p)
   \<or> (\<exists>msg. validate_opt name p = Inl (Invalid msg) \<and> \<not> pred_option pool_ok p)"
proof (cases "validate_opt name p")
  case (Inl e)
  then have "\<exists>msg. e = Invalid msg"
    using validate_pool_config_Inl by (auto simp: validate_opt_def split: option.splits)
  moreover have "\<not> pred_option pool_ok p"
    using Inl validate_opt_iff [of name p] by simp
  ultimately show ?thesis using Inl by blast
next
  case (Inr u)
  then show ?thesis using validate_opt_iff [of name p] by auto
qed

lemma cfg_ok_params: "cfg_ok cfg \<Longrightarrow> params_ok (params_of cfg)"
  by (auto simp: cfg_ok_def params_ok_def params_of_def pair_ok_def pool_num_to_i16_def
      pool_max_to_i16_def limit_to_i16_def pool_ok_def
      split: option.splits thread_limit.splits)


lemma params_convert_eq:
  assumes "n < 65536"
  shows "params_convert n = (if n \<le> 32767 then int n else int n - 65536)"
proof -
  have conv: "params_convert n = (int n + 32768) mod 65536 - 32768"
    by (simp add: params_convert_def signed_of_nat signed_take_bit_eq_take_bit_shift
        take_bit_eq_mod)
  show ?thesis
  proof (cases "n \<le> 32767")
    case True
    then show ?thesis by (simp add: conv mod_pos_pos_trivial)
  next
    case False
    have "(int n + 32768) mod 65536 = (int n - 32768) mod 65536"
      using mod_add_self2 [of "int n - 32768" 65536] by (simp add: algebra_simps)
    also have "\<dots> = int n - 32768" using False assms by (simp add: mod_pos_pos_trivial)
    finally show ?thesis using False by (simp add: conv)
  qed
qed

text \<open>
  \<^verbatim>\<open>Params\<close> of the \<^verbatim>\<open>nng\<close> crate is passed on only up to 32767 threads.  A larger
  \<^verbatim>\<open>NonZeroU16\<close> arrives as the negative number 65536 below it, so that NNG sees a block that no
  valid \<^verbatim>\<open>anng\<close> configuration produces; a maximum of 65535 arrives as \<open>-1\<close>, "no limit".
\<close>

theorem params_convert_wraps:
  assumes "num_task_threads p = Some n" and "0 < n" and "n < 65536"
  shows "p_num_task (params_into p) = (if n \<le> 32767 then int n else int n - 65536)
     \<and> (32767 < n \<longrightarrow> \<not> params_ok (params_into p))
     \<and> (params_convert 65535 = limit_to_i16 Unlimited)"
  using assms
  by (auto simp: params_into_def convert_opt_def params_convert_eq params_ok_def pair_ok_def
      limit_to_i16_def)

theorem params_convert_wraps_witness:
  "p_num_task (params_into \<lparr>num_task_threads = Some 40000, max_task_threads = None,
     num_expire_threads = None, max_expire_threads = None, num_poller_threads = None,
     max_poller_threads = None, resolver_threads = None\<rparr>) = - 25536"
  using params_convert_wraps [of "\<lparr>num_task_threads = Some 40000, max_task_threads = None,
     num_expire_threads = None, max_expire_threads = None, num_poller_threads = None,
     max_poller_threads = None, resolver_threads = None\<rparr>" 40000]
  by simp

end
