(* ===== verification/NngMsg.thy ===== *)
theory NngMsg
  imports Errors
begin

text \<open>
  The interface between the message wrappers of both crates and the C type \<^verbatim>\<open>nng_msg\<close>, whose code
  is not part of the repository.  \<open>msg_api\<close> lists the C functions that the wrappers call, as
  functions on an abstract message state; every C \<^verbatim>\<open>int\<close> they return is kept.  The locale
  \<open>nng_msg\<close> states what NNG documents of them for a valid message, and nothing more: allocation
  may fail with \<^verbatim>\<open>NNG_ENOMEM\<close> at any call that allocates.  The interpretation at the end is a
  reference message with a memory limit and the capacities that the documentation of
  \<^verbatim>\<open>anng::Message\<close> quotes.
\<close>

section \<open>The C functions\<close>

record 'm msg_api =
  m_alloc :: "nat \<Rightarrow> c_int \<times> 'm option"
  m_dup :: "'m \<Rightarrow> c_int \<times> 'm option"
  m_body :: "'m \<Rightarrow> byte list"
  m_len :: "'m \<Rightarrow> nat"
  m_header :: "'m \<Rightarrow> byte list"
  m_header_len :: "'m \<Rightarrow> nat"
  m_capacity :: "'m \<Rightarrow> nat"
  m_chop :: "nat \<Rightarrow> 'm \<Rightarrow> c_int \<times> 'm"
  m_trim :: "nat \<Rightarrow> 'm \<Rightarrow> c_int \<times> 'm"
  m_header_chop :: "nat \<Rightarrow> 'm \<Rightarrow> c_int \<times> 'm"
  m_header_trim :: "nat \<Rightarrow> 'm \<Rightarrow> c_int \<times> 'm"
  m_append :: "byte list \<Rightarrow> 'm \<Rightarrow> c_int \<times> 'm"
  m_insert :: "byte list \<Rightarrow> 'm \<Rightarrow> c_int \<times> 'm"
  m_header_append :: "byte list \<Rightarrow> 'm \<Rightarrow> c_int \<times> 'm"
  m_header_insert :: "byte list \<Rightarrow> 'm \<Rightarrow> c_int \<times> 'm"
  m_reserve :: "nat \<Rightarrow> 'm \<Rightarrow> c_int \<times> 'm"
  m_realloc :: "nat \<Rightarrow> 'm \<Rightarrow> c_int \<times> 'm"
  m_clear :: "'m \<Rightarrow> 'm"
  m_header_clear :: "'m \<Rightarrow> 'm"
  m_poke :: "nat \<Rightarrow> byte \<Rightarrow> 'm \<Rightarrow> 'm"
  m_header_poke :: "nat \<Rightarrow> byte \<Rightarrow> 'm \<Rightarrow> 'm"

text \<open>
  \<open>m_poke i b\<close> and \<open>m_header_poke i b\<close> are stores through the pointers that \<^verbatim>\<open>nng_msg_body\<close> and
  \<^verbatim>\<open>nng_msg_header\<close> return.  The two shapes of
  outcome the laws use: success with given contents, and failure that changes no contents.
\<close>

definition succeeds ::
  "'m msg_api \<Rightarrow> ('m \<Rightarrow> bool) \<Rightarrow> c_int \<times> 'm \<Rightarrow> byte list \<Rightarrow> byte list \<Rightarrow> bool" where
  "succeeds N V r h b \<longleftrightarrow>
     fst r = 0 \<and> V (snd r) \<and> m_header N (snd r) = h \<and> m_body N (snd r) = b"

definition no_memory :: "'m msg_api \<Rightarrow> ('m \<Rightarrow> bool) \<Rightarrow> c_int \<times> 'm \<Rightarrow> 'm \<Rightarrow> bool" where
  "no_memory N V r m \<longleftrightarrow>
     fst r = error_code_num ENOMEM \<and> V (snd r)
     \<and> m_header N (snd r) = m_header N m \<and> m_body N (snd r) = m_body N m"

section \<open>The documented laws\<close>

locale nng_msg =
  fixes N :: "'m msg_api" and V :: "'m \<Rightarrow> bool"
  assumes alloc: "(fst (m_alloc N n) = 0
        \<and> (\<exists>m. snd (m_alloc N n) = Some m \<and> V m \<and> length (m_body N m) = n \<and> m_header N m = []))
      \<or> fst (m_alloc N n) = error_code_num ENOMEM"
    and dup: "V m \<Longrightarrow> (fst (m_dup N m) = 0
        \<and> (\<exists>d. snd (m_dup N m) = Some d \<and> V d \<and> m_body N d = m_body N m
             \<and> m_header N d = m_header N m))
      \<or> fst (m_dup N m) = error_code_num ENOMEM"
    and len: "V m \<Longrightarrow> m_len N m = length (m_body N m)"
    and header_len: "V m \<Longrightarrow> m_header_len N m = length (m_header N m)"
    and len_capacity: "V m \<Longrightarrow> length (m_body N m) \<le> m_capacity N m"
    and capacity_usize: "V m \<Longrightarrow> m_capacity N m < usize_max"
    and chop: "V m \<Longrightarrow> n \<le> length (m_body N m) \<Longrightarrow>
      succeeds N V (m_chop N n m) (m_header N m) (take (length (m_body N m) - n) (m_body N m))"
    and trim: "V m \<Longrightarrow> n \<le> length (m_body N m) \<Longrightarrow>
      succeeds N V (m_trim N n m) (m_header N m) (drop n (m_body N m))"
    and header_chop: "V m \<Longrightarrow> n \<le> length (m_header N m) \<Longrightarrow>
      succeeds N V (m_header_chop N n m)
        (take (length (m_header N m) - n) (m_header N m)) (m_body N m)"
    and header_trim: "V m \<Longrightarrow> n \<le> length (m_header N m) \<Longrightarrow>
      succeeds N V (m_header_trim N n m) (drop n (m_header N m)) (m_body N m)"
    and append: "V m \<Longrightarrow>
      succeeds N V (m_append N bs m) (m_header N m) (m_body N m @ bs)
      \<or> no_memory N V (m_append N bs m) m"
    and insert: "V m \<Longrightarrow>
      succeeds N V (m_insert N bs m) (m_header N m) (bs @ m_body N m)
      \<or> no_memory N V (m_insert N bs m) m"
    and header_append: "V m \<Longrightarrow>
      succeeds N V (m_header_append N bs m) (m_header N m @ bs) (m_body N m)
      \<or> no_memory N V (m_header_append N bs m) m"
    and header_insert: "V m \<Longrightarrow>
      succeeds N V (m_header_insert N bs m) (bs @ m_header N m) (m_body N m)
      \<or> no_memory N V (m_header_insert N bs m) m"
    and append_capacity: "V m \<Longrightarrow> m_capacity N m \<le> m_capacity N (snd (m_append N bs m))"
    and reserve: "V m \<Longrightarrow>
      succeeds N V (m_reserve N n m) (m_header N m) (m_body N m)
        \<and> max n (m_capacity N m) \<le> m_capacity N (snd (m_reserve N n m))
      \<or> no_memory N V (m_reserve N n m) m"
    and realloc: "V m \<Longrightarrow>
      fst (m_realloc N n m) = 0 \<and> V (snd (m_realloc N n m))
        \<and> m_header N (snd (m_realloc N n m)) = m_header N m
        \<and> length (m_body N (snd (m_realloc N n m))) = n
        \<and> take (min n (length (m_body N m))) (m_body N (snd (m_realloc N n m)))
            = take (min n (length (m_body N m))) (m_body N m)
      \<or> no_memory N V (m_realloc N n m) m"
    and poke: "V m \<Longrightarrow> i < length (m_body N m) \<Longrightarrow>
      V (m_poke N i b m) \<and> m_header N (m_poke N i b m) = m_header N m
      \<and> m_body N (m_poke N i b m) = (m_body N m)[i := b]"
    and header_poke: "V m \<Longrightarrow> i < length (m_header N m) \<Longrightarrow>
      V (m_header_poke N i b m) \<and> m_body N (m_header_poke N i b m) = m_body N m
      \<and> m_header N (m_header_poke N i b m) = (m_header N m)[i := b]"
    and clear: "V m \<Longrightarrow>
      V (m_clear N m) \<and> m_header N (m_clear N m) = m_header N m \<and> m_body N (m_clear N m) = []"
    and header_clear: "V m \<Longrightarrow>
      V (m_header_clear N m) \<and> m_header N (m_header_clear N m) = []
      \<and> m_body N (m_header_clear N m) = m_body N m"

section \<open>A reference message\<close>

record ref_msg =
  r_header :: "byte list"
  r_body :: "byte list"
  r_cap :: nat

text \<open>
  Allocation beyond \<open>ref_limit\<close> bytes fails.  A fresh message gets 32 bytes of headroom unless its
  size is a power of two of at least 1024; growth is exact.
\<close>

definition ref_limit :: nat where
  "ref_limit = 2 ^ 20"

definition ref_ok :: "ref_msg \<Rightarrow> bool" where
  "ref_ok m \<longleftrightarrow> length (r_body m) \<le> r_cap m \<and> r_cap m \<le> ref_limit"

definition is_pow2 :: "nat \<Rightarrow> bool" where
  "is_pow2 n \<longleftrightarrow> n \<in> set (map (\<lambda>k. 2 ^ k) [0..<64])"

definition ref_alloc_cap :: "nat \<Rightarrow> nat" where
  "ref_alloc_cap n = (if 1024 \<le> n \<and> is_pow2 n then n else n + 32)"

definition ref_alloc :: "nat \<Rightarrow> c_int \<times> ref_msg option" where
  "ref_alloc n =
     (if ref_alloc_cap n \<le> ref_limit
      then (0, Some \<lparr>r_header = [], r_body = replicate n 0, r_cap = ref_alloc_cap n\<rparr>)
      else (error_code_num ENOMEM, None))"

definition ref_set_body :: "byte list \<Rightarrow> ref_msg \<Rightarrow> c_int \<times> ref_msg" where
  "ref_set_body b m =
     (if length b \<le> r_cap m then (0, m\<lparr>r_body := b\<rparr>)
      else if length b \<le> ref_limit then (0, m\<lparr>r_body := b, r_cap := length b\<rparr>)
      else (error_code_num ENOMEM, m))"

definition ref_set_header :: "byte list \<Rightarrow> ref_msg \<Rightarrow> c_int \<times> ref_msg" where
  "ref_set_header h m =
     (if length h \<le> ref_limit then (0, m\<lparr>r_header := h\<rparr>) else (error_code_num ENOMEM, m))"

definition ref_api :: "ref_msg msg_api" where
  "ref_api = \<lparr>
     m_alloc = ref_alloc,
     m_dup = (\<lambda>m. (0, Some m)),
     m_body = r_body,
     m_len = (\<lambda>m. length (r_body m)),
     m_header = r_header,
     m_header_len = (\<lambda>m. length (r_header m)),
     m_capacity = r_cap,
     m_chop = (\<lambda>n m. if n \<le> length (r_body m)
        then (0, m\<lparr>r_body := take (length (r_body m) - n) (r_body m)\<rparr>)
        else (error_code_num EINVAL, m)),
     m_trim = (\<lambda>n m. if n \<le> length (r_body m) then (0, m\<lparr>r_body := drop n (r_body m)\<rparr>)
        else (error_code_num EINVAL, m)),
     m_header_chop = (\<lambda>n m. if n \<le> length (r_header m)
        then (0, m\<lparr>r_header := take (length (r_header m) - n) (r_header m)\<rparr>)
        else (error_code_num EINVAL, m)),
     m_header_trim = (\<lambda>n m. if n \<le> length (r_header m)
        then (0, m\<lparr>r_header := drop n (r_header m)\<rparr>) else (error_code_num EINVAL, m)),
     m_append = (\<lambda>bs m. ref_set_body (r_body m @ bs) m),
     m_insert = (\<lambda>bs m. ref_set_body (bs @ r_body m) m),
     m_header_append = (\<lambda>bs m. ref_set_header (r_header m @ bs) m),
     m_header_insert = (\<lambda>bs m. ref_set_header (bs @ r_header m) m),
     m_reserve = (\<lambda>n m. if n \<le> r_cap m then (0, m)
        else if n \<le> ref_limit then (0, m\<lparr>r_cap := n\<rparr>) else (error_code_num ENOMEM, m)),
     m_realloc = (\<lambda>n m. ref_set_body
        (take n (r_body m) @ replicate (n - length (r_body m)) 0) m),
     m_clear = (\<lambda>m. m\<lparr>r_body := []\<rparr>),
     m_header_clear = (\<lambda>m. m\<lparr>r_header := []\<rparr>),
     m_poke = (\<lambda>i b m. m\<lparr>r_body := (r_body m)[i := b]\<rparr>),
     m_header_poke = (\<lambda>i b m. m\<lparr>r_header := (r_header m)[i := b]\<rparr>)\<rparr>"

lemma ref_limit_usize: "ref_limit < usize_max"
  by (simp add: ref_limit_def usize_max_def)

lemma ref_set_body_cases:
  assumes "ref_ok m"
  shows "succeeds ref_api ref_ok (ref_set_body b m) (r_header m) b
     \<or> no_memory ref_api ref_ok (ref_set_body b m) m"
  using assms
  by (auto simp: ref_set_body_def succeeds_def no_memory_def ref_api_def ref_ok_def)

lemma ref_set_header_cases:
  assumes "ref_ok m"
  shows "succeeds ref_api ref_ok (ref_set_header h m) h (r_body m)
     \<or> no_memory ref_api ref_ok (ref_set_header h m) m"
  using assms
  by (auto simp: ref_set_header_def succeeds_def no_memory_def ref_api_def ref_ok_def)

interpretation ref: nng_msg ref_api ref_ok
proof (unfold_locales, goal_cases)
  case (1 n) show ?case
    by (auto simp: ref_api_def ref_alloc_def ref_ok_def ref_alloc_cap_def split: if_splits)
next
  case (2 m) then show ?case by (simp add: ref_api_def)
next
  case (6 m) then show ?case using ref_limit_usize by (simp add: ref_api_def ref_ok_def)
next
  case (11 m bs) then show ?case
    using ref_set_body_cases [of m "r_body m @ bs"] by (simp add: ref_api_def)
next
  case (12 m bs) then show ?case
    using ref_set_body_cases [of m "bs @ r_body m"] by (simp add: ref_api_def)
next
  case (13 m bs) then show ?case
    using ref_set_header_cases [of m "r_header m @ bs"] by (simp add: ref_api_def)
next
  case (14 m bs) then show ?case
    using ref_set_header_cases [of m "bs @ r_header m"] by (simp add: ref_api_def)
next
  case (15 m bs) then show ?case by (simp add: ref_api_def ref_set_body_def)
next
  case (16 m n) then show ?case
    by (auto simp: ref_api_def ref_ok_def succeeds_def no_memory_def)
next
  case (17 m n) then show ?case
    by (auto simp: ref_api_def ref_ok_def ref_set_body_def no_memory_def min_def)
qed (auto simp: ref_api_def ref_ok_def succeeds_def)

end
