(* ===== verification/Message.thy ===== *)
theory Message
  imports NngMsg
begin

text \<open>
  \<^verbatim>\<open>anng::Message\<close> (anng/src/message.rs): a handle on an NNG message with a read position.  Every
  operation is a function of the C functions \<open>N\<close> it calls; the ones that may unwind return a
  \<open>run\<close>.  \<open>oc\<close> says whether the build checks arithmetic overflow.  The last sections relate all
  operations to a message that is just a header, a body and a position.
\<close>

record 'm message =
  inner :: 'm
  pos :: nat

section \<open>The shared pattern for C return values\<close>

text \<open>
  \<open>match u32::try_from(errno).expect(..) { 0 => .., ENOMEM => .., _ => unreachable!() }\<close>.
\<close>

definition errno_or_nomem :: "c_int \<Rightarrow> 'a run \<Rightarrow> 'a run \<Rightarrow> 'a run" where
  "errno_or_nomem errno ok nomem =
     run_bind (errno_u32 errno) (\<lambda>x.
       if x = 0 then ok
       else if x = error_code_num ENOMEM then nomem
       else Inl Unreachable)"

definition errno_zero :: "c_int \<Rightarrow> 'a run \<Rightarrow> 'a run" where
  "errno_zero errno ok =
     run_bind (errno_u32 errno) (\<lambda>x.
       if x = 0 then ok
       else if x = error_code_num EINVAL then Inl Unreachable
       else Inl Unreachable)"

text \<open>\<open>Err(AioError::Operation(ErrorKind::NngError(ErrorCode::ENOMEM)).into())\<close>\<close>

definition nomem_io :: "ffi_env \<Rightarrow> io_error run" where
  "nomem_io E = aio_error_into_io E (Operation (NngError ENOMEM))"

section \<open>Reading the message\<close>

definition capacity :: "'m msg_api \<Rightarrow> 'm message \<Rightarrow> nat" where
  "capacity N m = m_capacity N (inner m)"

definition len :: "'m msg_api \<Rightarrow> 'm message \<Rightarrow> nat" where
  "len N m = m_len N (inner m)"

definition is_empty :: "'m msg_api \<Rightarrow> 'm message \<Rightarrow> bool" where
  "is_empty N m \<longleftrightarrow> len N m = 0"

definition header_len :: "'m msg_api \<Rightarrow> 'm message \<Rightarrow> nat" where
  "header_len N m = m_header_len N (inner m)"

text \<open>
  \<open>slice::from_raw_parts(ptr, len)\<close> reads \<open>len\<close> bytes at the pointer; a \<open>len\<close> beyond the bytes that
  NNG owns there would be undefined behaviour, which \<open>take\<close> does not show: the laws of
  \<open>nng_msg\<close> make the two lengths equal.
\<close>

definition header :: "'m msg_api \<Rightarrow> 'm message \<Rightarrow> byte list" where
  "header N m = take (header_len N m) (m_header N (inner m))"

definition as_slice :: "'m msg_api \<Rightarrow> 'm message \<Rightarrow> byte list" where
  "as_slice N m = take (len N m) (m_body N (inner m))"

text \<open>\<open>msg[i] = b\<close> through \<open>as_mut_slice\<close>: the index is checked against the slice.\<close>

definition store :: "'m msg_api \<Rightarrow> nat \<Rightarrow> byte \<Rightarrow> 'm message \<Rightarrow> 'm message run" where
  "store N i b m =
     (if i < len N m then Inr (m\<lparr>inner := m_poke N i b (inner m)\<rparr>) else Inl SliceIndex)"

section \<open>Changing the length\<close>

definition msg_truncate :: "'m msg_api \<Rightarrow> nat \<Rightarrow> 'm message \<Rightarrow> 'm message run" where
  "msg_truncate N n m =
     (case checked_sub (len N m) n of
        None \<Rightarrow> Inr m
      | Some chop \<Rightarrow>
          (let (errno, i) = m_chop N chop (inner m) in
           errno_zero errno
             (let m = m\<lparr>inner := i\<rparr> in
              Inr (if n < pos m then m\<lparr>pos := n\<rparr> else m))))"

definition truncate_front :: "'m msg_api \<Rightarrow> nat \<Rightarrow> 'm message \<Rightarrow> 'm message run" where
  "truncate_front N n m =
     (case checked_sub (len N m) n of
        None \<Rightarrow> Inr m
      | Some trim \<Rightarrow>
          (let (errno, i) = m_trim N trim (inner m) in
           errno_zero errno
             (let m = m\<lparr>inner := i\<rparr> in
              Inr (if trim \<le> pos m then m\<lparr>pos := pos m - trim\<rparr> else m\<lparr>pos := 0\<rparr>))))"

definition header_truncate :: "'m msg_api \<Rightarrow> nat \<Rightarrow> 'm message \<Rightarrow> 'm message run" where
  "header_truncate N n m =
     (case checked_sub (header_len N m) n of
        None \<Rightarrow> Inr m
      | Some chop \<Rightarrow>
          (let (errno, i) = m_header_chop N chop (inner m) in
           errno_zero errno (Inr (m\<lparr>inner := i\<rparr>))))"

definition header_truncate_front :: "'m msg_api \<Rightarrow> nat \<Rightarrow> 'm message \<Rightarrow> 'm message run" where
  "header_truncate_front N n m =
     (case checked_sub (header_len N m) n of
        None \<Rightarrow> Inr m
      | Some trim \<Rightarrow>
          (let (errno, i) = m_header_trim N trim (inner m) in
           errno_zero errno (Inr (m\<lparr>inner := i\<rparr>))))"

definition clear :: "'m msg_api \<Rightarrow> 'm message \<Rightarrow> 'm message run" where
  "clear N m =
     run_bind (msg_truncate N 0 m) (\<lambda>m.
     run_bind (header_truncate N 0 m) (\<lambda>m.
     Inr (m\<lparr>pos := 0\<rparr>)))"

text \<open>\<open>set_len\<close> is unsafe in the source: bytes it adds are whatever \<open>nng_msg_realloc\<close> left there.\<close>

definition set_len :: "'m msg_api \<Rightarrow> nat \<Rightarrow> 'm message \<Rightarrow> 'm message run" where
  "set_len N n m =
     run_bind
       (if len N m < n
        then (let (errno, i) = m_realloc N n (inner m) in
              errno_or_nomem errno (Inr (m\<lparr>inner := i\<rparr>)) (Inl Oom))
        else if n < len N m then msg_truncate N n m
        else Inr m)
       (\<lambda>m. Inr (if n < pos m then m\<lparr>pos := n\<rparr> else m))"

section \<open>Creating messages\<close>

definition from_raw_unchecked :: "'m \<Rightarrow> 'm message" where
  "from_raw_unchecked i = \<lparr>inner = i, pos = 0\<rparr>"

definition nonnull :: "'p option \<Rightarrow> 'p run" where
  "nonnull p = (case p of None \<Rightarrow> Inl ExpectFailed | Some x \<Rightarrow> Inr x)"

definition with_capacity :: "'m msg_api \<Rightarrow> nat \<Rightarrow> 'm message run" where
  "with_capacity N sz =
     (let (errno, msg) = m_alloc N sz in
      run_bind (errno_or_nomem errno (nonnull msg) (Inl Oom)) (\<lambda>i.
      msg_truncate N 0 \<lparr>inner = i, pos = 0\<rparr>))"

definition new :: "'m msg_api \<Rightarrow> 'm message run" where
  "new N = with_capacity N 0"

definition clone :: "'m msg_api \<Rightarrow> 'm message \<Rightarrow> 'm message run" where
  "clone N m =
     (let (errno, msg) = m_dup N (inner m) in
      run_bind (errno_or_nomem errno (nonnull msg) (Inl Oom)) (\<lambda>i.
      Inr \<lparr>inner = i, pos = pos m\<rparr>))"

section \<open>Growing the buffer\<close>

definition reserve_exact :: "'m msg_api \<Rightarrow> bool \<Rightarrow> nat \<Rightarrow> 'm message \<Rightarrow> 'm message run" where
  "reserve_exact N oc additional m =
     run_bind (usize_add oc (len N m) additional) (\<lambda>capacity.
       let (errno, i) = m_reserve N capacity (inner m) in
       errno_or_nomem errno (Inr (m\<lparr>inner := i\<rparr>)) (Inl Oom))"

text \<open>\<open>usize::checked_next_power_of_two\<close>\<close>

fun next_pow2 :: "nat \<Rightarrow> nat" where
  "next_pow2 n = (if n \<le> 1 then 1 else 2 * next_pow2 ((n + 1) div 2))"

declare next_pow2.simps [simp del]

definition checked_next_power_of_two :: "nat \<Rightarrow> nat option" where
  "checked_next_power_of_two n = (if next_pow2 n \<le> usize_max then Some (next_pow2 n) else None)"

definition next_capacity :: "nat \<Rightarrow> nat \<Rightarrow> nat" where
  "next_capacity required current =
     max required
       (case checked_next_power_of_two current of Some p \<Rightarrow> p | None \<Rightarrow> usize_max)"

definition reserve :: "'m msg_api \<Rightarrow> bool \<Rightarrow> nat \<Rightarrow> 'm message \<Rightarrow> 'm message run" where
  "reserve N oc additional m =
     run_bind (usize_add oc (len N m) additional) (\<lambda>required.
       if capacity N m < required
       then reserve_exact N oc (next_capacity required (capacity N m) - len N m) m
       else Inr m)"

section \<open>Writing\<close>

definition write_with ::
  "ffi_env \<Rightarrow> nat \<Rightarrow> c_int \<times> 'm \<Rightarrow> 'm message \<Rightarrow> ('m message \<times> (io_error + nat)) run" where
  "write_with E n r m =
     errno_or_nomem (fst r)
       (Inr (m\<lparr>inner := snd r\<rparr>, Inr n))
       (run_bind (nomem_io E) (\<lambda>e. Inr (m\<lparr>inner := snd r\<rparr>, Inl e)))"

definition prepend ::
  "'m msg_api \<Rightarrow> ffi_env \<Rightarrow> byte list \<Rightarrow> 'm message \<Rightarrow> ('m message \<times> (io_error + nat)) run" where
  "prepend N E buf m = write_with E (length buf) (m_insert N buf (inner m)) m"

definition write_header ::
  "'m msg_api \<Rightarrow> ffi_env \<Rightarrow> byte list \<Rightarrow> 'm message \<Rightarrow> ('m message \<times> (io_error + nat)) run" where
  "write_header N E buf m = write_with E (length buf) (m_header_append N buf (inner m)) m"

definition prepend_header ::
  "'m msg_api \<Rightarrow> ffi_env \<Rightarrow> byte list \<Rightarrow> 'm message \<Rightarrow> ('m message \<times> (io_error + nat)) run" where
  "prepend_header N E buf m = write_with E (length buf) (m_header_insert N buf (inner m)) m"

definition write_body ::
  "'m msg_api \<Rightarrow> ffi_env \<Rightarrow> bool \<Rightarrow> byte list \<Rightarrow> 'm message
     \<Rightarrow> ('m message \<times> (io_error + nat)) run" where
  "write_body N E oc buf m =
     run_bind (reserve N oc (length buf) m) (\<lambda>m.
       write_with E (length buf) (m_append N buf (inner m)) m)"

text \<open>
  \<open>io::Write::write_all\<close> is the standard library's loop over \<open>write\<close>; \<open>None\<close> is running out of
  fuel.  \<open>put_slice\<close> unwraps its result.
\<close>

fun write_all ::
  "'m msg_api \<Rightarrow> ffi_env \<Rightarrow> bool \<Rightarrow> nat \<Rightarrow> byte list \<Rightarrow> 'm message
     \<Rightarrow> ('m message \<times> (io_error + unit)) run option" where
  "write_all N E oc 0 buf m = None"
| "write_all N E oc (Suc k) buf m =
     (if buf = [] then Some (Inr (m, Inr ()))
      else case write_body N E oc buf m of
             Inl p \<Rightarrow> Some (Inl p)
           | Inr (m', Inr 0) \<Rightarrow> Some (Inr (m', Inl (IoSimple (WriteZero))))
           | Inr (m', Inr n) \<Rightarrow> write_all N E oc k (drop n buf) m'
           | Inr (m', Inl e) \<Rightarrow>
               if io_kind E e = io_error_kind.Interrupted then write_all N E oc k buf m'
               else Some (Inr (m', Inl e)))"

definition put_slice ::
  "'m msg_api \<Rightarrow> ffi_env \<Rightarrow> bool \<Rightarrow> nat \<Rightarrow> byte list \<Rightarrow> 'm message \<Rightarrow> 'm message run option" where
  "put_slice N E oc k src m =
     map_option (\<lambda>r. run_bind r (\<lambda>(m', res).
       case res of Inl _ \<Rightarrow> Inl ExpectFailed | Inr _ \<Rightarrow> Inr m'))
     (write_all N E oc k src m)"

definition expect_ok :: "('a \<times> (io_error + nat)) run \<Rightarrow> 'a run" where
  "expect_ok r = run_bind r (\<lambda>(m, res). case res of Inl _ \<Rightarrow> Inl ExpectFailed | Inr _ \<Rightarrow> Inr m)"

definition from_slice :: "'m msg_api \<Rightarrow> ffi_env \<Rightarrow> bool \<Rightarrow> byte list \<Rightarrow> 'm message run" where
  "from_slice N E oc data =
     run_bind (with_capacity N (length data)) (\<lambda>msg. expect_ok (write_body N E oc data msg))"

definition clone_from ::
  "'m msg_api \<Rightarrow> ffi_env \<Rightarrow> bool \<Rightarrow> 'm message \<Rightarrow> 'm message \<Rightarrow> 'm message run" where
  "clone_from N E oc source m =
     run_bind (msg_truncate N 0 m) (\<lambda>m.
     run_bind (expect_ok (write_body N E oc (as_slice N source) m)) (\<lambda>m.
     run_bind (header_truncate N 0 m) (\<lambda>m.
     run_bind (expect_ok (write_header N E (header N source) m)) (\<lambda>m.
     Inr (m\<lparr>pos := pos source\<rparr>)))))"

section \<open>The \<open>bytes\<close> cursors\<close>

definition remaining :: "'m msg_api \<Rightarrow> 'm message \<Rightarrow> nat" where
  "remaining N m = len N m - pos m"

definition chunk :: "'m msg_api \<Rightarrow> 'm message \<Rightarrow> byte list run" where
  "chunk N m =
     (if pos m \<le> length (as_slice N m) then Inr (drop (pos m) (as_slice N m)) else Inl SliceIndex)"

definition advance :: "'m msg_api \<Rightarrow> nat \<Rightarrow> 'm message \<Rightarrow> 'm message run" where
  "advance N cnt m =
     (let new_pos = saturating_add (pos m) cnt in
      if len N m < new_pos then Inl Explicit else Inr (m\<lparr>pos := new_pos\<rparr>))"

definition remaining_mut :: "'m msg_api \<Rightarrow> 'm message \<Rightarrow> nat" where
  "remaining_mut N m = usize_max - len N m"

definition advance_mut :: "'m msg_api \<Rightarrow> bool \<Rightarrow> nat \<Rightarrow> 'm message \<Rightarrow> 'm message run" where
  "advance_mut N oc cnt m = run_bind (usize_add oc (len N m) cnt) (\<lambda>n. set_len N n m)"

text \<open>
  \<open>chunk_mut\<close> returns the region that starts \<open>len\<close> bytes after the body pointer; the pair is that
  offset and the number of bytes it hands out.
\<close>

definition chunk_mut ::
  "'m msg_api \<Rightarrow> bool \<Rightarrow> 'm message \<Rightarrow> ('m message \<times> nat \<times> nat) run" where
  "chunk_mut N oc m =
     (let current_len = len N m in
      run_bind (if capacity N m \<le> current_len then reserve N oc 64 m else Inr m) (\<lambda>m.
        Inr (m, current_len, capacity N m - current_len)))"

section \<open>What a message means\<close>

text \<open>The contents a message stands for, and the condition every operation keeps.\<close>

record amsg =
  a_header :: "byte list"
  a_body :: "byte list"
  a_pos :: nat

definition abs_msg :: "'m msg_api \<Rightarrow> 'm message \<Rightarrow> amsg" where
  "abs_msg N m = \<lparr>a_header = m_header N (inner m), a_body = m_body N (inner m), a_pos = pos m\<rparr>"

definition msg_wf :: "'m msg_api \<Rightarrow> ('m \<Rightarrow> bool) \<Rightarrow> 'm message \<Rightarrow> bool" where
  "msg_wf N V m \<longleftrightarrow> V (inner m) \<and> pos m \<le> length (m_body N (inner m))"

text \<open>The safe operations on one message, as a datatype, with the code they run.\<close>

datatype msg_op =
    Truncate nat | TruncateFront nat | HeaderTruncate nat | HeaderTruncateFront nat | Clear
  | ReserveExact nat | Reserve nat
  | Prepend "byte list" | WriteHeader "byte list" | PrependHeader "byte list"
  | Write "byte list"
  | Advance nat | Store nat byte

definition unit_op :: "'m message run \<Rightarrow> ('m message \<times> (io_error + nat)) run" where
  "unit_op r = run_map (\<lambda>m. (m, Inr 0)) r"

fun msg_step ::
  "'m msg_api \<Rightarrow> ffi_env \<Rightarrow> bool \<Rightarrow> msg_op \<Rightarrow> 'm message
     \<Rightarrow> ('m message \<times> (io_error + nat)) run" where
  "msg_step N E oc (Truncate n) m = unit_op (msg_truncate N n m)"
| "msg_step N E oc (TruncateFront n) m = unit_op (truncate_front N n m)"
| "msg_step N E oc (HeaderTruncate n) m = unit_op (header_truncate N n m)"
| "msg_step N E oc (HeaderTruncateFront n) m = unit_op (header_truncate_front N n m)"
| "msg_step N E oc Clear m = unit_op (clear N m)"
| "msg_step N E oc (ReserveExact n) m = unit_op (reserve_exact N oc n m)"
| "msg_step N E oc (Reserve n) m = unit_op (reserve N oc n m)"
| "msg_step N E oc (Prepend b) m = prepend N E b m"
| "msg_step N E oc (WriteHeader b) m = write_header N E b m"
| "msg_step N E oc (PrependHeader b) m = prepend_header N E b m"
| "msg_step N E oc (Write b) m = write_body N E oc b m"
| "msg_step N E oc (Advance n) m = unit_op (advance N n m)"
| "msg_step N E oc (Store i b) m = unit_op (store N i b m)"

text \<open>
  The specification: what an operation that succeeds does to the contents, which number it
  returns, and which panics it can end in.
\<close>

fun spec_step :: "msg_op \<Rightarrow> amsg \<Rightarrow> amsg" where
  "spec_step (Truncate n) a = a\<lparr>a_body := take n (a_body a), a_pos := min (a_pos a) n\<rparr>"
| "spec_step (TruncateFront n) a =
     (let k = length (a_body a) - n in
      a\<lparr>a_body := drop k (a_body a), a_pos := a_pos a - k\<rparr>)"
| "spec_step (HeaderTruncate n) a = a\<lparr>a_header := take n (a_header a)\<rparr>"
| "spec_step (HeaderTruncateFront n) a =
     a\<lparr>a_header := drop (length (a_header a) - n) (a_header a)\<rparr>"
| "spec_step Clear a = \<lparr>a_header = [], a_body = [], a_pos = 0\<rparr>"
| "spec_step (ReserveExact n) a = a"
| "spec_step (Reserve n) a = a"
| "spec_step (Prepend b) a = a\<lparr>a_body := b @ a_body a\<rparr>"
| "spec_step (WriteHeader b) a = a\<lparr>a_header := a_header a @ b\<rparr>"
| "spec_step (PrependHeader b) a = a\<lparr>a_header := b @ a_header a\<rparr>"
| "spec_step (Write b) a = a\<lparr>a_body := a_body a @ b\<rparr>"
| "spec_step (Advance n) a = a\<lparr>a_pos := a_pos a + n\<rparr>"
| "spec_step (Store i b) a = a\<lparr>a_body := (a_body a)[i := b]\<rparr>"

fun spec_count :: "msg_op \<Rightarrow> nat" where
  "spec_count (Prepend b) = length b"
| "spec_count (WriteHeader b) = length b"
| "spec_count (PrependHeader b) = length b"
| "spec_count (Write b) = length b"
| "spec_count _ = 0"

fun may_fail :: "msg_op \<Rightarrow> bool" where
  "may_fail (Prepend b) = True"
| "may_fail (WriteHeader b) = True"
| "may_fail (PrependHeader b) = True"
| "may_fail (Write b) = True"
| "may_fail _ = False"

fun spec_panics :: "bool \<Rightarrow> msg_op \<Rightarrow> amsg \<Rightarrow> panic set" where
  "spec_panics oc (ReserveExact n) a =
     {Oom} \<union> (if oc \<and> usize_max < length (a_body a) + n then {Overflow} else {})"
| "spec_panics oc (Reserve n) a =
     {Oom} \<union> (if oc \<and> usize_max < length (a_body a) + n then {Overflow} else {})"
| "spec_panics oc (Write b) a =
     {Oom} \<union> (if oc \<and> usize_max < length (a_body a) + length b then {Overflow} else {})"
| "spec_panics oc (Advance n) a =
     (if length (a_body a) < a_pos a + n then {Explicit} else {})"
| "spec_panics oc (Store i b) a = (if length (a_body a) \<le> i then {SliceIndex} else {})"
| "spec_panics oc _ a = {}"

definition meets_spec ::
  "'m msg_api \<Rightarrow> ('m \<Rightarrow> bool) \<Rightarrow> ffi_env \<Rightarrow> bool \<Rightarrow> msg_op \<Rightarrow> 'm message
     \<Rightarrow> ('m message \<times> (io_error + nat)) run \<Rightarrow> bool" where
  "meets_spec N V E oc op m r \<longleftrightarrow>
     (case r of
        Inl p \<Rightarrow> p \<in> spec_panics oc op (abs_msg N m)
      | Inr (m', Inr n) \<Rightarrow>
          msg_wf N V m' \<and> abs_msg N m' = spec_step op (abs_msg N m) \<and> n = spec_count op
      | Inr (m', Inl e) \<Rightarrow>
          msg_wf N V m' \<and> abs_msg N m' = abs_msg N m \<and> may_fail op
          \<and> io_kind E e = io_error_kind.OutOfMemory)"

lemma errno_or_nomem_simps [simp]:
  "errno_or_nomem 0 ok nm = ok"
  "errno_or_nomem 2 ok nm = nm"
  by (simp_all add: errno_or_nomem_def errno_u32_def)

lemma errno_zero_simps [simp]: "errno_zero 0 ok = ok"
  by (simp add: errno_zero_def)

lemma nomem_io_Inr: "\<exists>e. nomem_io E = Inr e \<and> io_kind E e = io_error_kind.OutOfMemory"
  by (auto simp: nomem_io_def io_kind_def)

lemma checked_sub_split:
  "P (case checked_sub a b of None \<Rightarrow> x | Some k \<Rightarrow> f k)
     \<longleftrightarrow> (a < b \<longrightarrow> P x) \<and> (b \<le> a \<longrightarrow> P (f (a - b)))"
  by (auto simp: checked_sub_def)


lemma succeeds_iff:
  "succeeds N V r h b \<longleftrightarrow> (\<exists>i. r = (0, i) \<and> V i \<and> m_header N i = h \<and> m_body N i = b)"
  by (cases r) (auto simp: succeeds_def)

lemma no_memory_iff:
  "no_memory N V r m \<longleftrightarrow> (\<exists>i. r = (error_code_num ENOMEM, i) \<and> V i
     \<and> m_header N i = m_header N m \<and> m_body N i = m_body N m)"
  by (cases r) (auto simp: no_memory_def)

lemmas outcome_iffs = succeeds_iff no_memory_iff

context nng_msg
begin

lemma len_eq [simp]: "V (inner m) \<Longrightarrow> Message.len N m = length (m_body N (inner m))"
  by (simp add: Message.len_def len)

lemma header_len_eq [simp]:
  "V (inner m) \<Longrightarrow> Message.header_len N m = length (m_header N (inner m))"
  by (simp add: Message.header_len_def header_len)

lemma as_slice_eq [simp]: "V (inner m) \<Longrightarrow> as_slice N m = m_body N (inner m)"
  by (simp add: as_slice_def)

lemma header_eq [simp]: "V (inner m) \<Longrightarrow> header N m = m_header N (inner m)"
  by (simp add: header_def)

lemma usize_body: "V i \<Longrightarrow> length (m_body N i) < usize_max"
  using len_capacity [of i] capacity_usize [of i] by linarith

lemma chopE:
  assumes "V i" "n \<le> length (m_body N i)"
  obtains i' where "m_chop N n i = (0, i')" "V i'" "m_header N i' = m_header N i"
    "m_body N i' = take (length (m_body N i) - n) (m_body N i)"
  using chop [OF assms] by (auto simp: succeeds_iff)

lemma trimE:
  assumes "V i" "n \<le> length (m_body N i)"
  obtains i' where "m_trim N n i = (0, i')" "V i'" "m_header N i' = m_header N i"
    "m_body N i' = drop n (m_body N i)"
  using trim [OF assms] by (auto simp: succeeds_iff)

lemma header_chopE:
  assumes "V i" "n \<le> length (m_header N i)"
  obtains i' where "m_header_chop N n i = (0, i')" "V i'" "m_body N i' = m_body N i"
    "m_header N i' = take (length (m_header N i) - n) (m_header N i)"
  using header_chop [OF assms] by (auto simp: succeeds_iff)

lemma header_trimE:
  assumes "V i" "n \<le> length (m_header N i)"
  obtains i' where "m_header_trim N n i = (0, i')" "V i'" "m_body N i' = m_body N i"
    "m_header N i' = drop n (m_header N i)"
  using header_trim [OF assms] by (auto simp: succeeds_iff)

lemma msg_truncate_spec:
  assumes "msg_wf N V m"
  shows "\<exists>m'. msg_truncate N n m = Inr m' \<and> msg_wf N V m'
     \<and> abs_msg N m' = spec_step (Truncate n) (abs_msg N m)"
proof (cases "n \<le> length (m_body N (inner m))")
  case True
  then obtain i' where "m_chop N (length (m_body N (inner m)) - n) (inner m) = (0, i')" "V i'"
      "m_header N i' = m_header N (inner m)" "m_body N i' = take n (m_body N (inner m))"
    using assms chopE [of "inner m" "length (m_body N (inner m)) - n"]
    by (auto simp: msg_wf_def)
  with True assms show ?thesis
    by (auto simp: msg_truncate_def checked_sub_def msg_wf_def abs_msg_def min_def)
next
  case False
  with assms show ?thesis
    by (auto simp: msg_truncate_def checked_sub_def msg_wf_def abs_msg_def min_def)
qed

lemma truncate_front_spec:
  assumes "msg_wf N V m"
  shows "\<exists>m'. truncate_front N n m = Inr m' \<and> msg_wf N V m'
     \<and> abs_msg N m' = spec_step (TruncateFront n) (abs_msg N m)"
proof (cases "n \<le> length (m_body N (inner m))")
  case True
  then obtain i' where "m_trim N (length (m_body N (inner m)) - n) (inner m) = (0, i')" "V i'"
      "m_header N i' = m_header N (inner m)"
      "m_body N i' = drop (length (m_body N (inner m)) - n) (m_body N (inner m))"
    using assms trimE [of "inner m" "length (m_body N (inner m)) - n"]
    by (auto simp: msg_wf_def)
  with True assms show ?thesis
    by (auto simp: truncate_front_def checked_sub_def msg_wf_def abs_msg_def Let_def)
next
  case False
  with assms show ?thesis
    by (auto simp: truncate_front_def checked_sub_def msg_wf_def abs_msg_def)
qed

lemma header_truncate_spec:
  assumes "msg_wf N V m"
  shows "\<exists>m'. header_truncate N n m = Inr m' \<and> msg_wf N V m'
     \<and> abs_msg N m' = spec_step (HeaderTruncate n) (abs_msg N m)"
proof (cases "n \<le> length (m_header N (inner m))")
  case True
  then obtain i' where "m_header_chop N (length (m_header N (inner m)) - n) (inner m) = (0, i')"
      "V i'" "m_body N i' = m_body N (inner m)" "m_header N i' = take n (m_header N (inner m))"
    using assms header_chopE [of "inner m" "length (m_header N (inner m)) - n"]
    by (auto simp: msg_wf_def)
  with True assms show ?thesis
    by (auto simp: header_truncate_def checked_sub_def msg_wf_def abs_msg_def)
next
  case False
  with assms show ?thesis
    by (auto simp: header_truncate_def checked_sub_def msg_wf_def abs_msg_def)
qed

lemma header_truncate_front_spec:
  assumes "msg_wf N V m"
  shows "\<exists>m'. header_truncate_front N n m = Inr m' \<and> msg_wf N V m'
     \<and> abs_msg N m' = spec_step (HeaderTruncateFront n) (abs_msg N m)"
proof (cases "n \<le> length (m_header N (inner m))")
  case True
  then obtain i' where "m_header_trim N (length (m_header N (inner m)) - n) (inner m) = (0, i')"
      "V i'" "m_body N i' = m_body N (inner m)"
      "m_header N i' = drop (length (m_header N (inner m)) - n) (m_header N (inner m))"
    using assms header_trimE [of "inner m" "length (m_header N (inner m)) - n"]
    by (auto simp: msg_wf_def)
  with True assms show ?thesis
    by (auto simp: header_truncate_front_def checked_sub_def msg_wf_def abs_msg_def)
next
  case False
  with assms show ?thesis
    by (auto simp: header_truncate_front_def checked_sub_def msg_wf_def abs_msg_def)
qed

lemma clear_spec:
  assumes "msg_wf N V m"
  shows "\<exists>m'. Message.clear N m = Inr m' \<and> msg_wf N V m'
     \<and> abs_msg N m' = spec_step Clear (abs_msg N m)"
proof -
  obtain m1 where 1: "msg_truncate N 0 m = Inr m1" "msg_wf N V m1"
      "abs_msg N m1 = spec_step (Truncate 0) (abs_msg N m)"
    using msg_truncate_spec [OF assms] by blast
  obtain m2 where "header_truncate N 0 m1 = Inr m2" "msg_wf N V m2"
      "abs_msg N m2 = spec_step (HeaderTruncate 0) (abs_msg N m1)"
    using header_truncate_spec [OF 1(2)] by blast
  with 1 show ?thesis
    by (auto simp: Message.clear_def msg_wf_def abs_msg_def)
qed

lemma reserve_exact_spec:
  assumes "msg_wf N V m"
  shows "case reserve_exact N oc n m of
      Inl p \<Rightarrow> p \<in> spec_panics oc (ReserveExact n) (abs_msg N m)
    | Inr m' \<Rightarrow> msg_wf N V m' \<and> abs_msg N m' = abs_msg N m \<and> capacity N m \<le> capacity N m'
        \<and> (length (m_body N (inner m)) + n \<le> usize_max
           \<longrightarrow> length (m_body N (inner m)) + n \<le> capacity N m')"
proof (cases "length (m_body N (inner m)) + n \<le> usize_max")
  case True
  with assms reserve [of "inner m" "length (m_body N (inner m)) + n"] show ?thesis
    by (auto simp: reserve_exact_def msg_wf_def abs_msg_def capacity_def outcome_iffs)
next
  case False
  with assms reserve
    [of "inner m" "(length (m_body N (inner m)) + n) mod (usize_max + 1)"] show ?thesis
    by (auto simp: reserve_exact_def msg_wf_def abs_msg_def capacity_def outcome_iffs
        usize_add_def)
qed

lemma next_capacity_le: "required \<le> usize_max \<Longrightarrow> next_capacity required c \<le> usize_max"
  by (auto simp: next_capacity_def checked_next_power_of_two_def)

lemma next_capacity_ge: "required \<le> next_capacity required c"
  by (simp add: next_capacity_def)

lemma reserve_spec:
  assumes "msg_wf N V m"
  shows "case Message.reserve N oc n m of
      Inl p \<Rightarrow> p \<in> spec_panics oc (Reserve n) (abs_msg N m)
    | Inr m' \<Rightarrow> msg_wf N V m' \<and> abs_msg N m' = abs_msg N m \<and> capacity N m \<le> capacity N m'
        \<and> (length (m_body N (inner m)) + n \<le> usize_max
           \<longrightarrow> length (m_body N (inner m)) + n \<le> capacity N m'
             \<and> (capacity N m < length (m_body N (inner m)) + n \<longrightarrow>
                  next_capacity (length (m_body N (inner m)) + n) (capacity N m)
                    \<le> capacity N m'))"
proof -
  have V: "V (inner m)" using assms by (simp add: msg_wf_def)
  consider (ok) "length (m_body N (inner m)) + n \<le> usize_max"
    | (over) "usize_max < length (m_body N (inner m)) + n" "oc"
    | (wrap) "usize_max < length (m_body N (inner m)) + n" "\<not> oc" by linarith
  then show ?thesis
  proof cases
    case ok
    let ?r = "length (m_body N (inner m)) + n"
    let ?k = "next_capacity ?r (capacity N m)"
    have k: "?r \<le> ?k" "?k \<le> usize_max" using ok next_capacity_le next_capacity_ge by auto
    then have "length (m_body N (inner m)) + (?k - length (m_body N (inner m))) = ?k" by simp
    with ok k reserve_exact_spec [OF assms, of oc "?k - length (m_body N (inner m))"] V assms
    show ?thesis
      by (auto simp: Message.reserve_def abs_msg_def split: sum.splits if_splits)
  next
    case over
    with V show ?thesis by (simp add: Message.reserve_def usize_add_def abs_msg_def)
  next
    case wrap
    let ?r = "(length (m_body N (inner m)) + n) mod (usize_max + 1)"
    let ?k = "next_capacity ?r (capacity N m)"
    have "?r \<le> usize_max" by (metis add.commute less_Suc_eq_le mod_less_divisor plus_1_eq_Suc zero_less_Suc)
    then have k: "?k \<le> usize_max" by (rule next_capacity_le)
    with wrap reserve_exact_spec [OF assms, of oc "?k - length (m_body N (inner m))"] V assms
    show ?thesis
      by (auto simp: Message.reserve_def usize_add_def abs_msg_def capacity_def
          split: sum.splits if_splits)
  qed
qed

end

context nng_msg
begin

lemma write_with_spec:
  assumes "msg_wf N V m"
    and "succeeds N V r h b \<or> no_memory N V r (inner m)"
    and "pos m \<le> length b"
  shows "(\<exists>m'. write_with E n r m = Inr (m', Inr n) \<and> msg_wf N V m'
            \<and> abs_msg N m' = \<lparr>a_header = h, a_body = b, a_pos = pos m\<rparr>)
     \<or> (\<exists>m' e. write_with E n r m = Inr (m', Inl e) \<and> msg_wf N V m'
            \<and> abs_msg N m' = abs_msg N m \<and> io_kind E e = io_error_kind.OutOfMemory)"
proof -
  obtain e where "nomem_io E = Inr e" "io_kind E e = io_error_kind.OutOfMemory"
    using nomem_io_Inr by blast
  with assms show ?thesis
    by (auto simp: write_with_def outcome_iffs msg_wf_def abs_msg_def)
qed

lemma prepend_meets:
  assumes "msg_wf N V m"
  shows "meets_spec N V E oc (Prepend b) m (prepend N E b m)"
  using write_with_spec [OF assms insert [where bs = b], where E = E and n = "length b"] assms
  by (force simp: prepend_def meets_spec_def msg_wf_def abs_msg_def)

lemma write_header_meets:
  assumes "msg_wf N V m"
  shows "meets_spec N V E oc (WriteHeader b) m (write_header N E b m)"
  using write_with_spec [OF assms header_append [where bs = b], where E = E and n = "length b"] assms
  by (force simp: write_header_def meets_spec_def msg_wf_def abs_msg_def)

lemma prepend_header_meets:
  assumes "msg_wf N V m"
  shows "meets_spec N V E oc (PrependHeader b) m (prepend_header N E b m)"
  using write_with_spec [OF assms header_insert [where bs = b], where E = E and n = "length b"] assms
  by (force simp: prepend_header_def meets_spec_def msg_wf_def abs_msg_def)

lemma write_meets:
  assumes "msg_wf N V m"
  shows "meets_spec N V E oc (Write b) m (write_body N E oc b m)"
proof (cases "Message.reserve N oc (length b) m")
  case (Inl p)
  with reserve_spec [OF assms, of oc "length b"] show ?thesis
    by (simp add: write_body_def meets_spec_def)
next
  case (Inr m1)
  then have 1: "msg_wf N V m1" "abs_msg N m1 = abs_msg N m"
    using reserve_spec [OF assms, of oc "length b"] by auto
  show ?thesis
    using write_with_spec [OF 1(1) append [where bs = b], where E = E and n = "length b"] 1 Inr
    by (force simp: write_body_def meets_spec_def msg_wf_def abs_msg_def)
qed

lemma advance_meets:
  assumes "msg_wf N V m"
  shows "meets_spec N V E oc (Advance n) m (unit_op (advance N n m))"
  using assms usize_body [of "inner m"]
  by (auto simp: meets_spec_def unit_op_def advance_def Let_def saturating_add_def msg_wf_def
      abs_msg_def)

lemma store_meets:
  assumes "msg_wf N V m"
  shows "meets_spec N V E oc (Store i b) m (unit_op (store N i b m))"
  using assms poke [of "inner m" i b]
  by (auto simp: meets_spec_def unit_op_def store_def msg_wf_def abs_msg_def)

lemma unit_meets:
  assumes "\<exists>m'. r = Inr m' \<and> msg_wf N V m' \<and> abs_msg N m' = spec_step op (abs_msg N m)"
    and "spec_count op = 0"
  shows "meets_spec N V E oc op m (unit_op r)"
  using assms by (auto simp: meets_spec_def unit_op_def)

lemma reserve_meets:
  assumes "msg_wf N V m"
  shows "meets_spec N V E oc (Reserve n) m (unit_op (Message.reserve N oc n m))"
    and "meets_spec N V E oc (ReserveExact n) m (unit_op (reserve_exact N oc n m))"
  using reserve_spec [OF assms, of oc n] reserve_exact_spec [OF assms, of oc n]
  by (auto simp: meets_spec_def unit_op_def split: sum.splits)

lemma msg_step_meets:
  assumes "msg_wf N V m"
  shows "meets_spec N V E oc op m (msg_step N E oc op m)"
proof (cases op)
  case (Truncate n)
  then show ?thesis using unit_meets [OF msg_truncate_spec [OF assms]] by simp
next
  case (TruncateFront n)
  then show ?thesis using unit_meets [OF truncate_front_spec [OF assms]] by simp
next
  case (HeaderTruncate n)
  then show ?thesis using unit_meets [OF header_truncate_spec [OF assms]] by simp
next
  case (HeaderTruncateFront n)
  then show ?thesis using unit_meets [OF header_truncate_front_spec [OF assms]] by simp
next
  case Clear
  then show ?thesis using unit_meets [OF clear_spec [OF assms]] by simp
qed (use assms in \<open>simp_all add: prepend_meets write_header_meets prepend_header_meets
      write_meets advance_meets store_meets reserve_meets\<close>)

end

section \<open>Runs of operations\<close>

text \<open>
  A run performs the operations in order and keeps each result.  The specification replays the
  operations whose result was success.
\<close>

fun msg_run ::
  "'m msg_api \<Rightarrow> ffi_env \<Rightarrow> bool \<Rightarrow> msg_op list \<Rightarrow> 'm message
     \<Rightarrow> ('m message \<times> (io_error + nat) list) run" where
  "msg_run N E oc [] m = Inr (m, [])"
| "msg_run N E oc (op # ops) m =
     run_bind (msg_step N E oc op m) (\<lambda>(m1, res).
     run_map (\<lambda>(m2, ress). (m2, res # ress)) (msg_run N E oc ops m1))"

fun spec_run :: "msg_op list \<Rightarrow> (io_error + nat) list \<Rightarrow> amsg \<Rightarrow> amsg" where
  "spec_run (op # ops) (res # ress) a =
     spec_run ops ress (case res of Inl _ \<Rightarrow> a | Inr _ \<Rightarrow> spec_step op a)"
| "spec_run _ _ a = a"

text \<open>
  The operations whose argument lies outside the message: reading past the end and storing outside
  the body.  The result an operation may have: the number of bytes it wrote, or, where it returns an
  error, one of kind \<open>OutOfMemory\<close>.
\<close>

fun out_of_range :: "msg_op \<Rightarrow> amsg \<Rightarrow> bool" where
  "out_of_range (Advance n) a \<longleftrightarrow> length (a_body a) < a_pos a + n"
| "out_of_range (Store i b) a \<longleftrightarrow> length (a_body a) \<le> i"
| "out_of_range _ a \<longleftrightarrow> False"

definition spec_result :: "ffi_env \<Rightarrow> msg_op \<Rightarrow> io_error + nat \<Rightarrow> bool" where
  "spec_result E op res =
     (case res of
        Inl e \<Rightarrow> may_fail op \<and> io_kind E e = io_error_kind.OutOfMemory
      | Inr n \<Rightarrow> n = spec_count op)"

text \<open>
  NNG had no memory to append \<open>bs\<close> to a message of header \<open>h\<close> and body \<open>b\<close>: it refused to reserve
  for all of them, which panics with "OOM", or to append them, on which the caller's \<open>expect\<close> panics.
\<close>

definition refused ::
  "'m msg_api \<Rightarrow> ('m \<Rightarrow> bool) \<Rightarrow> byte list \<Rightarrow> byte list \<Rightarrow> byte list \<Rightarrow> panic \<Rightarrow> bool" where
  "refused N V h b bs p \<longleftrightarrow> (\<exists>i. V i \<and> m_header N i = h \<and> m_body N i = b
     \<and> (p = Oom \<and> (\<exists>k. length b + length bs \<le> k \<and> fst (m_reserve N k i) = error_code_num ENOMEM)
        \<or> p = ExpectFailed \<and> fst (m_append N bs i) = error_code_num ENOMEM))"

context nng_msg
begin

lemma step_in_range:
  assumes "msg_wf N V m" and "msg_step N E oc op m = Inr r"
  shows "\<not> out_of_range op (abs_msg N m)"
  using assms usize_body [of "inner m"]
  by (cases op) (auto simp: msg_wf_def abs_msg_def advance_def store_def unit_op_def len Let_def
      saturating_add_def split: if_splits)

lemma msg_step_returned:
  assumes "msg_wf N V m" and "msg_step N E oc op m = Inr (m', res)"
  shows "msg_wf N V m'" and "spec_result E op res" and "\<not> out_of_range op (abs_msg N m)"
    and "abs_msg N m' =
      (case res of Inl _ \<Rightarrow> abs_msg N m | Inr _ \<Rightarrow> spec_step op (abs_msg N m))"
  using msg_step_meets [OF assms(1), of E oc op] step_in_range [OF assms] assms(2)
  by (auto simp: meets_spec_def spec_result_def split: sum.splits)

lemma msg_run_spec:
  assumes "msg_wf N V m" and "msg_run N E oc ops m = Inr (m', ress)"
  shows "msg_wf N V m' \<and> abs_msg N m' = spec_run ops ress (abs_msg N m)
     \<and> list_all2 (spec_result E) ops ress
     \<and> (\<forall>i<length ops. \<not> out_of_range (ops ! i) (spec_run (take i ops) ress (abs_msg N m)))"
  using assms
proof (induction ops arbitrary: m ress)
  case (Cons op ops)
  from Cons.prems(2) obtain m1 res ress' where
    1: "msg_step N E oc op m = Inr (m1, res)" "msg_run N E oc ops m1 = Inr (m', ress')"
      "ress = res # ress'"
    by (auto simp: run_simps)
  note s = msg_step_returned [OF Cons.prems(1) 1(1)]
  show ?case
    using Cons.IH [OF s(1) 1(2)] s(2-4) 1(3) by (auto simp: less_Suc_eq_0_disj)
qed simp

lemma msg_run_stops:
  assumes "msg_wf N V m" and "msg_run N E oc ops m = Inl p"
  shows "\<exists>k mk ress. k < length ops \<and> msg_run N E oc (take k ops) m = Inr (mk, ress)
     \<and> p \<in> spec_panics oc (ops ! k) (spec_run (take k ops) ress (abs_msg N m))"
  using assms
proof (induction ops arbitrary: m)
  case (Cons op ops)
  show ?case
  proof (cases "msg_step N E oc op m")
    case (Inl q)
    with Cons.prems msg_step_meets [OF Cons.prems(1), of E oc op]
    have "p \<in> spec_panics oc op (abs_msg N m)" by (simp add: meets_spec_def)
    then show ?thesis by (intro exI [of _ 0]) simp
  next
    case (Inr r)
    then obtain m1 res where r: "msg_step N E oc op m = Inr (m1, res)" by (cases r) auto
    note s = msg_step_returned [OF Cons.prems(1) r]
    have "msg_run N E oc ops m1 = Inl p"
      using Cons.prems(2) r by (cases "msg_run N E oc ops m1") auto
    from Cons.IH [OF s(1) this] obtain k mk ress where
      "k < length ops" "msg_run N E oc (take k ops) m1 = Inr (mk, ress)"
      "p \<in> spec_panics oc (ops ! k) (spec_run (take k ops) ress (abs_msg N m1))" by blast
    then show ?thesis
      using r s(4) by (intro exI [of _ "Suc k"] exI [of _ mk] exI [of _ "res # ress"]) simp
  qed
qed simp

lemma chunk_spec:
  assumes "msg_wf N V m"
  shows "chunk N m = Inr (drop (pos m) (m_body N (inner m)))"
    and "remaining N m = length (m_body N (inner m)) - pos m"
  using assms by (simp_all add: chunk_def remaining_def msg_wf_def)

lemma with_capacity_spec:
  "case with_capacity N n of
     Inl p \<Rightarrow> p = Oom \<and> fst (m_alloc N n) = error_code_num ENOMEM
   | Inr m \<Rightarrow> msg_wf N V m \<and> abs_msg N m = \<lparr>a_header = [], a_body = [], a_pos = 0\<rparr>"
proof -
  consider (ok) i where "m_alloc N n = (0, Some i)" "V i" "m_header N i = []"
    | (nomem) p where "m_alloc N n = (error_code_num ENOMEM, p)"
    using alloc [of n] by (cases "m_alloc N n") auto
  then show ?thesis
  proof cases
    case ok
    then have "msg_wf N V \<lparr>inner = i, pos = 0\<rparr>" by (simp add: msg_wf_def)
    from msg_truncate_spec [OF this, of 0] ok show ?thesis
      by (auto simp: with_capacity_def nonnull_def abs_msg_def)
  next
    case nomem
    then show ?thesis by (simp add: with_capacity_def)
  qed
qed

lemma clone_spec:
  assumes "msg_wf N V m"
  shows "case clone N m of
     Inl p \<Rightarrow> p = Oom \<and> fst (m_dup N (inner m)) = error_code_num ENOMEM
   | Inr m' \<Rightarrow> msg_wf N V m' \<and> abs_msg N m' = abs_msg N m"
proof -
  have V: "V (inner m)" using assms by (simp add: msg_wf_def)
  consider (ok) i where "m_dup N (inner m) = (0, Some i)" "V i"
      "m_header N i = m_header N (inner m)" "m_body N i = m_body N (inner m)"
    | (nomem) p where "m_dup N (inner m) = (error_code_num ENOMEM, p)"
    using dup [OF V] by (cases "m_dup N (inner m)") auto
  then show ?thesis
    using assms by cases (auto simp: clone_def nonnull_def abs_msg_def msg_wf_def)
qed

lemma expect_ok_meets:
  assumes "meets_spec N V E oc op m r"
  shows "case expect_ok r of
     Inl p \<Rightarrow> p \<in> insert ExpectFailed (spec_panics oc op (abs_msg N m))
   | Inr m' \<Rightarrow> msg_wf N V m' \<and> abs_msg N m' = spec_step op (abs_msg N m)"
  using assms by (auto simp: meets_spec_def expect_ok_def split: sum.splits)

lemma reserve_refused:
  assumes "msg_wf N V m" and "length (m_body N (inner m)) + n \<le> usize_max"
    and "Message.reserve N oc n m = Inl p"
  shows "p = Oom \<and> (\<exists>k. length (m_body N (inner m)) + n \<le> k
    \<and> fst (m_reserve N k (inner m)) = error_code_num ENOMEM)"
proof -
  let ?r = "length (m_body N (inner m)) + n"
  let ?k = "next_capacity ?r (capacity N m)"
  have V: "V (inner m)" using assms(1) by (simp add: msg_wf_def)
  have k: "?r \<le> ?k" "?k \<le> usize_max" using assms(2) next_capacity_le next_capacity_ge by auto
  then have "length (m_body N (inner m)) + (?k - length (m_body N (inner m))) = ?k" by simp
  with assms(2,3) k V reserve [of "inner m" ?k] show ?thesis
    by (auto simp: Message.reserve_def reserve_exact_def outcome_iffs intro!: exI [of _ ?k]
        split: if_splits)
qed

lemma write_refused:
  assumes "msg_wf N V m" and "length (m_body N (inner m)) + length b \<le> usize_max"
    and "expect_ok (write_body N E oc b m) = Inl p"
  shows "refused N V (m_header N (inner m)) (m_body N (inner m)) b p"
proof (cases "Message.reserve N oc (length b) m")
  case (Inl q)
  with reserve_refused [OF assms(1,2) Inl] assms show ?thesis
    by (auto simp: refused_def write_body_def expect_ok_def msg_wf_def)
next
  case (Inr m1)
  with reserve_spec [OF assms(1), of oc "length b"] have m1: "msg_wf N V m1"
    "abs_msg N m1 = abs_msg N m" by auto
  obtain e where e: "nomem_io E = Inr e" using nomem_io_Inr by blast
  have "V (inner m1)" using m1(1) by (simp add: msg_wf_def)
  with append [OF this, of b] Inr assms(3) m1(2) e show ?thesis
    by (auto simp: refused_def write_body_def expect_ok_def write_with_def outcome_iffs abs_msg_def)
qed

lemma write_header_refused:
  assumes "msg_wf N V m" and "expect_ok (write_header N E b m) = Inl p"
  shows "p = ExpectFailed \<and> fst (m_header_append N b (inner m)) = error_code_num ENOMEM"
proof -
  obtain e where e: "nomem_io E = Inr e" using nomem_io_Inr by blast
  have "V (inner m)" using assms(1) by (simp add: msg_wf_def)
  with header_append [OF this, of b] assms(2) e show ?thesis
    by (auto simp: write_header_def expect_ok_def write_with_def outcome_iffs)
qed

lemma from_slice_spec:
  "case from_slice N E oc data of
     Inl p \<Rightarrow> length data \<le> usize_max \<longrightarrow>
       p = Oom \<and> fst (m_alloc N (length data)) = error_code_num ENOMEM \<or> refused N V [] [] data p
   | Inr m \<Rightarrow> msg_wf N V m \<and> abs_msg N m = \<lparr>a_header = [], a_body = data, a_pos = 0\<rparr>"
proof (cases "with_capacity N (length data)")
  case (Inl p)
  with with_capacity_spec [of "length data"] show ?thesis by (simp add: from_slice_def)
next
  case (Inr m)
  with with_capacity_spec [of "length data"] have wf: "msg_wf N V m"
    and empty: "abs_msg N m = \<lparr>a_header = [], a_body = [], a_pos = 0\<rparr>" by simp_all
  from empty have "m_header N (inner m) = []" "m_body N (inner m) = []"
    by (simp_all add: abs_msg_def)
  with write_refused [OF wf, of data E oc] expect_ok_meets [OF write_meets [OF wf, of E oc data]]
    empty Inr
  show ?thesis by (auto simp: from_slice_def split: sum.splits)
qed

lemma clone_from_spec:
  assumes "msg_wf N V m" and "msg_wf N V source"
  shows "case clone_from N E oc source m of
     Inl p \<Rightarrow> refused N V (m_header N (inner m)) [] (m_body N (inner source)) p
       \<or> (p = ExpectFailed \<and> (\<exists>i. V i \<and> m_header N i = [] \<and> m_body N i = m_body N (inner source)
           \<and> fst (m_header_append N (m_header N (inner source)) i) = error_code_num ENOMEM))
   | Inr m' \<Rightarrow> msg_wf N V m' \<and> abs_msg N m' = abs_msg N source"
proof -
  let ?b = "m_body N (inner source)" and ?h = "m_header N (inner source)"
  have V: "V (inner source)" using assms by (simp add: msg_wf_def)
  obtain m1 where 1: "msg_truncate N 0 m = Inr m1" "msg_wf N V m1"
      "abs_msg N m1 = spec_step (Truncate 0) (abs_msg N m)"
    using msg_truncate_spec [OF assms(1)] by blast
  show ?thesis
  proof (cases "expect_ok (write_body N E oc ?b m1)")
    case (Inl p)
    have "length ?b \<le> usize_max" using usize_body [OF V] by simp
    with write_refused [OF 1(2) _ Inl] Inl 1 V show ?thesis
      by (simp add: clone_from_def abs_msg_def)
  next
    case (Inr m2)
    with expect_ok_meets [OF write_meets [OF 1(2), of E oc ?b]]
    have 2: "msg_wf N V m2" "abs_msg N m2 = spec_step (Write ?b) (abs_msg N m1)" by simp_all
    obtain m3 where 3: "header_truncate N 0 m2 = Inr m3" "msg_wf N V m3"
        "abs_msg N m3 = spec_step (HeaderTruncate 0) (abs_msg N m2)"
      using header_truncate_spec [OF 2(1)] by blast
    show ?thesis
    proof (cases "expect_ok (write_header N E ?h m3)")
      case (Inl p)
      with write_header_refused [OF 3(2) Inl] 1 2 3 V Inr show ?thesis
        by (auto simp: clone_from_def abs_msg_def msg_wf_def)
    next
      case h: (Inr m4)
      with expect_ok_meets [OF write_header_meets [OF 3(2), of E oc ?h]] 1 2 3 V Inr assms(2)
      show ?thesis by (auto simp: clone_from_def abs_msg_def msg_wf_def)
    qed
  qed
qed

end

section \<open>Growth of the buffer\<close>

lemma next_pow2_ge: "n \<le> next_pow2 n"
proof (induction n rule: next_pow2.induct)
  case (1 n)
  then show ?case by (subst next_pow2.simps) (cases "n \<le> 1"; simp)
qed

lemma next_pow2_power: "\<exists>k. next_pow2 n = 2 ^ k"
proof (induction n rule: next_pow2.induct)
  case (1 n)
  show ?case
  proof (cases "n \<le> 1")
    case True
    then have "next_pow2 n = 2 ^ 0" by (subst next_pow2.simps) simp
    then show ?thesis ..
  next
    case False
    with 1 obtain k where "next_pow2 ((n + 1) div 2) = 2 ^ k" by blast
    with False have "next_pow2 n = 2 ^ Suc k" by (subst next_pow2.simps) simp
    then show ?thesis ..
  qed
qed

lemma next_pow2_least: "n \<le> 2 ^ k \<Longrightarrow> next_pow2 n \<le> 2 ^ k"
proof (induction n arbitrary: k rule: next_pow2.induct)
  case (1 n)
  show ?case
  proof (cases "n \<le> 1")
    case True
    then show ?thesis by (subst next_pow2.simps) simp
  next
    case False
    with 1(2) obtain j where k: "k = Suc j" by (cases k) auto
    with 1(2) have "(n + 1) div 2 \<le> 2 ^ j" by simp
    with 1(1) [of j] False k show ?thesis by (subst next_pow2.simps) simp
  qed
qed

lemma next_pow2_doubles:
  assumes "2 ^ j < n"
  shows "2 ^ Suc j \<le> next_pow2 n"
proof -
  obtain k where k: "next_pow2 n = 2 ^ k" using next_pow2_power by blast
  with next_pow2_ge [of n] have "n \<le> 2 ^ k" by simp
  with assms have "(2::nat) ^ j < 2 ^ k" by (rule less_le_trans)
  then have "Suc j \<le> k" using power_less_imp_less_exp [of 2 j k] by simp
  then show ?thesis unfolding k by (rule power_increasing) simp
qed

text \<open>
  The calls of \<open>nng_msg_reserve\<close> are counted by NNG itself: \<open>counted N\<close> is the NNG \<open>N\<close> whose
  messages carry the number of times \<open>nng_msg_reserve\<close> was called on them.  Every other function
  acts on the message and keeps the number.  The code under study runs on \<open>counted N\<close> as on any
  other NNG, so that the count is of the calls it makes.
\<close>

definition counting :: "nat \<Rightarrow> c_int \<times> 'm \<Rightarrow> c_int \<times> ('m \<times> nat)" where
  "counting k r = (fst r, (snd r, k))"

definition counted :: "'m msg_api \<Rightarrow> ('m \<times> nat) msg_api" where
  "counted N = \<lparr>
     m_alloc = (\<lambda>n. (fst (m_alloc N n), map_option (\<lambda>i. (i, 0)) (snd (m_alloc N n)))),
     m_dup = (\<lambda>m. (fst (m_dup N (fst m)), map_option (\<lambda>i. (i, snd m)) (snd (m_dup N (fst m))))),
     m_body = (\<lambda>m. m_body N (fst m)),
     m_len = (\<lambda>m. m_len N (fst m)),
     m_header = (\<lambda>m. m_header N (fst m)),
     m_header_len = (\<lambda>m. m_header_len N (fst m)),
     m_capacity = (\<lambda>m. m_capacity N (fst m)),
     m_chop = (\<lambda>n m. counting (snd m) (m_chop N n (fst m))),
     m_trim = (\<lambda>n m. counting (snd m) (m_trim N n (fst m))),
     m_header_chop = (\<lambda>n m. counting (snd m) (m_header_chop N n (fst m))),
     m_header_trim = (\<lambda>n m. counting (snd m) (m_header_trim N n (fst m))),
     m_append = (\<lambda>b m. counting (snd m) (m_append N b (fst m))),
     m_insert = (\<lambda>b m. counting (snd m) (m_insert N b (fst m))),
     m_header_append = (\<lambda>b m. counting (snd m) (m_header_append N b (fst m))),
     m_header_insert = (\<lambda>b m. counting (snd m) (m_header_insert N b (fst m))),
     m_reserve = (\<lambda>n m. counting (Suc (snd m)) (m_reserve N n (fst m))),
     m_realloc = (\<lambda>n m. counting (snd m) (m_realloc N n (fst m))),
     m_clear = (\<lambda>m. (m_clear N (fst m), snd m)),
     m_header_clear = (\<lambda>m. (m_header_clear N (fst m), snd m)),
     m_poke = (\<lambda>i b m. (m_poke N i b (fst m), snd m)),
     m_header_poke = (\<lambda>i b m. (m_header_poke N i b (fst m), snd m))\<rparr>"

abbreviation counted_valid :: "('m \<Rightarrow> bool) \<Rightarrow> 'm \<times> nat \<Rightarrow> bool" where
  "counted_valid V \<equiv> \<lambda>m. V (fst m)"

abbreviation reserve_count :: "('m \<times> nat) message \<Rightarrow> nat" where
  "reserve_count m \<equiv> snd (inner m)"

lemma counting_simps [simp]: "fst (counting k r) = fst r" "snd (counting k r) = (snd r, k)"
  by (simp_all add: counting_def)

lemma counted_simps [simp]:
  "m_alloc (counted N) n = (fst (m_alloc N n), map_option (\<lambda>i. (i, 0)) (snd (m_alloc N n)))"
  "m_dup (counted N) m =
     (fst (m_dup N (fst m)), map_option (\<lambda>i. (i, snd m)) (snd (m_dup N (fst m))))"
  "m_body (counted N) m = m_body N (fst m)"
  "m_len (counted N) m = m_len N (fst m)"
  "m_header (counted N) m = m_header N (fst m)"
  "m_header_len (counted N) m = m_header_len N (fst m)"
  "m_capacity (counted N) m = m_capacity N (fst m)"
  "m_chop (counted N) n m = counting (snd m) (m_chop N n (fst m))"
  "m_trim (counted N) n m = counting (snd m) (m_trim N n (fst m))"
  "m_header_chop (counted N) n m = counting (snd m) (m_header_chop N n (fst m))"
  "m_header_trim (counted N) n m = counting (snd m) (m_header_trim N n (fst m))"
  "m_append (counted N) b m = counting (snd m) (m_append N b (fst m))"
  "m_insert (counted N) b m = counting (snd m) (m_insert N b (fst m))"
  "m_header_append (counted N) b m = counting (snd m) (m_header_append N b (fst m))"
  "m_header_insert (counted N) b m = counting (snd m) (m_header_insert N b (fst m))"
  "m_reserve (counted N) n m = counting (Suc (snd m)) (m_reserve N n (fst m))"
  "m_realloc (counted N) n m = counting (snd m) (m_realloc N n (fst m))"
  "m_clear (counted N) m = (m_clear N (fst m), snd m)"
  "m_header_clear (counted N) m = (m_header_clear N (fst m), snd m)"
  "m_poke (counted N) i x m = (m_poke N i x (fst m), snd m)"
  "m_header_poke (counted N) i x m = (m_header_poke N i x (fst m), snd m)"
  by (simp_all add: counted_def)

lemma outcomes_counted [simp]:
  "succeeds (counted N) (counted_valid V) (counting k r) h b \<longleftrightarrow> succeeds N V r h b"
  "no_memory (counted N) (counted_valid V) (counting k r) m \<longleftrightarrow> no_memory N V r (fst m)"
  by (simp_all add: succeeds_def no_memory_def)

context nng_msg
begin

lemma counted_nng_msg: "nng_msg (counted N) (counted_valid V)"
proof (unfold_locales, goal_cases)
  case (1 n) then show ?case using alloc [of n] by auto
next
  case (2 m) then show ?case using dup [of "fst m"] by auto
next
  case (16 m n) then show ?case using reserve [of "fst m" n] by simp
next
  case (17 m n) then show ?case using realloc [of "fst m" n] by simp
qed (simp_all add: len header_len len_capacity capacity_usize chop trim header_chop header_trim
       append insert header_append header_insert append_capacity poke header_poke
       clear header_clear)

end

text \<open>
  The potential: after \<open>k\<close> calls the capacity has passed a power of two that doubles every
  second call.
\<close>

definition grown :: "nat \<Rightarrow> nat \<Rightarrow> bool" where
  "grown k c \<longleftrightarrow>
     k = 0 \<or> (odd k \<and> 2 ^ (k div 2) \<le> c) \<or> (even k \<and> 2 ^ (k div 2 - 1) < c)"

lemma grown_mono: "grown k c \<Longrightarrow> c \<le> d \<Longrightarrow> grown k d"
  by (auto simp: grown_def)

lemma grown_step:
  assumes "grown k c" "c < d" "next_pow2 c \<le> d"
  shows "grown (Suc k) d"
proof (cases "k = 0")
  case True
  with assms show ?thesis by (simp add: grown_def)
next
  case False
  show ?thesis
  proof (cases "odd k")
    case True
    then have "2 ^ (k div 2) \<le> c" using assms(1) False by (simp add: grown_def)
    with assms(2) True show ?thesis by (auto simp: grown_def)
  next
    case even: False
    then have "2 ^ (k div 2 - 1) < c" using assms(1) False by (simp add: grown_def)
    from next_pow2_doubles [OF this] assms(3) have "2 ^ Suc (k div 2 - 1) \<le> d" by simp
    moreover have "Suc (k div 2 - 1) = Suc k div 2" using even False by (auto elim!: evenE)
    ultimately have "2 ^ (Suc k div 2) \<le> d" by (simp only:)
    then show ?thesis using even by (simp add: grown_def)
  qed
qed

lemma grown_bound:
  assumes "grown k c" "c < L"
  shows "2 ^ (Suc k div 2) \<le> 2 * L"
proof (cases "odd k")
  case True
  with assms have "2 ^ (k div 2) \<le> c" by (auto simp: grown_def)
  with True assms(2) show ?thesis by (auto elim!: oddE)
next
  case False
  show ?thesis
  proof (cases "k = 0")
    case True
    with assms(2) show ?thesis by simp
  next
    case k: False
    with False assms have "2 ^ (k div 2 - 1) < c" by (auto simp: grown_def)
    moreover have "Suc k div 2 = Suc (k div 2 - 1)" using k False by (auto elim!: evenE)
    ultimately show ?thesis using assms(2) by simp
  qed
qed

lemma reserve_counted:
  assumes "Message.reserve (counted N) oc n m = Inr m1"
    and "m_len N (fst (inner m)) + n \<le> usize_max"
  shows "reserve_count m1
     = reserve_count m + (if capacity (counted N) m < m_len N (fst (inner m)) + n then 1 else 0)"
  using assms
  by (auto simp: Message.reserve_def reserve_exact_def run_bind_eq_Inr Let_def capacity_def
      len_def counting_def errno_or_nomem_def split: if_splits)

lemma write_success:
  assumes "nng_msg N V" and "msg_wf (counted N) (counted_valid V) m"
    and "write_body (counted N) E oc b m = Inr (m', Inr n)"
  shows "msg_wf (counted N) (counted_valid V) m'"
    and "m_body N (fst (inner m')) = m_body N (fst (inner m)) @ b"
    and "grown (reserve_count m) (capacity (counted N) m) \<Longrightarrow>
      grown (reserve_count m') (capacity (counted N) m')"
    and "reserve_count m' = reserve_count m
      \<or> (reserve_count m' = Suc (reserve_count m)
          \<and> capacity (counted N) m < length (m_body N (fst (inner m'))))"
proof -
  let ?N = "counted N"
  note N = nng_msg.counted_nng_msg [OF assms(1)]
  note C = nng_msg.write_meets [OF N assms(2)]
  have V: "V (fst (inner m))" using assms(2) by (simp add: msg_wf_def)
  show wf': "msg_wf ?N (counted_valid V) m'"
    and body: "m_body N (fst (inner m')) = m_body N (fst (inner m)) @ b"
    using C [of E oc b] assms(3) by (auto simp: meets_spec_def abs_msg_def)
  let ?L = "length (m_body N (fst (inner m))) + length b"
  have L: "?L \<le> usize_max"
    using nng_msg.usize_body [OF assms(1), of "fst (inner m')"] wf' body by (simp add: msg_wf_def)
  obtain m1 where m1: "Message.reserve ?N oc (length b) m = Inr m1"
      "write_with E (length b) (m_append ?N b (inner m1)) m1 = Inr (m', Inr n)"
    using assms(3) by (auto simp: write_body_def run_simps)
  have r: "msg_wf ?N (counted_valid V) m1" "capacity ?N m \<le> capacity ?N m1"
      "capacity ?N m < ?L \<Longrightarrow> next_capacity ?L (capacity ?N m) \<le> capacity ?N m1"
    using nng_msg.reserve_spec [OF N assms(2), of oc "length b"] m1(1) L by auto
  have m': "capacity ?N m1 \<le> capacity ?N m'" "reserve_count m' = reserve_count m1"
    using m1(2) nng_msg.append_capacity [OF assms(1), of "fst (inner m1)" b]
      nng_msg.append [OF assms(1), of "fst (inner m1)" b] r(1)
    by (auto simp: write_with_def capacity_def outcome_iffs msg_wf_def run_simps)
  have calls: "reserve_count m' = reserve_count m + (if capacity ?N m < ?L then 1 else 0)"
    using reserve_counted [OF m1(1)] L V m'(2) nng_msg.len [OF assms(1)] by simp
  then show "reserve_count m' = reserve_count m
      \<or> (reserve_count m' = Suc (reserve_count m)
          \<and> capacity ?N m < length (m_body N (fst (inner m'))))"
    using body by simp
  have cap': "capacity ?N m' < usize_max"
    using nng_msg.capacity_usize [OF assms(1), of "fst (inner m')"] wf'
    by (simp add: capacity_def msg_wf_def)
  assume g: "grown (reserve_count m) (capacity ?N m)"
  show "grown (reserve_count m') (capacity ?N m')"
  proof (cases "capacity ?N m < ?L")
    case True
    with r(3) m' have "next_capacity ?L (capacity ?N m) \<le> capacity ?N m'" by simp
    with cap' have "?L \<le> capacity ?N m'" "next_pow2 (capacity ?N m) \<le> capacity ?N m'"
      by (auto simp: next_capacity_def checked_next_power_of_two_def split: if_splits)
    with grown_step [OF g] True calls show ?thesis by simp
  next
    case False
    with grown_mono [OF g] r(2) m' calls show ?thesis by simp
  qed
qed

lemma write_run_growth:
  assumes "nng_msg N V" and "msg_wf (counted N) (counted_valid V) m"
    and "grown (reserve_count m) (capacity (counted N) m)"
    and "2 ^ (reserve_count m div 2) \<le> max 1 (2 * length (m_body N (fst (inner m))))"
    and "msg_run (counted N) E oc (map Write bs) m = Inr (m', ress)" and "list_all (\<lambda>r. \<not> isl r) ress"
  shows "msg_wf (counted N) (counted_valid V) m'
     \<and> m_body N (fst (inner m')) = m_body N (fst (inner m)) @ concat bs
     \<and> 2 ^ (reserve_count m' div 2) \<le> max 1 (2 * length (m_body N (fst (inner m'))))"
  using assms(2-)
proof (induction bs arbitrary: m ress)
  case (Cons b bs)
  from Cons.prems(4) obtain m1 res ress' where
    "write_body (counted N) E oc b m = Inr (m1, res)" and ress: "ress = res # ress'"
    and run: "msg_run (counted N) E oc (map Write bs) m1 = Inr (m', ress')"
    by (auto simp: run_simps)
  with Cons.prems(5) obtain n where
    1: "write_body (counted N) E oc b m = Inr (m1, Inr n)"
      "msg_run (counted N) E oc (map Write bs) m1 = Inr (m', ress')"
      "list_all (\<lambda>r. \<not> isl r) ress'"
    by (cases res) auto
  note s = write_success [OF assms(1) Cons.prems(1) 1(1)]
  have "2 ^ (reserve_count m1 div 2) \<le> max 1 (2 * length (m_body N (fst (inner m1))))"
    using s(4)
  proof
    assume "reserve_count m1 = reserve_count m"
    with Cons.prems(3) s(2) show ?thesis by (simp add: max_def split: if_splits)
  next
    assume "reserve_count m1 = Suc (reserve_count m)
      \<and> capacity (counted N) m < length (m_body N (fst (inner m1)))"
    with grown_bound [OF Cons.prems(2), of "length (m_body N (fst (inner m1)))"]
    show ?thesis by simp
  qed
  from Cons.IH [OF s(1) s(3) [OF Cons.prems(2)] this 1(2,3)] s(2) show ?case by auto
qed simp

context nng_msg
begin

lemma chunk_mut_spec:
  assumes "msg_wf N V m" and "chunk_mut N oc m = Inr (m', off, n)"
    and "length (m_body N (inner m)) + 64 \<le> usize_max"
  shows "msg_wf N V m' \<and> abs_msg N m' = abs_msg N m \<and> off = len N m' \<and> 0 < n
    \<and> off + n = capacity N m'"
proof -
  have V: "V (inner m)" using assms by (simp add: msg_wf_def)
  let ?l = "length (m_body N (inner m))"
  have *: "msg_wf N V m'" "abs_msg N m' = abs_msg N m" "?l < capacity N m'"
    if "(if capacity N m \<le> ?l then Message.reserve N oc 64 m else Inr m) = Inr m'"
    using that reserve_spec [OF assms(1), of oc 64] assms(1,3)
    by (auto split: if_splits)
  from assms(2) V have r: "(if capacity N m \<le> ?l then Message.reserve N oc 64 m else Inr m) = Inr m'"
      "off = ?l" "n = capacity N m' - ?l"
    by (auto simp: chunk_mut_def run_bind_eq_Inr Let_def)
  from * [OF r(1)] r(2,3) show ?thesis by (auto simp: msg_wf_def abs_msg_def)
qed

lemma set_len_spec:
  assumes "msg_wf N V m"
  shows "case set_len N n m of
     Inl p \<Rightarrow> p = Oom
   | Inr m' \<Rightarrow> msg_wf N V m' \<and> length (m_body N (inner m')) = n
       \<and> m_header N (inner m') = m_header N (inner m) \<and> pos m' = min (pos m) n
       \<and> take (min n (len N m)) (m_body N (inner m'))
         = take (min n (len N m)) (m_body N (inner m))"
proof -
  let ?i = "inner m"
  have V: "V ?i" using assms by (simp add: msg_wf_def)
  consider "length (m_body N ?i) < n" | "n < length (m_body N ?i)" | "length (m_body N ?i) = n"
    by linarith
  then show ?thesis
  proof cases
    case 1
    then show ?thesis
      using realloc [OF V, of n] V assms
      by (cases "m_realloc N n ?i")
        (auto simp: set_len_def msg_wf_def no_memory_def min_def)
  next
    case 2
    then show ?thesis
      using msg_truncate_spec [OF assms, of n] V
      by (auto simp: set_len_def msg_wf_def abs_msg_def)
  next
    case 3
    then show ?thesis using V assms by (auto simp: set_len_def msg_wf_def)
  qed
qed

lemma write_all_spec:
  assumes "msg_wf N V m"
  shows "write_all N E oc (Suc (Suc k)) buf m =
     Some (run_map (\<lambda>(m', res). (m', map_sum id (\<lambda>_. ()) res))
       (if buf = [] then Inr (m, Inr 0) else write_body N E oc buf m))"
proof (cases "buf = []")
  case False
  show ?thesis
  proof (cases "write_body N E oc buf m")
    case (Inr r)
    obtain m' res where r: "r = (m', res)" by (cases r)
    with Inr write_meets [OF assms, of E oc buf] False show ?thesis
      by (auto simp: meets_spec_def gr0_conv_Suc split: sum.splits nat.splits)
  qed (simp add: False)
qed simp

end


section \<open>The properties\<close>

definition sample_msg :: "ref_msg message" where
  "sample_msg = \<lparr>inner = \<lparr>r_header = [7], r_body = [1, 2, 3], r_cap = 4\<rparr>, pos = 1\<rparr>"

definition sample_ops :: "msg_op list" where
  "sample_ops = [Write [4, 5], Advance 2, Prepend [9], TruncateFront 5, WriteHeader [8],
     HeaderTruncateFront 1, Store 0 6]"

lemmas sample_eval = sample_ops_def sample_msg_def ref_api_def unit_op_def write_body_def
  write_header_def prepend_def advance_def msg_truncate_def truncate_front_def
  header_truncate_front_def store_def Message.reserve_def reserve_exact_def write_with_def
  len_def header_len_def capacity_def checked_sub_def saturating_add_def usize_max_def
  usize_add_def next_capacity_def checked_next_power_of_two_def next_pow2.simps
  ref_set_body_def ref_set_header_def ref_limit_def

lemma sample_msg_wf: "msg_wf ref_api ref_ok sample_msg"
  by (simp add: msg_wf_def sample_msg_def ref_ok_def ref_limit_def ref_api_def)

text \<open>C9. Every operation of a message meets its specification.  From a valid message whose read
  position lies inside the body, truncation from either end, clearing, reserving, prepending,
  appending, the header operations, \<open>advance\<close> and indexed stores leave a valid message whose
  header, body and position are exactly what the specification computes, and return the number of
  bytes written; a failed allocation in a fallible operation returns an error of kind
  \<open>OutOfMemory\<close> and changes nothing; the only panics are "OOM" in the reserving operations,
  arithmetic overflow there in a checked build, \<open>advance\<close> past the end and a store out of range.
  In particular no \<open>unreachable!\<close> arm and no \<open>expect\<close> on a C return value is ever hit.\<close>

theorem message_step_meets_spec:
  assumes "nng_msg N V" and "msg_wf N V m"
  shows "meets_spec N V E oc op m (msg_step N E oc op m)"
  using nng_msg.msg_step_meets [OF assms] .

theorem message_step_meets_spec_witness:
  "meets_spec ref_api ref_ok sample_env True (TruncateFront 1) sample_msg
     (msg_step ref_api sample_env True (TruncateFront 1) sample_msg)"
  using message_step_meets_spec [OF ref.nng_msg_axioms sample_msg_wf] .

text \<open>C1. Any run of operations refines the abstract message.  However the operations are
  interleaved, a run that returns leaves a valid message whose contents and read position are those
  the specification computes from the operations that succeeded; each result is the number of bytes
  written or, in a fallible operation, an \<open>OutOfMemory\<close> error; no operation met was out of range,
  the read position never leaves the body, and \<open>chunk\<close> hands out exactly the unread bytes,
  \<open>remaining\<close> of them.  A run that panics has returned from every operation before some \<open>k\<close>, and
  the panic is one that operation \<open>k\<close> may raise on the message the specification has reached there:
  "OOM" or the checked overflow in a reserving operation, the explicit panic of an \<open>advance\<close> past
  the end, the index panic of a store outside the body.\<close>

theorem message_runs_refine:
  assumes "nng_msg N V" and "msg_wf N V m"
  shows "case msg_run N E oc ops m of
     Inl p \<Rightarrow> \<exists>k mk ress. k < length ops \<and> msg_run N E oc (take k ops) m = Inr (mk, ress)
       \<and> p \<in> spec_panics oc (ops ! k) (spec_run (take k ops) ress (abs_msg N m))
   | Inr (m', ress) \<Rightarrow>
       msg_wf N V m' \<and> list_all2 (spec_result E) ops ress
       \<and> abs_msg N m' = spec_run ops ress (abs_msg N m)
       \<and> (\<forall>i<length ops. \<not> out_of_range (ops ! i) (spec_run (take i ops) ress (abs_msg N m)))
       \<and> chunk N m' = Inr (drop (pos m') (as_slice N m'))
       \<and> remaining N m' = length (drop (pos m') (as_slice N m'))"
proof (cases "msg_run N E oc ops m")
  case (Inl p)
  with nng_msg.msg_run_stops [OF assms Inl] show ?thesis by simp
next
  case (Inr r)
  obtain m' ress where r: "r = (m', ress)" by (cases r)
  note s = nng_msg.msg_run_spec [OF assms Inr [unfolded r]]
  then have wf': "msg_wf N V m'" by blast
  with nng_msg.chunk_spec [OF assms(1) wf'] nng_msg.as_slice_eq [OF assms(1)] s Inr r
  show ?thesis by (simp add: msg_wf_def)
qed

theorem message_runs_refine_witness:
  "case msg_run ref_api sample_env True sample_ops sample_msg of
     Inl p \<Rightarrow> False
   | Inr (m', ress) \<Rightarrow>
       ress = [Inr 2, Inr 0, Inr 1, Inr 0, Inr 1, Inr 0, Inr 0]
       \<and> chunk ref_api m' = Inr (drop (pos m') (as_slice ref_api m'))
       \<and> as_slice ref_api m' = [6, 2, 3, 4, 5] \<and> pos m' = 2"
proof -
  have "msg_run ref_api sample_env True sample_ops sample_msg =
      Inr (\<lparr>inner = \<lparr>r_header = [8], r_body = [6, 2, 3, 4, 5], r_cap = 6\<rparr>, pos = 2\<rparr>,
           [Inr 2, Inr 0, Inr 1, Inr 0, Inr 1, Inr 0, Inr 0])"
    by (simp add: sample_eval)
  with message_runs_refine [OF ref.nng_msg_axioms sample_msg_wf,
      where E = sample_env and oc = True and ops = sample_ops]
  show ?thesis by (simp add: ref_api_def as_slice_def len_def)
qed



lemmas sample_creation = clone_from_def from_slice_def with_capacity_def expect_ok_def
  header_truncate_def as_slice_def header_def ref_alloc_def ref_alloc_cap_def nonnull_def
  sample_eval

definition sample_source :: "ref_msg message" where
  "sample_source = \<lparr>inner = \<lparr>r_header = [1], r_body = [5, 6], r_cap = 8\<rparr>, pos = 2\<rparr>"


text \<open>C22. Filling a message calls \<open>nng_msg_reserve\<close> logarithmically often.  Take any NNG and let it
  count the calls of \<open>nng_msg_reserve\<close> on each message.  When a message with an empty body has been
  filled to \<open>L\<close> bytes by any sequence of successful writes, the code has made \<open>k\<close> calls with
  \<open>2 ^ (k div 2) \<le> max 1 (2 * L)\<close>, however the bytes are split into writes and whatever headroom NNG
  adds, and the body is the concatenation of what was written.\<close>

theorem growth_is_logarithmic:
  assumes "nng_msg N V" and "msg_wf N V m" and "as_slice N m = []"
    and "msg_run (counted N) E oc (map Write bufs) \<lparr>inner = (inner m, 0), pos = pos m\<rparr>
       = Inr (m', ress)"
    and "list_all (\<lambda>r. \<not> isl r) ress"
  shows "as_slice (counted N) m' = concat bufs
     \<and> 2 ^ (snd (inner m') div 2) \<le> max 1 (2 * length (concat bufs))"
proof -
  let ?m = "\<lparr>inner = (inner m, 0), pos = pos m\<rparr>"
  have wf: "msg_wf (counted N) (counted_valid V) ?m" using assms(2) by (simp add: msg_wf_def)
  have V: "V (inner m)" using assms(2) by (simp add: msg_wf_def)
  have "grown (reserve_count ?m) (capacity (counted N) ?m)" by (simp add: grown_def)
  from write_run_growth [OF assms(1) wf this _ assms(4,5)] assms(3)
    nng_msg.as_slice_eq [OF assms(1)] nng_msg.as_slice_eq [OF nng_msg.counted_nng_msg [OF assms(1)]] V
  show ?thesis by (auto simp: msg_wf_def)
qed

definition sample_empty :: "ref_msg message" where
  "sample_empty = \<lparr>inner = \<lparr>r_header = [], r_body = [], r_cap = 0\<rparr>, pos = 0\<rparr>"

definition sample_writes :: "byte list list" where
  "sample_writes = [[1], [2], [3], [4], [5], [6], [7], [8]]"

theorem growth_is_logarithmic_witness:
  "\<exists>m' ress. msg_run (counted ref_api) sample_env True (map Write sample_writes)
        \<lparr>inner = (inner sample_empty, 0), pos = pos sample_empty\<rparr> = Inr (m', ress)
     \<and> snd (inner m') = 6 \<and> as_slice (counted ref_api) m' = [1, 2, 3, 4, 5, 6, 7, 8]"
proof -
  have wf: "msg_wf ref_api ref_ok sample_empty" "as_slice ref_api sample_empty = []"
    by (simp_all add: sample_empty_def msg_wf_def ref_ok_def ref_api_def as_slice_def len_def)
  have "\<exists>m'. msg_run (counted ref_api) sample_env True (map Write sample_writes)
        \<lparr>inner = (inner sample_empty, 0), pos = pos sample_empty\<rparr>
      = Inr (m', map (\<lambda>_. Inr 1) sample_writes) \<and> snd (inner m') = 6"
    by (simp add: sample_eval sample_empty_def sample_writes_def counting_def)
  then obtain m' where m': "msg_run (counted ref_api) sample_env True (map Write sample_writes)
        \<lparr>inner = (inner sample_empty, 0), pos = pos sample_empty\<rparr>
      = Inr (m', map (\<lambda>_. Inr 1) sample_writes)" "snd (inner m') = 6" by blast
  with growth_is_logarithmic [OF ref.nng_msg_axioms wf m'(1)] show ?thesis by (auto simp: sample_writes_def)
qed

text \<open>C33. \<open>put_slice\<close> and \<open>write_all\<close> end after one write.  The standard library's \<open>write_all\<close> loop
  over \<open>Message::write\<close> needs at most two rounds for any buffer: it returns exactly what the one
  write returned (its \<open>WriteZero\<close> and \<open>Interrupted\<close> branches are never taken), and \<open>put_slice\<close>
  appends the whole slice or unwinds.\<close>

theorem write_all_is_one_write:
  assumes "nng_msg N V" and "msg_wf N V m"
  shows "write_all N E oc (k + 2) buf m =
      Some (run_map (\<lambda>(m', res). (m', map_sum id (\<lambda>_. ()) res))
        (if buf = [] then Inr (m, Inr 0) else write_body N E oc buf m))
    \<and> (case put_slice N E oc (k + 2) buf m of
        None \<Rightarrow> False
      | Some (Inl p) \<Rightarrow> p \<in> {Oom, ExpectFailed} \<or> (oc \<and> p = Overflow)
      | Some (Inr m') \<Rightarrow> msg_wf N V m' \<and> as_slice N m' = as_slice N m @ buf \<and> pos m' = pos m)"
proof -
  have V: "V (inner m)" using assms(2) by (simp add: msg_wf_def)
  note all = nng_msg.write_all_spec [OF assms, of E oc k buf]
  note w = nng_msg.write_meets [OF assms, of E oc buf]
  have "case put_slice N E oc (k + 2) buf m of
        None \<Rightarrow> False
      | Some (Inl p) \<Rightarrow> p \<in> {Oom, ExpectFailed} \<or> (oc \<and> p = Overflow)
      | Some (Inr m') \<Rightarrow> msg_wf N V m' \<and> as_slice N m' = as_slice N m @ buf \<and> pos m' = pos m"
  proof (cases "buf = []")
    case True
    then show ?thesis using all assms(2) by (simp add: put_slice_def)
  next
    case False
    with all w assms V nng_msg.as_slice_eq [OF assms(1)] show ?thesis
      by (auto simp: put_slice_def meets_spec_def abs_msg_def msg_wf_def
          split: sum.splits if_splits)
  qed
  with all show ?thesis by simp
qed

theorem write_all_is_one_write_witness:
  "\<exists>m'. put_slice ref_api sample_env True 2 [4, 5] sample_msg = Some (Inr m')
     \<and> as_slice ref_api m' = as_slice ref_api sample_msg @ [4, 5]"
proof -
  have "\<exists>m'. put_slice ref_api sample_env True (Suc (Suc 0)) [4, 5] sample_msg = Some (Inr m')"
    by (simp add: put_slice_def sample_eval)
  with write_all_is_one_write [OF ref.nng_msg_axioms sample_msg_wf,
      where E = sample_env and oc = True and k = 0 and buf = "[4, 5]"]
  show ?thesis by (auto simp: numeral_2_eq_2)
qed

text \<open>The region \<open>chunk_mut\<close> hands out.  It starts right behind the body, is never empty and
  has as many bytes as the reported capacity exceeds the length; the contents do not change.
  When \<open>front\<close> bytes of that capacity lie before the body (the headroom that \<open>capacity\<close> is
  documented to include), the region ends inside the allocation only if \<open>front\<close> is 0.\<close>

theorem chunk_mut_region:
  assumes "nng_msg N V" and "msg_wf N V m" and "length (as_slice N m) + 64 \<le> usize_max"
    and "chunk_mut N oc m = Inr (m', off, n)"
  shows "abs_msg N m' = abs_msg N m \<and> off = length (as_slice N m') \<and> 0 < n
     \<and> (front + off + n \<le> capacity N m' \<longleftrightarrow> front = 0)"
  using assms nng_msg.chunk_mut_spec [OF assms(1,2,4)] nng_msg.as_slice_eq [OF assms(1)]
    nng_msg.len_eq [OF assms(1)]
  by (auto simp: msg_wf_def)

theorem chunk_mut_region_witness:
  "\<exists>m' off n. chunk_mut ref_api True sample_msg = Inr (m', off, n)
     \<and> \<not> (32 + off + n \<le> capacity ref_api m')"
proof -
  have "length (as_slice ref_api sample_msg) + 64 \<le> usize_max"
    by (simp add: as_slice_def sample_eval)
  moreover have "chunk_mut ref_api True sample_msg = Inr (sample_msg, 3, 1)"
    by (simp add: chunk_mut_def sample_eval)
  ultimately show ?thesis
    using chunk_mut_region [OF ref.nng_msg_axioms sample_msg_wf, where front = 32] by fastforce
qed

text \<open>\<open>set_len\<close> and \<open>advance_mut\<close>.  Setting the length, shorter or longer, keeps the header and
  the bytes both lengths share, gives the body exactly that length and moves the read position
  back only if it would lie outside; \<open>advance_mut\<close> extends by exactly \<open>cnt\<close>.  The only panics are
  "OOM" and, in a checked build, the overflow of the sum.\<close>

theorem set_len_keeps_prefix:
  assumes "nng_msg N V" and "msg_wf N V m"
  shows "(case set_len N n m of
       Inl p \<Rightarrow> p = Oom
     | Inr m' \<Rightarrow> msg_wf N V m' \<and> len N m' = n \<and> header N m' = header N m
         \<and> pos m' = min (pos m) n
         \<and> take (min n (len N m)) (as_slice N m') = take (min n (len N m)) (as_slice N m))
   \<and> (case advance_mut N oc cnt m of
       Inl p \<Rightarrow> p = Oom \<or> (oc \<and> p = Overflow)
     | Inr m' \<Rightarrow> len N m + cnt \<le> usize_max \<longrightarrow> len N m' = len N m + cnt \<and> pos m' = pos m
         \<and> take (len N m) (as_slice N m') = as_slice N m)"
proof -
  note s = nng_msg.set_len_spec [OF assms]
  note simps = nng_msg.as_slice_eq [OF assms(1)] nng_msg.header_eq [OF assms(1)]
    nng_msg.len_eq [OF assms(1)]
  have V: "V (inner m)" "pos m \<le> length (m_body N (inner m))"
    using assms(2) by (simp_all add: msg_wf_def)
  have 1: "case set_len N k m of
       Inl p \<Rightarrow> p = Oom
     | Inr m' \<Rightarrow> msg_wf N V m' \<and> len N m' = k \<and> header N m' = header N m
         \<and> pos m' = min (pos m) k
         \<and> take (min k (len N m)) (as_slice N m') = take (min k (len N m)) (as_slice N m)" for k
    using s [of k] V by (auto simp: msg_wf_def simps split: sum.splits)
  have "case advance_mut N oc cnt m of
       Inl p \<Rightarrow> p = Oom \<or> (oc \<and> p = Overflow)
     | Inr m' \<Rightarrow> len N m + cnt \<le> usize_max \<longrightarrow> len N m' = len N m + cnt \<and> pos m' = pos m
         \<and> take (len N m) (as_slice N m') = as_slice N m"
  proof (cases "len N m + cnt \<le> usize_max")
    case True
    with 1 [of "len N m + cnt"] V simps show ?thesis
      by (auto simp: advance_mut_def min_def split: sum.splits if_splits)
  next
    case False
    with 1 [of "(len N m + cnt) mod (usize_max + 1)"] show ?thesis
      by (auto simp: advance_mut_def usize_add_def split: sum.splits)
  qed
  with 1 [of n] show ?thesis by blast
qed

theorem set_len_keeps_prefix_witness:
  "\<exists>m'. set_len ref_api 2 sample_msg = Inr m' \<and> len ref_api m' = 2 \<and> pos m' = 1"
proof -
  have "returns (set_len ref_api 2 sample_msg)"
    by (simp add: set_len_def sample_eval)
  with set_len_keeps_prefix [OF ref.nng_msg_axioms sample_msg_wf, of 2]
  show ?thesis by (auto simp: returns_iff sample_msg_def)
qed

end
