(* ===== verification/NngMessage.thy ===== *)
theory NngMessage
  imports Message
begin

text \<open>
  \<^verbatim>\<open>nng::Message\<close> and \<^verbatim>\<open>nng::Header\<close> (nng/src/message.rs).  Both are a bare pointer to one NNG
  message, so an operation of either is a function on the C message; where allocation fails the
  code panics (\<open>expect(ALLOC_FAIL_MSG)\<close>).  \<open>da\<close> says whether debug assertions are compiled in.
\<close>

section \<open>Shared patterns\<close>

text \<open>\<open>validate_ptr(rv, msgp).expect(..)\<close> and \<open>rv2res!(rv).expect(..)\<close>\<close>

definition expect_ptr :: "c_int \<times> 'm option \<Rightarrow> 'm run" where
  "expect_ptr r =
     run_bind (validate_ptr (fst r) (snd r)) (\<lambda>x. case x of Inl _ \<Rightarrow> Inl ExpectFailed | Inr m \<Rightarrow> Inr m)"

definition expect_rv :: "c_int \<times> 'm \<Rightarrow> 'm run" where
  "expect_rv r = (case rv2res (fst r) () of Inl _ \<Rightarrow> Inl ExpectFailed | Inr _ \<Rightarrow> Inr (snd r))"

text \<open>\<open>debug_assert_eq!(rv, 0)\<close> after a call that changed the message.\<close>

definition assert_rv :: "bool \<Rightarrow> c_int \<times> 'm \<Rightarrow> 'm run" where
  "assert_rv da r = debug_assert da (fst r = 0) (Inr (snd r))"

section \<open>Creating messages\<close>

definition nm_new :: "'m msg_api \<Rightarrow> 'm run" where
  "nm_new N = expect_ptr (m_alloc N 0)"

definition nm_with_capacity :: "'m msg_api \<Rightarrow> nat \<Rightarrow> 'm run" where
  "nm_with_capacity N cap = run_map (m_clear N) (expect_ptr (m_alloc N cap))"

definition nm_with_zeros :: "'m msg_api \<Rightarrow> nat \<Rightarrow> 'm run" where
  "nm_with_zeros N sz = expect_ptr (m_alloc N sz)"

definition nm_clone :: "'m msg_api \<Rightarrow> 'm \<Rightarrow> 'm run" where
  "nm_clone N m = expect_ptr (m_dup N m)"

definition nm_default :: "'m msg_api \<Rightarrow> 'm run" where
  "nm_default N = nm_new N"

text \<open>\<open>ptr::copy_nonoverlapping\<close> onto the start of the body: the bytes are stored one by one.\<close>

fun copy_to_body :: "'m msg_api \<Rightarrow> nat \<Rightarrow> byte list \<Rightarrow> 'm \<Rightarrow> 'm" where
  "copy_to_body N i [] m = m"
| "copy_to_body N i (b # bs) m = copy_to_body N (Suc i) bs (m_poke N i b m)"

definition nm_from_slice :: "'m msg_api \<Rightarrow> byte list \<Rightarrow> 'm run" where
  "nm_from_slice N s = run_map (copy_to_body N 0 s) (expect_ptr (m_alloc N (length s)))"

section \<open>The body\<close>

definition nm_len :: "'m msg_api \<Rightarrow> 'm \<Rightarrow> nat" where
  "nm_len N m = m_len N m"

definition nm_is_empty :: "'m msg_api \<Rightarrow> 'm \<Rightarrow> bool" where
  "nm_is_empty N m \<longleftrightarrow> nm_len N m = 0"

definition nm_as_slice :: "'m msg_api \<Rightarrow> 'm \<Rightarrow> byte list" where
  "nm_as_slice N m = take (m_len N m) (m_body N m)"

text \<open>\<open>saturating_sub\<close> is the subtraction of natural numbers.\<close>

definition nm_truncate :: "'m msg_api \<Rightarrow> bool \<Rightarrow> nat \<Rightarrow> 'm \<Rightarrow> 'm run" where
  "nm_truncate N da n m = assert_rv da (m_chop N (m_len N m - n) m)"

definition nm_trim :: "'m msg_api \<Rightarrow> bool \<Rightarrow> nat \<Rightarrow> 'm \<Rightarrow> 'm run" where
  "nm_trim N da n m = assert_rv da (m_trim N (min n (m_len N m)) m)"

definition nm_clear :: "'m msg_api \<Rightarrow> 'm \<Rightarrow> 'm" where
  "nm_clear N m = m_clear N m"

definition nm_push_front :: "'m msg_api \<Rightarrow> byte list \<Rightarrow> 'm \<Rightarrow> 'm run" where
  "nm_push_front N data m = expect_rv (m_insert N data m)"

definition nm_push_back :: "'m msg_api \<Rightarrow> byte list \<Rightarrow> 'm \<Rightarrow> 'm run" where
  "nm_push_back N data m = expect_rv (m_append N data m)"

text \<open>\<open>msg[i]\<close>, and \<open>msg[i] = b\<close> through \<open>as_mut_slice\<close>\<close>

definition nm_index :: "'m msg_api \<Rightarrow> nat \<Rightarrow> 'm \<Rightarrow> byte run" where
  "nm_index N i m =
     (if i < length (nm_as_slice N m) then Inr (nm_as_slice N m ! i) else Inl SliceIndex)"

definition nm_index_mut :: "'m msg_api \<Rightarrow> nat \<Rightarrow> byte \<Rightarrow> 'm \<Rightarrow> 'm run" where
  "nm_index_mut N i b m =
     (if i < length (nm_as_slice N m) then Inr (m_poke N i b m) else Inl SliceIndex)"

text \<open>\<open>io::Write\<close>: the result is always \<open>Ok\<close>.\<close>

definition nm_write :: "'m msg_api \<Rightarrow> byte list \<Rightarrow> 'm \<Rightarrow> ('m \<times> (io_error + nat)) run" where
  "nm_write N buf m = run_map (\<lambda>m. (m, Inr (length buf))) (nm_push_back N buf m)"

definition nm_write_all :: "'m msg_api \<Rightarrow> byte list \<Rightarrow> 'm \<Rightarrow> ('m \<times> (io_error + unit)) run" where
  "nm_write_all N buf m = run_map (\<lambda>m. (m, Inr ())) (nm_push_back N buf m)"

text \<open>\<open>Extend\<close> pushes the bytes one at a time, \<open>FromIterator\<close> starts from the iterator's lower bound.\<close>

fun nm_extend :: "'m msg_api \<Rightarrow> byte list \<Rightarrow> 'm \<Rightarrow> 'm run" where
  "nm_extend N [] m = Inr m"
| "nm_extend N (b # bs) m = run_bind (nm_push_back N [b] m) (nm_extend N bs)"

definition nm_from_iter :: "'m msg_api \<Rightarrow> nat \<Rightarrow> byte list \<Rightarrow> 'm run" where
  "nm_from_iter N lower iter = run_bind (nm_with_capacity N lower) (nm_extend N iter)"

section \<open>The header\<close>

definition nh_len :: "'m msg_api \<Rightarrow> 'm \<Rightarrow> nat" where
  "nh_len N m = m_header_len N m"

definition nh_is_empty :: "'m msg_api \<Rightarrow> 'm \<Rightarrow> bool" where
  "nh_is_empty N m \<longleftrightarrow> nh_len N m = 0"

definition nh_as_slice :: "'m msg_api \<Rightarrow> 'm \<Rightarrow> byte list" where
  "nh_as_slice N m = take (m_header_len N m) (m_header N m)"

definition nh_truncate :: "'m msg_api \<Rightarrow> bool \<Rightarrow> nat \<Rightarrow> 'm \<Rightarrow> 'm run" where
  "nh_truncate N da n m = assert_rv da (m_header_chop N (m_header_len N m - n) m)"

definition nh_trim :: "'m msg_api \<Rightarrow> bool \<Rightarrow> nat \<Rightarrow> 'm \<Rightarrow> 'm run" where
  "nh_trim N da n m = assert_rv da (m_header_trim N (min n (m_header_len N m)) m)"

definition nh_clear :: "'m msg_api \<Rightarrow> 'm \<Rightarrow> 'm" where
  "nh_clear N m = m_header_clear N m"

definition nh_push_back :: "'m msg_api \<Rightarrow> byte list \<Rightarrow> 'm \<Rightarrow> 'm run" where
  "nh_push_back N data m = expect_rv (m_header_append N data m)"

definition nh_push_front :: "'m msg_api \<Rightarrow> byte list \<Rightarrow> 'm \<Rightarrow> 'm run" where
  "nh_push_front N data m = expect_rv (m_header_insert N data m)"

definition nh_write :: "'m msg_api \<Rightarrow> byte list \<Rightarrow> 'm \<Rightarrow> ('m \<times> (io_error + nat)) run" where
  "nh_write N buf m = run_map (\<lambda>m. (m, Inr (length buf))) (nh_push_back N buf m)"

definition nh_write_all :: "'m msg_api \<Rightarrow> byte list \<Rightarrow> 'm \<Rightarrow> ('m \<times> (io_error + unit)) run" where
  "nh_write_all N buf m = run_map (\<lambda>m. (m, Inr ())) (nh_push_back N buf m)"

fun nh_extend :: "'m msg_api \<Rightarrow> byte list \<Rightarrow> 'm \<Rightarrow> 'm run" where
  "nh_extend N [] m = Inr m"
| "nh_extend N (b # bs) m = run_bind (nh_push_back N [b] m) (nh_extend N bs)"

definition nh_index :: "'m msg_api \<Rightarrow> nat \<Rightarrow> 'm \<Rightarrow> byte run" where
  "nh_index N i m =
     (if i < length (nh_as_slice N m) then Inr (nh_as_slice N m ! i) else Inl SliceIndex)"

definition nh_index_mut :: "'m msg_api \<Rightarrow> nat \<Rightarrow> byte \<Rightarrow> 'm \<Rightarrow> 'm run" where
  "nh_index_mut N i b m =
     (if i < length (nh_as_slice N m) then Inr (m_header_poke N i b m) else Inl SliceIndex)"

section \<open>Buffers that grow at the back\<close>

text \<open>
  What the bodies and headers of both crates share: a content and a frame that the operations leave
  alone; \<open>append\<close> adds at the back or panics because memory ran out, \<open>cut\<close> keeps a prefix.
\<close>

locale byte_buf =
  fixes inv :: "'s \<Rightarrow> bool" and content :: "'s \<Rightarrow> byte list" and frame :: "'s \<Rightarrow> byte list"
    and append :: "byte list \<Rightarrow> 's \<Rightarrow> 's run" and cut :: "nat \<Rightarrow> 's \<Rightarrow> 's run"
    and oom :: "panic set"
  assumes append_cases: "inv s \<Longrightarrow> (\<exists>p\<in>oom. append b s = Inl p)
      \<or> (\<exists>s'. append b s = Inr s' \<and> inv s' \<and> content s' = content s @ b \<and> frame s' = frame s)"
    and cut_takes: "inv s \<Longrightarrow>
      \<exists>s'. cut n s = Inr s' \<and> inv s' \<and> content s' = take n (content s) \<and> frame s' = frame s"
begin

text \<open>Cutting back to the old length undoes an append.\<close>

lemma cut_append:
  assumes "inv s" and "append b s = Inr s'"
  shows "\<exists>s''. cut (length (content s)) s' = Inr s'' \<and> inv s''
     \<and> content s'' = content s \<and> frame s'' = frame s"
proof -
  have "inv s'" and "content s' = content s @ b" and "frame s' = frame s"
    using append_cases [OF assms(1), of b] assms(2) by auto
  then show ?thesis using cut_takes [of s' "length (content s)"] by auto
qed

text \<open>Two appends are one, when all return.\<close>

lemma append_twice:
  assumes "inv s" and "append a s = Inr s1" and "append b s1 = Inr s2" and "append (a @ b) s = Inr s3"
  shows "content s2 = content s3 \<and> frame s2 = frame s3"
proof -
  have "inv s1 \<and> content s1 = content s @ a \<and> frame s1 = frame s"
    using append_cases [OF assms(1), of a] assms(2) by auto
  then show ?thesis
    using append_cases [of s1 b] append_cases [OF assms(1), of "a @ b"] assms(3,4) by auto
qed

end

text \<open>A buffer with \<open>Extend\<close>, which appends byte by byte.\<close>

locale extend_buf = byte_buf +
  fixes extend :: "byte list \<Rightarrow> 's \<Rightarrow> 's run"
  assumes extend_Nil: "extend [] s = Inr s"
    and extend_Cons: "extend (b # bs) s = run_bind (append [b] s) (extend bs)"
begin

lemma extend_appends:
  "inv s \<Longrightarrow> (\<exists>p\<in>oom. extend bs s = Inl p)
     \<or> (\<exists>s'. extend bs s = Inr s' \<and> inv s' \<and> content s' = content s @ bs \<and> frame s' = frame s)"
proof (induction bs arbitrary: s)
  case (Cons b bs)
  show ?case
  proof (cases "append [b] s")
    case (Inr s1)
    then have "inv s1" and "content s1 = content s @ [b]" and "frame s1 = frame s"
      using append_cases [OF Cons.prems, of "[b]"] by auto
    then show ?thesis using Cons.IH [of s1] Inr by (simp add: extend_Cons)
  qed (use append_cases [OF Cons.prems, of "[b]"] in \<open>auto simp: extend_Cons\<close>)
qed (simp add: extend_Nil)

lemma extend_is_append:
  assumes "inv s" and "extend bs s = Inr s1" and "append bs s = Inr s2"
  shows "content s1 = content s2 \<and> frame s1 = frame s2 \<and> inv s1 \<and> inv s2"
  using extend_appends [OF assms(1), of bs] append_cases [OF assms(1), of bs] assms(2,3) by auto

end

section \<open>The bodies and headers of both crates are such buffers\<close>

lemma expect_rv_Inr [simp]: "expect_rv (0, m) = Inr m"
  by (simp add: expect_rv_def rv2res_def)

lemma expect_rv_nomem [simp]: "expect_rv (2, m) = Inl ExpectFailed"
  by (simp add: expect_rv_def rv2res_def)

lemma assert_rv_zero [simp]: "assert_rv da (0, m) = Inr m"
  by (simp add: assert_rv_def)

lemma succeeds_assert:
  "succeeds N V r h b \<Longrightarrow>
    \<exists>m. assert_rv da r = Inr m \<and> V m \<and> m_header N m = h \<and> m_body N m = b"
  by (auto simp: succeeds_iff)

lemma expect_cases:
  "succeeds N V r h b \<or> no_memory N V r m0 \<Longrightarrow>
    expect_rv r = Inl ExpectFailed
    \<or> (\<exists>m. expect_rv r = Inr m \<and> V m \<and> m_header N m = h \<and> m_body N m = b)"
  by (auto simp: outcome_iffs)

context nng_msg
begin

lemma nm_push_back_cases:
  "V m \<Longrightarrow> nm_push_back N b m = Inl ExpectFailed
    \<or> (\<exists>m'. nm_push_back N b m = Inr m' \<and> V m' \<and> m_header N m' = m_header N m
         \<and> m_body N m' = m_body N m @ b)"
  unfolding nm_push_back_def by (rule expect_cases [OF append])

lemma nm_push_front_cases:
  "V m \<Longrightarrow> nm_push_front N b m = Inl ExpectFailed
    \<or> (\<exists>m'. nm_push_front N b m = Inr m' \<and> V m' \<and> m_header N m' = m_header N m
         \<and> m_body N m' = b @ m_body N m)"
  unfolding nm_push_front_def by (rule expect_cases [OF insert])

lemma nh_push_back_cases:
  "V m \<Longrightarrow> nh_push_back N b m = Inl ExpectFailed
    \<or> (\<exists>m'. nh_push_back N b m = Inr m' \<and> V m' \<and> m_header N m' = m_header N m @ b
         \<and> m_body N m' = m_body N m)"
  unfolding nh_push_back_def by (rule expect_cases [OF header_append])

lemma nh_push_front_cases:
  "V m \<Longrightarrow> nh_push_front N b m = Inl ExpectFailed
    \<or> (\<exists>m'. nh_push_front N b m = Inr m' \<and> V m' \<and> m_header N m' = b @ m_header N m
         \<and> m_body N m' = m_body N m)"
  unfolding nh_push_front_def by (rule expect_cases [OF header_insert])

lemma nm_truncate_takes:
  "V m \<Longrightarrow> \<exists>m'. nm_truncate N da n m = Inr m' \<and> V m' \<and> m_header N m' = m_header N m
     \<and> m_body N m' = take n (m_body N m)"
  unfolding nm_truncate_def
  using succeeds_assert [OF chop [of m "length (m_body N m) - n"], of da] len [of m]
  by (auto simp: min_def) (metis diff_diff_cancel nat_le_linear diff_is_0_eq' diff_zero take_all)

lemma nm_trim_drops:
  "V m \<Longrightarrow> \<exists>m'. nm_trim N da n m = Inr m' \<and> V m' \<and> m_header N m' = m_header N m
     \<and> m_body N m' = drop n (m_body N m)"
  unfolding nm_trim_def
  using succeeds_assert [OF trim [of m "min n (length (m_body N m))"], of da] len [of m]
  by (auto simp: min_def split: if_splits)

lemma nh_truncate_takes:
  "V m \<Longrightarrow> \<exists>m'. nh_truncate N da n m = Inr m' \<and> V m' \<and> m_body N m' = m_body N m
     \<and> m_header N m' = take n (m_header N m)"
  unfolding nh_truncate_def
  using succeeds_assert [OF header_chop [of m "length (m_header N m) - n"], of da] header_len [of m]
  by (auto simp: min_def) (metis diff_diff_cancel nat_le_linear diff_is_0_eq' diff_zero take_all)

lemma nh_trim_drops:
  "V m \<Longrightarrow> \<exists>m'. nh_trim N da n m = Inr m' \<and> V m' \<and> m_body N m' = m_body N m
     \<and> m_header N m' = drop n (m_header N m)"
  unfolding nh_trim_def
  using succeeds_assert [OF header_trim [of m "min n (length (m_header N m))"], of da]
    header_len [of m]
  by (auto simp: min_def split: if_splits)

end

text \<open>
  The four buffers.  The append of \<^verbatim>\<open>anng\<close> is a write whose error is unwrapped, so that all four
  panic when memory runs out.
\<close>

sublocale nng_msg \<subseteq> nng_body: extend_buf V "m_body N" "m_header N"
  "nm_push_back N" "\<lambda>n. nm_truncate N da n" "{ExpectFailed}" "nm_extend N" for da
proof
  show "V m \<Longrightarrow> (\<exists>p\<in>{ExpectFailed}. nm_push_back N b m = Inl p)
      \<or> (\<exists>m'. nm_push_back N b m = Inr m' \<and> V m' \<and> m_body N m' = m_body N m @ b
           \<and> m_header N m' = m_header N m)" for b m
    using nm_push_back_cases by blast
  show "V m \<Longrightarrow> \<exists>m'. nm_truncate N da n m = Inr m' \<and> V m' \<and> m_body N m' = take n (m_body N m)
      \<and> m_header N m' = m_header N m" for n m
    using nm_truncate_takes by blast
qed simp_all

sublocale nng_msg \<subseteq> nng_header: extend_buf V "m_header N" "m_body N"
  "nh_push_back N" "\<lambda>n. nh_truncate N da n" "{ExpectFailed}" "nh_extend N" for da
proof
  show "V m \<Longrightarrow> (\<exists>p\<in>{ExpectFailed}. nh_push_back N b m = Inl p)
      \<or> (\<exists>m'. nh_push_back N b m = Inr m' \<and> V m' \<and> m_header N m' = m_header N m @ b
           \<and> m_body N m' = m_body N m)" for b m
    using nh_push_back_cases by blast
  show "V m \<Longrightarrow> \<exists>m'. nh_truncate N da n m = Inr m' \<and> V m' \<and> m_header N m' = take n (m_header N m)
      \<and> m_body N m' = m_body N m" for n m
    using nh_truncate_takes by blast
qed simp_all

definition anng_append ::
  "'m msg_api \<Rightarrow> ffi_env \<Rightarrow> bool \<Rightarrow> byte list \<Rightarrow> 'm message \<Rightarrow> 'm message run" where
  "anng_append N E oc b m = expect_ok (write_body N E oc b m)"

definition anng_header_append ::
  "'m msg_api \<Rightarrow> ffi_env \<Rightarrow> byte list \<Rightarrow> 'm message \<Rightarrow> 'm message run" where
  "anng_header_append N E b m = expect_ok (write_header N E b m)"

lemma expect_ok_append:
  assumes "case r of Inl p \<Rightarrow> p \<in> P | Inr m' \<Rightarrow> Q m'"
  shows "(\<exists>p\<in>P. r = Inl p) \<or> (\<exists>m'. r = Inr m' \<and> Q m')"
  using assms by (cases r) auto

sublocale nng_msg \<subseteq> anng_body: byte_buf "msg_wf N V" "\<lambda>m. m_body N (inner m)"
  "\<lambda>m. m_header N (inner m)" "anng_append N E oc" "msg_truncate N" "{ExpectFailed, Oom, Overflow}"
  for E oc
proof
  fix b m assume wf: "msg_wf N V m"
  show "(\<exists>p\<in>{ExpectFailed, Oom, Overflow}. anng_append N E oc b m = Inl p)
      \<or> (\<exists>m'. anng_append N E oc b m = Inr m' \<and> msg_wf N V m'
           \<and> m_body N (inner m') = m_body N (inner m) @ b
           \<and> m_header N (inner m') = m_header N (inner m))"
    using expect_ok_append [OF expect_ok_meets [OF write_meets [OF wf, of E oc b]]]
    by (auto simp: anng_append_def abs_msg_def split: if_splits)
next
  fix n m assume "msg_wf N V m"
  from msg_truncate_spec [OF this, of n]
  show "\<exists>m'. msg_truncate N n m = Inr m' \<and> msg_wf N V m'
      \<and> m_body N (inner m') = take n (m_body N (inner m))
      \<and> m_header N (inner m') = m_header N (inner m)"
    by (auto simp: abs_msg_def)
qed

sublocale nng_msg \<subseteq> anng_header: byte_buf "msg_wf N V" "\<lambda>m. m_header N (inner m)"
  "\<lambda>m. m_body N (inner m)" "anng_header_append N E" "header_truncate N" "{ExpectFailed}"
  for E
proof
  fix b m assume wf: "msg_wf N V m"
  show "(\<exists>p\<in>{ExpectFailed}. anng_header_append N E b m = Inl p)
      \<or> (\<exists>m'. anng_header_append N E b m = Inr m' \<and> msg_wf N V m'
           \<and> m_header N (inner m') = m_header N (inner m) @ b
           \<and> m_body N (inner m') = m_body N (inner m))"
    using expect_ok_append [OF expect_ok_meets [OF write_header_meets [OF wf, of E oc b]]]
    by (auto simp: anng_header_append_def abs_msg_def)
next
  fix n m assume "msg_wf N V m"
  from header_truncate_spec [OF this, of n]
  show "\<exists>m'. header_truncate N n m = Inr m' \<and> msg_wf N V m'
      \<and> m_header N (inner m') = take n (m_header N (inner m))
      \<and> m_body N (inner m') = m_body N (inner m)"
    by (auto simp: abs_msg_def)
qed

section \<open>Runs of operations\<close>

datatype nm_op =
    BTruncate nat | BTrim nat | BClear | BPushBack "byte list" | BPushFront "byte list"
  | BExtend "byte list" | BStore nat byte
  | HTruncate nat | HTrim nat | HClear | HPushBack "byte list" | HPushFront "byte list"
  | HExtend "byte list" | HStore nat byte

fun nm_step :: "'m msg_api \<Rightarrow> bool \<Rightarrow> nm_op \<Rightarrow> 'm \<Rightarrow> 'm run" where
  "nm_step N da (BTruncate n) m = nm_truncate N da n m"
| "nm_step N da (BTrim n) m = nm_trim N da n m"
| "nm_step N da BClear m = Inr (nm_clear N m)"
| "nm_step N da (BPushBack b) m = nm_push_back N b m"
| "nm_step N da (BPushFront b) m = nm_push_front N b m"
| "nm_step N da (BExtend b) m = nm_extend N b m"
| "nm_step N da (BStore i b) m = nm_index_mut N i b m"
| "nm_step N da (HTruncate n) m = nh_truncate N da n m"
| "nm_step N da (HTrim n) m = nh_trim N da n m"
| "nm_step N da HClear m = Inr (nh_clear N m)"
| "nm_step N da (HPushBack b) m = nh_push_back N b m"
| "nm_step N da (HPushFront b) m = nh_push_front N b m"
| "nm_step N da (HExtend b) m = nh_extend N b m"
| "nm_step N da (HStore i b) m = nh_index_mut N i b m"

text \<open>The specification, on the header and the body.\<close>

fun nm_spec :: "nm_op \<Rightarrow> byte list \<times> byte list \<Rightarrow> byte list \<times> byte list" where
  "nm_spec (BTruncate n) (h, b) = (h, take n b)"
| "nm_spec (BTrim n) (h, b) = (h, drop n b)"
| "nm_spec BClear (h, b) = (h, [])"
| "nm_spec (BPushBack x) (h, b) = (h, b @ x)"
| "nm_spec (BPushFront x) (h, b) = (h, x @ b)"
| "nm_spec (BExtend x) (h, b) = (h, b @ x)"
| "nm_spec (BStore i x) (h, b) = (h, b[i := x])"
| "nm_spec (HTruncate n) (h, b) = (take n h, b)"
| "nm_spec (HTrim n) (h, b) = (drop n h, b)"
| "nm_spec HClear (h, b) = ([], b)"
| "nm_spec (HPushBack x) (h, b) = (h @ x, b)"
| "nm_spec (HPushFront x) (h, b) = (x @ h, b)"
| "nm_spec (HExtend x) (h, b) = (h @ x, b)"
| "nm_spec (HStore i x) (h, b) = (h[i := x], b)"

fun nm_panics :: "nm_op \<Rightarrow> byte list \<times> byte list \<Rightarrow> panic set" where
  "nm_panics (BStore i x) (h, b) = (if length b \<le> i then {SliceIndex} else {})"
| "nm_panics (HStore i x) (h, b) = (if length h \<le> i then {SliceIndex} else {})"
| "nm_panics (BPushBack x) c = {ExpectFailed}"
| "nm_panics (BPushFront x) c = {ExpectFailed}"
| "nm_panics (BExtend x) c = {ExpectFailed}"
| "nm_panics (HPushBack x) c = {ExpectFailed}"
| "nm_panics (HPushFront x) c = {ExpectFailed}"
| "nm_panics (HExtend x) c = {ExpectFailed}"
| "nm_panics _ c = {}"

definition nm_contents :: "'m msg_api \<Rightarrow> 'm \<Rightarrow> byte list \<times> byte list" where
  "nm_contents N m = (m_header N m, m_body N m)"

fun nm_run :: "'m msg_api \<Rightarrow> bool \<Rightarrow> nm_op list \<Rightarrow> 'm \<Rightarrow> 'm run" where
  "nm_run N da [] m = Inr m"
| "nm_run N da (op # ops) m = run_bind (nm_step N da op m) (nm_run N da ops)"

context nng_msg
begin

lemma nm_as_slice_eq [simp]: "V m \<Longrightarrow> nm_as_slice N m = m_body N m"
  by (simp add: nm_as_slice_def len)

lemma nh_as_slice_eq [simp]: "V m \<Longrightarrow> nh_as_slice N m = m_header N m"
  by (simp add: nh_as_slice_def header_len)

lemma nm_step_spec:
  assumes "V m"
  shows "case nm_step N da op m of
     Inl p \<Rightarrow> p \<in> nm_panics op (nm_contents N m)
   | Inr m' \<Rightarrow> V m' \<and> nm_contents N m' = nm_spec op (nm_contents N m)"
proof (cases op)
  case (BTruncate n)
  then show ?thesis using nm_truncate_takes [OF assms, of da n] by (auto simp: nm_contents_def)
next
  case (BTrim n)
  then show ?thesis using nm_trim_drops [OF assms, of da n] by (auto simp: nm_contents_def)
next
  case BClear
  then show ?thesis using clear [OF assms] by (simp add: nm_contents_def nm_clear_def)
next
  case (BPushBack b)
  then show ?thesis using nm_push_back_cases [OF assms, of b] by (auto simp: nm_contents_def)
next
  case (BPushFront b)
  then show ?thesis using nm_push_front_cases [OF assms, of b] by (auto simp: nm_contents_def)
next
  case (BExtend b)
  then show ?thesis using nng_body.extend_appends [OF assms, of b] by (auto simp: nm_contents_def)
next
  case (BStore i b)
  then show ?thesis using assms poke [OF assms, of i b]
    by (auto simp: nm_contents_def nm_index_mut_def)
next
  case (HTruncate n)
  then show ?thesis using nh_truncate_takes [OF assms, of da n] by (auto simp: nm_contents_def)
next
  case (HTrim n)
  then show ?thesis using nh_trim_drops [OF assms, of da n] by (auto simp: nm_contents_def)
next
  case HClear
  then show ?thesis using header_clear [OF assms] by (simp add: nm_contents_def nh_clear_def)
next
  case (HPushBack b)
  then show ?thesis using nh_push_back_cases [OF assms, of b] by (auto simp: nm_contents_def)
next
  case (HPushFront b)
  then show ?thesis using nh_push_front_cases [OF assms, of b] by (auto simp: nm_contents_def)
next
  case (HExtend b)
  then show ?thesis using nng_header.extend_appends [OF assms, of b] by (auto simp: nm_contents_def)
next
  case (HStore i b)
  then show ?thesis using assms header_poke [OF assms, of i b]
    by (auto simp: nm_contents_def nh_index_mut_def)
qed

text \<open>A run that returns has performed every operation; one that panicked stopped at the first.\<close>

lemma nm_run_spec:
  assumes "V m"
  shows "case nm_run N da ops m of
     Inl p \<Rightarrow> \<exists>k<length ops. p \<in> nm_panics (ops ! k) (fold nm_spec (take k ops) (nm_contents N m))
   | Inr m' \<Rightarrow> V m' \<and> nm_contents N m' = fold nm_spec ops (nm_contents N m)"
  using assms
proof (induction ops arbitrary: m)
  case (Cons op ops)
  note step = nm_step_spec [OF Cons.prems, where da = da and op = op]
  show ?case
  proof (cases "nm_step N da op m")
    case (Inl p)
    then show ?thesis using step by (auto intro!: exI [of _ 0])
  next
    case (Inr m1)
    then have 1: "V m1" "nm_contents N m1 = nm_spec op (nm_contents N m)" using step by simp_all
    show ?thesis
    proof (cases "nm_run N da ops m1")
      case (Inl p)
      then obtain k where "k < length ops"
          "p \<in> nm_panics (ops ! k) (fold nm_spec (take k ops) (nm_contents N m1))"
        using Cons.IH [OF 1(1)] by auto
      then show ?thesis using Inl Inr 1 by (auto intro!: exI [of _ "Suc k"])
    next
      case (Inr m2)
      then show ?thesis using Cons.IH [OF 1(1)] 1 \<open>nm_step N da op m = Inr m1\<close> by simp
    qed
  qed
qed simp

lemma copy_to_body_spec:
  "\<lbrakk>V m; i + length bs \<le> length (m_body N m)\<rbrakk> \<Longrightarrow>
     V (copy_to_body N i bs m) \<and> m_header N (copy_to_body N i bs m) = m_header N m
     \<and> m_body N (copy_to_body N i bs m)
         = take i (m_body N m) @ bs @ drop (i + length bs) (m_body N m)"
proof (induction bs arbitrary: i m)
  case (Cons b bs)
  let ?m = "m_poke N i b m"
  have m: "V ?m" "m_header N ?m = m_header N m" "m_body N ?m = (m_body N m)[i := b]"
    using poke [of m i b] Cons.prems by auto
  have "take (Suc i) ((m_body N m)[i := b]) = take i (m_body N m) @ [b]"
    using Cons.prems by (simp add: take_Suc_conv_app_nth take_update_cancel)
  then show ?case using Cons.IH [of ?m "Suc i"] m Cons.prems by (simp add: drop_update_cancel)
qed simp

lemma expect_alloc:
  "expect_ptr (m_alloc N n) = Inl ExpectFailed
   \<or> (\<exists>m. expect_ptr (m_alloc N n) = Inr m \<and> V m \<and> length (m_body N m) = n \<and> m_header N m = [])"
  using alloc [of n] by (cases "m_alloc N n") (auto simp: expect_ptr_def validate_ptr_def)

lemma nm_from_slice_spec:
  "nm_from_slice N s = Inl ExpectFailed
   \<or> (\<exists>m. nm_from_slice N s = Inr m \<and> V m \<and> nm_contents N m = ([], s))"
  using expect_alloc [of "length s"] copy_to_body_spec [of _ 0 s]
  by (fastforce simp: nm_from_slice_def nm_contents_def)

lemma nm_with_capacity_spec:
  "nm_with_capacity N n = Inl ExpectFailed
   \<or> (\<exists>m. nm_with_capacity N n = Inr m \<and> V m \<and> nm_contents N m = ([], []))"
  using expect_alloc [of n] clear by (fastforce simp: nm_with_capacity_def nm_contents_def)

lemma nm_from_iter_spec:
  "nm_from_iter N lower s = Inl ExpectFailed
   \<or> (\<exists>m. nm_from_iter N lower s = Inr m \<and> V m \<and> nm_contents N m = ([], s))"
proof (cases "nm_with_capacity N lower")
  case (Inr m)
  then have "V m" "nm_contents N m = ([], [])" using nm_with_capacity_spec [of lower] by auto
  then show ?thesis using Inr nng_body.extend_appends [of m s]
    by (auto simp: nm_from_iter_def nm_contents_def)
qed (use nm_with_capacity_spec [of lower] in \<open>auto simp: nm_from_iter_def\<close>)

lemma nm_clone_spec:
  "V m \<Longrightarrow> nm_clone N m = Inl ExpectFailed
   \<or> (\<exists>d. nm_clone N m = Inr d \<and> V d \<and> nm_contents N d = nm_contents N m)"
  using dup [of m]
  by (cases "m_dup N m") (auto simp: nm_clone_def expect_ptr_def validate_ptr_def nm_contents_def)

end

section \<open>Properties\<close>

text \<open>
  The operation of \<^verbatim>\<open>anng\<close> that edits a message of the given lengths as \<open>op\<close> does; \<^verbatim>\<open>anng\<close> has no
  store into a header.
\<close>

fun anng_op :: "nat \<Rightarrow> nat \<Rightarrow> nm_op \<Rightarrow> msg_op" where
  "anng_op h b (BTruncate n) = Truncate n"
| "anng_op h b (BTrim n) = TruncateFront (b - n)"
| "anng_op h b BClear = Truncate 0"
| "anng_op h b (BPushBack x) = Write x"
| "anng_op h b (BPushFront x) = Prepend x"
| "anng_op h b (BExtend x) = Write x"
| "anng_op h b (BStore i x) = Store i x"
| "anng_op h b (HTruncate n) = HeaderTruncate n"
| "anng_op h b (HTrim n) = HeaderTruncateFront (h - n)"
| "anng_op h b HClear = HeaderTruncate 0"
| "anng_op h b (HPushBack x) = WriteHeader x"
| "anng_op h b (HPushFront x) = PrependHeader x"
| "anng_op h b (HExtend x) = WriteHeader x"

definition anng_contents :: "'m msg_api \<Rightarrow> 'm message \<Rightarrow> byte list \<times> byte list" where
  "anng_contents N m = nm_contents N (inner m)"

lemma anng_contents_abs: "anng_contents N m = (a_header (abs_msg N m), a_body (abs_msg N m))"
  by (simp add: anng_contents_def nm_contents_def abs_msg_def)

lemma drop_diff_diff: "drop (length xs - (length xs - n)) xs = drop n xs"
  by (cases "n \<le> length xs") simp_all

lemma spec_step_contents:
  assumes "c = (a_header a, a_body a)" and "\<forall>i b. op \<noteq> HStore i b"
  shows "nm_spec op c = (a_header (spec_step (anng_op (length (fst c)) (length (snd c)) op) a),
     a_body (spec_step (anng_op (length (fst c)) (length (snd c)) op) a))"
  using assms by (cases op) (simp_all add: Let_def drop_diff_diff)

lemma meets_spec_Inr:
  "\<lbrakk>meets_spec N V E oc op m r; r = Inr (m', Inr k)\<rbrakk> \<Longrightarrow> abs_msg N m' = spec_step op (abs_msg N m)"
  by (simp add: meets_spec_def)

lemma meets_spec_Inl_SliceIndex:
  assumes "meets_spec N V E oc op m r" and "r = Inl SliceIndex"
  shows "\<exists>i b. op = Store i b \<and> length (a_body (abs_msg N m)) \<le> i"
  using assms by (cases op) (auto simp: meets_spec_def split: if_splits)

lemma nm_panics_SliceIndex:
  "SliceIndex \<in> nm_panics op c \<longleftrightarrow> (\<exists>i b. op = BStore i b \<and> length (snd c) \<le> i)
     \<or> (\<exists>i b. op = HStore i b \<and> length (fst c) \<le> i)"
  by (cases op; cases c) auto

lemma nm_panics_subset: "nm_panics op c \<subseteq> {ExpectFailed, SliceIndex}"
  by (cases op; cases c) auto

definition sample_nm_ops :: "nm_op list" where
  "sample_nm_ops = [BExtend [4, 5], BTrim 2, BPushFront [9], HPushBack [8], HTrim 1, BStore 0 6,
     HStore 0 7]"

lemmas sample_nm_eval = nm_truncate_def nm_trim_def nm_push_back_def nm_push_front_def
  nh_trim_def nh_push_back_def nm_index_mut_def nm_as_slice_def nh_index_mut_def nh_as_slice_def
  assert_rv_def expect_rv_def
  rv2res_def

text \<open>C4. Runs of the \<^verbatim>\<open>nng\<close> message operations.  However body and header operations are mixed, a
  run that returns has computed exactly its specification on the header and the body; a run that
  panics does so at an operation that had to allocate, or at an index outside the body.  No debug
  assertion ever fires.\<close>

theorem nng_message_runs_refine:
  assumes "nng_msg N V" and "V m"
  shows "case nm_run N da ops m of
     Inl p \<Rightarrow> p \<in> {ExpectFailed, SliceIndex}
       \<and> (\<exists>k<length ops. p \<in> nm_panics (ops ! k) (fold nm_spec (take k ops) (nm_contents N m)))
   | Inr m' \<Rightarrow> V m' \<and> nm_contents N m' = fold nm_spec ops (nm_contents N m)"
  using nng_msg.nm_run_spec [OF assms, where da = da and ops = ops]
  by (auto split: sum.splits dest!: subsetD [OF nm_panics_subset])

theorem nng_message_runs_refine_witness:
  "\<exists>m'. nm_run ref_api True sample_nm_ops (inner sample_msg) = Inr m'
     \<and> nm_contents ref_api m' = ([7], [6, 3, 4, 5])"
proof -
  have ok: "ref_ok (inner sample_msg)" using sample_msg_wf by (simp add: msg_wf_def)
  have "\<exists>m'. nm_run ref_api True sample_nm_ops (inner sample_msg) = Inr m'"
    by (simp add: sample_nm_ops_def sample_nm_eval sample_eval)
  moreover have "fold nm_spec sample_nm_ops (nm_contents ref_api (inner sample_msg))
      = ([7], [6, 3, 4, 5])"
    by (simp add: sample_nm_ops_def nm_contents_def sample_eval)
  ultimately show ?thesis
    using nng_message_runs_refine [OF ref.nng_msg_axioms ok, where da = True and ops = sample_nm_ops]
    by auto
qed

text \<open>C17. The two crates edit messages alike.  Starting from the same header and body, an operation of
  \<^verbatim>\<open>nng\<close> and the operation of \<^verbatim>\<open>anng\<close> that corresponds to it (\<open>trim(n)\<close> to \<open>truncate_front(len - n)\<close>)
  leave the same header and body whenever both succeed (only a store into the header has none); both refuse an index out of range; and
  creating a message from a slice gives the same contents.  They differ in how they fail only: where
  \<^verbatim>\<open>nng\<close> panics in \<open>expect\<close>, for want of memory, \<^verbatim>\<open>anng\<close> returns an error or panics.\<close>

theorem crates_edit_messages_alike:
  assumes "nng_msg N V" and "V i" and "msg_wf N V m" and "nm_contents N i = anng_contents N m"
    and "\<forall>j b. op \<noteq> HStore j b"
  defines "aop \<equiv> anng_op (length (m_header N i)) (length (m_body N i))"
  shows "(\<forall>i' m' k. nm_step N da op i = Inr i' \<and> msg_step N E oc (aop op) m = Inr (m', Inr k)
       \<longrightarrow> nm_contents N i' = anng_contents N m')
    \<and> (nm_step N da op i = Inl SliceIndex \<longleftrightarrow> msg_step N E oc (aop op) m = Inl SliceIndex)
    \<and> (\<forall>p. nm_step N da op i = Inl p \<longrightarrow> p \<in> {ExpectFailed, SliceIndex})
    \<and> (\<forall>i' m' s. nm_from_slice N s = Inr i' \<and> from_slice N E oc s = Inr m'
       \<longrightarrow> nm_contents N i' = anng_contents N m')"
proof -
  note step = nng_msg.nm_step_spec [OF assms(1,2), where da = da and op = op]
  note meets = nng_msg.msg_step_meets [OF assms(1,3), where E = E and oc = oc and op = "aop op"]
  have c: "nm_contents N i = (a_header (abs_msg N m), a_body (abs_msg N m))"
    using assms(4) anng_contents_abs by metis
  then have lens: "m_header N i = a_header (abs_msg N m)" "m_body N i = a_body (abs_msg N m)"
    by (simp_all add: nm_contents_def)
  have 1: "nm_contents N i' = anng_contents N m'"
    if "nm_step N da op i = Inr i'" and "msg_step N E oc (aop op) m = Inr (m', Inr k)" for i' m' k
    using step that meets_spec_Inr [OF meets that(2)] spec_step_contents [OF c assms(5)]
    by (simp add: anng_contents_abs aop_def c lens)
  have 2: "nm_step N da op i = Inl SliceIndex \<longleftrightarrow> msg_step N E oc (aop op) m = Inl SliceIndex"
  proof
    assume "nm_step N da op i = Inl SliceIndex"
    then obtain j b where "op = BStore j b" "length (m_body N i) \<le> j"
      using step nm_panics_SliceIndex [of op "nm_contents N i"] assms(5)
      by (auto simp: nm_contents_def)
    then show "msg_step N E oc (aop op) m = Inl SliceIndex"
      using nng_msg.len_eq [OF assms(1)] assms(3) lens
      by (simp add: aop_def unit_op_def store_def msg_wf_def abs_msg_def)
  next
    assume "msg_step N E oc (aop op) m = Inl SliceIndex"
    then obtain j b where "aop op = Store j b" "length (m_body N i) \<le> j"
      using meets_spec_Inl_SliceIndex [OF meets] lens by auto
    then show "nm_step N da op i = Inl SliceIndex"
      using nng_msg.nm_as_slice_eq [OF assms(1,2)]
      using assms(5) by (cases op) (simp_all add: aop_def nm_index_mut_def)
  qed
  have 3: "nm_contents N i' = anng_contents N m'"
    if "nm_from_slice N s = Inr i'" and "from_slice N E oc s = Inr m'" for i' m' s
    using nng_msg.nm_from_slice_spec [OF assms(1), of s] that
      nng_msg.from_slice_spec [OF assms(1), where E = E and oc = oc and data = s]
    by (auto simp: anng_contents_abs)
  have 4: "p \<in> {ExpectFailed, SliceIndex}" if "nm_step N da op i = Inl p" for p
    using step nm_panics_subset that by fastforce
  show ?thesis using 1 2 3 4 by blast
qed

theorem crates_edit_messages_alike_witness:
  "\<exists>i' m'. nm_step ref_api True (BTrim 1) (inner sample_msg) = Inr i'
     \<and> msg_step ref_api sample_env True (TruncateFront 2) sample_msg = Inr (m', Inr 0)
     \<and> nm_contents ref_api i' = anng_contents ref_api m'"
proof -
  have ok: "ref_ok (inner sample_msg)" using sample_msg_wf by (simp add: msg_wf_def)
  have "\<exists>i'. nm_step ref_api True (BTrim 1) (inner sample_msg) = Inr i'"
    and "\<exists>m'. msg_step ref_api sample_env True (TruncateFront 2) sample_msg = Inr (m', Inr 0)"
    and "length (m_body ref_api (inner sample_msg)) = 3"
    by (simp_all add: sample_nm_eval sample_eval)
  then show ?thesis
    using crates_edit_messages_alike [OF ref.nng_msg_axioms ok sample_msg_wf,
        where op = "BTrim 1" and da = True and oc = True and E = sample_env]
    by (auto simp: anng_contents_def)
qed

end
