(* ===== verification/NngAio.thy ===== *)
theory NngAio
  imports Errors "HOL-Library.Multiset"
begin

text \<open>
  \<^verbatim>\<open>nng::Aio\<close> (nng/src/aio.rs): a handle that any number of threads share by cloning, an atomic
  state word that lets one operation run at a time, and the callback that NNG runs when the
  operation completes.  Every access to the atomic word, every C call and every step of the
  callback is a step of its own, so that all interleavings of threads are runs of the relation;
  the orderings of the atomics are read as sequentially consistent.
\<close>

section \<open>The state word\<close>

datatype aio_state = Inactive | Sending | Receiving | Sleeping

fun state_usize :: "aio_state \<Rightarrow> nat" where
  "state_usize Inactive = 0"
| "state_usize Sending = 1"
| "state_usize Receiving = 2"
| "state_usize Sleeping = 3"

definition state_from :: "nat \<Rightarrow> aio_state run" where
  "state_from atm =
     (if atm = state_usize Inactive then Inr Inactive
      else if atm = state_usize Sending then Inr Sending
      else if atm = state_usize Receiving then Inr Receiving
      else if atm = state_usize Sleeping then Inr Sleeping
      else Inl Unreachable)"

lemma state_from_usize [simp]: "state_from (state_usize s) = Inr s"
  by (cases s) (simp_all add: state_from_def)

section \<open>Results\<close>

datatype 'm aio_result =
    SendRes "('m \<times> error) + unit" | RecvRes "error + 'm" | SleepRes "error + unit"

text \<open>\<open>impl From<AioResult> for Result<Option<Message>>\<close>\<close>

fun aio_result_into :: "'m aio_result \<Rightarrow> error + 'm option" where
  "aio_result_into (RecvRes (Inr m)) = Inr (Some m)"
| "aio_result_into (SendRes (Inr u)) = Inr None"
| "aio_result_into (SleepRes (Inr u)) = Inr None"
| "aio_result_into (SendRes (Inl (m, e))) = Inl e"
| "aio_result_into (RecvRes (Inl e)) = Inl e"
| "aio_result_into (SleepRes (Inl e)) = Inl e"

text \<open>\<open>NonZeroU32::new(e).unwrap().into()\<close> and \<open>NonNull::new(msgp).unwrap()\<close>\<close>

definition nz_error :: "u32 \<Rightarrow> error run" where
  "nz_error e = (if e = 0 then Inl ExpectFailed else Inr (error_from e))"

definition unwrap_msg :: "'m option \<Rightarrow> 'm run" where
  "unwrap_msg p = (case p of None \<Rightarrow> Inl ExpectFailed | Some m \<Rightarrow> Inr m)"

text \<open>The \<open>match (state, rv)\<close> of the callback; \<open>slot\<close> is what \<^verbatim>\<open>nng_aio_get_msg\<close> returns.\<close>

definition callback_result :: "aio_state \<Rightarrow> u32 \<Rightarrow> 'm option \<Rightarrow> 'm aio_result run" where
  "callback_result s rv slot =
     (case s of
        Sending \<Rightarrow>
          if rv = 0 then Inr (SendRes (Inr ()))
          else run_bind (unwrap_msg slot) (\<lambda>msg.
            run_map (\<lambda>e. SendRes (Inl (msg, e))) (nz_error rv))
      | Receiving \<Rightarrow>
          if rv = 0 then run_map (\<lambda>msg. RecvRes (Inr msg)) (unwrap_msg slot)
          else run_map (\<lambda>e. RecvRes (Inl e)) (nz_error rv)
      | Sleeping \<Rightarrow>
          if rv = 0 then Inr (SleepRes (Inr ())) else run_map (\<lambda>e. SleepRes (Inl e)) (nz_error rv)
      | Inactive \<Rightarrow> Inl Unreachable)"

section \<open>Threads, callbacks and NNG\<close>

text \<open>
  Where a thread is in a method: between two methods, or after the compare-and-exchange that
  claimed the handle, with the C calls still to make.  \<open>HasTimeout\<close> and \<open>DidTimeout\<close> are
  \<open>set_timeout\<close> before and after its C call.
\<close>

datatype 'm client =
    Ready | HasSend 'm | SetSend | HasRecv | HasSleep | HasTimeout | DidTimeout

text \<open>
  Where one run of the callback is: not running, entered, past \<open>weak.upgrade()\<close>, past the load of
  the state, with the result computed, past the store of \<open>Inactive\<close>, or inside the user's closure,
  which runs on the given thread.
\<close>

datatype 'm callback =
    NoCb | Entered | Upgraded | Loaded aio_state | Computed "'m aio_result"
  | Stored "'m aio_result" | InUser nat

datatype nng_phase = NIdle | Running aio_state | Completed

text \<open>
  The books, which no code reads: the messages given to a send, given back at once because the
  handle was busy, taken over by NNG, and received by NNG; the results handed to the user's
  closure; the operations begun; and what was in the handle when a callback found it dropped.
\<close>

record 'm ledger =
  offered :: "'m list"
  rejected :: "'m list"
  accepted :: "'m list"
  arrived :: "'m list"
  results :: "'m aio_result list"
  begun :: nat
  unreported :: nat
  leaked_out :: "'m list"
  leaked_in :: "'m list"

record 'm shared =
  n_state :: aio_state
  n_phase :: nng_phase
  n_result :: u32
  n_slot :: "'m option"
  clients :: "nat \<Rightarrow> 'm client"
  cbs :: "nat \<Rightarrow> 'm callback"
  holders :: "nat set"
  stopping :: "nat option"
  aio_freed :: bool
  aborted :: "panic option"
  books :: "'m ledger"

section \<open>Creating a handle\<close>

text \<open>
  \<open>Aio::new\<close>: what \<^verbatim>\<open>nng_aio_alloc\<close> returned, and whether the boxed callback is owned by the handle
  afterwards; on an error the raw pointer to the box is dropped and nobody frees it.
\<close>

definition nng_aio_new :: "u32 \<Rightarrow> 'p option \<Rightarrow> ((error + 'p) run) \<times> bool" where
  "nng_aio_new rv aio =
     (if rv \<noteq> 0 \<and> aio \<noteq> None then (Inr (Inl (Unknown 0)), False)
      else (case validate_ptr rv aio of
              Inl p \<Rightarrow> (Inl p, False)
            | Inr (Inl e) \<Rightarrow> (Inr (Inl e), False)
            | Inr (Inr h) \<Rightarrow> (Inr (Inr h), True)))"

definition fresh_aio :: "nat \<Rightarrow> 'm shared" where
  "fresh_aio t = \<lparr>n_state = Inactive, n_phase = NIdle, n_result = 0, n_slot = None,
     clients = (\<lambda>_. Ready), cbs = (\<lambda>_. NoCb), holders = {t}, stopping = None, aio_freed = False,
     aborted = None,
     books = \<lparr>offered = [], rejected = [], accepted = [], arrived = [], results = [], begun = 0,
       unreported = 0, leaked_out = [], leaked_in = []\<rparr>\<rparr>"

section \<open>The methods, step by step\<close>

definition compare_exchange ::
  "aio_state \<Rightarrow> aio_state \<Rightarrow> 'm shared \<Rightarrow> bool \<times> 'm shared" where
  "compare_exchange current new w =
     (if n_state w = current then (True, w\<lparr>n_state := new\<rparr>) else (False, w))"

definition at_pc :: "nat \<Rightarrow> 'm client \<Rightarrow> 'm shared \<Rightarrow> 'm shared" where
  "at_pc t c w = w\<lparr>clients := (clients w)(t := c)\<rparr>"

text \<open>
  \<open>send_socket\<close> and \<open>send_ctx\<close>: claim the handle or give the message back; then set the message;
  then start the operation.  The two differ in the C function that starts it.
\<close>

definition send_begin :: "nat \<Rightarrow> 'm \<Rightarrow> 'm shared \<Rightarrow> ('m \<times> error + unit) \<times> 'm shared" where
  "send_begin t msg w =
     (let (ok, w1) = compare_exchange Inactive Sending w in
      if \<not> ok then (Inl (msg, error.IncorrectState), w1)
      else (Inr (), at_pc t (HasSend msg) w1))"

definition send_set_msg :: "nat \<Rightarrow> 'm \<Rightarrow> 'm shared \<Rightarrow> 'm shared" where
  "send_set_msg t msg w = at_pc t SetSend (w\<lparr>n_slot := Some msg\<rparr>)"

definition send_start :: "nat \<Rightarrow> 'm shared \<Rightarrow> 'm shared" where
  "send_start t w = at_pc t Ready (w\<lparr>n_phase := Running Sending\<rparr>)"

text \<open>\<open>recv_socket\<close> and \<open>recv_ctx\<close>\<close>

definition recv_begin :: "nat \<Rightarrow> 'm shared \<Rightarrow> (error + unit) \<times> 'm shared" where
  "recv_begin t w =
     (let (ok, w1) = compare_exchange Inactive Receiving w in
      if \<not> ok then (Inl error.IncorrectState, w1) else (Inr (), at_pc t HasRecv w1))"

definition recv_start :: "nat \<Rightarrow> 'm shared \<Rightarrow> 'm shared" where
  "recv_start t w = at_pc t Ready (w\<lparr>n_phase := Running Receiving\<rparr>)"

text \<open>\<open>sleep\<close>\<close>

definition sleep_begin :: "nat \<Rightarrow> 'm shared \<Rightarrow> (error + unit) \<times> 'm shared" where
  "sleep_begin t w =
     (let (ok, w1) = compare_exchange Inactive Sleeping w in
      if \<not> ok then (Inl error.IncorrectState, w1) else (Inr (), at_pc t HasSleep w1))"

definition sleep_start :: "nat \<Rightarrow> 'm shared \<Rightarrow> 'm shared" where
  "sleep_start t w = at_pc t Ready (w\<lparr>n_phase := Running Sleeping\<rparr>)"

text \<open>\<open>set_timeout\<close> holds the handle in the state \<open>Sleeping\<close> around its C call.\<close>

definition timeout_begin :: "nat \<Rightarrow> 'm shared \<Rightarrow> (error + unit) \<times> 'm shared" where
  "timeout_begin t w =
     (let (ok, w1) = compare_exchange Inactive Sleeping w in
      if \<not> ok then (Inl error.IncorrectState, w1) else (Inr (), at_pc t HasTimeout w1))"

definition timeout_set :: "nat \<Rightarrow> 'm shared \<Rightarrow> 'm shared" where
  "timeout_set t w = at_pc t DidTimeout w"

definition timeout_done :: "nat \<Rightarrow> 'm shared \<Rightarrow> 'm shared" where
  "timeout_done t w = at_pc t Ready (w\<lparr>n_state := Inactive\<rparr>)"

section \<open>The callback, step by step\<close>

definition at_cb :: "nat \<Rightarrow> 'm callback \<Rightarrow> 'm shared \<Rightarrow> 'm shared" where
  "at_cb i c w = w\<lparr>cbs := (cbs w)(i := c)\<rparr>"

text \<open>\<open>weak.upgrade()\<close> fails once the last strong reference is gone.\<close>

definition cb_upgrade :: "nat \<Rightarrow> 'm shared \<Rightarrow> 'm shared" where
  "cb_upgrade i w = at_cb i (if stopping w = None then Upgraded else NoCb) w"

definition cb_load :: "nat \<Rightarrow> 'm shared \<Rightarrow> 'm shared" where
  "cb_load i w = at_cb i (Loaded (n_state w)) w"

definition cb_compute :: "nat \<Rightarrow> aio_state \<Rightarrow> 'm shared \<Rightarrow> 'm shared" where
  "cb_compute i s w =
     (case callback_result s (n_result w) (n_slot w) of
        Inl p \<Rightarrow> w\<lparr>aborted := Some p\<rparr>
      | Inr r \<Rightarrow> at_cb i (Computed r) w)"

definition cb_store :: "nat \<Rightarrow> 'm aio_result \<Rightarrow> 'm shared \<Rightarrow> 'm shared" where
  "cb_store i r w = at_cb i (Stored r) (w\<lparr>n_state := Inactive\<rparr>)"

definition cb_call :: "nat \<Rightarrow> nat \<Rightarrow> 'm shared \<Rightarrow> 'm shared" where
  "cb_call i t w = at_cb i (InUser t) (w\<lparr>holders := insert t (holders w)\<rparr>)"

text \<open>A callback between the upgrade and the call of the closure owns a strong reference.\<close>

fun owns_ref :: "'m callback \<Rightarrow> bool" where
  "owns_ref Upgraded = True"
| "owns_ref (Loaded s) = True"
| "owns_ref (Computed r) = True"
| "owns_ref (Stored r) = True"
| "owns_ref _ = False"

text \<open>Dropping a clone; the thread that drops the last reference runs \<open>Inner::drop\<close>.\<close>

definition drop_handle :: "nat \<Rightarrow> 'm shared \<Rightarrow> 'm shared" where
  "drop_handle t w =
     (let w1 = w\<lparr>holders := holders w - {t}\<rparr> in
      if holders w = {t} \<and> (\<forall>i. \<not> owns_ref (cbs w i)) then w1\<lparr>stopping := Some t\<rparr> else w1)"

section \<open>All interleavings\<close>

text \<open>
  What is lost when a callback finds the handle dropped: the message of a send that failed, or
  the one that a receive brought.
\<close>

definition stuck_out :: "'m shared \<Rightarrow> 'm list" where
  "stuck_out w = (if n_state w = Sending \<and> n_result w \<noteq> 0 then opt_list (n_slot w) else [])"

definition stuck_in :: "'m shared \<Rightarrow> 'm list" where
  "stuck_in w = (if n_state w = Receiving \<and> n_result w = 0 then opt_list (n_slot w) else [])"

definition record_in :: "('m ledger \<Rightarrow> 'm ledger) \<Rightarrow> 'm shared \<Rightarrow> 'm shared" where
  "record_in f w = w\<lparr>books := f (books w)\<rparr>"

text \<open>
  A thread may call a method when it holds a clone; NNG completes a running operation when it
  likes, by success or (a cancellation, a timeout, \<^verbatim>\<open>nng_aio_stop\<close>) by a nonzero code that leaves the
  message alone, and leaves any value where a sent message was.  \<^verbatim>\<open>nng_aio_stop\<close> returns, and the handle
  is freed, once nothing runs and no callback is active.  The thread inside the closure returns
  when it is not inside \<open>Inner::drop\<close>.
\<close>

inductive nstep :: "'m shared \<Rightarrow> 'm shared \<Rightarrow> bool" where
  send_ok: "\<lbrakk>t \<in> holders w; clients w t = Ready; send_begin t m w = (Inr (), w')\<rbrakk> \<Longrightarrow>
    nstep w (record_in (\<lambda>l. l\<lparr>offered := offered l @ [m], begun := begun l + 1\<rparr>) w')"
| send_busy: "\<lbrakk>t \<in> holders w; clients w t = Ready; send_begin t m w = (Inl (m', e), w')\<rbrakk> \<Longrightarrow>
    nstep w (record_in (\<lambda>l. l\<lparr>offered := offered l @ [m], rejected := rejected l @ [m']\<rparr>) w')"
| send_msg: "clients w t = HasSend m \<Longrightarrow> nstep w (send_set_msg t m w)"
| send_go: "clients w t = SetSend \<Longrightarrow> nstep w (send_start t w)"
| recv_ok: "\<lbrakk>t \<in> holders w; clients w t = Ready; recv_begin t w = (Inr (), w')\<rbrakk> \<Longrightarrow>
    nstep w (record_in (\<lambda>l. l\<lparr>begun := begun l + 1\<rparr>) w')"
| recv_go: "clients w t = HasRecv \<Longrightarrow> nstep w (recv_start t w)"
| sleep_ok: "\<lbrakk>t \<in> holders w; clients w t = Ready; sleep_begin t w = (Inr (), w')\<rbrakk> \<Longrightarrow>
    nstep w (record_in (\<lambda>l. l\<lparr>begun := begun l + 1\<rparr>) w')"
| sleep_go: "clients w t = HasSleep \<Longrightarrow> nstep w (sleep_start t w)"
| timeout_ok: "\<lbrakk>t \<in> holders w; clients w t = Ready; timeout_begin t w = (Inr (), w')\<rbrakk> \<Longrightarrow> nstep w w'"
| timeout_go: "clients w t = HasTimeout \<Longrightarrow> nstep w (timeout_set t w)"
| timeout_end: "clients w t = DidTimeout \<Longrightarrow> nstep w (timeout_done t w)"
| nng_sent: "\<lbrakk>n_phase w = Running Sending; n_slot w = Some m\<rbrakk> \<Longrightarrow>
    nstep w (record_in (\<lambda>l. l\<lparr>accepted := accepted l @ [m]\<rparr>)
      (w\<lparr>n_phase := Completed, n_result := 0, n_slot := x\<rparr>))"
| nng_received: "n_phase w = Running Receiving \<Longrightarrow>
    nstep w (record_in (\<lambda>l. l\<lparr>arrived := arrived l @ [m]\<rparr>)
      (w\<lparr>n_phase := Completed, n_result := 0, n_slot := Some m\<rparr>))"
| nng_slept: "n_phase w = Running Sleeping \<Longrightarrow> nstep w (w\<lparr>n_phase := Completed, n_result := 0\<rparr>)"
| nng_failed: "\<lbrakk>n_phase w = Running k; e \<noteq> 0\<rbrakk> \<Longrightarrow> nstep w (w\<lparr>n_phase := Completed, n_result := e\<rparr>)"
| enter: "\<lbrakk>n_phase w = Completed; cbs w i = NoCb\<rbrakk> \<Longrightarrow> nstep w (at_cb i Entered (w\<lparr>n_phase := NIdle\<rparr>))"
| upgrade: "\<lbrakk>cbs w i = Entered; stopping w = None\<rbrakk> \<Longrightarrow> nstep w (cb_upgrade i w)"
| upgrade_fails: "\<lbrakk>cbs w i = Entered; stopping w = Some t\<rbrakk> \<Longrightarrow>
    nstep w (record_in (\<lambda>l. l\<lparr>unreported := unreported l + 1,
        leaked_out := leaked_out l @ stuck_out w, leaked_in := leaked_in l @ stuck_in w\<rparr>)
      (cb_upgrade i w))"
| load: "cbs w i = Upgraded \<Longrightarrow> nstep w (cb_load i w)"
| compute: "cbs w i = Loaded s \<Longrightarrow> nstep w (cb_compute i s w)"
| store_state: "cbs w i = Computed r \<Longrightarrow>
    nstep w (record_in (\<lambda>l. l\<lparr>results := results l @ [r]\<rparr>) (cb_store i r w))"
| call: "\<lbrakk>cbs w i = Stored r; clients w t = Ready; t \<notin> holders w; \<forall>j. cbs w j \<noteq> InUser t\<rbrakk> \<Longrightarrow>
    nstep w (cb_call i t w)"
| return: "\<lbrakk>cbs w i = InUser t; clients w t = Ready; stopping w \<noteq> Some t\<rbrakk> \<Longrightarrow>
    nstep w (at_cb i NoCb w)"
| clone: "\<lbrakk>t \<in> holders w; clients w t = Ready; u \<notin> holders w; clients w u = Ready\<rbrakk> \<Longrightarrow>
    nstep w (w\<lparr>holders := insert u (holders w)\<rparr>)"
| drop: "\<lbrakk>t \<in> holders w; clients w t = Ready\<rbrakk> \<Longrightarrow> nstep w (drop_handle t w)"
| free: "\<lbrakk>stopping w = Some t; \<not> aio_freed w; n_phase w = NIdle; \<forall>i. cbs w i = NoCb\<rbrakk> \<Longrightarrow>
    nstep w (w\<lparr>aio_freed := True\<rparr>)"

inductive_cases nstepE: "nstep w w'"

section \<open>The invariant of the state word\<close>

text \<open>
  One party at a time has the handle: nobody, the thread that claimed it, NNG, or the callback up
  to its store.  \<open>fits\<close> says that the state word is the one of that party's operation and that the
  message is where the party will look for it.
\<close>

datatype owner = Nobody | Client nat | Nng | Cb nat

fun before_store :: "'m callback \<Rightarrow> bool" where
  "before_store Entered = True"
| "before_store Upgraded = True"
| "before_store (Loaded s) = True"
| "before_store (Computed r) = True"
| "before_store _ = False"

definition quiet :: "'m shared \<Rightarrow> bool" where
  "quiet w \<longleftrightarrow> (\<forall>t. clients w t = Ready)"

definition past :: "'m shared \<Rightarrow> bool" where
  "past w \<longleftrightarrow> (\<forall>i. \<not> before_store (cbs w i))"

definition ready_slot :: "'m shared \<Rightarrow> bool" where
  "ready_slot w \<longleftrightarrow> n_state w \<noteq> Inactive
     \<and> (n_state w = Sending \<and> n_result w \<noteq> 0 \<longrightarrow> n_slot w \<noteq> None)
     \<and> (n_state w = Receiving \<and> n_result w = 0 \<longrightarrow> n_slot w \<noteq> None)"

fun client_fits :: "'m client \<Rightarrow> 'm shared \<Rightarrow> bool" where
  "client_fits Ready w = False"
| "client_fits (HasSend m) w \<longleftrightarrow> n_state w = Sending"
| "client_fits SetSend w \<longleftrightarrow> n_state w = Sending \<and> n_slot w \<noteq> None"
| "client_fits HasRecv w \<longleftrightarrow> n_state w = Receiving"
| "client_fits HasSleep w \<longleftrightarrow> n_state w = Sleeping"
| "client_fits HasTimeout w \<longleftrightarrow> n_state w = Sleeping"
| "client_fits DidTimeout w \<longleftrightarrow> n_state w = Sleeping"

fun phase_fits :: "nng_phase \<Rightarrow> 'm shared \<Rightarrow> bool" where
  "phase_fits NIdle w = False"
| "phase_fits (Running k) w \<longleftrightarrow> n_state w = k \<and> k \<noteq> Inactive \<and> (k = Sending \<longrightarrow> n_slot w \<noteq> None)"
| "phase_fits Completed w = ready_slot w"

fun cb_fits :: "'m callback \<Rightarrow> 'm shared \<Rightarrow> bool" where
  "cb_fits Entered w = ready_slot w"
| "cb_fits Upgraded w \<longleftrightarrow> ready_slot w \<and> stopping w = None"
| "cb_fits (Loaded s) w \<longleftrightarrow> ready_slot w \<and> s = n_state w \<and> stopping w = None"
| "cb_fits (Computed r) w \<longleftrightarrow> n_state w \<noteq> Inactive \<and> stopping w = None
     \<and> callback_result (n_state w) (n_result w) (n_slot w) = Inr r"
| "cb_fits _ w = False"

fun fits :: "owner \<Rightarrow> 'm shared \<Rightarrow> bool" where
  "fits Nobody w \<longleftrightarrow> n_phase w = NIdle \<and> quiet w \<and> past w \<and> (stopping w = None \<longrightarrow> n_state w = Inactive)"
| "fits (Client t) w \<longleftrightarrow> n_phase w = NIdle \<and> past w \<and> (\<forall>u. u \<noteq> t \<longrightarrow> clients w u = Ready)
     \<and> t \<in> holders w \<and> client_fits (clients w t) w"
| "fits Nng w \<longleftrightarrow> quiet w \<and> past w \<and> phase_fits (n_phase w) w"
| "fits (Cb i) w \<longleftrightarrow> n_phase w = NIdle \<and> quiet w \<and> (\<forall>j. j \<noteq> i \<longrightarrow> \<not> before_store (cbs w j))
     \<and> cb_fits (cbs w i) w"

text \<open>Once the last reference is being dropped, nobody has one.\<close>

definition refs_ok :: "'m shared \<Rightarrow> bool" where
  "refs_ok w \<longleftrightarrow> aborted w = None
     \<and> (stopping w \<noteq> None \<longrightarrow> holders w = {} \<and> (\<forall>i. \<not> owns_ref (cbs w i)))
     \<and> (aio_freed w \<longrightarrow> stopping w \<noteq> None)"

section \<open>The books\<close>

definition given_back :: "'m aio_result \<Rightarrow> 'm list" where
  "given_back r = (case r of SendRes (Inl (m, e)) \<Rightarrow> [m] | _ \<Rightarrow> [])"

definition handed_over :: "'m aio_result \<Rightarrow> 'm list" where
  "handed_over r = (case r of RecvRes (Inr m) \<Rightarrow> [m] | _ \<Rightarrow> [])"

text \<open>The messages and operations in the hands of the owner.\<close>

fun client_out :: "'m client \<Rightarrow> 'm option \<Rightarrow> 'm list" where
  "client_out (HasSend m) slot = [m]"
| "client_out SetSend slot = opt_list slot"
| "client_out _ slot = []"

fun phase_out :: "nng_phase \<Rightarrow> 'm list \<Rightarrow> 'm list \<Rightarrow> 'm list" where
  "phase_out (Running Sending) running completed = running"
| "phase_out Completed running completed = completed"
| "phase_out _ running completed = []"

fun client_pending :: "'m client \<Rightarrow> nat" where
  "client_pending HasTimeout = 0"
| "client_pending DidTimeout = 0"
| "client_pending _ = 1"

fun out_msgs :: "owner \<Rightarrow> 'm shared \<Rightarrow> 'm list" where
  "out_msgs Nobody w = []"
| "out_msgs (Client t) w = client_out (clients w t) (n_slot w)"
| "out_msgs Nng w = phase_out (n_phase w) (opt_list (n_slot w)) (stuck_out w)"
| "out_msgs (Cb i) w = stuck_out w"

fun in_msgs :: "owner \<Rightarrow> 'm shared \<Rightarrow> 'm list" where
  "in_msgs Nng w = phase_out (n_phase w) [] (stuck_in w)"
| "in_msgs (Cb i) w = stuck_in w"
| "in_msgs _ w = []"

fun pending :: "owner \<Rightarrow> 'm shared \<Rightarrow> nat" where
  "pending Nobody w = 0"
| "pending (Client t) w = client_pending (clients w t)"
| "pending _ w = 1"

definition balanced :: "owner \<Rightarrow> 'm shared \<Rightarrow> bool" where
  "balanced p w \<longleftrightarrow>
     (let l = books w in
      mset (offered l) = mset (rejected l) + mset (accepted l)
        + mset (concat (map given_back (results l))) + mset (out_msgs p w) + mset (leaked_out l)
      \<and> mset (arrived l) = mset (concat (map handed_over (results l))) + mset (in_msgs p w)
        + mset (leaked_in l)
      \<and> begun l = length (results l) + pending p w + unreported l
      \<and> (unreported l \<noteq> 0 \<longrightarrow> stopping w \<noteq> None)
      \<and> (leaked_out l \<noteq> [] \<or> leaked_in l \<noteq> [] \<longrightarrow> unreported l \<noteq> 0))"

definition aio_inv :: "'m shared \<Rightarrow> bool" where
  "aio_inv w \<longleftrightarrow> refs_ok w \<and> (\<exists>p. fits p w \<and> balanced p w)"

section \<open>Every step keeps the invariant\<close>

lemma owner_client: "\<lbrakk>fits p w; clients w t \<noteq> Ready\<rbrakk> \<Longrightarrow> p = Client t"
  by (cases p) (auto simp: quiet_def, metis)

lemma owner_nng: "\<lbrakk>fits p w; n_phase w \<noteq> NIdle\<rbrakk> \<Longrightarrow> p = Nng"
  by (cases p) auto

lemma owner_cb: "\<lbrakk>fits p w; before_store (cbs w i)\<rbrakk> \<Longrightarrow> p = Cb i"
  by (cases p) (auto simp: past_def, metis)

lemma client_fits_busy: "client_fits c w \<Longrightarrow> n_state w \<noteq> Inactive"
  by (cases c) auto

lemma cb_fits_busy: "cb_fits c w \<Longrightarrow> n_state w \<noteq> Inactive"
  by (cases c) (auto simp: ready_slot_def)

lemma owner_nobody: "\<lbrakk>fits p w; n_state w = Inactive\<rbrakk> \<Longrightarrow> p = Nobody"
  by (cases p; cases "n_phase w")
     (auto simp: ready_slot_def dest: client_fits_busy cb_fits_busy)

lemmas at_defs = at_pc_def at_cb_def record_in_def

lemma callback_result_Inr:
  assumes "ready_slot w"
  shows "\<exists>r. callback_result (n_state w) (n_result w) (n_slot w) = Inr r
     \<and> given_back r = stuck_out w \<and> handed_over r = stuck_in w"
  using assms
  by (cases "n_state w")
     (auto simp: callback_result_def ready_slot_def nz_error_def unwrap_msg_def given_back_def
       handed_over_def stuck_out_def stuck_in_def)

lemma inv_begin:
  assumes "aio_inv w" and "n_state w = Inactive" and "t \<in> holders w"
  shows "fits Nobody w \<and> balanced Nobody w \<and> refs_ok w \<and> stopping w = None"
  using assms owner_nobody by (force simp: aio_inv_def refs_ok_def)

lemma inv_client:
  assumes "aio_inv w" and "clients w t \<noteq> Ready"
  shows "fits (Client t) w \<and> balanced (Client t) w \<and> refs_ok w"
  using assms owner_client by (force simp: aio_inv_def)

lemma inv_nng:
  assumes "aio_inv w" and "n_phase w \<noteq> NIdle"
  shows "fits Nng w \<and> balanced Nng w \<and> refs_ok w"
  using assms owner_nng by (force simp: aio_inv_def)

lemma inv_cb:
  assumes "aio_inv w" and "before_store (cbs w i)"
  shows "fits (Cb i) w \<and> balanced (Cb i) w \<and> refs_ok w"
  using assms owner_cb by (force simp: aio_inv_def)

lemma aio_invI: "\<lbrakk>refs_ok w; fits p w; balanced p w\<rbrakk> \<Longrightarrow> aio_inv w"
  by (auto simp: aio_inv_def)

lemmas inv_eval = at_defs quiet_def past_def refs_ok_def balanced_def Let_def

lemma compare_exchange_eq:
  "compare_exchange c n w = (b, w') \<longleftrightarrow>
     (if n_state w = c then b \<and> w' = w\<lparr>n_state := n\<rparr> else \<not> b \<and> w' = w)"
  by (auto simp: compare_exchange_def)

lemma begin_Inr:
  "send_begin t m w = (Inr u, w') \<longleftrightarrow>
     n_state w = Inactive \<and> w' = at_pc t (HasSend m) (w\<lparr>n_state := Sending\<rparr>)"
  "recv_begin t w = (Inr u, w') \<longleftrightarrow>
     n_state w = Inactive \<and> w' = at_pc t HasRecv (w\<lparr>n_state := Receiving\<rparr>)"
  "sleep_begin t w = (Inr u, w') \<longleftrightarrow>
     n_state w = Inactive \<and> w' = at_pc t HasSleep (w\<lparr>n_state := Sleeping\<rparr>)"
  "timeout_begin t w = (Inr u, w') \<longleftrightarrow>
     n_state w = Inactive \<and> w' = at_pc t HasTimeout (w\<lparr>n_state := Sleeping\<rparr>)"
  by (auto simp: send_begin_def recv_begin_def sleep_begin_def timeout_begin_def
      compare_exchange_def)

lemma send_begin_Inl:
  "send_begin t m w = (Inl (m', e), w') \<longleftrightarrow>
     n_state w \<noteq> Inactive \<and> w' = w \<and> m' = m \<and> e = error.IncorrectState"
  by (auto simp: send_begin_def compare_exchange_def)

lemma fits_record_in [simp]: "fits p (record_in f w) = fits p w"
proof (cases p)
  case (Client t)
  then show ?thesis by (cases "clients w t") (auto simp: record_in_def past_def)
next
  case Nng
  then show ?thesis
    by (cases "n_phase w") (auto simp: record_in_def quiet_def past_def ready_slot_def)
next
  case (Cb i)
  then show ?thesis by (cases "cbs w i") (auto simp: record_in_def quiet_def ready_slot_def)
qed (auto simp: record_in_def quiet_def past_def)

lemma owned_record_in [simp]:
  "out_msgs p (record_in f w) = out_msgs p w"
  "in_msgs p (record_in f w) = in_msgs p w"
  "pending p (record_in f w) = pending p w"
  by (cases p; simp add: record_in_def stuck_out_def stuck_in_def)+

lemma refs_ok_record_in [simp]: "refs_ok (record_in f w) = refs_ok w"
  by (simp add: record_in_def refs_ok_def)

text \<open>A step that moves references only.\<close>

definition same_core :: "'m shared \<Rightarrow> 'm shared \<Rightarrow> bool" where
  "same_core w w' \<longleftrightarrow> n_state w' = n_state w \<and> n_phase w' = n_phase w \<and> n_result w' = n_result w
     \<and> n_slot w' = n_slot w \<and> clients w' = clients w \<and> books w' = books w
     \<and> (\<forall>j. before_store (cbs w' j) \<or> before_store (cbs w j) \<longrightarrow> cbs w' j = cbs w j)
     \<and> (\<forall>t. clients w t \<noteq> Ready \<and> t \<in> holders w \<longrightarrow> t \<in> holders w')
     \<and> (stopping w' = stopping w \<or> stopping w = None \<and> (\<forall>i. \<not> owns_ref (cbs w i)))"

lemma same_coreD:
  assumes "same_core w w'"
  shows "n_state w' = n_state w" "n_phase w' = n_phase w" "n_result w' = n_result w"
    "n_slot w' = n_slot w" "clients w' = clients w" "books w' = books w"
    "before_store (cbs w j) \<Longrightarrow> cbs w' j = cbs w j"
    "before_store (cbs w' j) \<Longrightarrow> before_store (cbs w j)"
    "clients w t \<noteq> Ready \<Longrightarrow> t \<in> holders w \<Longrightarrow> t \<in> holders w'"
    "stopping w' = None \<Longrightarrow> stopping w = None"
    "owns_ref (cbs w j) \<Longrightarrow> stopping w' = stopping w"
  using assms unfolding same_core_def by metis+

lemma same_core_ready_slot: "same_core w w' \<Longrightarrow> ready_slot w' = ready_slot w"
  by (simp add: same_coreD(1-4) ready_slot_def)

lemma same_core_past: "same_core w w' \<Longrightarrow> past w \<Longrightarrow> past w'"
  using same_coreD(8) unfolding past_def by blast

lemma same_core_cb_fits:
  assumes "same_core w w'" and "cb_fits (cbs w i) w"
  shows "cb_fits (cbs w' i) w'"
proof -
  have "before_store (cbs w i)" using assms(2) by (cases "cbs w i") auto
  then have "cbs w' i = cbs w i" using same_coreD(7) [OF assms(1)] by blast
  moreover have "owns_ref (cbs w i) \<Longrightarrow> stopping w' = stopping w"
    using same_coreD(11) [OF assms(1)] .
  ultimately show ?thesis
    using assms(2) same_core_ready_slot [OF assms(1)] same_coreD(1-4) [OF assms(1)]
    by (cases "cbs w i") auto
qed

lemma same_core_fits:
  assumes "same_core w w'" and "fits p w"
  shows "fits p w'"
proof (cases p)
  case Nobody
  then show ?thesis
    using assms(2) same_core_past [OF assms(1)] same_coreD(1-5,10) [OF assms(1)]
    by (simp add: quiet_def)
next
  case (Client t)
  then have "clients w t \<noteq> Ready" using assms(2) by auto
  then show ?thesis
    using assms(2) Client same_core_past [OF assms(1)] same_coreD(1-5,9) [OF assms(1)]
    by (cases "clients w t") auto
next
  case Nng
  then show ?thesis
    using assms(2) same_core_past [OF assms(1)] same_core_ready_slot [OF assms(1)]
      same_coreD(1-5) [OF assms(1)]
    by (cases "n_phase w") (auto simp: quiet_def)
next
  case (Cb i)
  then show ?thesis
    using assms(2) same_core_cb_fits [OF assms(1)] same_coreD(1-5,8) [OF assms(1)]
    by (auto simp: quiet_def)
qed

lemma same_core_balanced:
  assumes "same_core w w'" and "balanced p w"
  shows "balanced p w'"
proof -
  have "out_msgs p w' = out_msgs p w" "in_msgs p w' = in_msgs p w" "pending p w' = pending p w"
    by (cases p; simp add: same_coreD(1-6) [OF assms(1)] stuck_out_def stuck_in_def)+
  moreover have "stopping w \<noteq> None \<longrightarrow> stopping w' \<noteq> None"
    using same_coreD(10) [OF assms(1)] by (cases "stopping w'") auto
  ultimately show ?thesis
    using assms(2) unfolding balanced_def Let_def same_coreD(6) [OF assms(1)] by auto
qed

lemma same_core_inv: "\<lbrakk>aio_inv w; same_core w w'; refs_ok w'\<rbrakk> \<Longrightarrow> aio_inv w'"
  using same_core_fits same_core_balanced unfolding aio_inv_def by blast

lemma claims_keep_inv:
  assumes "aio_inv w" and "t \<in> holders w"
  shows "send_begin t m w = (Inr (), w') \<Longrightarrow>
      aio_inv (record_in (\<lambda>l. l\<lparr>offered := offered l @ [m], begun := begun l + 1\<rparr>) w')"
    and "recv_begin t w = (Inr (), w') \<Longrightarrow> aio_inv (record_in (\<lambda>l. l\<lparr>begun := begun l + 1\<rparr>) w')"
    and "sleep_begin t w = (Inr (), w') \<Longrightarrow> aio_inv (record_in (\<lambda>l. l\<lparr>begun := begun l + 1\<rparr>) w')"
    and "timeout_begin t w = (Inr (), w') \<Longrightarrow> aio_inv w'"
proof -
  note i = inv_begin [OF assms(1) _ assms(2)] and owner = aio_invI [where p = "Client t"]
  show "send_begin t m w = (Inr (), w') \<Longrightarrow>
      aio_inv (record_in (\<lambda>l. l\<lparr>offered := offered l @ [m], begun := begun l + 1\<rparr>) w')"
    by (rule owner) (use i assms(2) in \<open>auto simp: begin_Inr inv_eval\<close>)
  show "recv_begin t w = (Inr (), w') \<Longrightarrow> aio_inv (record_in (\<lambda>l. l\<lparr>begun := begun l + 1\<rparr>) w')"
    by (rule owner) (use i assms(2) in \<open>auto simp: begin_Inr inv_eval\<close>)
  show "sleep_begin t w = (Inr (), w') \<Longrightarrow> aio_inv (record_in (\<lambda>l. l\<lparr>begun := begun l + 1\<rparr>) w')"
    by (rule owner) (use i assms(2) in \<open>auto simp: begin_Inr inv_eval\<close>)
  show "timeout_begin t w = (Inr (), w') \<Longrightarrow> aio_inv w'"
    by (rule owner) (use i assms(2) in \<open>auto simp: begin_Inr inv_eval\<close>)
qed

lemma busy_keeps_inv:
  assumes "aio_inv w" and "send_begin t m w = (Inl (m', e), w')"
  shows "aio_inv (record_in (\<lambda>l. l\<lparr>offered := offered l @ [m], rejected := rejected l @ [m']\<rparr>) w')"
proof -
  let ?w = "record_in (\<lambda>l. l\<lparr>offered := offered l @ [m], rejected := rejected l @ [m']\<rparr>) w"
  obtain p where p: "fits p w" "balanced p w" "refs_ok w" using assms(1) by (auto simp: aio_inv_def)
  have "balanced p ?w"
    using p(2) assms(2)
    by (simp add: balanced_def Let_def send_begin_Inl) (simp add: record_in_def)
  then show ?thesis using assms(2) p by (intro aio_invI [where p = p]) (simp_all add: send_begin_Inl)
qed

lemma client_steps_keep_inv:
  assumes "aio_inv w"
  shows "clients w t = HasSend m \<Longrightarrow> aio_inv (send_set_msg t m w)"
    and "clients w t = SetSend \<Longrightarrow> aio_inv (send_start t w)"
    and "clients w t = HasRecv \<Longrightarrow> aio_inv (recv_start t w)"
    and "clients w t = HasSleep \<Longrightarrow> aio_inv (sleep_start t w)"
    and "clients w t = HasTimeout \<Longrightarrow> aio_inv (timeout_set t w)"
    and "clients w t = DidTimeout \<Longrightarrow> aio_inv (timeout_done t w)"
proof -
  note i = inv_client [OF assms, of t]
  show "clients w t = HasSend m \<Longrightarrow> aio_inv (send_set_msg t m w)"
    by (rule aio_invI [where p = "Client t"]) (use i in \<open>auto simp: send_set_msg_def inv_eval\<close>)
  show "clients w t = SetSend \<Longrightarrow> aio_inv (send_start t w)"
    by (rule aio_invI [where p = Nng]) (use i in \<open>auto simp: send_start_def inv_eval\<close>)
  show "clients w t = HasRecv \<Longrightarrow> aio_inv (recv_start t w)"
    by (rule aio_invI [where p = Nng]) (use i in \<open>auto simp: recv_start_def inv_eval\<close>)
  show "clients w t = HasSleep \<Longrightarrow> aio_inv (sleep_start t w)"
    by (rule aio_invI [where p = Nng]) (use i in \<open>auto simp: sleep_start_def inv_eval\<close>)
  show "clients w t = HasTimeout \<Longrightarrow> aio_inv (timeout_set t w)"
    by (rule aio_invI [where p = "Client t"]) (use i in \<open>auto simp: timeout_set_def inv_eval\<close>)
  show "clients w t = DidTimeout \<Longrightarrow> aio_inv (timeout_done t w)"
    by (rule aio_invI [where p = Nobody]) (use i in \<open>auto simp: timeout_done_def inv_eval\<close>)
qed

lemmas stuck_eval = ready_slot_def stuck_out_def stuck_in_def inv_eval

lemma nng_steps_keep_inv:
  assumes "aio_inv w"
  shows "\<lbrakk>n_phase w = Running Sending; n_slot w = Some m\<rbrakk> \<Longrightarrow>
      aio_inv (record_in (\<lambda>l. l\<lparr>accepted := accepted l @ [m]\<rparr>)
        (w\<lparr>n_phase := Completed, n_result := 0, n_slot := x\<rparr>))"
    and "n_phase w = Running Receiving \<Longrightarrow>
      aio_inv (record_in (\<lambda>l. l\<lparr>arrived := arrived l @ [m]\<rparr>)
        (w\<lparr>n_phase := Completed, n_result := 0, n_slot := Some m\<rparr>))"
    and "n_phase w = Running Sleeping \<Longrightarrow> aio_inv (w\<lparr>n_phase := Completed, n_result := 0\<rparr>)"
    and "\<lbrakk>n_phase w = Running k; e \<noteq> 0\<rbrakk> \<Longrightarrow> aio_inv (w\<lparr>n_phase := Completed, n_result := e\<rparr>)"
    and "\<lbrakk>n_phase w = Completed; cbs w i = NoCb\<rbrakk> \<Longrightarrow> aio_inv (at_cb i Entered (w\<lparr>n_phase := NIdle\<rparr>))"
proof -
  note n = inv_nng [OF assms]
  show "\<lbrakk>n_phase w = Running Sending; n_slot w = Some m\<rbrakk> \<Longrightarrow>
      aio_inv (record_in (\<lambda>l. l\<lparr>accepted := accepted l @ [m]\<rparr>)
        (w\<lparr>n_phase := Completed, n_result := 0, n_slot := x\<rparr>))"
    by (rule aio_invI [where p = Nng]) (use n in \<open>auto simp: stuck_eval\<close>)
  show "n_phase w = Running Receiving \<Longrightarrow>
      aio_inv (record_in (\<lambda>l. l\<lparr>arrived := arrived l @ [m]\<rparr>)
        (w\<lparr>n_phase := Completed, n_result := 0, n_slot := Some m\<rparr>))"
    by (rule aio_invI [where p = Nng]) (use n in \<open>auto simp: stuck_eval\<close>)
  show "n_phase w = Running Sleeping \<Longrightarrow> aio_inv (w\<lparr>n_phase := Completed, n_result := 0\<rparr>)"
    by (rule aio_invI [where p = Nng]) (use n in \<open>auto simp: stuck_eval\<close>)
  show "\<lbrakk>n_phase w = Running k; e \<noteq> 0\<rbrakk> \<Longrightarrow> aio_inv (w\<lparr>n_phase := Completed, n_result := e\<rparr>)"
    by (rule aio_invI [where p = Nng]) (use n in \<open>cases k; auto simp: stuck_eval\<close>)+
  show "\<lbrakk>n_phase w = Completed; cbs w i = NoCb\<rbrakk> \<Longrightarrow> aio_inv (at_cb i Entered (w\<lparr>n_phase := NIdle\<rparr>))"
    by (rule aio_invI [where p = "Cb i"]) (use n in \<open>auto simp: stuck_eval\<close>)
qed

lemma cb_steps_keep_inv:
  assumes "aio_inv w"
  shows "\<lbrakk>cbs w i = Entered; stopping w = None\<rbrakk> \<Longrightarrow> aio_inv (cb_upgrade i w)"
    and "\<lbrakk>cbs w i = Entered; stopping w = Some t\<rbrakk> \<Longrightarrow>
      aio_inv (record_in (\<lambda>l. l\<lparr>unreported := unreported l + 1,
        leaked_out := leaked_out l @ stuck_out w, leaked_in := leaked_in l @ stuck_in w\<rparr>)
      (cb_upgrade i w))"
    and "cbs w i = Upgraded \<Longrightarrow> aio_inv (cb_load i w)"
proof -
  note n = inv_cb [OF assms, of i]
  show "\<lbrakk>cbs w i = Entered; stopping w = None\<rbrakk> \<Longrightarrow> aio_inv (cb_upgrade i w)"
    by (rule aio_invI [where p = "Cb i"]) (use n in \<open>auto simp: cb_upgrade_def stuck_eval\<close>)
  show "\<lbrakk>cbs w i = Entered; stopping w = Some t\<rbrakk> \<Longrightarrow>
      aio_inv (record_in (\<lambda>l. l\<lparr>unreported := unreported l + 1,
        leaked_out := leaked_out l @ stuck_out w, leaked_in := leaked_in l @ stuck_in w\<rparr>)
      (cb_upgrade i w))"
    by (rule aio_invI [where p = Nobody]) (use n in \<open>auto simp: cb_upgrade_def inv_eval\<close>)
  show "cbs w i = Upgraded \<Longrightarrow> aio_inv (cb_load i w)"
    by (rule aio_invI [where p = "Cb i"]) (use n in \<open>auto simp: cb_load_def stuck_eval\<close>)
qed

lemma compute_keeps_inv:
  assumes "aio_inv w" and "cbs w i = Loaded s"
  shows "aio_inv (cb_compute i s w)"
proof -
  have n: "fits (Cb i) w" "balanced (Cb i) w" "refs_ok w"
    using inv_cb [OF assms(1), of i] assms(2) by auto
  then have "ready_slot w" "s = n_state w" using assms(2) by auto
  then obtain r where r: "callback_result s (n_result w) (n_slot w) = Inr r"
    using callback_result_Inr by blast
  show ?thesis
    by (rule aio_invI [where p = "Cb i"])
       (use assms(2) n r \<open>ready_slot w\<close> in \<open>auto simp: cb_compute_def stuck_eval\<close>)
qed

lemma store_keeps_inv:
  assumes "aio_inv w" and "cbs w i = Computed r"
  shows "aio_inv (record_in (\<lambda>l. l\<lparr>results := results l @ [r]\<rparr>) (cb_store i r w))"
proof -
  have n: "fits (Cb i) w" "balanced (Cb i) w" "refs_ok w"
    using inv_cb [OF assms(1), of i] assms(2) by auto
  then have "callback_result (n_state w) (n_result w) (n_slot w) = Inr r" using assms(2) by auto
  moreover have "ready_slot w"
    using n(1) assms(2) by (auto simp: ready_slot_def callback_result_def unwrap_msg_def
      split: aio_state.splits if_splits option.splits)
  ultimately have "given_back r = stuck_out w" "handed_over r = stuck_in w"
    using callback_result_Inr by force+
  with n assms(2) show ?thesis
    by (intro aio_invI [where p = Nobody]) (auto simp: cb_store_def inv_eval)
qed

lemma ref_steps_keep_inv:
  assumes "aio_inv w"
  shows "cbs w i = Stored r \<Longrightarrow> aio_inv (cb_call i t w)"
    and "cbs w i = InUser t \<Longrightarrow> aio_inv (at_cb i NoCb w)"
    and "\<lbrakk>t \<in> holders w; u \<notin> holders w\<rbrakk> \<Longrightarrow> aio_inv (w\<lparr>holders := insert u (holders w)\<rparr>)"
    and "\<lbrakk>t \<in> holders w; clients w t = Ready\<rbrakk> \<Longrightarrow> aio_inv (drop_handle t w)"
    and "stopping w = Some t \<Longrightarrow> aio_inv (w\<lparr>aio_freed := True\<rparr>)"
proof -
  note core = same_core_inv [OF assms]
  have refs: "refs_ok w" using assms by (simp add: aio_inv_def)
  show "aio_inv (cb_call i t w)" if "cbs w i = Stored r"
  proof (rule core)
    show "same_core w (cb_call i t w)" using that by (auto simp: same_core_def cb_call_def at_cb_def)
    show "refs_ok (cb_call i t w)"
      using refs that by (auto simp: refs_ok_def cb_call_def at_cb_def, (metis owns_ref.simps(4))+)
  qed
  show "cbs w i = InUser t \<Longrightarrow> aio_inv (at_cb i NoCb w)"
    using refs by (intro core) (auto simp: same_core_def at_cb_def refs_ok_def)
  show "\<lbrakk>t \<in> holders w; u \<notin> holders w\<rbrakk> \<Longrightarrow> aio_inv (w\<lparr>holders := insert u (holders w)\<rparr>)"
    using refs by (intro core) (auto simp: same_core_def refs_ok_def)
  show "aio_inv (drop_handle t w)" if "t \<in> holders w" "clients w t = Ready"
  proof -
    have "stopping w = None" using refs that by (auto simp: refs_ok_def)
    with refs that show ?thesis
      by (intro core) (auto simp: same_core_def drop_handle_def refs_ok_def Let_def)
  qed
  show "stopping w = Some t \<Longrightarrow> aio_inv (w\<lparr>aio_freed := True\<rparr>)"
    using refs by (intro core) (auto simp: same_core_def refs_ok_def)
qed

lemma nstep_inv:
  assumes "nstep w w'" and "aio_inv w"
  shows "aio_inv w'"
  using assms(1)
  by cases (blast intro: assms(2) claims_keep_inv busy_keeps_inv client_steps_keep_inv
      nng_steps_keep_inv cb_steps_keep_inv compute_keeps_inv store_keeps_inv ref_steps_keep_inv)+

lemma aio_inv_fresh: "aio_inv (fresh_aio t)"
  by (rule aio_invI [where p = Nobody])
     (simp_all add: fresh_aio_def refs_ok_def quiet_def past_def balanced_def)

lemma aio_inv_reachable: "nstep\<^sup>*\<^sup>* (fresh_aio t) w \<Longrightarrow> aio_inv w"
  by (induction rule: rtranclp_induct) (auto intro: aio_inv_fresh nstep_inv)

lemma cb_fits_before: "cb_fits c w \<Longrightarrow> before_store c"
  by (cases c) auto

lemma owner_unique:
  assumes "fits p w" and "fits q w" and "p \<noteq> Nobody"
  shows "p = q"
proof (cases p)
  case (Client t)
  then have "clients w t \<noteq> Ready" using assms(1) by auto
  then show ?thesis using owner_client [OF assms(2)] Client by simp
next
  case Nng
  then have "n_phase w \<noteq> NIdle" using assms(1) by auto
  then show ?thesis using owner_nng [OF assms(2)] Nng by simp
next
  case (Cb i)
  then have "before_store (cbs w i)" using assms(1) cb_fits_before by auto
  then show ?thesis using owner_cb [OF assms(2)] Cb by simp
qed (use assms(3) in simp)

lemma fits_unique: "\<lbrakk>fits p w; fits q w\<rbrakk> \<Longrightarrow> p = q"
  using owner_unique by metis

section \<open>An operation can always be finished\<close>

text \<open>Only finitely many callbacks are ever active, so NNG can always enter another one.\<close>

definition finite_cbs :: "'m shared \<Rightarrow> bool" where
  "finite_cbs w \<longleftrightarrow> finite {i. cbs w i \<noteq> NoCb}"

lemma finite_cbs_at_cb [simp]: "finite_cbs (at_cb i c w) = finite_cbs w"
proof -
  have "{j. cbs (at_cb i c w) j \<noteq> NoCb} \<subseteq> insert i {j. cbs w j \<noteq> NoCb}"
    and "{j. cbs w j \<noteq> NoCb} \<subseteq> insert i {j. cbs (at_cb i c w) j \<noteq> NoCb}"
    by (auto simp: at_cb_def)
  then show ?thesis unfolding finite_cbs_def by (meson finite_insert finite_subset)
qed

lemma finite_cbs_cong: "cbs w' = cbs w \<Longrightarrow> finite_cbs w' = finite_cbs w"
  by (simp add: finite_cbs_def)

lemma finite_cbs_simps [simp]:
  "finite_cbs (record_in f w) = finite_cbs w"
  "finite_cbs (at_pc t c w) = finite_cbs w"
  "finite_cbs (w\<lparr>n_state := s\<rparr>) = finite_cbs w"
  "finite_cbs (w\<lparr>n_slot := m\<rparr>) = finite_cbs w"
  "finite_cbs (w\<lparr>n_phase := ph\<rparr>) = finite_cbs w"
  "finite_cbs (w\<lparr>n_phase := ph, n_result := r\<rparr>) = finite_cbs w"
  "finite_cbs (w\<lparr>n_phase := ph, n_result := r, n_slot := m\<rparr>) = finite_cbs w"
  "finite_cbs (w\<lparr>holders := hs\<rparr>) = finite_cbs w"
  "finite_cbs (w\<lparr>holders := hs, stopping := st\<rparr>) = finite_cbs w"
  "finite_cbs (w\<lparr>aborted := ab\<rparr>) = finite_cbs w"
  "finite_cbs (w\<lparr>aio_freed := fr\<rparr>) = finite_cbs w"
  by (rule finite_cbs_cong, simp add: record_in_def at_pc_def)+

lemmas nstep_defs = send_set_msg_def send_start_def recv_start_def sleep_start_def timeout_set_def
  timeout_done_def cb_upgrade_def cb_load_def cb_compute_def cb_store_def cb_call_def
  drop_handle_def Let_def

lemma nstep_finite_cbs: "\<lbrakk>nstep w w'; finite_cbs w\<rbrakk> \<Longrightarrow> finite_cbs w'"
  by (induction rule: nstep.induct)
     (auto simp: nstep_defs begin_Inr send_begin_Inl split: sum.splits)

lemma finite_cbs_reachable: "nstep\<^sup>*\<^sup>* (fresh_aio t) w \<Longrightarrow> finite_cbs w"
proof (induction rule: rtranclp_induct)
  case base
  show ?case by (simp add: fresh_aio_def finite_cbs_def)
next
  case (step y z)
  then show ?case using nstep_finite_cbs by blast
qed

lemma free_cb: "finite_cbs w \<Longrightarrow> \<exists>i. cbs w i = NoCb"
  using ex_new_if_finite [OF infinite_UNIV_nat, of "{i. cbs w i \<noteq> NoCb}"] by (auto simp: finite_cbs_def)

fun rank_client :: "'m client \<Rightarrow> nat" where
  "rank_client Ready = 0"
| "rank_client (HasSend m) = 9"
| "rank_client SetSend = 8"
| "rank_client HasRecv = 8"
| "rank_client HasSleep = 8"
| "rank_client HasTimeout = 2"
| "rank_client DidTimeout = 1"

fun rank_cb :: "'m callback \<Rightarrow> nat" where
  "rank_cb Entered = 4"
| "rank_cb Upgraded = 3"
| "rank_cb (Loaded s) = 2"
| "rank_cb (Computed r) = 1"
| "rank_cb _ = 0"

fun rank :: "owner \<Rightarrow> 'm shared \<Rightarrow> nat" where
  "rank Nobody w = 0"
| "rank (Client t) w = rank_client (clients w t)"
| "rank Nng w = (if n_phase w = Completed then 5 else 6)"
| "rank (Cb i) w = rank_cb (cbs w i)"


text \<open>Whoever has the handle can take a step that brings the operation closer to its end.\<close>

definition can_advance :: "owner \<Rightarrow> 'm shared \<Rightarrow> bool" where
  "can_advance p w \<longleftrightarrow> (\<exists>w' q. nstep w w' \<and> fits q w' \<and> rank q w' < rank p w)"

lemma can_advanceI:
  "\<lbrakk>aio_inv w; nstep w w'; \<And>q. fits q w' \<Longrightarrow> rank q w' < rank p w\<rbrakk> \<Longrightarrow> can_advance p w"
  using nstep_inv unfolding aio_inv_def can_advance_def by blast

lemma client_advances:
  assumes "aio_inv w" and "fits (Client t) w"
  shows "can_advance (Client t) w"
proof -
  note step = can_advanceI [OF assms(1), where p = "Client t"]
  have ne: "clients w t \<noteq> Ready" using assms(2) by auto
  show ?thesis
  proof (cases "clients w t")
    case (HasSend m)
    show ?thesis
      by (rule step [OF send_msg [OF HasSend]], drule owner_client [where t = t])
         (auto simp: nstep_defs at_defs HasSend)
  next
    case SetSend
    show ?thesis
      by (rule step [OF send_go [OF SetSend]], drule owner_nng) (auto simp: nstep_defs at_defs SetSend)
  next
    case HasRecv
    show ?thesis
      by (rule step [OF recv_go [OF HasRecv]], drule owner_nng) (auto simp: nstep_defs at_defs HasRecv)
  next
    case HasSleep
    show ?thesis
      by (rule step [OF sleep_go [OF HasSleep]], drule owner_nng)
         (auto simp: nstep_defs at_defs HasSleep)
  next
    case HasTimeout
    show ?thesis
      by (rule step [OF timeout_go [OF HasTimeout]], drule owner_client [where t = t])
         (auto simp: nstep_defs at_defs HasTimeout)
  next
    case DidTimeout
    have "stopping w = None" using assms by (auto simp: aio_inv_def refs_ok_def)
    then show ?thesis
      by (intro step [OF timeout_end [OF DidTimeout]], elim owner_nobody [elim_format])
         (auto simp: nstep_defs at_defs DidTimeout)
  qed (use ne in simp)
qed

lemma nng_advances:
  assumes "aio_inv w" and "finite_cbs w" and "fits Nng w"
  shows "can_advance Nng w"
proof -
  note step = can_advanceI [OF assms(1), where p = Nng]
  show ?thesis
  proof (cases "n_phase w")
    case (Running k)
    show ?thesis
      by (rule step [OF nng_failed [OF Running, of 1]], simp, drule owner_nng) (auto simp: Running)
  next
    case Completed
    obtain i where i: "cbs w i = NoCb" using free_cb [OF assms(2)] by blast
    show ?thesis
      by (rule step [OF enter [OF Completed i]], drule owner_cb [where i = i])
         (auto simp: at_defs Completed)
  qed (use assms(3) in simp)
qed

lemma entered_advances:
  assumes "aio_inv w" and "fits (Cb i) w" and "cbs w i = Entered"
  shows "can_advance (Cb i) w"
proof (cases "stopping w")
  case None
  show ?thesis
    by (rule can_advanceI [OF assms(1) upgrade [OF assms(3) None]], drule owner_cb [where i = i])
       (auto simp: nstep_defs at_defs assms(3) None)
next
  case (Some t)
  have "fits Nobody (cb_upgrade i w)"
    using assms(2) Some by (auto simp: nstep_defs at_defs quiet_def past_def)
  then have "\<exists>w' q. nstep w w' \<and> fits q w' \<and> rank q w' < rank_cb Entered"
    using upgrade_fails [OF assms(3) Some] fits_record_in rank.simps(1) by fastforce
  then show ?thesis by (simp add: can_advance_def assms(3))
qed

lemma cb_advances:
  assumes "aio_inv w" and "fits (Cb i) w"
  shows "can_advance (Cb i) w"
proof -
  note step = can_advanceI [OF assms(1), where p = "Cb i"]
  have fit: "cb_fits (cbs w i) w" using assms(2) by simp
  show ?thesis
  proof (cases "cbs w i")
    case Upgraded
    show ?thesis
      by (rule step [OF load [OF Upgraded]], drule owner_cb [where i = i])
         (auto simp: nstep_defs at_defs Upgraded)
  next
    case (Loaded s)
    then have "ready_slot w" "s = n_state w" using fit by auto
    then obtain r where r: "callback_result s (n_result w) (n_slot w) = Inr r"
      using callback_result_Inr by blast
    show ?thesis
      by (rule step [OF compute [OF Loaded]], drule owner_cb [where i = i])
         (auto simp: nstep_defs at_defs Loaded r)
  next
    case (Computed r)
    show ?thesis
      by (intro step [OF store_state [OF Computed]], elim owner_nobody [elim_format])
         (auto simp: nstep_defs at_defs Computed)
  qed (use fit entered_advances [OF assms] in simp_all)
qed

lemma rank_decreases:
  "\<lbrakk>aio_inv w; finite_cbs w; fits p w; p \<noteq> Nobody\<rbrakk> \<Longrightarrow> can_advance p w"
  by (cases p) (auto intro: client_advances nng_advances cb_advances simp del: fits.simps)

lemma can_finish:
  assumes "aio_inv w" and "finite_cbs w"
  shows "\<exists>w'. nstep\<^sup>*\<^sup>* w w' \<and> fits Nobody w'"
proof -
  obtain p where "fits p w" using assms(1) by (auto simp: aio_inv_def)
  with assms show ?thesis
  proof (induction "rank p w" arbitrary: p w rule: less_induct)
    case less
    show ?case
    proof (cases "p = Nobody")
      case False
      then obtain w' q where s: "nstep w w'" "fits q w'" "rank q w' < rank p w"
        using rank_decreases [OF less.prems] by (auto simp: can_advance_def)
      then obtain w'' where "nstep\<^sup>*\<^sup>* w' w''" "fits Nobody w''"
        using less.hyps [OF s(3) nstep_inv [OF s(1) less.prems(1)]
          nstep_finite_cbs [OF s(1) less.prems(2)] s(2)] by blast
      then show ?thesis using s(1) by (meson converse_rtranclp_into_rtranclp)
    qed (use less.prems(3) in blast)
  qed
qed

section \<open>Two ways to drop the last clone\<close>

text \<open>
  A thread sends, then drops the only clone; NNG gives the message back, but the callback finds
  the handle gone.
\<close>

lemma rtranclp_step: "\<lbrakk>r\<^sup>*\<^sup>* a b; r b c\<rbrakk> \<Longrightarrow> r\<^sup>*\<^sup>* a c"
  by (rule rtranclp.rtrancl_into_rtrancl)

definition sent_by :: "nat \<Rightarrow> 'm \<Rightarrow> 'm shared" where
  "sent_by t m = send_start t (send_set_msg t m (record_in
     (\<lambda>l. l\<lparr>offered := offered l @ [m], begun := begun l + 1\<rparr>)
     (at_pc t (HasSend m) ((fresh_aio t)\<lparr>n_state := Sending\<rparr>))))"

lemma sent_by_reachable: "nstep\<^sup>*\<^sup>* (fresh_aio t) (sent_by t m)"
proof -
  let ?w1 = "record_in (\<lambda>l. l\<lparr>offered := offered l @ [m], begun := begun l + 1\<rparr>)
     (at_pc t (HasSend m) ((fresh_aio t)\<lparr>n_state := Sending\<rparr>))"
  have "nstep (fresh_aio t) ?w1"
    by (rule send_ok [where t = t]) (simp_all add: fresh_aio_def begin_Inr)
  moreover have "nstep ?w1 (send_set_msg t m ?w1)"
    by (rule send_msg) (simp add: at_defs)
  moreover have "nstep (send_set_msg t m ?w1) (sent_by t m)"
    unfolding sent_by_def by (rule send_go) (simp add: at_defs send_set_msg_def)
  ultimately show ?thesis by (meson r_into_rtranclp rtranclp_step)
qed

lemmas trace_eval = fresh_aio_def sent_by_def nstep_defs at_defs stuck_out_def stuck_in_def

lemma drop_leaks:
  "\<exists>w. nstep\<^sup>*\<^sup>* (fresh_aio t) w \<and> aio_freed w \<and> offered (books w) = [m]
     \<and> rejected (books w) = [] \<and> accepted (books w) = [] \<and> results (books w) = []
     \<and> leaked_out (books w) = [m]"
proof -
  let ?w1 = "drop_handle t (sent_by t m)"
  let ?w2 = "?w1\<lparr>n_phase := Completed, n_result := 1\<rparr>"
  let ?w3 = "at_cb 0 Entered (?w2\<lparr>n_phase := NIdle\<rparr>)"
  let ?w4 = "record_in (\<lambda>l. l\<lparr>unreported := unreported l + 1,
        leaked_out := leaked_out l @ stuck_out ?w3, leaked_in := leaked_in l @ stuck_in ?w3\<rparr>)
      (cb_upgrade 0 ?w3)"
  let ?w5 = "?w4\<lparr>aio_freed := True\<rparr>"
  have "nstep (sent_by t m) ?w1"
    by (rule nstep.drop) (simp_all add: trace_eval)
  moreover have "nstep ?w1 ?w2"
    by (rule nng_failed [where k = Sending]) (simp_all add: trace_eval)
  moreover have "nstep ?w2 ?w3"
    by (rule enter) (simp_all add: trace_eval)
  moreover have "nstep ?w3 ?w4"
    by (rule upgrade_fails [where t = t]) (simp_all add: trace_eval)
  moreover have "nstep ?w4 ?w5"
    by (rule nstep.free [where t = t]) (simp_all add: trace_eval)
  ultimately have "nstep\<^sup>*\<^sup>* (fresh_aio t) ?w5"
    using sent_by_reachable [of t m] by (meson rtranclp_step)
  moreover have "aio_freed ?w5 \<and> offered (books ?w5) = [m] \<and> rejected (books ?w5) = []
     \<and> accepted (books ?w5) = [] \<and> results (books ?w5) = [] \<and> leaked_out (books ?w5) = [m]"
    by (simp add: trace_eval)
  ultimately show ?thesis by blast
qed

text \<open>
  A thread starts an operation and drops its clone while the callback runs; the closure is given
  the last one, and drops it.
\<close>

definition upgraded_alone :: "nat \<Rightarrow> 'm shared \<Rightarrow> bool" where
  "upgraded_alone t w \<longleftrightarrow> n_state w = Sending \<and> n_phase w = NIdle \<and> n_result w = 1
     \<and> n_slot w \<noteq> None \<and> clients w = (\<lambda>_. Ready) \<and> cbs w = (\<lambda>_. NoCb)(0 := Upgraded)
     \<and> holders w = {} \<and> stopping w = None \<and> \<not> aio_freed w"

lemma upgraded_alone_reachable:
  "\<exists>w. nstep\<^sup>*\<^sup>* (fresh_aio t) w \<and> upgraded_alone t (w :: 'm shared)"
proof -
  obtain m :: 'm where True by blast
  let ?w1 = "(sent_by t m)\<lparr>n_phase := Completed, n_result := 1\<rparr>"
  let ?w2 = "at_cb 0 Entered (?w1\<lparr>n_phase := NIdle\<rparr>)"
  let ?w3 = "cb_upgrade 0 ?w2"
  let ?w4 = "drop_handle t ?w3"
  have "nstep (sent_by t m) ?w1"
    by (rule nng_failed [where k = Sending]) (simp_all add: trace_eval)
  moreover have "nstep ?w1 ?w2"
    by (rule enter) (simp_all add: trace_eval)
  moreover have "nstep ?w2 ?w3"
    by (rule upgrade) (simp_all add: trace_eval)
  moreover have "nstep ?w3 ?w4"
    by (rule nstep.drop) (simp_all add: trace_eval)
  ultimately have "nstep\<^sup>*\<^sup>* (fresh_aio t) ?w4"
    using sent_by_reachable [of t m] by (meson rtranclp_step)
  moreover have "upgraded_alone t ?w4"
    by (auto simp: trace_eval upgraded_alone_def)
  ultimately show ?thesis by blast
qed

lemma drop_in_callback:
  "\<exists>w. nstep\<^sup>*\<^sup>* (fresh_aio t) (w :: 'm shared) \<and> stopping w = Some u \<and> cbs w 0 = InUser u
     \<and> \<not> aio_freed w"
proof -
  obtain w4 :: "'m shared" where w4: "nstep\<^sup>*\<^sup>* (fresh_aio t) w4" "upgraded_alone t w4"
    using upgraded_alone_reachable by blast
  then obtain m where m: "n_slot w4 = Some m" by (auto simp: upgraded_alone_def)
  let ?w5 = "cb_load 0 w4"
  let ?w6 = "cb_compute 0 Sending ?w5"
  let ?r = "SendRes (Inl (m, error_from 1))"
  let ?w7 = "record_in (\<lambda>l. l\<lparr>results := results l @ [?r]\<rparr>) (cb_store 0 ?r ?w6)"
  let ?w8 = "cb_call 0 u ?w7"
  let ?w9 = "drop_handle u ?w8"
  note eval = nstep_defs at_defs callback_result_def unwrap_msg_def nz_error_def m
    w4(2) [unfolded upgraded_alone_def]
  have "nstep w4 ?w5"
    by (rule load) (simp add: eval)
  moreover have "nstep ?w5 ?w6"
    by (rule compute) (simp add: eval)
  moreover have "nstep ?w6 ?w7"
    by (rule store_state) (simp add: eval)
  moreover have "nstep ?w7 ?w8"
    by (rule call [where r = ?r]) (simp_all add: eval)
  moreover have "nstep ?w8 ?w9"
    by (rule nstep.drop) (simp_all add: eval)
  ultimately have "nstep\<^sup>*\<^sup>* (fresh_aio t) ?w9"
    using w4(1) by (meson rtranclp_step)
  moreover have "stopping ?w9 = Some u \<and> cbs ?w9 0 = InUser u \<and> \<not> aio_freed ?w9"
    by (simp add: eval)
  ultimately show ?thesis by blast
qed

lemma blocked_step:
  assumes "nstep w w'" and "refs_ok w"
    and "stopping w = Some u" and "cbs w i = InUser u" and "\<not> aio_freed w"
  shows "stopping w' = Some u \<and> cbs w' i = InUser u \<and> \<not> aio_freed w'"
  using assms
  by cases (auto simp: nstep_defs at_defs refs_ok_def begin_Inr send_begin_Inl split: sum.splits)

lemma blocked_forever:
  assumes "nstep\<^sup>*\<^sup>* w w'" and "aio_inv w"
    and "stopping w = Some u" and "cbs w i = InUser u" and "\<not> aio_freed w"
  shows "aio_inv w' \<and> stopping w' = Some u \<and> cbs w' i = InUser u \<and> \<not> aio_freed w'"
  using assms
proof (induction rule: rtranclp_induct)
  case (step y z)
  then have "aio_inv y" "stopping y = Some u" "cbs y i = InUser u" "\<not> aio_freed y" by blast+
  then show ?case
    using nstep_inv [OF step(2)] blocked_step [OF step(2)] unfolding aio_inv_def by blast
qed simp

text \<open>
  Once the last clone is being dropped, no method and no closure is called any more; and when the
  handle has been freed nothing moves.
\<close>

lemma dropped_step:
  assumes "nstep w w'" and "refs_ok w" and "stopping w = Some v"
  shows "stopping w' = Some v \<and> results (books w') = results (books w)
    \<and> offered (books w') = offered (books w) \<and> rejected (books w') = rejected (books w)"
proof -
  have none: "holders w = {}" "cbs w i \<noteq> Computed r" for i r
    using assms(2,3) owns_ref.simps(3) unfolding refs_ok_def by (blast, metis option.distinct(1))
  from assms(1) show ?thesis
    using assms(3) none
    by cases (auto simp: nstep_defs at_defs begin_Inr send_begin_Inl split: sum.splits)
qed

lemma dropped_run:
  assumes "nstep\<^sup>*\<^sup>* w w'" and "aio_inv w" and "stopping w = Some v"
  shows "aio_inv w' \<and> stopping w' = Some v \<and> results (books w') = results (books w)
    \<and> offered (books w') = offered (books w) \<and> rejected (books w') = rejected (books w)"
  using assms
proof (induction rule: rtranclp_induct)
  case (step y z)
  then have "aio_inv y" "stopping y = Some v" "results (books y) = results (books w)"
    "offered (books y) = offered (books w)" "rejected (books y) = rejected (books w)" by blast+
  then show ?case
    using nstep_inv [OF step(2)] dropped_step [OF step(2)] unfolding aio_inv_def by metis
qed simp

definition at_the_end :: "'m shared \<Rightarrow> bool" where
  "at_the_end w \<longleftrightarrow> (aio_freed w \<longrightarrow> n_phase w = NIdle \<and> (\<forall>i. cbs w i = NoCb))"

lemma at_the_end_step:
  assumes "nstep w w'" and "aio_inv w" and "at_the_end w"
  shows "at_the_end w'"
proof (cases "aio_freed w")
  case True
  have quiet: "clients w t = Ready" for t
    using inv_client [OF assms(2)] True by (auto simp: aio_inv_def refs_ok_def)
  from assms(1) show ?thesis
    using True assms(2,3) quiet
    by cases (auto simp: at_the_end_def aio_inv_def refs_ok_def)
next
  case False
  from assms(1) show ?thesis
    using False
    by cases (auto simp: at_the_end_def nstep_defs at_defs begin_Inr send_begin_Inl split: sum.splits)
qed

lemma at_the_end_reachable: "nstep\<^sup>*\<^sup>* (fresh_aio t) w \<Longrightarrow> at_the_end w"
proof (induction rule: rtranclp_induct)
  case base
  show ?case by (simp add: at_the_end_def fresh_aio_def)
next
  case (step y z)
  then show ?case using at_the_end_step aio_inv_reachable by blast
qed

lemma freed_fits_nobody:
  assumes "nstep\<^sup>*\<^sup>* (fresh_aio t) w" and "aio_freed w" and "fits p w"
  shows "p = Nobody"
proof (cases p)
  case (Client u)
  then have "clients w u \<noteq> Ready" using assms(3) by auto
  with inv_client [OF aio_inv_reachable [OF assms(1)]] assms(2) show ?thesis
    by (auto simp: refs_ok_def)
qed (use at_the_end_reachable [OF assms(1)] assms(2,3) in \<open>auto simp: at_the_end_def\<close>)

section \<open>Properties\<close>

text \<open>C3. One operation at a time, for any number of threads and any interleaving.  In every
  reachable state exactly one party (nobody, one thread inside a method, NNG, or one callback) has
  the handle and the state word is that party's; so an operation is never started on a busy
  handle, and the callback never meets the state \<open>Inactive\<close>, a missing message or a zero error
  code: nothing aborts.  While clones exist the word is \<open>Inactive\<close> exactly when nobody has the
  handle.  And no interleaving gets stuck: from every reachable state the operation can be
  finished.\<close>

theorem nng_aio_one_owner:
  assumes "nstep\<^sup>*\<^sup>* (fresh_aio t) w"
  shows "aborted w = None \<and> (\<exists>!p. fits p w)
    \<and> (stopping w = None \<longrightarrow> (n_state w = Inactive \<longleftrightarrow> fits Nobody w))
    \<and> (\<exists>w'. nstep\<^sup>*\<^sup>* w w' \<and> fits Nobody w')"
proof -
  have inv: "aio_inv w" using aio_inv_reachable [OF assms] .
  then obtain p where p: "fits p w" and "refs_ok w" by (auto simp: aio_inv_def)
  then have "aborted w = None" by (simp add: refs_ok_def)
  moreover have "\<exists>!p. fits p w" using p fits_unique by blast
  moreover have "stopping w = None \<longrightarrow> (n_state w = Inactive \<longleftrightarrow> fits Nobody w)"
    using p owner_nobody [OF p] by auto
  ultimately show ?thesis using can_finish [OF inv finite_cbs_reachable [OF assms]] by blast
qed

theorem nng_aio_one_owner_witness:
  "(\<exists>!p. fits p (sent_by 0 (7 :: nat))) \<and> \<not> fits Nobody (sent_by 0 (7 :: nat))"
  using nng_aio_one_owner [OF sent_by_reachable, of 0 "7 :: nat"]
  by (simp add: trace_eval)

text \<open>C5. The books of a shared handle balance.  In every reachable state each message given to a
  send was given back at once because the handle was busy, or taken over by NNG, or given back
  with the error, or is still on its way, once; each message that arrived was handed to the closure
  once or is on its way; and each operation begun has called the closure once, is pending, or was
  not reported.  As long as a clone exists nothing is lost and nothing goes unreported.\<close>

theorem nng_aio_conserves_messages:
  assumes "nstep\<^sup>*\<^sup>* (fresh_aio t) w" and "fits p w"
  defines "l \<equiv> books w"
  shows "mset (offered l) = mset (rejected l) + mset (accepted l)
        + mset (concat (map given_back (results l))) + mset (out_msgs p w) + mset (leaked_out l)
    \<and> mset (arrived l) = mset (concat (map handed_over (results l))) + mset (in_msgs p w)
        + mset (leaked_in l)
    \<and> begun l = length (results l) + pending p w + unreported l
    \<and> (stopping w = None \<longrightarrow> leaked_out l = [] \<and> leaked_in l = [] \<and> unreported l = 0)"
proof -
  obtain q where "fits q w" "balanced q w"
    using aio_inv_reachable [OF assms(1)] by (auto simp: aio_inv_def)
  moreover from this have "q = p" using fits_unique assms(2) by blast
  ultimately show ?thesis by (auto simp: balanced_def Let_def l_def)
qed

theorem nng_aio_conserves_messages_witness:
  "out_msgs Nng (sent_by 0 (7 :: nat)) = [7] \<and> offered (books (sent_by 0 (7 :: nat))) = [7]
     \<and> leaked_out (books (sent_by 0 (7 :: nat))) = []"
proof -
  have "fits Nng (sent_by 0 (7 :: nat))" by (simp add: trace_eval quiet_def past_def)
  from nng_aio_conserves_messages [OF sent_by_reachable this] show ?thesis
    by (simp add: trace_eval)
qed

text \<open>C16. What dropping the last clone does.  From the moment the last clone is dropped until the
  handle is freed, the closure is never called again.  The message of a send that is then under way is
  therefore never given back: NNG accepts it or it is lost, and a message that a receive still brings
  is lost.  The first loss does happen: some run drops the clone during a send that NNG then fails.
  Dropped inside the closure, \<open>Inner::drop\<close> waits for the very callback that is running it: such a
  state is reachable, and from it no run ever frees the handle.\<close>

theorem dropping_the_last_clone:
  fixes m :: 'm
  shows "(\<forall>(w :: 'm shared) w' p v. nstep\<^sup>*\<^sup>* (fresh_aio t) w \<and> stopping w = Some v \<and> fits p w
        \<and> nstep\<^sup>*\<^sup>* w w' \<and> aio_freed w' \<longrightarrow>
          results (books w') = results (books w)
        \<and> mset (accepted (books w')) + mset (leaked_out (books w'))
          = mset (accepted (books w)) + mset (leaked_out (books w)) + mset (out_msgs p w)
        \<and> mset (leaked_in (books w')) + mset (arrived (books w))
          = mset (arrived (books w')) + mset (in_msgs p w) + mset (leaked_in (books w)))
    \<and> (\<exists>w. nstep\<^sup>*\<^sup>* (fresh_aio t) w \<and> aio_freed w \<and> offered (books w) = [m]
        \<and> rejected (books w) = [] \<and> accepted (books w) = [] \<and> results (books w) = []
        \<and> leaked_out (books w) = [m])
    \<and> (\<exists>w. nstep\<^sup>*\<^sup>* (fresh_aio t) (w :: 'm shared) \<and> stopping w = Some u \<and> cbs w 0 = InUser u
        \<and> \<not> aio_freed w)
    \<and> (\<forall>(w :: 'm shared) w' i v. nstep\<^sup>*\<^sup>* (fresh_aio t) w \<and> stopping w = Some v \<and> cbs w i = InUser v
        \<and> \<not> aio_freed w \<and> nstep\<^sup>*\<^sup>* w w' \<longrightarrow> \<not> aio_freed w')"
proof -
  have fate: "results (books w') = results (books w)
      \<and> mset (accepted (books w')) + mset (leaked_out (books w'))
        = mset (accepted (books w)) + mset (leaked_out (books w)) + mset (out_msgs p w)
      \<and> mset (leaked_in (books w')) + mset (arrived (books w))
        = mset (arrived (books w')) + mset (in_msgs p w) + mset (leaked_in (books w))"
    if r: "nstep\<^sup>*\<^sup>* (fresh_aio t) w" and v: "stopping w = Some v" and p: "fits p w"
      and run: "nstep\<^sup>*\<^sup>* w w'" and freed: "aio_freed w'" for w w' :: "'m shared" and p v
  proof -
    have inv: "aio_inv w" by (rule aio_inv_reachable [OF r])
    then have b: "balanced p w" using fits_unique p unfolding aio_inv_def by blast
    from dropped_run [OF run inv v] obtain q where "fits q w'" "balanced q w'"
      unfolding aio_inv_def by blast
    with freed_fits_nobody [OF rtranclp_trans [OF r run] freed]
    have b': "balanced Nobody w'" by blast
    have same: "results (books w') = results (books w)" "offered (books w') = offered (books w)"
      "rejected (books w') = rejected (books w)"
      using dropped_run [OF run inv v] by blast+
    note bal = b [unfolded balanced_def Let_def] b' [unfolded balanced_def Let_def same]
    from bal have "mset (rejected (books w)) + mset (concat (map given_back (results (books w))))
        + (mset (accepted (books w')) + mset (leaked_out (books w')))
      = mset (rejected (books w)) + mset (concat (map given_back (results (books w))))
        + (mset (accepted (books w)) + mset (leaked_out (books w)) + mset (out_msgs p w))"
      by (simp add: ac_simps)
    moreover from bal have "mset (leaked_in (books w')) + mset (arrived (books w))
      = mset (arrived (books w')) + mset (in_msgs p w) + mset (leaked_in (books w))"
      by (simp add: ac_simps)
    ultimately show ?thesis using same(1) by (simp only: add_left_cancel simp_thms)
  qed
  show ?thesis
    using fate drop_leaks [of t m] drop_in_callback [of t u] aio_inv_reachable blocked_forever
    by blast
qed

theorem dropping_the_last_clone_witness:
  "\<exists>w. nstep\<^sup>*\<^sup>* (fresh_aio 0) (w :: nat shared) \<and> aio_freed w \<and> leaked_out (books w) = [7]"
  using dropping_the_last_clone [where t = 0 and m = "7 :: nat" and u = 1] by blast

end
