(* ===== verification/NngHandles.thy ===== *)
theory NngHandles
  imports Errors "HOL-Library.Multiset" "HOL-Library.Sublist"
begin

text \<open>
  The handles of the synchronous crate: sockets, raw sockets, contexts, dialers, listeners, pipes
  and devices (nng/src/socket.rs, ctx.rs, dialer.rs, listener.rs, pipe.rs, device.rs, protocol.rs).
  \<^verbatim>\<open>Socket\<close> and \<^verbatim>\<open>Context\<close> are reference-counted and close what they hold with the last clone;
  \<^verbatim>\<open>DialerBuilder\<close> and \<^verbatim>\<open>ListenerBuilder\<close> have one owner and close when they are dropped unstarted;
  \<^verbatim>\<open>Dialer\<close>, \<^verbatim>\<open>Listener\<close> and \<^verbatim>\<open>Pipe\<close> are plain copies.  NNG is the record of functions \<open>F\<close> on a
  state \<open>'w\<close>.
\<close>

section \<open>Protocols\<close>

datatype protocol =
    Bus0 | Pair0 | Pair1 | Pub0 | Pull0 | Push0 | Rep0 | Req0 | Respondent0 | Sub0 | Surveyor0

text \<open>\<open>derive(Ord)\<close> orders the constructors as they are declared.\<close>

fun protocol_index :: "protocol \<Rightarrow> nat" where
  "protocol_index Bus0 = 0"
| "protocol_index Pair0 = 1"
| "protocol_index Pair1 = 2"
| "protocol_index Pub0 = 3"
| "protocol_index Pull0 = 4"
| "protocol_index Push0 = 5"
| "protocol_index Rep0 = 6"
| "protocol_index Req0 = 7"
| "protocol_index Respondent0 = 8"
| "protocol_index Sub0 = 9"
| "protocol_index Surveyor0 = 10"

lemma protocol_index_inject: "protocol_index s = protocol_index t \<longleftrightarrow> s = t"
  by (cases s; cases t) simp_all

instantiation protocol :: linorder
begin

definition less_eq_protocol :: "protocol \<Rightarrow> protocol \<Rightarrow> bool" where
  "less_eq_protocol s t \<longleftrightarrow> protocol_index s \<le> protocol_index t"

definition less_protocol :: "protocol \<Rightarrow> protocol \<Rightarrow> bool" where
  "less_protocol s t \<longleftrightarrow> protocol_index s < protocol_index t"

instance
  by standard (auto simp: less_eq_protocol_def less_protocol_def protocol_index_inject)

end

text \<open>\<open>Display\<close> is the derived \<open>Debug\<close>, the name of the constructor.\<close>

fun protocol_display :: "protocol \<Rightarrow> string" where
  "protocol_display Bus0 = ''Bus0''"
| "protocol_display Pair0 = ''Pair0''"
| "protocol_display Pair1 = ''Pair1''"
| "protocol_display Pub0 = ''Pub0''"
| "protocol_display Pull0 = ''Pull0''"
| "protocol_display Push0 = ''Push0''"
| "protocol_display Rep0 = ''Rep0''"
| "protocol_display Req0 = ''Req0''"
| "protocol_display Respondent0 = ''Respondent0''"
| "protocol_display Sub0 = ''Sub0''"
| "protocol_display Surveyor0 = ''Surveyor0''"

text \<open>The C function that \<open>Socket::new\<close> and \<open>RawSocket::new\<close> call.\<close>

fun open_fn :: "protocol \<Rightarrow> string" where
  "open_fn Bus0 = ''nng_bus0_open''"
| "open_fn Pair0 = ''nng_pair0_open''"
| "open_fn Pair1 = ''nng_pair1_open''"
| "open_fn Pub0 = ''nng_pub0_open''"
| "open_fn Pull0 = ''nng_pull0_open''"
| "open_fn Push0 = ''nng_push0_open''"
| "open_fn Rep0 = ''nng_rep0_open''"
| "open_fn Req0 = ''nng_req0_open''"
| "open_fn Respondent0 = ''nng_respondent0_open''"
| "open_fn Sub0 = ''nng_sub0_open''"
| "open_fn Surveyor0 = ''nng_surveyor0_open''"

fun open_raw_fn :: "protocol \<Rightarrow> string" where
  "open_raw_fn Bus0 = ''nng_bus0_open_raw''"
| "open_raw_fn Pair0 = ''nng_pair0_open_raw''"
| "open_raw_fn Pair1 = ''nng_pair1_open_raw''"
| "open_raw_fn Pub0 = ''nng_pub0_open_raw''"
| "open_raw_fn Pull0 = ''nng_pull0_open_raw''"
| "open_raw_fn Push0 = ''nng_push0_open_raw''"
| "open_raw_fn Rep0 = ''nng_rep0_open_raw''"
| "open_raw_fn Req0 = ''nng_req0_open_raw''"
| "open_raw_fn Respondent0 = ''nng_respondent0_open_raw''"
| "open_raw_fn Sub0 = ''nng_sub0_open_raw''"
| "open_raw_fn Surveyor0 = ''nng_surveyor0_open_raw''"

definition is_raw_fn :: "string \<Rightarrow> bool" where
  "is_raw_fn f \<longleftrightarrow> suffix ''_raw'' f"

lemma is_raw_fn_simps [simp]: "\<not> is_raw_fn (open_fn t)" "is_raw_fn (open_raw_fn t)"
  by (cases t; simp add: is_raw_fn_def suffix_to_prefix)+

section \<open>Reference counts\<close>

text \<open>
  The \<^verbatim>\<open>Arc\<close>s of one type: a cell per allocation with the value and the number of strong
  references.  A cell without references is gone; addresses are not used twice.
\<close>

type_synonym 'a arcs = "('a \<times> nat) list"

definition arc_new :: "'a \<Rightarrow> 'a arcs \<Rightarrow> nat \<times> 'a arcs" where
  "arc_new v h = (length h, h @ [(v, 1)])"

definition arc_get :: "nat \<Rightarrow> 'a arcs \<Rightarrow> 'a" where
  "arc_get a h = fst (h ! a)"

definition arc_count :: "nat \<Rightarrow> 'a arcs \<Rightarrow> nat" where
  "arc_count a h = (if a < length h then snd (h ! a) else 0)"

definition arc_clone :: "nat \<Rightarrow> 'a arcs \<Rightarrow> 'a arcs" where
  "arc_clone a h = h[a := (arc_get a h, Suc (arc_count a h))]"

text \<open>The value comes back when the last reference is dropped, to be destroyed.\<close>

definition arc_drop :: "nat \<Rightarrow> 'a arcs \<Rightarrow> 'a option \<times> 'a arcs" where
  "arc_drop a h =
     (if arc_count a h = 1 then Some (arc_get a h) else None,
      h[a := (arc_get a h, arc_count a h - 1)])"

definition arc_update :: "nat \<Rightarrow> ('a \<Rightarrow> 'a) \<Rightarrow> 'a arcs \<Rightarrow> 'a arcs" where
  "arc_update a f h = h[a := (f (arc_get a h), arc_count a h)]"

text \<open>The values that are still referenced.\<close>

definition arc_live :: "'a arcs \<Rightarrow> 'a multiset" where
  "arc_live h = image_mset fst (filter_mset (\<lambda>c. snd c \<noteq> 0) (mset h))"

lemma arc_live_append: "arc_live (h @ [(v, Suc n)]) = add_mset v (arc_live h)"
  by (simp add: arc_live_def)

lemma arc_live_update:
  assumes "a < length h"
  shows "arc_live (h[a := (v, n)]) + (if snd (h ! a) \<noteq> 0 then {#fst (h ! a)#} else {#})
     = arc_live h + (if n \<noteq> 0 then {#v#} else {#})"
proof -
  have "mset (h[a := (v, n)]) + {#h ! a#} = mset h + {#(v, n)#}"
    using assms by (simp add: mset_update)
  then have "filter_mset (\<lambda>c. snd c \<noteq> 0) (mset (h[a := (v, n)]) + {#h ! a#})
     = filter_mset (\<lambda>c. snd c \<noteq> 0) (mset h + {#(v, n)#})" by (rule arg_cong)
  then have "image_mset fst (filter_mset (\<lambda>c. snd c \<noteq> 0) (mset (h[a := (v, n)]) + {#h ! a#}))
     = image_mset fst (filter_mset (\<lambda>c. snd c \<noteq> 0) (mset h + {#(v, n)#}))" by (rule arg_cong)
  then show ?thesis by (auto simp: arc_live_def split: if_splits)
qed

lemma arc_live_new [simp]: "arc_new v h = (a, h') \<Longrightarrow> arc_live h' = add_mset v (arc_live h)"
  by (auto simp: arc_new_def arc_live_append [where n = 0, simplified])

lemma arc_countE:
  assumes "0 < arc_count a h"
  obtains v n where "a < length h" and "h ! a = (v, Suc n)"
    and "arc_get a h = v" and "arc_count a h = Suc n"
proof -
  have "a < length h" using assms by (simp add: arc_count_def split: if_splits)
  moreover obtain v k where "h ! a = (v, k)" by (cases "h ! a")
  ultimately show ?thesis
    using assms that by (cases k) (simp_all add: arc_count_def arc_get_def)
qed

lemma arc_live_put:
  "\<lbrakk>a < length h; h ! a = (v, Suc n)\<rbrakk> \<Longrightarrow> arc_live (h[a := (x, k)]) + {#v#}
     = arc_live h + (if k \<noteq> 0 then {#x#} else {#})"
  using arc_live_update [of a h x k] by simp

lemma arc_live_clone [simp]:
  assumes "0 < arc_count a h"
  shows "arc_live (arc_clone a h) = arc_live h"
  using assms
proof (rule arc_countE)
  fix v n assume "a < length h" and "h ! a = (v, Suc n)"
    and "arc_get a h = v" and "arc_count a h = Suc n"
  then show ?thesis using arc_live_put [of a h v n v "Suc (Suc n)"] by (simp add: arc_clone_def)
qed

lemma arc_live_drop:
  assumes "0 < arc_count a h" and "arc_drop a h = (r, h')"
  shows "arc_live h = arc_live h' + mset (opt_list r)"
  using assms(1)
proof (rule arc_countE)
  fix v n assume a: "a < length h" "h ! a = (v, Suc n)" "arc_get a h = v" "arc_count a h = Suc n"
  then have "arc_live (h[a := (v, n)]) + {#v#} = arc_live h + (if n \<noteq> 0 then {#v#} else {#})"
    by (intro arc_live_put)
  then show ?thesis using assms(2) a by (cases n) (auto simp: arc_drop_def)
qed

lemma arc_live_set:
  assumes "0 < arc_count a h" and "g (f (arc_get a h)) = g (arc_get a h)"
  shows "image_mset g (arc_live (arc_update a f h)) = image_mset g (arc_live h)"
  using assms(1)
proof (rule arc_countE)
  fix v n assume a: "a < length h" "h ! a = (v, Suc n)" "arc_get a h = v" "arc_count a h = Suc n"
  then have "arc_live (h[a := (f v, Suc n)]) + {#v#} = arc_live h + {#f v#}"
    using arc_live_put [of a h v n "f v" "Suc n"] by simp
  from arg_cong [OF this, of "image_mset g"] show ?thesis
    using a assms(2) by (simp add: arc_update_def)
qed

section \<open>The C functions\<close>

text \<open>
  Functions that create something return the code and the handle they wrote; \<open>f_socket_raw\<close> what
  is in the flag afterwards, which starts as false.  A null socket is the handle \<open>0\<close>.
\<close>

record 'w nng_fns =
  f_init :: "'w \<Rightarrow> 'w"
  f_fini :: "'w \<Rightarrow> 'w"
  f_open :: "string \<Rightarrow> 'w \<Rightarrow> (c_int \<times> u32) \<times> 'w"
  f_socket_close :: "u32 \<Rightarrow> 'w \<Rightarrow> c_int \<times> 'w"
  f_socket_raw :: "u32 \<Rightarrow> 'w \<Rightarrow> bool \<times> 'w"
  f_pipe_notify :: "u32 \<Rightarrow> u32 \<Rightarrow> nat \<Rightarrow> 'w \<Rightarrow> u32 \<times> 'w"
  f_device :: "u32 \<Rightarrow> u32 \<Rightarrow> 'w \<Rightarrow> u32 \<times> 'w"
  f_ctx_open :: "u32 \<Rightarrow> 'w \<Rightarrow> (c_int \<times> u32) \<times> 'w"
  f_ctx_close :: "u32 \<Rightarrow> 'w \<Rightarrow> c_int \<times> 'w"
  f_dial :: "u32 \<Rightarrow> string \<Rightarrow> u32 \<Rightarrow> 'w \<Rightarrow> (c_int \<times> u32) \<times> 'w"
  f_dialer_create :: "u32 \<Rightarrow> string \<Rightarrow> 'w \<Rightarrow> (c_int \<times> u32) \<times> 'w"
  f_dialer_start :: "u32 \<Rightarrow> u32 \<Rightarrow> 'w \<Rightarrow> c_int \<times> 'w"
  f_dialer_close :: "u32 \<Rightarrow> 'w \<Rightarrow> c_int \<times> 'w"
  f_listen :: "u32 \<Rightarrow> string \<Rightarrow> u32 \<Rightarrow> 'w \<Rightarrow> (c_int \<times> u32) \<times> 'w"
  f_listener_create :: "u32 \<Rightarrow> string \<Rightarrow> 'w \<Rightarrow> (c_int \<times> u32) \<times> 'w"
  f_listener_start :: "u32 \<Rightarrow> u32 \<Rightarrow> 'w \<Rightarrow> c_int \<times> 'w"
  f_listener_close :: "u32 \<Rightarrow> 'w \<Rightarrow> c_int \<times> 'w"

definition NNG_FLAG_NONBLOCK :: u32 where "NNG_FLAG_NONBLOCK = 2"
definition NNG_PIPE_EV_ADD_PRE :: u32 where "NNG_PIPE_EV_ADD_PRE = 1"
definition NNG_PIPE_EV_ADD_POST :: u32 where "NNG_PIPE_EV_ADD_POST = 2"
definition NNG_PIPE_EV_REM_POST :: u32 where "NNG_PIPE_EV_REM_POST = 3"

text \<open>
  \<open>Inner\<close> of a socket, and a running program: NNG, the \<^verbatim>\<open>Arc\<close>s of sockets and contexts, and the
  dialer and listener builders that it owns.
\<close>

record 'cb inner =
  handle :: u32
  pipe_notify :: "'cb option"

record ('w, 'cb) session =
  lib :: 'w
  socks :: "'cb inner arcs"
  ctxs :: "u32 arcs"
  d_builders :: "u32 list"
  l_builders :: "u32 list"

text \<open>\<open>CString::new\<close> refuses a string with a NUL in it.\<close>

definition cstring_new :: "string \<Rightarrow> error + string" where
  "cstring_new url = (if CHR 0x00 \<in> set url then Inl error.AddressInvalid else Inr url)"

text \<open>The assertion of every function that closes something: success or \<^verbatim>\<open>NNG_ECLOSED\<close>.\<close>

definition assert_closed :: "c_int \<times> 'w \<Rightarrow> 'w run" where
  "assert_closed r =
     (if fst r = 0 \<or> fst r = error_code_num ECLOSED then Inr (snd r) else Inl AssertFailed)"

definition on_lib :: "('w, 'cb) session \<Rightarrow> 'w run \<Rightarrow> ('w, 'cb) session run" where
  "on_lib s r = run_map (\<lambda>w. s\<lparr>lib := w\<rparr>) r"

section \<open>Sockets\<close>

definition nsock_new ::
  "'w nng_fns \<Rightarrow> protocol \<Rightarrow> ('w, 'cb) session \<Rightarrow> (error + nat) \<times> ('w, 'cb) session" where
  "nsock_new F t s =
     (let w1 = f_init F (lib s);
          ((rv, sock), w2) = f_open F (open_fn t) w1 in
      case rv2res rv () of
        Inl e \<Rightarrow> (Inl e, s\<lparr>lib := w2\<rparr>)
      | Inr _ \<Rightarrow>
          (let (a, h) = arc_new \<lparr>handle = sock, pipe_notify = None\<rparr> (socks s) in
           (Inr a, s\<lparr>lib := w2, socks := h\<rparr>)))"

definition nraw_new ::
  "'w nng_fns \<Rightarrow> protocol \<Rightarrow> ('w, 'cb) session \<Rightarrow> (error + nat) \<times> ('w, 'cb) session" where
  "nraw_new F t s =
     (let ((rv, sock), w1) = f_open F (open_raw_fn t) (lib s) in
      if rv \<noteq> 0 then (Inl (error_from rv), s\<lparr>lib := w1\<rparr>)
      else
        (let (a, h) = arc_new \<lparr>handle = sock, pipe_notify = None\<rparr> (socks s) in
         (Inr a, s\<lparr>lib := w1, socks := h\<rparr>)))"

definition nsock_handle :: "nat \<Rightarrow> ('w, 'cb) session \<Rightarrow> u32" where
  "nsock_handle a s = handle (arc_get a (socks s))"

definition nsock_clone :: "nat \<Rightarrow> ('w, 'cb) session \<Rightarrow> ('w, 'cb) session" where
  "nsock_clone a s = s\<lparr>socks := arc_clone a (socks s)\<rparr>"

definition inner_close :: "'w nng_fns \<Rightarrow> u32 \<Rightarrow> 'w \<Rightarrow> 'w run" where
  "inner_close F h w = assert_closed (f_socket_close F h w)"

definition nsock_close :: "'w nng_fns \<Rightarrow> nat \<Rightarrow> ('w, 'cb) session \<Rightarrow> ('w, 'cb) session run" where
  "nsock_close F a s = on_lib s (inner_close F (nsock_handle a s) (lib s))"

text \<open>\<open>Drop for Inner\<close>: first \<^verbatim>\<open>nng_fini\<close>, then the close.\<close>

definition inner_drop :: "'w nng_fns \<Rightarrow> u32 \<Rightarrow> 'w \<Rightarrow> 'w run" where
  "inner_drop F h w = inner_close F h (f_fini F w)"

definition nsock_drop :: "'w nng_fns \<Rightarrow> nat \<Rightarrow> ('w, 'cb) session \<Rightarrow> ('w, 'cb) session run" where
  "nsock_drop F a s =
     (case arc_drop a (socks s) of
        (None, h) \<Rightarrow> Inr (s\<lparr>socks := h\<rparr>)
      | (Some i, h) \<Rightarrow> on_lib (s\<lparr>socks := h\<rparr>) (inner_drop F (handle i) (lib s)))"

text \<open>\<open>TryFrom<Socket>\<close>: a cooked socket is consumed with the error.\<close>

definition nraw_try_from ::
  "'w nng_fns \<Rightarrow> nat \<Rightarrow> ('w, 'cb) session \<Rightarrow> ((unit + nat) \<times> ('w, 'cb) session) run" where
  "nraw_try_from F a s =
     (let (raw, w) = f_socket_raw F (nsock_handle a s) (lib s); s1 = s\<lparr>lib := w\<rparr> in
      if raw then Inr (Inr a, s1)
      else run_map (\<lambda>s2. (Inl (), s2)) (nsock_drop F a s1))"

definition nsock_dial_flags ::
  "'w nng_fns \<Rightarrow> u32 \<Rightarrow> nat \<Rightarrow> string \<Rightarrow> ('w, 'cb) session \<Rightarrow> (error + unit) \<times> ('w, 'cb) session" where
  "nsock_dial_flags F flags a url s =
     (case cstring_new url of
        Inl e \<Rightarrow> (Inl e, s)
      | Inr addr \<Rightarrow>
          (let ((rv, d), w) = f_dial F (nsock_handle a s) addr flags (lib s) in
           (rv2res rv (), s\<lparr>lib := w\<rparr>)))"

definition nsock_dial ::
  "'w nng_fns \<Rightarrow> nat \<Rightarrow> string \<Rightarrow> ('w, 'cb) session \<Rightarrow> (error + unit) \<times> ('w, 'cb) session" where
  "nsock_dial F = nsock_dial_flags F 0"

definition nsock_dial_async ::
  "'w nng_fns \<Rightarrow> nat \<Rightarrow> string \<Rightarrow> ('w, 'cb) session \<Rightarrow> (error + unit) \<times> ('w, 'cb) session" where
  "nsock_dial_async F = nsock_dial_flags F NNG_FLAG_NONBLOCK"

definition nsock_listen ::
  "'w nng_fns \<Rightarrow> nat \<Rightarrow> string \<Rightarrow> ('w, 'cb) session \<Rightarrow> (error + unit) \<times> ('w, 'cb) session" where
  "nsock_listen F a url s =
     (case cstring_new url of
        Inl e \<Rightarrow> (Inl e, s)
      | Inr addr \<Rightarrow>
          (let ((rv, l), w) = f_listen F (nsock_handle a s) addr 0 (lib s) in
           (rv2res rv (), s\<lparr>lib := w\<rparr>)))"

section \<open>Pipe events\<close>

datatype pipe_event = AddPre | AddPost | RemovePost | UnknownEvent u32

definition event_from_code :: "u32 \<Rightarrow> pipe_event" where
  "event_from_code ev =
     (if ev = NNG_PIPE_EV_ADD_PRE then AddPre
      else if ev = NNG_PIPE_EV_ADD_POST then AddPost
      else if ev = NNG_PIPE_EV_REM_POST then RemovePost
      else UnknownEvent ev)"

text \<open>
  \<open>from_nng_sys\<close> of pipes, dialers and listeners; \<open>id_of\<close> is the C function that reads the number
  of a handle.
\<close>

definition from_nng_sys :: "(u32 \<Rightarrow> c_int) \<Rightarrow> u32 \<Rightarrow> u32 run" where
  "from_nng_sys id_of h = (if 0 < sint (id_of h) then Inr h else Inl AssertFailed)"

text \<open>\<open>Result::and\<close> over the registrations, all of which are made.\<close>

fun register_events ::
  "'w nng_fns \<Rightarrow> u32 \<Rightarrow> nat \<Rightarrow> u32 list \<Rightarrow> error + unit \<Rightarrow> 'w \<Rightarrow> (error + unit) \<times> 'w" where
  "register_events F h arg [] acc w = (acc, w)"
| "register_events F h arg (ev # evs) acc w =
     (let (rv, w1) = f_pipe_notify F h ev arg w in
      register_events F h arg evs (case acc of Inl e \<Rightarrow> Inl e | Inr _ \<Rightarrow> rv2res rv ()) w1)"

definition nsock_pipe_notify ::
  "'w nng_fns \<Rightarrow> nat \<Rightarrow> 'cb \<Rightarrow> ('w, 'cb) session \<Rightarrow> (error + unit) \<times> ('w, 'cb) session" where
  "nsock_pipe_notify F a cb s =
     (let s1 = s\<lparr>socks := arc_update a (\<lambda>i. i\<lparr>pipe_notify := Some cb\<rparr>) (socks s)\<rparr>;
          (r, w) = register_events F (nsock_handle a s1) a
             [NNG_PIPE_EV_ADD_PRE, NNG_PIPE_EV_ADD_POST, NNG_PIPE_EV_REM_POST] (Inr ()) (lib s1) in
      (r, s1\<lparr>lib := w\<rparr>))"

text \<open>
  \<open>trampoline\<close>: which callback runs, and on what.  A panic here aborts the process.
\<close>

definition pipe_trampoline ::
  "(u32 \<Rightarrow> c_int) \<Rightarrow> u32 \<Rightarrow> u32 \<Rightarrow> nat option \<Rightarrow> ('w, 'cb) session \<Rightarrow>
     ('cb \<times> u32 \<times> pipe_event) option run" where
  "pipe_trampoline pipe_id p ev arg s =
     run_bind (from_nng_sys pipe_id p) (\<lambda>p.
       case arg of
         None \<Rightarrow> Inl AssertFailed
       | Some a \<Rightarrow>
           Inr (map_option (\<lambda>cb. (cb, p, event_from_code ev)) (pipe_notify (arc_get a (socks s)))))"

text \<open>
  The dialer or listener a pipe belongs to, and the pipe of a message: present when the number is
  positive.
\<close>

definition checked_handle :: "(u32 \<Rightarrow> c_int) \<Rightarrow> u32 \<Rightarrow> u32 option run" where
  "checked_handle id_of h =
     (if 0 < sint (id_of h) then run_map Some (from_nng_sys id_of h) else Inr None)"

definition pipe_dialer :: "(u32 \<Rightarrow> u32) \<Rightarrow> (u32 \<Rightarrow> c_int) \<Rightarrow> u32 \<Rightarrow> u32 option run" where
  "pipe_dialer nng_pipe_dialer dialer_id p = checked_handle dialer_id (nng_pipe_dialer p)"

definition pipe_listener :: "(u32 \<Rightarrow> u32) \<Rightarrow> (u32 \<Rightarrow> c_int) \<Rightarrow> u32 \<Rightarrow> u32 option run" where
  "pipe_listener nng_pipe_listener listener_id p = checked_handle listener_id (nng_pipe_listener p)"

definition nmsg_pipe :: "('m \<Rightarrow> u32) \<Rightarrow> (u32 \<Rightarrow> c_int) \<Rightarrow> 'm \<Rightarrow> u32 option run" where
  "nmsg_pipe nng_msg_get_pipe pipe_id m = checked_handle pipe_id (nng_msg_get_pipe m)"

lemma checked_handle_returns:
  "checked_handle id_of h = Inr (if 0 < sint (id_of h) then Some h else None)"
  by (simp add: checked_handle_def from_nng_sys_def)

definition pipe_close :: "(u32 \<Rightarrow> 'w \<Rightarrow> u32 \<times> 'w) \<Rightarrow> u32 \<Rightarrow> 'w \<Rightarrow> 'w run" where
  "pipe_close nng_pipe_close p w = assert_closed (nng_pipe_close p w)"

section \<open>Devices\<close>

text \<open>Both sockets are dropped after \<^verbatim>\<open>nng_device\<close> returns, before its code is looked at.\<close>

definition forwarder ::
  "'w nng_fns \<Rightarrow> nat \<Rightarrow> nat \<Rightarrow> ('w, 'cb) session \<Rightarrow> ((error + unit) \<times> ('w, 'cb) session) run" where
  "forwarder F a b s =
     (let (rv, w) = f_device F (nsock_handle a s) (nsock_handle b s) (lib s) in
      run_bind (nsock_drop F a (s\<lparr>lib := w\<rparr>)) (\<lambda>s1.
      run_bind (nsock_drop F b s1) (\<lambda>s2.
        if rv \<noteq> 0 then Inr (Inl (error_from rv), s2) else Inl Unreachable)))"

definition reflector ::
  "'w nng_fns \<Rightarrow> nat \<Rightarrow> ('w, 'cb) session \<Rightarrow> ((error + unit) \<times> ('w, 'cb) session) run" where
  "reflector F a s =
     (let (rv, w) = f_device F (nsock_handle a s) 0 (lib s) in
      run_bind (nsock_drop F a (s\<lparr>lib := w\<rparr>)) (\<lambda>s1.
        if rv \<noteq> 0 then Inr (Inl (error_from rv), s1) else Inl Unreachable))"

section \<open>Contexts\<close>

definition nctx_new ::
  "'w nng_fns \<Rightarrow> nat \<Rightarrow> ('w, 'cb) session \<Rightarrow> (error + nat) \<times> ('w, 'cb) session" where
  "nctx_new F a s =
     (let ((rv, c), w) = f_ctx_open F (nsock_handle a s) (lib s) in
      case rv2res rv () of
        Inl e \<Rightarrow> (Inl e, s\<lparr>lib := w\<rparr>)
      | Inr _ \<Rightarrow> (let (i, h) = arc_new c (ctxs s) in (Inr i, s\<lparr>lib := w, ctxs := h\<rparr>)))"

definition nctx_clone :: "nat \<Rightarrow> ('w, 'cb) session \<Rightarrow> ('w, 'cb) session" where
  "nctx_clone i s = s\<lparr>ctxs := arc_clone i (ctxs s)\<rparr>"

definition ctx_inner_close :: "'w nng_fns \<Rightarrow> u32 \<Rightarrow> 'w \<Rightarrow> 'w run" where
  "ctx_inner_close F c w = assert_closed (f_ctx_close F c w)"

definition nctx_close :: "'w nng_fns \<Rightarrow> nat \<Rightarrow> ('w, 'cb) session \<Rightarrow> ('w, 'cb) session run" where
  "nctx_close F i s = on_lib s (ctx_inner_close F (arc_get i (ctxs s)) (lib s))"

definition nctx_drop :: "'w nng_fns \<Rightarrow> nat \<Rightarrow> ('w, 'cb) session \<Rightarrow> ('w, 'cb) session run" where
  "nctx_drop F i s =
     (case arc_drop i (ctxs s) of
        (None, h) \<Rightarrow> Inr (s\<lparr>ctxs := h\<rparr>)
      | (Some c, h) \<Rightarrow> on_lib (s\<lparr>ctxs := h\<rparr>) (ctx_inner_close F c (lib s)))"

section \<open>Dialers and listeners\<close>

definition start_flags :: "bool \<Rightarrow> u32" where
  "start_flags nonblocking = (if nonblocking then NNG_FLAG_NONBLOCK else 0)"

definition dialer_new ::
  "'w nng_fns \<Rightarrow> nat \<Rightarrow> string \<Rightarrow> bool \<Rightarrow> ('w, 'cb) session \<Rightarrow> (error + u32) \<times> ('w, 'cb) session" where
  "dialer_new F a url nonblocking s =
     (case cstring_new url of
        Inl e \<Rightarrow> (Inl e, s)
      | Inr addr \<Rightarrow>
          (let ((rv, d), w) = f_dial F (nsock_handle a s) addr (start_flags nonblocking) (lib s) in
           (rv2res rv d, s\<lparr>lib := w\<rparr>)))"

definition dialer_close :: "'w nng_fns \<Rightarrow> u32 \<Rightarrow> ('w, 'cb) session \<Rightarrow> ('w, 'cb) session run" where
  "dialer_close F d s = on_lib s (assert_closed (f_dialer_close F d (lib s)))"

definition dialer_builder_new ::
  "'w nng_fns \<Rightarrow> nat \<Rightarrow> string \<Rightarrow> ('w, 'cb) session \<Rightarrow> (error + u32) \<times> ('w, 'cb) session" where
  "dialer_builder_new F a url s =
     (case cstring_new url of
        Inl e \<Rightarrow> (Inl e, s)
      | Inr addr \<Rightarrow>
          (let ((rv, d), w) = f_dialer_create F (nsock_handle a s) addr (lib s); s1 = s\<lparr>lib := w\<rparr> in
           case rv2res rv d of
             Inl e \<Rightarrow> (Inl e, s1)
           | Inr d \<Rightarrow> (Inr d, s1\<lparr>d_builders := d # d_builders s\<rparr>)))"

text \<open>\<open>start\<close> consumes the builder; on an error it comes back to the caller.\<close>

definition dialer_builder_start ::
  "'w nng_fns \<Rightarrow> bool \<Rightarrow> u32 \<Rightarrow> ('w, 'cb) session \<Rightarrow> (u32 \<times> error + u32) \<times> ('w, 'cb) session" where
  "dialer_builder_start F nonblocking d s =
     (let (rv, w) = f_dialer_start F d (start_flags nonblocking) (lib s); s1 = s\<lparr>lib := w\<rparr> in
      if rv \<noteq> 0 then (Inl (d, error_from rv), s1)
      else (Inr d, s1\<lparr>d_builders := remove1 d (d_builders s)\<rparr>))"

definition dialer_builder_drop ::
  "'w nng_fns \<Rightarrow> u32 \<Rightarrow> ('w, 'cb) session \<Rightarrow> ('w, 'cb) session run" where
  "dialer_builder_drop F d s =
     on_lib (s\<lparr>d_builders := remove1 d (d_builders s)\<rparr>) (assert_closed (f_dialer_close F d (lib s)))"

definition listener_new ::
  "'w nng_fns \<Rightarrow> nat \<Rightarrow> string \<Rightarrow> ('w, 'cb) session \<Rightarrow> (error + u32) \<times> ('w, 'cb) session" where
  "listener_new F a url s =
     (case cstring_new url of
        Inl e \<Rightarrow> (Inl e, s)
      | Inr addr \<Rightarrow>
          (let ((rv, l), w) = f_listen F (nsock_handle a s) addr 0 (lib s) in
           (rv2res rv l, s\<lparr>lib := w\<rparr>)))"

definition listener_close :: "'w nng_fns \<Rightarrow> u32 \<Rightarrow> ('w, 'cb) session \<Rightarrow> ('w, 'cb) session run" where
  "listener_close F l s = on_lib s (assert_closed (f_listener_close F l (lib s)))"

definition listener_builder_new ::
  "'w nng_fns \<Rightarrow> nat \<Rightarrow> string \<Rightarrow> ('w, 'cb) session \<Rightarrow> (error + u32) \<times> ('w, 'cb) session" where
  "listener_builder_new F a url s =
     (case cstring_new url of
        Inl e \<Rightarrow> (Inl e, s)
      | Inr addr \<Rightarrow>
          (let ((rv, l), w) = f_listener_create F (nsock_handle a s) addr (lib s);
               s1 = s\<lparr>lib := w\<rparr> in
           case rv2res rv l of
             Inl e \<Rightarrow> (Inl e, s1)
           | Inr l \<Rightarrow> (Inr l, s1\<lparr>l_builders := l # l_builders s\<rparr>)))"

definition listener_builder_start ::
  "'w nng_fns \<Rightarrow> u32 \<Rightarrow> ('w, 'cb) session \<Rightarrow> (u32 \<times> error + u32) \<times> ('w, 'cb) session" where
  "listener_builder_start F l s =
     (let (rv, w) = f_listener_start F l 0 (lib s); s1 = s\<lparr>lib := w\<rparr> in
      if rv \<noteq> 0 then (Inl (l, error_from rv), s1)
      else (Inr l, s1\<lparr>l_builders := remove1 l (l_builders s)\<rparr>))"

definition listener_builder_drop ::
  "'w nng_fns \<Rightarrow> u32 \<Rightarrow> ('w, 'cb) session \<Rightarrow> ('w, 'cb) session run" where
  "listener_builder_drop F l s =
     on_lib (s\<lparr>l_builders := remove1 l (l_builders s)\<rparr>) (assert_closed (f_listener_close F l (lib s)))"

section \<open>Messages\<close>

text \<open>\<open>send\<close>, \<open>try_send\<close>, \<open>recv\<close> and \<open>try_recv\<close>; the C functions act on a state of their own.\<close>

definition nsock_send_flags ::
  "(u32 \<Rightarrow> 'm \<Rightarrow> u32 \<Rightarrow> 'w \<Rightarrow> c_int \<times> 'w) \<Rightarrow> u32 \<Rightarrow> u32 \<Rightarrow> 'm \<Rightarrow> 'w \<Rightarrow> ('m \<times> error + unit) \<times> 'w" where
  "nsock_send_flags sendmsg flags h msg w =
     (let (rv, w1) = sendmsg h msg flags w in
      (if rv \<noteq> 0 then Inl (msg, error_from rv) else Inr (), w1))"

definition nsock_recv_flags ::
  "(u32 \<Rightarrow> u32 \<Rightarrow> 'w \<Rightarrow> (c_int \<times> 'm option) \<times> 'w) \<Rightarrow> u32 \<Rightarrow> u32 \<Rightarrow> 'w \<Rightarrow> ((error + 'm) \<times> 'w) run" where
  "nsock_recv_flags recvmsg flags h w =
     (let ((rv, msgp), w1) = recvmsg h flags w in run_map (\<lambda>r. (r, w1)) (validate_ptr rv msgp))"

definition nsock_send ::
  "(u32 \<Rightarrow> 'm \<Rightarrow> u32 \<Rightarrow> 'w \<Rightarrow> c_int \<times> 'w) \<Rightarrow> u32 \<Rightarrow> 'm \<Rightarrow> 'w \<Rightarrow> ('m \<times> error + unit) \<times> 'w" where
  "nsock_send sendmsg = nsock_send_flags sendmsg 0"

definition nsock_try_send ::
  "(u32 \<Rightarrow> 'm \<Rightarrow> u32 \<Rightarrow> 'w \<Rightarrow> c_int \<times> 'w) \<Rightarrow> u32 \<Rightarrow> 'm \<Rightarrow> 'w \<Rightarrow> ('m \<times> error + unit) \<times> 'w" where
  "nsock_try_send sendmsg = nsock_send_flags sendmsg NNG_FLAG_NONBLOCK"

definition nsock_recv ::
  "(u32 \<Rightarrow> u32 \<Rightarrow> 'w \<Rightarrow> (c_int \<times> 'm option) \<times> 'w) \<Rightarrow> u32 \<Rightarrow> 'w \<Rightarrow> ((error + 'm) \<times> 'w) run" where
  "nsock_recv recvmsg = nsock_recv_flags recvmsg 0"

definition nsock_try_recv ::
  "(u32 \<Rightarrow> u32 \<Rightarrow> 'w \<Rightarrow> (c_int \<times> 'm option) \<times> 'w) \<Rightarrow> u32 \<Rightarrow> 'w \<Rightarrow> ((error + 'm) \<times> 'w) run" where
  "nsock_try_recv recvmsg = nsock_recv_flags recvmsg NNG_FLAG_NONBLOCK"

section \<open>Comparing handles\<close>

text \<open>
  \<open>PartialEq\<close>, \<open>Ord\<close> and \<open>Hash\<close> of \<^verbatim>\<open>Socket\<close>, \<^verbatim>\<open>Context\<close>, \<^verbatim>\<open>Dialer\<close>, \<^verbatim>\<open>Listener\<close> and \<^verbatim>\<open>Pipe\<close> go through the
  number that a C function reads from the handle.
\<close>

datatype ordering = Less | Equal | Greater

definition int_cmp :: "int \<Rightarrow> int \<Rightarrow> ordering" where
  "int_cmp x y = (if x < y then Less else if x = y then Equal else Greater)"

definition sock_eq :: "(u32 \<Rightarrow> c_int) \<Rightarrow> 'cb inner \<Rightarrow> 'cb inner \<Rightarrow> bool" where
  "sock_eq socket_id a b \<longleftrightarrow> socket_id (handle a) = socket_id (handle b)"

definition sock_cmp :: "(u32 \<Rightarrow> c_int) \<Rightarrow> 'cb inner \<Rightarrow> 'cb inner \<Rightarrow> ordering" where
  "sock_cmp socket_id a b =
     (let us = socket_id (handle a); them = socket_id (handle b) in int_cmp (sint us) (sint them))"

definition sock_hash :: "(u32 \<Rightarrow> c_int) \<Rightarrow> (c_int \<Rightarrow> 'h \<Rightarrow> 'h) \<Rightarrow> 'cb inner \<Rightarrow> 'h \<Rightarrow> 'h" where
  "sock_hash socket_id hash_int a st = hash_int (socket_id (handle a)) st"

definition id_eq :: "(u32 \<Rightarrow> c_int) \<Rightarrow> u32 \<Rightarrow> u32 \<Rightarrow> bool" where
  "id_eq id_of a b \<longleftrightarrow> id_of a = id_of b"

definition id_cmp :: "(u32 \<Rightarrow> c_int) \<Rightarrow> u32 \<Rightarrow> u32 \<Rightarrow> ordering" where
  "id_cmp id_of a b = (let us = id_of a; them = id_of b in int_cmp (sint us) (sint them))"

definition id_hash :: "(u32 \<Rightarrow> c_int) \<Rightarrow> (c_int \<Rightarrow> 'h \<Rightarrow> 'h) \<Rightarrow> u32 \<Rightarrow> 'h \<Rightarrow> 'h" where
  "id_hash id_of hash_int a st = hash_int (id_of a) st"

text \<open>What Rust asks of such a type, from the one fact that all three read the same number.\<close>

locale keyed =
  fixes key :: "'a \<Rightarrow> c_int" and eq :: "'a \<Rightarrow> 'a \<Rightarrow> bool" and cmp :: "'a \<Rightarrow> 'a \<Rightarrow> ordering"
    and hash :: "'a \<Rightarrow> 'h \<Rightarrow> 'h"
  assumes eq_key: "eq a b \<longleftrightarrow> key a = key b"
    and cmp_key: "cmp a b = int_cmp (sint (key a)) (sint (key b))"
    and hash_key: "key a = key b \<Longrightarrow> hash a = hash b"
begin

lemma eq_equiv: "equivp eq"
  by (rule equivpI) (auto simp: reflp_def symp_def transp_def eq_key)

lemma cmp_Equal: "cmp a b = Equal \<longleftrightarrow> eq a b"
  by (auto simp: cmp_key eq_key int_cmp_def intro: signed_word_eqI)

lemma cmp_Less: "cmp a b = Less \<longleftrightarrow> cmp b a = Greater"
  by (auto simp: cmp_key int_cmp_def split: if_splits)

lemma cmp_trans: "\<lbrakk>cmp a b = Less; cmp b c = Less\<rbrakk> \<Longrightarrow> cmp a c = Less"
  by (auto simp: cmp_key int_cmp_def split: if_splits)

lemma cmp_cong: "eq a b \<Longrightarrow> cmp a c = cmp b c"
  by (simp add: cmp_key eq_key)

lemma eq_hash: "eq a b \<Longrightarrow> hash a = hash b"
  using hash_key eq_key by blast

end

interpretation sock_key: keyed
  "\<lambda>a. socket_id (handle a)" "sock_eq socket_id" "sock_cmp socket_id" "sock_hash socket_id hash_int"
  for socket_id :: "u32 \<Rightarrow> c_int" and hash_int :: "c_int \<Rightarrow> 'h \<Rightarrow> 'h"
  by unfold_locales (simp_all add: sock_eq_def sock_cmp_def sock_hash_def fun_eq_iff)

interpretation id_key: keyed id_of "id_eq id_of" "id_cmp id_of" "id_hash id_of hash_int"
  for id_of :: "u32 \<Rightarrow> c_int" and hash_int :: "c_int \<Rightarrow> 'h \<Rightarrow> 'h"
  by unfold_locales (simp_all add: id_eq_def id_cmp_def id_hash_def fun_eq_iff)

section \<open>The calls that handles make\<close>

datatype h_call =
    CInit | CFini
  | COpen string c_int u32 | CSocketClose u32
  | CCtxOpen c_int u32 | CCtxClose u32
  | CDialerCreate c_int u32 | CDialerStart c_int u32 | CDialerClose u32
  | CListenerCreate c_int u32 | CListenerStart c_int u32 | CListenerClose u32

definition h_logged :: "'w nng_fns \<Rightarrow> ('w \<times> h_call list) nng_fns" where
  "h_logged F = \<lparr>
     f_init = (\<lambda>(w, l). (f_init F w, l @ [CInit])),
     f_fini = (\<lambda>(w, l). (f_fini F w, l @ [CFini])),
     f_open = (\<lambda>f (w, l). let ((rv, h), w') = f_open F f w in ((rv, h), w', l @ [COpen f rv h])),
     f_socket_close = (\<lambda>h (w, l). let (rv, w') = f_socket_close F h w in (rv, w', l @ [CSocketClose h])),
     f_socket_raw = (\<lambda>h (w, l). let (b, w') = f_socket_raw F h w in (b, w', l)),
     f_pipe_notify = (\<lambda>h ev a (w, l). let (rv, w') = f_pipe_notify F h ev a w in (rv, w', l)),
     f_device = (\<lambda>a b (w, l). let (rv, w') = f_device F a b w in (rv, w', l)),
     f_ctx_open = (\<lambda>h (w, l). let ((rv, c), w') = f_ctx_open F h w in ((rv, c), w', l @ [CCtxOpen rv c])),
     f_ctx_close = (\<lambda>c (w, l). let (rv, w') = f_ctx_close F c w in (rv, w', l @ [CCtxClose c])),
     f_dial = (\<lambda>h u fl (w, l). let (r, w') = f_dial F h u fl w in (r, w', l)),
     f_dialer_create = (\<lambda>h u (w, l). let ((rv, d), w') = f_dialer_create F h u w in
        ((rv, d), w', l @ [CDialerCreate rv d])),
     f_dialer_start = (\<lambda>d fl (w, l). let (rv, w') = f_dialer_start F d fl w in
        (rv, w', l @ [CDialerStart rv d])),
     f_dialer_close = (\<lambda>d (w, l). let (rv, w') = f_dialer_close F d w in (rv, w', l @ [CDialerClose d])),
     f_listen = (\<lambda>h u fl (w, l). let (r, w') = f_listen F h u fl w in (r, w', l)),
     f_listener_create = (\<lambda>h u (w, l). let ((rv, d), w') = f_listener_create F h u w in
        ((rv, d), w', l @ [CListenerCreate rv d])),
     f_listener_start = (\<lambda>d fl (w, l). let (rv, w') = f_listener_start F d fl w in
        (rv, w', l @ [CListenerStart rv d])),
     f_listener_close = (\<lambda>d (w, l). let (rv, w') = f_listener_close F d w in
        (rv, w', l @ [CListenerClose d]))\<rparr>"

section \<open>Programs over handles\<close>

datatype 'cb h_op =
    NewSocket protocol | NewRaw protocol | CloneSocket nat | CloseSocket nat | DropSocket nat
  | IntoRaw nat | PipeNotify nat 'cb | Forward nat nat | Reflect nat
  | Dial nat string | DialAsync nat string | Listen nat string
  | NewCtx nat | CloneCtx nat | CloseCtx nat | DropCtx nat
  | NewDialer nat string bool | CloseDialer u32
  | NewDialerBuilder nat string | StartDialer bool u32 | DropDialerBuilder u32
  | NewListener nat string | CloseListener u32
  | NewListenerBuilder nat string | StartListener u32 | DropListenerBuilder u32

text \<open>The handles an operation needs; a device consumes one clone for each side.\<close>

fun h_can :: "'cb h_op \<Rightarrow> ('w, 'cb) session \<Rightarrow> bool" where
  "h_can (CloneSocket a) s \<longleftrightarrow> 0 < arc_count a (socks s)"
| "h_can (CloseSocket a) s \<longleftrightarrow> 0 < arc_count a (socks s)"
| "h_can (DropSocket a) s \<longleftrightarrow> 0 < arc_count a (socks s)"
| "h_can (IntoRaw a) s \<longleftrightarrow> 0 < arc_count a (socks s)"
| "h_can (PipeNotify a cb) s \<longleftrightarrow> 0 < arc_count a (socks s)"
| "h_can (Forward a b) s \<longleftrightarrow>
     (if a = b then 1 < arc_count a (socks s) else 0 < arc_count a (socks s) \<and> 0 < arc_count b (socks s))"
| "h_can (Reflect a) s \<longleftrightarrow> 0 < arc_count a (socks s)"
| "h_can (CloneCtx i) s \<longleftrightarrow> 0 < arc_count i (ctxs s)"
| "h_can (CloseCtx i) s \<longleftrightarrow> 0 < arc_count i (ctxs s)"
| "h_can (DropCtx i) s \<longleftrightarrow> 0 < arc_count i (ctxs s)"
| "h_can (StartDialer nb d) s \<longleftrightarrow> d \<in> set (d_builders s)"
| "h_can (DropDialerBuilder d) s \<longleftrightarrow> d \<in> set (d_builders s)"
| "h_can (StartListener l) s \<longleftrightarrow> l \<in> set (l_builders s)"
| "h_can (DropListenerBuilder l) s \<longleftrightarrow> l \<in> set (l_builders s)"
| "h_can (Dial a u) s \<longleftrightarrow> 0 < arc_count a (socks s)"
| "h_can (DialAsync a u) s \<longleftrightarrow> 0 < arc_count a (socks s)"
| "h_can (Listen a u) s \<longleftrightarrow> 0 < arc_count a (socks s)"
| "h_can (NewCtx a) s \<longleftrightarrow> 0 < arc_count a (socks s)"
| "h_can (NewDialer a u nb) s \<longleftrightarrow> 0 < arc_count a (socks s)"
| "h_can (NewDialerBuilder a u) s \<longleftrightarrow> 0 < arc_count a (socks s)"
| "h_can (NewListener a u) s \<longleftrightarrow> 0 < arc_count a (socks s)"
| "h_can (NewListenerBuilder a u) s \<longleftrightarrow> 0 < arc_count a (socks s)"
| "h_can _ s \<longleftrightarrow> True"

fun h_step :: "'w nng_fns \<Rightarrow> 'cb h_op \<Rightarrow> ('w, 'cb) session \<Rightarrow> ('w, 'cb) session run" where
  "h_step F (NewSocket t) s = Inr (snd (nsock_new F t s))"
| "h_step F (NewRaw t) s = Inr (snd (nraw_new F t s))"
| "h_step F (CloneSocket a) s = Inr (nsock_clone a s)"
| "h_step F (CloseSocket a) s = nsock_close F a s"
| "h_step F (DropSocket a) s = nsock_drop F a s"
| "h_step F (IntoRaw a) s = run_map snd (nraw_try_from F a s)"
| "h_step F (PipeNotify a cb) s = Inr (snd (nsock_pipe_notify F a cb s))"
| "h_step F (Forward a b) s = run_map snd (forwarder F a b s)"
| "h_step F (Reflect a) s = run_map snd (reflector F a s)"
| "h_step F (Dial a u) s = Inr (snd (nsock_dial F a u s))"
| "h_step F (DialAsync a u) s = Inr (snd (nsock_dial_async F a u s))"
| "h_step F (Listen a u) s = Inr (snd (nsock_listen F a u s))"
| "h_step F (NewCtx a) s = Inr (snd (nctx_new F a s))"
| "h_step F (CloneCtx i) s = Inr (nctx_clone i s)"
| "h_step F (CloseCtx i) s = nctx_close F i s"
| "h_step F (DropCtx i) s = nctx_drop F i s"
| "h_step F (NewDialer a u nb) s = Inr (snd (dialer_new F a u nb s))"
| "h_step F (CloseDialer d) s = dialer_close F d s"
| "h_step F (NewDialerBuilder a u) s = Inr (snd (dialer_builder_new F a u s))"
| "h_step F (StartDialer nb d) s = Inr (snd (dialer_builder_start F nb d s))"
| "h_step F (DropDialerBuilder d) s = dialer_builder_drop F d s"
| "h_step F (NewListener a u) s = Inr (snd (listener_new F a u s))"
| "h_step F (CloseListener l) s = listener_close F l s"
| "h_step F (NewListenerBuilder a u) s = Inr (snd (listener_builder_new F a u s))"
| "h_step F (StartListener l) s = Inr (snd (listener_builder_start F l s))"
| "h_step F (DropListenerBuilder l) s = listener_builder_drop F l s"

text \<open>The closes the program asks for itself, through \<open>close\<close>.\<close>

fun asked :: "'cb h_op \<Rightarrow> ('w, 'cb) session \<Rightarrow> h_call list" where
  "asked (CloseSocket a) s = [CSocketClose (nsock_handle a s)]"
| "asked (CloseCtx i) s = [CCtxClose (arc_get i (ctxs s))]"
| "asked (CloseDialer d) s = [CDialerClose d]"
| "asked (CloseListener l) s = [CListenerClose l]"
| "asked _ s = []"

text \<open>A program never uses a handle it does not have: such an operation is passed over.\<close>

definition h_do ::
  "'w nng_fns \<Rightarrow> 'cb h_op \<Rightarrow> ('w, 'cb) session \<times> h_call list \<Rightarrow> (('w, 'cb) session \<times> h_call list) run" where
  "h_do F op sq =
     (case sq of (s, q) \<Rightarrow>
        if h_can op s then run_map (\<lambda>s'. (s', q @ asked op s)) (h_step F op s) else Inr (s, q))"

fun run_ops :: "('op \<Rightarrow> 's \<Rightarrow> 's run) \<Rightarrow> 'op list \<Rightarrow> 's \<Rightarrow> 's run" where
  "run_ops step [] s = Inr s"
| "run_ops step (op # ops) s = run_bind (step op s) (run_ops step ops)"

definition fresh_session :: "'w \<Rightarrow> ('w \<times> h_call list, 'cb) session" where
  "fresh_session w = \<lparr>lib = (w, []), socks = [], ctxs = [], d_builders = [], l_builders = []\<rparr>"

section \<open>Ledgers\<close>

text \<open>What came in, what went out and what is in stock, over any run of operations.\<close>

locale ledger =
  fixes step :: "'op \<Rightarrow> 's \<Rightarrow> 's run" and inflow outflow stock :: "'s \<Rightarrow> 'r :: cancel_comm_monoid_add"
  assumes step_balance: "step op s = Inr s' \<Longrightarrow>
    inflow s' + (outflow s + stock s) = inflow s + (outflow s' + stock s')"
begin

lemma run_balance:
  "run_ops step ops s = Inr s' \<Longrightarrow>
     inflow s' + (outflow s + stock s) = inflow s + (outflow s' + stock s')"
proof (induction ops arbitrary: s)
  case (Cons op ops)
  then obtain s1 where 1: "step op s = Inr s1" and "run_ops step ops s1 = Inr s'"
    by (auto simp: run_bind_eq_Inr)
  from Cons.IH [OF this(2)]
  have "inflow s' + (outflow s1 + stock s1) = inflow s1 + (outflow s' + stock s')" .
  with step_balance [OF 1]
  have "(inflow s1 + (outflow s + stock s)) + (inflow s' + (outflow s1 + stock s1))
     = (inflow s + (outflow s1 + stock s1)) + (inflow s1 + (outflow s' + stock s'))" by simp
  then have "(inflow s' + (outflow s + stock s)) + (inflow s1 + (outflow s1 + stock s1))
     = (inflow s + (outflow s' + stock s')) + (inflow s1 + (outflow s1 + stock s1))"
    by (simp only: ac_simps)
  then show ?case by (rule add_right_imp_eq)
qed (simp add: add.commute)

lemma balance_from_nothing:
  "\<lbrakk>run_ops step ops s = Inr s'; inflow s = 0; outflow s + stock s = 0\<rbrakk> \<Longrightarrow>
     inflow s' = outflow s' + stock s'"
  using run_balance by fastforce

end

section \<open>What each operation opens and closes\<close>

fun in_sock :: "h_call \<Rightarrow> u32 multiset" where
  "in_sock (COpen f rv h) = (if rv = 0 then {#h#} else {#})" | "in_sock _ = {#}"

fun out_sock :: "h_call \<Rightarrow> u32 multiset" where
  "out_sock (CSocketClose h) = {#h#}" | "out_sock _ = {#}"

fun in_ctx :: "h_call \<Rightarrow> u32 multiset" where
  "in_ctx (CCtxOpen rv c) = (if rv = 0 then {#c#} else {#})" | "in_ctx _ = {#}"

fun out_ctx :: "h_call \<Rightarrow> u32 multiset" where
  "out_ctx (CCtxClose c) = {#c#}" | "out_ctx _ = {#}"

text \<open>A builder ends by starting, which hands the dialer over, or by closing it.\<close>

fun in_dial :: "h_call \<Rightarrow> u32 multiset" where
  "in_dial (CDialerCreate rv d) = (if rv = 0 then {#d#} else {#})" | "in_dial _ = {#}"

fun out_dial :: "h_call \<Rightarrow> u32 multiset" where
  "out_dial (CDialerStart rv d) = (if rv = 0 then {#d#} else {#})"
| "out_dial (CDialerClose d) = {#d#}"
| "out_dial _ = {#}"

fun in_listen :: "h_call \<Rightarrow> u32 multiset" where
  "in_listen (CListenerCreate rv l) = (if rv = 0 then {#l#} else {#})" | "in_listen _ = {#}"

fun out_listen :: "h_call \<Rightarrow> u32 multiset" where
  "out_listen (CListenerStart rv l) = (if rv = 0 then {#l#} else {#})"
| "out_listen (CListenerClose l) = {#l#}"
| "out_listen _ = {#}"

text \<open>
  Handles on the library: \<open>Socket::new\<close> calls \<^verbatim>\<open>nng_init\<close>, and a raw socket comes without; \<^verbatim>\<open>nng_fini\<close>
  releases one, and a cooked socket that did not open leaves one behind.
\<close>

fun in_lib :: "h_call \<Rightarrow> nat" where
  "in_lib CInit = 1"
| "in_lib (COpen f rv h) = (if rv = 0 \<and> is_raw_fn f then 1 else 0)"
| "in_lib _ = 0"

fun out_lib :: "h_call \<Rightarrow> nat" where
  "out_lib CFini = 1"
| "out_lib (COpen f rv h) = (if rv \<noteq> 0 \<and> \<not> is_raw_fn f then 1 else 0)"
| "out_lib _ = 0"

definition tally :: "(h_call \<Rightarrow> 'r :: comm_monoid_add) \<Rightarrow> h_call list \<Rightarrow> 'r" where
  "tally f l = sum_list (map f l)"

lemma tally_simps [simp]:
  "tally f [] = 0" "tally f (c # l) = f c + tally f l" "tally f (l @ k) = tally f l + tally f k"
  by (simp_all add: tally_def)

definition sock_stock :: "('w, 'cb) session \<Rightarrow> u32 multiset" where
  "sock_stock s = image_mset handle (arc_live (socks s))"

text \<open>One step: the calls \<open>d\<close> it made and the closes \<open>q\<close> it was asked for account for the change of stock.\<close>

definition accounts :: "h_call list \<Rightarrow> h_call list \<Rightarrow> ('w, 'cb) session \<Rightarrow> ('w, 'cb) session \<Rightarrow> bool" where
  "accounts d q s s' \<longleftrightarrow>
     tally in_sock d + tally out_sock q + sock_stock s = tally out_sock d + sock_stock s'
   \<and> tally in_ctx d + tally out_ctx q + arc_live (ctxs s) = tally out_ctx d + arc_live (ctxs s')
   \<and> tally in_dial d + tally out_dial q + mset (d_builders s) = tally out_dial d + mset (d_builders s')
   \<and> tally in_listen d + tally out_listen q + mset (l_builders s)
       = tally out_listen d + mset (l_builders s')
   \<and> tally in_lib d + size (sock_stock s) = tally out_lib d + size (sock_stock s')"

definition books_keep ::
  "h_call list \<Rightarrow> ('w \<times> h_call list, 'cb) session \<Rightarrow> ('w \<times> h_call list, 'cb) session \<Rightarrow> bool" where
  "books_keep q s s' \<longleftrightarrow> (\<exists>d. snd (lib s') = snd (lib s) @ d \<and> accounts d q s s')"

lemma books_keepI:
  "\<lbrakk>snd (lib s') = snd (lib s) @ d; accounts d q s s'\<rbrakk> \<Longrightarrow> books_keep q s s'"
  by (auto simp: books_keep_def)

lemma accounts_trans:
  assumes "accounts d q s s1" and "accounts d' [] s1 s2"
  shows "accounts (d @ d') q s s2"
  using assms unfolding accounts_def tally_simps
  by (smt (verit) add.assoc add.commute add.left_commute add_0 tally_simps(1))

lemma books_keep_trans:
  assumes "books_keep q s s1" and "books_keep [] s1 s2"
  shows "books_keep q s s2"
proof -
  obtain d d' where d: "snd (lib s1) = snd (lib s) @ d" "accounts d q s s1"
    "snd (lib s2) = snd (lib s1) @ d'" "accounts d' [] s1 s2"
    using assms by (auto simp: books_keep_def)
  from accounts_trans [OF d(2,4)] d show ?thesis by (intro books_keepI) simp_all
qed

text \<open>No call of interest: only the state of NNG moves.\<close>

lemma books_keep_quiet:
  "\<lbrakk>snd (lib s') = snd (lib s); sock_stock s' = sock_stock s; arc_live (ctxs s') = arc_live (ctxs s);
    d_builders s' = d_builders s; l_builders s' = l_builders s\<rbrakk> \<Longrightarrow> books_keep [] s s'"
  by (rule books_keepI [where d = "[]"]) (simp_all add: accounts_def)

lemma assert_closed_Inr: "assert_closed r = Inr w \<Longrightarrow> w = snd r"
  by (auto simp: assert_closed_def split: if_splits)

lemma on_lib_Inr: "on_lib s r = Inr s' \<longleftrightarrow> (\<exists>w. r = Inr w \<and> s' = s\<lparr>lib := w\<rparr>)"
  by (auto simp: on_lib_def run_simps)

lemma logged_calls [simp]:
  "f_init (h_logged F) x = (f_init F (fst x), snd x @ [CInit])"
  "f_fini (h_logged F) x = (f_fini F (fst x), snd x @ [CFini])"
  "f_open (h_logged F) f x = (let r = f_open F f (fst x) in
     (fst r, snd r, snd x @ [COpen f (fst (fst r)) (snd (fst r))]))"
  "f_socket_close (h_logged F) h x = (let r = f_socket_close F h (fst x) in
     (fst r, snd r, snd x @ [CSocketClose h]))"
  "f_socket_raw (h_logged F) h x = (let r = f_socket_raw F h (fst x) in (fst r, snd r, snd x))"
  "f_pipe_notify (h_logged F) h ev a x = (let r = f_pipe_notify F h ev a (fst x) in (fst r, snd r, snd x))"
  "f_device (h_logged F) h k x = (let r = f_device F h k (fst x) in (fst r, snd r, snd x))"
  "f_ctx_open (h_logged F) h x = (let r = f_ctx_open F h (fst x) in
     (fst r, snd r, snd x @ [CCtxOpen (fst (fst r)) (snd (fst r))]))"
  "f_ctx_close (h_logged F) h x = (let r = f_ctx_close F h (fst x) in
     (fst r, snd r, snd x @ [CCtxClose h]))"
  "f_dial (h_logged F) h u fl x = (let r = f_dial F h u fl (fst x) in (fst r, snd r, snd x))"
  "f_dialer_create (h_logged F) h u x = (let r = f_dialer_create F h u (fst x) in
     (fst r, snd r, snd x @ [CDialerCreate (fst (fst r)) (snd (fst r))]))"
  "f_dialer_start (h_logged F) h fl x = (let r = f_dialer_start F h fl (fst x) in
     (fst r, snd r, snd x @ [CDialerStart (fst r) h]))"
  "f_dialer_close (h_logged F) h x = (let r = f_dialer_close F h (fst x) in
     (fst r, snd r, snd x @ [CDialerClose h]))"
  "f_listen (h_logged F) h u fl x = (let r = f_listen F h u fl (fst x) in (fst r, snd r, snd x))"
  "f_listener_create (h_logged F) h u x = (let r = f_listener_create F h u (fst x) in
     (fst r, snd r, snd x @ [CListenerCreate (fst (fst r)) (snd (fst r))]))"
  "f_listener_start (h_logged F) h fl x = (let r = f_listener_start F h fl (fst x) in
     (fst r, snd r, snd x @ [CListenerStart (fst r) h]))"
  "f_listener_close (h_logged F) h x = (let r = f_listener_close F h (fst x) in
     (fst r, snd r, snd x @ [CListenerClose h]))"
  by (simp_all add: h_logged_def split_beta Let_def)

lemmas account_simps =
  accounts_def sock_stock_def rv2res_def split_beta Let_def on_lib_Inr inner_close_def
  ctx_inner_close_def inner_drop_def

lemma arc_live_snoc [simp]: "arc_live (h @ [(v, Suc 0)]) = add_mset v (arc_live h)"
  by (rule arc_live_append)

subsection \<open>Sockets\<close>

lemma nsock_new_books: "books_keep [] s (snd (nsock_new (h_logged F) t s))"
  by (cases "f_open F (open_fn t) (f_init F (fst (lib s)))")
    (auto intro!: books_keepI [where d = "[CInit, COpen (open_fn t) rv h]" for rv h]
      simp: nsock_new_def account_simps arc_new_def)

lemma nraw_new_books: "books_keep [] s (snd (nraw_new (h_logged F) t s))"
  by (cases "f_open F (open_raw_fn t) (fst (lib s))")
    (auto intro!: books_keepI [where d = "[COpen (open_raw_fn t) rv h]" for rv h]
      simp: nraw_new_def account_simps arc_new_def)

lemma nsock_clone_books: "0 < arc_count a (socks s) \<Longrightarrow> books_keep [] s (nsock_clone a s)"
  by (rule books_keep_quiet) (simp_all add: nsock_clone_def sock_stock_def)

lemma nsock_close_books:
  "nsock_close (h_logged F) a s = Inr s' \<Longrightarrow> books_keep [CSocketClose (nsock_handle a s)] s s'"
  by (rule books_keepI [where d = "[CSocketClose (nsock_handle a s)]"])
    (auto simp: nsock_close_def account_simps dest!: assert_closed_Inr)

lemma nsock_drop_books:
  assumes "nsock_drop (h_logged F) a s = Inr s'" and "0 < arc_count a (socks s)"
  shows "books_keep [] s s'"
proof (cases "arc_drop a (socks s)")
  case (Pair r h)
  note stock = arc_live_drop [OF assms(2) Pair]
  show ?thesis
  proof (cases r)
    case None
    with assms(1) Pair stock show ?thesis
      by (intro books_keep_quiet) (auto simp: nsock_drop_def sock_stock_def)
  next
    case (Some i)
    with assms(1) Pair stock show ?thesis
      by (intro books_keepI [where d = "[CFini, CSocketClose (handle i)]"])
        (auto simp: nsock_drop_def account_simps dest!: assert_closed_Inr)
  qed
qed

lemma nraw_try_from_books:
  assumes "nraw_try_from (h_logged F) a s = Inr (r, s')" and "0 < arc_count a (socks s)"
  shows "books_keep [] s s'"
proof -
  define s1 where "s1 = s\<lparr>lib := snd (f_socket_raw (h_logged F) (nsock_handle a s) (lib s))\<rparr>"
  have s1: "books_keep [] s s1"
    by (rule books_keep_quiet) (simp_all add: s1_def sock_stock_def Let_def)
  have "s' = s1 \<or> nsock_drop (h_logged F) a s1 = Inr s'"
    using assms(1) unfolding s1_def
    by (auto simp: nraw_try_from_def split_beta Let_def run_map_eq_Inr split: if_splits)
  moreover have "0 < arc_count a (socks s1)" using assms(2) by (simp add: s1_def)
  ultimately show ?thesis using s1 books_keep_trans nsock_drop_books by blast
qed

lemma nsock_dial_flags_books: "books_keep [] s (snd (nsock_dial_flags (h_logged F) fl a u s))"
  by (rule books_keep_quiet)
    (auto simp: nsock_dial_flags_def sock_stock_def split_beta Let_def split: sum.splits)

lemma nsock_listen_books: "books_keep [] s (snd (nsock_listen (h_logged F) a u s))"
  by (rule books_keep_quiet)
    (auto simp: nsock_listen_def sock_stock_def split_beta Let_def split: sum.splits)

lemma register_events_quiet:
  "snd (snd (register_events (h_logged F) h arg evs acc x)) = snd x"
  by (induction evs arbitrary: acc x) (simp_all add: split_beta Let_def)

lemma nsock_pipe_notify_books:
  assumes "0 < arc_count a (socks s)"
  shows "books_keep [] s (snd (nsock_pipe_notify (h_logged F) a cb s))"
  using arc_live_set [OF assms, of handle "\<lambda>i. i\<lparr>pipe_notify := Some cb\<rparr>"]
  by (intro books_keep_quiet)
    (simp_all add: nsock_pipe_notify_def sock_stock_def split_beta Let_def register_events_quiet
      del: register_events.simps)

lemma arc_count_update [simp]: "arc_count b (h[a := (v, n)]) = (if b = a \<and> a < length h then n else arc_count b h)"
  by (auto simp: arc_count_def)

lemma nsock_drop_count:
  assumes "nsock_drop F a s = Inr s'" and "0 < arc_count a (socks s)"
  shows "arc_count b (socks s') = (if b = a then arc_count a (socks s) - 1 else arc_count b (socks s))"
  using assms
  by (auto simp: nsock_drop_def arc_drop_def on_lib_Inr split_beta arc_count_def split: if_splits)

lemma forwarder_books:
  assumes "forwarder (h_logged F) a b s = Inr (r, s')" and "h_can (Forward a b) s"
  shows "books_keep [] s s'"
proof -
  define s1 where "s1 = s\<lparr>lib := snd (f_device (h_logged F) (nsock_handle a s) (nsock_handle b s) (lib s))\<rparr>"
  have s1: "books_keep [] s s1"
    by (rule books_keep_quiet) (simp_all add: s1_def sock_stock_def Let_def)
  obtain s2 where d: "nsock_drop (h_logged F) a s1 = Inr s2" "nsock_drop (h_logged F) b s2 = Inr s'"
    using assms(1) unfolding s1_def
    by (auto simp: forwarder_def split_beta Let_def run_bind_eq_Inr split: if_splits)
  have a: "0 < arc_count a (socks s1)" using assms(2) by (auto simp: s1_def split: if_splits)
  then have "0 < arc_count b (socks s2)"
    using assms(2) nsock_drop_count [OF d(1) a, of b] by (auto simp: s1_def split: if_splits)
  then show ?thesis
    using s1 nsock_drop_books [OF d(1) a] nsock_drop_books [OF d(2)] books_keep_trans by blast
qed

lemma reflector_books:
  assumes "reflector (h_logged F) a s = Inr (r, s')" and "0 < arc_count a (socks s)"
  shows "books_keep [] s s'"
proof -
  define s1 where "s1 = s\<lparr>lib := snd (f_device (h_logged F) (nsock_handle a s) 0 (lib s))\<rparr>"
  have s1: "books_keep [] s s1"
    by (rule books_keep_quiet) (simp_all add: s1_def sock_stock_def Let_def)
  have "nsock_drop (h_logged F) a s1 = Inr s'"
    using assms(1) unfolding s1_def
    by (auto simp: reflector_def split_beta Let_def run_bind_eq_Inr split: if_splits)
  moreover have "0 < arc_count a (socks s1)" using assms(2) by (simp add: s1_def)
  ultimately show ?thesis using s1 nsock_drop_books books_keep_trans by blast
qed

subsection \<open>Contexts\<close>

lemma nctx_new_books: "books_keep [] s (snd (nctx_new (h_logged F) a s))"
  by (cases "f_ctx_open F (nsock_handle a s) (fst (lib s))")
    (auto intro!: books_keepI [where d = "[CCtxOpen rv c]" for rv c]
      simp: nctx_new_def account_simps arc_new_def)

lemma nctx_clone_books: "0 < arc_count i (ctxs s) \<Longrightarrow> books_keep [] s (nctx_clone i s)"
  by (rule books_keep_quiet) (simp_all add: nctx_clone_def sock_stock_def)

lemma nctx_close_books:
  "nctx_close (h_logged F) i s = Inr s' \<Longrightarrow> books_keep [CCtxClose (arc_get i (ctxs s))] s s'"
  by (rule books_keepI [where d = "[CCtxClose (arc_get i (ctxs s))]"])
    (auto simp: nctx_close_def account_simps dest!: assert_closed_Inr)

lemma nctx_drop_books:
  assumes "nctx_drop (h_logged F) i s = Inr s'" and "0 < arc_count i (ctxs s)"
  shows "books_keep [] s s'"
proof (cases "arc_drop i (ctxs s)")
  case (Pair r h)
  note stock = arc_live_drop [OF assms(2) Pair]
  show ?thesis
  proof (cases r)
    case None
    with assms(1) Pair stock show ?thesis
      by (intro books_keep_quiet) (auto simp: nctx_drop_def sock_stock_def)
  next
    case (Some c)
    with assms(1) Pair stock show ?thesis
      by (intro books_keepI [where d = "[CCtxClose c]"])
        (auto simp: nctx_drop_def account_simps dest!: assert_closed_Inr)
  qed
qed

subsection \<open>Dialers and listeners\<close>

lemma mset_remove: "d \<in> set xs \<Longrightarrow> add_mset d (mset (remove1 d xs)) = mset xs"
  by (simp add: insert_DiffM)

lemma dialer_new_books: "books_keep [] s (snd (dialer_new (h_logged F) a u nb s))"
  by (rule books_keep_quiet)
    (auto simp: dialer_new_def sock_stock_def split_beta Let_def split: sum.splits)

lemma dialer_close_books:
  "dialer_close (h_logged F) d s = Inr s' \<Longrightarrow> books_keep [CDialerClose d] s s'"
  by (rule books_keepI [where d = "[CDialerClose d]"])
    (auto simp: dialer_close_def account_simps dest!: assert_closed_Inr)

lemma dialer_builder_new_books: "books_keep [] s (snd (dialer_builder_new (h_logged F) a u s))"
proof (cases "cstring_new u")
  case (Inl e)
  then show ?thesis by (intro books_keep_quiet) (simp_all add: dialer_builder_new_def)
next
  case (Inr addr)
  then show ?thesis
    by (cases "f_dialer_create F (nsock_handle a s) addr (fst (lib s))")
      (auto intro!: books_keepI [where d = "[CDialerCreate rv d]" for rv d]
        simp: dialer_builder_new_def account_simps)
qed

lemma dialer_builder_start_books:
  "d \<in> set (d_builders s) \<Longrightarrow> books_keep [] s (snd (dialer_builder_start (h_logged F) nb d s))"
  by (cases "f_dialer_start F d (start_flags nb) (fst (lib s))")
    (auto intro!: books_keepI [where d = "[CDialerStart rv d]" for rv]
      simp: dialer_builder_start_def account_simps mset_remove simp del: mset_remove1)

lemma dialer_builder_drop_books:
  "\<lbrakk>dialer_builder_drop (h_logged F) d s = Inr s'; d \<in> set (d_builders s)\<rbrakk> \<Longrightarrow> books_keep [] s s'"
  by (rule books_keepI [where d = "[CDialerClose d]"])
    (auto simp: dialer_builder_drop_def account_simps mset_remove simp del: mset_remove1
      dest!: assert_closed_Inr)

lemma listener_new_books: "books_keep [] s (snd (listener_new (h_logged F) a u s))"
  by (rule books_keep_quiet)
    (auto simp: listener_new_def sock_stock_def split_beta Let_def split: sum.splits)

lemma listener_close_books:
  "listener_close (h_logged F) l s = Inr s' \<Longrightarrow> books_keep [CListenerClose l] s s'"
  by (rule books_keepI [where d = "[CListenerClose l]"])
    (auto simp: listener_close_def account_simps dest!: assert_closed_Inr)

lemma listener_builder_new_books: "books_keep [] s (snd (listener_builder_new (h_logged F) a u s))"
proof (cases "cstring_new u")
  case (Inl e)
  then show ?thesis by (intro books_keep_quiet) (simp_all add: listener_builder_new_def)
next
  case (Inr addr)
  then show ?thesis
    by (cases "f_listener_create F (nsock_handle a s) addr (fst (lib s))")
      (auto intro!: books_keepI [where d = "[CListenerCreate rv d]" for rv d]
        simp: listener_builder_new_def account_simps)
qed

lemma listener_builder_start_books:
  "l \<in> set (l_builders s) \<Longrightarrow> books_keep [] s (snd (listener_builder_start (h_logged F) l s))"
  by (cases "f_listener_start F l 0 (fst (lib s))")
    (auto intro!: books_keepI [where d = "[CListenerStart rv l]" for rv]
      simp: listener_builder_start_def account_simps mset_remove simp del: mset_remove1)

lemma listener_builder_drop_books:
  "\<lbrakk>listener_builder_drop (h_logged F) l s = Inr s'; l \<in> set (l_builders s)\<rbrakk> \<Longrightarrow> books_keep [] s s'"
  by (rule books_keepI [where d = "[CListenerClose l]"])
    (auto simp: listener_builder_drop_def account_simps mset_remove simp del: mset_remove1
      dest!: assert_closed_Inr)

lemmas op_books =
  nsock_new_books nraw_new_books nsock_clone_books nsock_close_books nsock_drop_books
  nraw_try_from_books nsock_dial_flags_books nsock_listen_books nsock_pipe_notify_books
  forwarder_books reflector_books nctx_new_books nctx_clone_books nctx_close_books nctx_drop_books
  dialer_new_books dialer_close_books dialer_builder_new_books dialer_builder_start_books
  dialer_builder_drop_books listener_new_books listener_close_books listener_builder_new_books
  listener_builder_start_books listener_builder_drop_books

lemma h_step_books:
  "\<lbrakk>h_step (h_logged F) op s = Inr s'; h_can op s\<rbrakk> \<Longrightarrow> books_keep (asked op s) s s'"
  by (cases op)
    (auto simp: run_map_eq_Inr nsock_dial_def nsock_dial_async_def simp del: h_can.simps(6)
      intro: op_books)

section \<open>The five ledgers\<close>

definition flow :: "(h_call \<Rightarrow> 'r :: comm_monoid_add) \<Rightarrow> ('w \<times> h_call list, 'cb) session \<Rightarrow> 'r" where
  "flow f s = tally f (snd (lib s))"

lemma h_do_books:
  assumes "h_do (h_logged F) op (s, q) = Inr (s', q')"
  shows "\<exists>r. q' = q @ r \<and> books_keep r s s'"
proof (cases "h_can op s")
  case True
  with assms h_step_books [of F op s] show ?thesis
    by (auto simp: h_do_def run_map_eq_Inr)
next
  case False
  with assms have "q' = q @ [] \<and> s' = s" by (simp add: h_do_def)
  moreover have "books_keep [] s s" by (rule books_keep_quiet) simp_all
  ultimately show ?thesis by blast
qed

lemma h_do_accounts:
  assumes "h_do (h_logged F) op x = Inr x'"
  shows "\<exists>d r. snd x' = snd x @ r \<and> snd (lib (fst x')) = snd (lib (fst x)) @ d
     \<and> accounts d r (fst x) (fst x')"
  using h_do_books [of F op "fst x" "snd x" "fst x'" "snd x'"] assms
  by (auto simp: books_keep_def)

interpretation sockets: ledger "h_do (h_logged F)"
  "\<lambda>(s, q). flow in_sock s + tally out_sock q" "\<lambda>(s, q). flow out_sock s" "\<lambda>(s, q). sock_stock s"
  for F :: "'w nng_fns"
  by unfold_locales (auto dest!: h_do_accounts simp: flow_def accounts_def ac_simps)

interpretation contexts: ledger "h_do (h_logged F)"
  "\<lambda>(s, q). flow in_ctx s + tally out_ctx q" "\<lambda>(s, q). flow out_ctx s" "\<lambda>(s, q). arc_live (ctxs s)"
  for F :: "'w nng_fns"
  by unfold_locales (auto dest!: h_do_accounts simp: flow_def accounts_def ac_simps)

interpretation dialers: ledger "h_do (h_logged F)"
  "\<lambda>(s, q). flow in_dial s + tally out_dial q" "\<lambda>(s, q). flow out_dial s" "\<lambda>(s, q). mset (d_builders s)"
  for F :: "'w nng_fns"
  by unfold_locales (auto dest!: h_do_accounts simp: flow_def accounts_def ac_simps)

interpretation listeners: ledger "h_do (h_logged F)"
  "\<lambda>(s, q). flow in_listen s + tally out_listen q" "\<lambda>(s, q). flow out_listen s"
  "\<lambda>(s, q). mset (l_builders s)"
  for F :: "'w nng_fns"
  by unfold_locales (auto dest!: h_do_accounts simp: flow_def accounts_def ac_simps)

interpretation library: ledger "h_do (h_logged F)"
  "\<lambda>(s, q). flow in_lib s" "\<lambda>(s, q). flow out_lib s" "\<lambda>(s, q). size (sock_stock s)"
  for F :: "'w nng_fns"
  by unfold_locales (auto dest!: h_do_accounts simp: flow_def accounts_def ac_simps)

section \<open>Programs that run to the end\<close>

definition close_code :: "c_int \<Rightarrow> bool" where
  "close_code rv \<longleftrightarrow> rv = 0 \<or> rv = error_code_num ECLOSED"

text \<open>What the code relies on: a close succeeds or finds the thing closed, a device ends with an error.\<close>

definition closes_ok :: "'w nng_fns \<Rightarrow> bool" where
  "closes_ok F \<longleftrightarrow>
     (\<forall>h w. close_code (fst (f_socket_close F h w)) \<and> close_code (fst (f_ctx_close F h w))
        \<and> close_code (fst (f_dialer_close F h w)) \<and> close_code (fst (f_listener_close F h w)))
   \<and> (\<forall>h k w. fst (f_device F h k w) \<noteq> 0)"

lemma assert_closed_returns: "close_code (fst r) \<Longrightarrow> assert_closed r = Inr (snd r)"
  by (auto simp: assert_closed_def close_code_def)

lemma closes_ok_calls:
  assumes "closes_ok F"
  shows "assert_closed (f_socket_close F h w) = Inr (snd (f_socket_close F h w))"
    and "assert_closed (f_ctx_close F h w) = Inr (snd (f_ctx_close F h w))"
    and "assert_closed (f_dialer_close F h w) = Inr (snd (f_dialer_close F h w))"
    and "assert_closed (f_listener_close F h w) = Inr (snd (f_listener_close F h w))"
    and "fst (f_device F h k w) \<noteq> 0"
  using assms by (simp_all add: closes_ok_def assert_closed_returns)

lemma closes_ok_logged: "closes_ok F \<Longrightarrow> closes_ok (h_logged F)"
  by (simp add: closes_ok_def Let_def)

lemma nsock_drop_returns: "closes_ok F \<Longrightarrow> \<exists>s'. nsock_drop F a s = Inr s'"
  by (cases "arc_drop a (socks s)")
    (auto simp: nsock_drop_def inner_drop_def inner_close_def on_lib_def closes_ok_calls
      split: option.splits)

lemma nctx_drop_returns: "closes_ok F \<Longrightarrow> \<exists>s'. nctx_drop F a s = Inr s'"
  by (cases "arc_drop a (ctxs s)")
    (auto simp: nctx_drop_def ctx_inner_close_def on_lib_def closes_ok_calls split: option.splits)

lemma nraw_try_from_returns:
  assumes "closes_ok F"
  shows "\<exists>r. nraw_try_from F a s = Inr r"
proof -
  let ?d = "f_socket_raw F (nsock_handle a s) (lib s)"
  obtain s1 where "nsock_drop F a (s\<lparr>lib := snd ?d\<rparr>) = Inr s1"
    using nsock_drop_returns [OF assms] by blast
  then show ?thesis by (cases "fst ?d") (simp_all add: nraw_try_from_def split_beta Let_def)
qed

lemma forwarder_returns:
  assumes "closes_ok F"
  shows "\<exists>r. forwarder F a b s = Inr r"
proof -
  let ?d = "f_device F (nsock_handle a s) (nsock_handle b s) (lib s)"
  obtain s1 where "nsock_drop F a (s\<lparr>lib := snd ?d\<rparr>) = Inr s1"
    using nsock_drop_returns [OF assms] by blast
  moreover obtain s2 where "nsock_drop F b s1 = Inr s2"
    using nsock_drop_returns [OF assms] by blast
  ultimately show ?thesis
    using closes_ok_calls(5) [OF assms] by (simp add: forwarder_def split_beta Let_def)
qed

lemma reflector_returns:
  assumes "closes_ok F"
  shows "\<exists>r. reflector F a s = Inr r"
proof -
  let ?d = "f_device F (nsock_handle a s) 0 (lib s)"
  obtain s1 where "nsock_drop F a (s\<lparr>lib := snd ?d\<rparr>) = Inr s1"
    using nsock_drop_returns [OF assms] by blast
  then show ?thesis
    using closes_ok_calls(5) [OF assms] by (simp add: reflector_def split_beta Let_def)
qed

lemma run_map_returns: "\<exists>x. r = Inr x \<Longrightarrow> \<exists>y. run_map f r = Inr y"
  by auto

lemma h_step_returns: "closes_ok F \<Longrightarrow> \<exists>s'. h_step F op s = Inr s'"
  by (cases op)
    (simp_all add: nsock_close_def nctx_close_def dialer_close_def listener_close_def on_lib_def
      dialer_builder_drop_def listener_builder_drop_def inner_close_def ctx_inner_close_def
      closes_ok_calls nsock_drop_returns nctx_drop_returns run_map_returns nraw_try_from_returns
      forwarder_returns reflector_returns del: split_paired_Ex)

lemma h_do_returns: "closes_ok F \<Longrightarrow> \<exists>x'. h_do F op x = Inr x'"
  using h_step_returns [of F op "fst x"] by (cases x) (auto simp: h_do_def)

lemma run_ops_returns:
  assumes "\<And>op x. \<exists>x'. step op x = Inr x'"
  shows "\<exists>x'. run_ops step ops x = Inr x'"
proof (induction ops arbitrary: x)
  case (Cons op ops)
  obtain x1 where "step op x = Inr x1" using assms by blast
  with Cons.IH [of x1] show ?case by simp
qed simp

lemma program_returns:
  "closes_ok F \<Longrightarrow> \<exists>s q. run_ops (h_do (h_logged F)) ops x = Inr (s, q)"
  using run_ops_returns [of "h_do (h_logged F)" ops x] h_do_returns closes_ok_logged by fastforce

section \<open>Counting calls\<close>

definition n_calls :: "(h_call \<Rightarrow> bool) \<Rightarrow> ('w \<times> h_call list, 'cb) session \<Rightarrow> nat" where
  "n_calls P s = length (filter P (snd (lib s)))"

fun is_raw_open :: "h_call \<Rightarrow> bool" where
  "is_raw_open (COpen f rv h) \<longleftrightarrow> rv = 0 \<and> is_raw_fn f" | "is_raw_open _ = False"

fun is_failed_open :: "h_call \<Rightarrow> bool" where
  "is_failed_open (COpen f rv h) \<longleftrightarrow> rv \<noteq> 0 \<and> \<not> is_raw_fn f" | "is_failed_open _ = False"

lemma tally_in_lib: "tally in_lib l = length (filter ((=) CInit) l) + length (filter is_raw_open l)"
proof (induction l)
  case (Cons c l)
  then show ?case by (cases c) simp_all
qed simp

lemma tally_out_lib: "tally out_lib l = length (filter ((=) CFini) l) + length (filter is_failed_open l)"
proof (induction l)
  case (Cons c l)
  then show ?case by (cases c) simp_all
qed simp

lemma fresh_empty:
  "flow f (fresh_session w) = 0" "sock_stock (fresh_session w) = {#}"
  "arc_live (ctxs (fresh_session w)) = {#}" "d_builders (fresh_session w) = []"
  "l_builders (fresh_session w) = []"
  by (simp_all add: flow_def fresh_session_def sock_stock_def arc_live_def)

section \<open>Dialing in one call and through a builder\<close>

text \<open>
  What NNG documents of \<^verbatim>\<open>nng_dial\<close> and \<^verbatim>\<open>nng_listen\<close>: they create and start, and close again what
  does not start.
\<close>

definition dials_as_documented :: "'w nng_fns \<Rightarrow> bool" where
  "dials_as_documented F \<longleftrightarrow>
     (\<forall>h u fl w. f_dial F h u fl w =
        (let ((rv, d), w1) = f_dialer_create F h u w in
         if rv \<noteq> 0 then ((rv, 0), w1)
         else (let (rv2, w2) = f_dialer_start F d fl w1 in
               if rv2 = 0 then ((0, d), w2) else ((rv2, 0), snd (f_dialer_close F d w2)))))
   \<and> (\<forall>h u fl w. f_listen F h u fl w =
        (let ((rv, l), w1) = f_listener_create F h u w in
         if rv \<noteq> 0 then ((rv, 0), w1)
         else (let (rv2, w2) = f_listener_start F l fl w1 in
               if rv2 = 0 then ((0, l), w2) else ((rv2, 0), snd (f_listener_close F l w2)))))"

text \<open>A client that starts a builder at once, and drops it with the error when that fails.\<close>

definition dial_by_builder ::
  "'w nng_fns \<Rightarrow> nat \<Rightarrow> string \<Rightarrow> bool \<Rightarrow> ('w, 'cb) session \<Rightarrow> ((error + u32) \<times> ('w, 'cb) session) run" where
  "dial_by_builder F a url nonblocking s =
     (case dialer_builder_new F a url s of
        (Inl e, s1) \<Rightarrow> Inr (Inl e, s1)
      | (Inr d, s1) \<Rightarrow>
          (case dialer_builder_start F nonblocking d s1 of
             (Inr d, s2) \<Rightarrow> Inr (Inr d, s2)
           | (Inl (d, e), s2) \<Rightarrow> run_map (\<lambda>s3. (Inl e, s3)) (dialer_builder_drop F d s2)))"

definition listen_by_builder ::
  "'w nng_fns \<Rightarrow> nat \<Rightarrow> string \<Rightarrow> ('w, 'cb) session \<Rightarrow> ((error + u32) \<times> ('w, 'cb) session) run" where
  "listen_by_builder F a url s =
     (case listener_builder_new F a url s of
        (Inl e, s1) \<Rightarrow> Inr (Inl e, s1)
      | (Inr l, s1) \<Rightarrow>
          (case listener_builder_start F l s1 of
             (Inr l, s2) \<Rightarrow> Inr (Inr l, s2)
           | (Inl (l, e), s2) \<Rightarrow> run_map (\<lambda>s3. (Inl e, s3)) (listener_builder_drop F l s2)))"

lemma dial_by_builder_eq:
  assumes "closes_ok F" and "dials_as_documented F"
  shows "dial_by_builder F a url nb s = Inr (dialer_new F a url nb s)"
proof (cases "cstring_new url")
  case (Inr addr)
  obtain rv d w1 where c: "f_dialer_create F (nsock_handle a s) addr (lib s) = ((rv, d), w1)"
    by (metis surj_pair)
  obtain rv2 w2 where st: "f_dialer_start F d (start_flags nb) w1 = (rv2, w2)" by (metis surj_pair)
  show ?thesis
    using assms Inr c st
    by (simp add: dial_by_builder_def dialer_new_def dialer_builder_new_def dialer_builder_start_def
        dialer_builder_drop_def dials_as_documented_def rv2res_def on_lib_def closes_ok_calls)
qed (simp add: dial_by_builder_def dialer_new_def dialer_builder_new_def)

lemma listen_by_builder_eq:
  assumes "closes_ok F" and "dials_as_documented F"
  shows "listen_by_builder F a url s = Inr (listener_new F a url s)"
proof (cases "cstring_new url")
  case (Inr addr)
  obtain rv l w1 where c: "f_listener_create F (nsock_handle a s) addr (lib s) = ((rv, l), w1)"
    by (metis surj_pair)
  obtain rv2 w2 where st: "f_listener_start F l 0 w1 = (rv2, w2)" by (metis surj_pair)
  show ?thesis
    using assms Inr c st
    by (simp add: listen_by_builder_def listener_new_def listener_builder_new_def
        listener_builder_start_def listener_builder_drop_def dials_as_documented_def rv2res_def
        on_lib_def closes_ok_calls)
qed (simp add: listen_by_builder_def listener_new_def listener_builder_new_def)

text \<open>The same result without the handle.\<close>

definition forget_handle :: "(error + u32) \<times> 's \<Rightarrow> (error + unit) \<times> 's" where
  "forget_handle r = (map_sum id (\<lambda>_. ()) (fst r), snd r)"

lemma nsock_dial_flags_eq:
  "nsock_dial_flags F (start_flags nb) a url s = forget_handle (dialer_new F a url nb s)"
  by (cases "cstring_new url")
    (simp_all add: nsock_dial_flags_def dialer_new_def forget_handle_def split_beta Let_def rv2res_def)

lemma nsock_listen_eq: "nsock_listen F a url s = forget_handle (listener_new F a url s)"
  by (cases "cstring_new url")
    (simp_all add: nsock_listen_def listener_new_def forget_handle_def split_beta Let_def rv2res_def)

section \<open>Registering a callback\<close>

definition first_error :: "u32 list \<Rightarrow> error + unit" where
  "first_error rvs = (case filter (\<lambda>rv. rv \<noteq> 0) rvs of [] \<Rightarrow> Inr () | rv # _ \<Rightarrow> Inl (error_from rv))"

text \<open>The codes and the states of three registrations in a row.\<close>

fun notify_codes :: "'w nng_fns \<Rightarrow> u32 \<Rightarrow> nat \<Rightarrow> u32 list \<Rightarrow> 'w \<Rightarrow> u32 list \<times> 'w" where
  "notify_codes F h arg [] w = ([], w)"
| "notify_codes F h arg (ev # evs) w =
     (let (rv, w1) = f_pipe_notify F h ev arg w; (rvs, w2) = notify_codes F h arg evs w1 in (rv # rvs, w2))"

lemma register_events_keeps_error:
  "register_events F h arg evs (Inl e) w = (Inl e, snd (notify_codes F h arg evs w))"
  by (induction evs arbitrary: w) (simp_all add: split_beta Let_def)

lemma register_events_first:
  "register_events F h arg evs (Inr ()) w =
     (first_error (fst (notify_codes F h arg evs w)), snd (notify_codes F h arg evs w))"
proof (induction evs arbitrary: w)
  case (Cons ev evs)
  show ?case
    by (cases "fst (f_pipe_notify F h ev arg w) = 0")
      (simp_all add: split_beta Let_def rv2res_def register_events_keeps_error Cons.IH first_error_def)
qed (simp add: first_error_def)

lemma arc_get_update:
  "0 < arc_count a h \<Longrightarrow> arc_get a (arc_update a f h) = f (arc_get a h)"
  by (auto simp: arc_get_def arc_update_def arc_count_def split: if_splits)

lemma arc_count_set [simp]: "arc_count b (arc_update a f h) = arc_count b h"
  by (auto simp: arc_update_def)

section \<open>A library to run against\<close>

text \<open>
  The state counts the calls; everything succeeds but the address that is an exclamation mark and
  the registration for one event.
\<close>

definition sample_fns :: "nat nng_fns" where
  "sample_fns = \<lparr>
     f_init = (\<lambda>w. w), f_fini = (\<lambda>w. w),
     f_open = (\<lambda>f w. ((0, of_nat (Suc w)), Suc w)),
     f_socket_close = (\<lambda>h w. (0, w)), f_socket_raw = (\<lambda>h w. (False, w)),
     f_pipe_notify = (\<lambda>h ev a w. (if ev = 2 then 7 else 0, Suc w)), f_device = (\<lambda>h k w. (7, w)),
     f_ctx_open = (\<lambda>h w. ((0, of_nat (Suc w)), Suc w)), f_ctx_close = (\<lambda>c w. (0, w)),
     f_dial = (\<lambda>h u fl w. if u = ''!'' then ((6, 0), Suc w) else ((0, 1), Suc w)),
     f_dialer_create = (\<lambda>h u w. ((0, if u = ''!'' then 0 else 1), Suc w)),
     f_dialer_start = (\<lambda>d fl w. (if d = 0 then 6 else 0, w)), f_dialer_close = (\<lambda>d w. (0, w)),
     f_listen = (\<lambda>h u fl w. if u = ''!'' then ((6, 0), Suc w) else ((0, 1), Suc w)),
     f_listener_create = (\<lambda>h u w. ((0, if u = ''!'' then 0 else 1), Suc w)),
     f_listener_start = (\<lambda>d fl w. (if d = 0 then 6 else 0, w)), f_listener_close = (\<lambda>d w. (0, w))\<rparr>"

lemma sample_closes_ok: "closes_ok sample_fns"
  by (simp add: closes_ok_def close_code_def sample_fns_def)

lemma sample_dials: "dials_as_documented sample_fns"
  by (simp add: dials_as_documented_def sample_fns_def)

lemma dial_nul: "CHR 0x00 \<in> set url \<Longrightarrow> dialer_new F a url nb s = (Inl error.AddressInvalid, s)"
  by (simp add: dialer_new_def cstring_new_def)

lemma listen_nul: "CHR 0x00 \<in> set url \<Longrightarrow> listener_new F a url s = (Inl error.AddressInvalid, s)"
  by (simp add: listener_new_def cstring_new_def)

definition sample_session :: "(nat, nat) session" where
  "sample_session = \<lparr>lib = 1, socks = [(\<lparr>handle = 1, pipe_notify = None\<rparr>, 1)], ctxs = [],
     d_builders = [], l_builders = []\<rparr>"

section \<open>Properties\<close>

text \<open>C11. Nothing is left open and nothing is closed twice.  A program over the handles of the
  synchronous crate (clones, drops, explicit closes, raw conversions, devices, contexts, dialers
  and listeners in any order) runs without a panic as long as closes succeed or find the thing
  closed and devices end with an error; and for each of the four kinds of handle, what was opened,
  together with the closes the program asked for itself, is exactly what was closed (or, for a
  builder, started) and what is still owned.\<close>

theorem handles_are_closed_once:
  assumes "closes_ok F"
  shows "\<exists>s q. run_ops (h_do (h_logged F)) ops (fresh_session w, []) = Inr (s, q)
     \<and> flow in_sock s + tally out_sock q = flow out_sock s + sock_stock s
     \<and> flow in_ctx s + tally out_ctx q = flow out_ctx s + arc_live (ctxs s)
     \<and> flow in_dial s + tally out_dial q = flow out_dial s + mset (d_builders s)
     \<and> flow in_listen s + tally out_listen q = flow out_listen s + mset (l_builders s)"
proof -
  obtain s q where run: "run_ops (h_do (h_logged F)) ops (fresh_session w, []) = Inr (s, q)"
    using program_returns [OF assms] by blast
  show ?thesis
    using run sockets.balance_from_nothing [OF run] contexts.balance_from_nothing [OF run]
      dialers.balance_from_nothing [OF run] listeners.balance_from_nothing [OF run]
    by (simp add: fresh_empty)
qed

theorem handles_are_closed_once_witness:
  "\<exists>s q. run_ops (h_do (h_logged sample_fns))
       [NewSocket Pair0, CloneSocket 0, NewCtx 0, CloseSocket 0, NewDialerBuilder 0 ''u'',
        DropSocket 0, DropSocket 0] (fresh_session 0 :: (nat \<times> h_call list, nat) session, [])
       = Inr (s, q)
     \<and> flow in_sock s + tally out_sock q = flow out_sock s + sock_stock s
     \<and> flow in_ctx s + tally out_ctx q = flow out_ctx s + arc_live (ctxs s)
     \<and> flow in_dial s + tally out_dial q = flow out_dial s + mset (d_builders s)
     \<and> flow in_listen s + tally out_listen q = flow out_listen s + mset (l_builders s)"
  by (rule handles_are_closed_once [OF sample_closes_ok])

text \<open>C18. The handles that sockets hold on the library.  In every run the calls of \<^verbatim>\<open>nng_init\<close> and the
  raw sockets opened are as many as the calls of \<^verbatim>\<open>nng_fini\<close>, the cooked sockets that failed to open and
  the sockets alive: \<^verbatim>\<open>nng_fini\<close> is not paired with \<^verbatim>\<open>nng_init\<close> when raw sockets are used or an open
  fails.  A program that opens and drops one raw socket calls \<^verbatim>\<open>nng_fini\<close> with no \<^verbatim>\<open>nng_init\<close> at all,
  and before the socket is closed.\<close>

theorem library_handles_balance:
  fixes ops :: "'cb h_op list"
  assumes "closes_ok F"
  shows "(\<exists>s q. run_ops (h_do (h_logged F)) ops (fresh_session w, []) = Inr (s, q)
       \<and> n_calls ((=) CInit) s + n_calls is_raw_open s
         = n_calls ((=) CFini) s + n_calls is_failed_open s + size (sock_stock s))
     \<and> (f_open F (open_raw_fn t) w = ((0, h), w') \<longrightarrow>
         (\<exists>s q. run_ops (h_do (h_logged F)) [NewRaw t, DropSocket 0]
                  (fresh_session w :: ('w \<times> h_call list, 'cb) session, []) = Inr (s, q)
            \<and> snd (lib s) = [COpen (open_raw_fn t) 0 h, CFini, CSocketClose h]))"
proof -
  obtain s q where run: "run_ops (h_do (h_logged F)) ops (fresh_session w, []) = Inr (s, q)"
    using program_returns [OF assms] by blast
  have "flow in_lib s = flow out_lib s + size (sock_stock s)"
    using library.balance_from_nothing [OF run] by (simp add: fresh_empty)
  then have "n_calls ((=) CInit) s + n_calls is_raw_open s
     = n_calls ((=) CFini) s + n_calls is_failed_open s + size (sock_stock s)"
    by (simp add: flow_def tally_in_lib tally_out_lib n_calls_def)
  moreover have "\<exists>s q. run_ops (h_do (h_logged F)) [NewRaw t, DropSocket 0]
       (fresh_session w :: ('w \<times> h_call list, 'cb) session, []) = Inr (s, q)
     \<and> snd (lib s) = [COpen (open_raw_fn t) 0 h, CFini, CSocketClose h]"
    if "f_open F (open_raw_fn t) w = ((0, h), w')"
    using that closes_ok_calls(1) [OF closes_ok_logged [OF assms], where h = h
        and w = "(f_fini F w', [COpen (open_raw_fn t) 0 h, CFini])"]
    by (simp add: h_do_def nraw_new_def fresh_session_def arc_new_def arc_count_def nsock_drop_def
        arc_drop_def arc_get_def inner_drop_def inner_close_def on_lib_def Let_def)
  ultimately show ?thesis using run by blast
qed

theorem library_handles_balance_witness:
  "(\<exists>s q. run_ops (h_do (h_logged sample_fns)) [NewRaw Bus0, DropSocket 0]
        (fresh_session 0 :: (nat \<times> h_call list, nat) session, []) = Inr (s, q)
      \<and> snd (lib s) = [COpen (open_raw_fn Bus0) 0 1, CFini, CSocketClose 1])"
proof -
  have "f_open sample_fns (open_raw_fn Bus0) 0 = ((0, 1), 1)" by (simp add: sample_fns_def)
  with library_handles_balance [OF sample_closes_ok, where ops = "[]" and w = 0] show ?thesis
    by blast
qed

text \<open>Dialing and listening in one call and through a builder.  When NNG dials and listens as it
  documents, starting a builder and dropping it with the error has the result and the effect of
  \<^verbatim>\<open>Dialer::new\<close>, and \<^verbatim>\<open>Listener::new\<close> likewise; \<^verbatim>\<open>Socket::dial\<close>, \<^verbatim>\<open>dial_async\<close> and \<^verbatim>\<open>listen\<close> are these
  without the handle; and an address with a NUL in it is refused before NNG is called.\<close>

theorem builders_dial_alike:
  assumes "closes_ok F" and "dials_as_documented F"
  shows "dial_by_builder F a url nb s = Inr (dialer_new F a url nb s)
     \<and> listen_by_builder F a url s = Inr (listener_new F a url s)
     \<and> nsock_dial F a url s = forget_handle (dialer_new F a url False s)
     \<and> nsock_dial_async F a url s = forget_handle (dialer_new F a url True s)
     \<and> nsock_listen F a url s = forget_handle (listener_new F a url s)
     \<and> (CHR 0x00 \<in> set url \<longrightarrow> dialer_new F a url nb s = (Inl error.AddressInvalid, s)
         \<and> listener_new F a url s = (Inl error.AddressInvalid, s))"
proof (intro conjI)
  show "nsock_dial F a url s = forget_handle (dialer_new F a url False s)"
    using nsock_dial_flags_eq [of F False a url s] by (simp add: nsock_dial_def start_flags_def)
  show "nsock_dial_async F a url s = forget_handle (dialer_new F a url True s)"
    using nsock_dial_flags_eq [of F True a url s]
    by (simp add: nsock_dial_async_def start_flags_def)
qed (simp_all add: dial_by_builder_eq [OF assms] listen_by_builder_eq [OF assms] nsock_listen_eq
    dial_nul listen_nul)

theorem builders_dial_alike_witness:
  "dial_by_builder sample_fns 0 ''!'' True sample_session
     = Inr (dialer_new sample_fns 0 ''!'' True sample_session)
   \<and> nsock_dial_async sample_fns 0 ''!'' sample_session
     = forget_handle (dialer_new sample_fns 0 ''!'' True sample_session)"
  using builders_dial_alike [OF sample_closes_ok sample_dials, where a = 0 and url = "''!''"
      and nb = True and s = sample_session] by blast

text \<open>A registered callback is the one that runs.  \<^verbatim>\<open>pipe_notify\<close> stores the callback first, then
  registers for all three events whatever NNG answers, and returns the first error; from then on
  every event of the socket, known or not, runs this callback on the pipe and the event of that
  code, and an event with an invalid pipe aborts.  The socket keeps its handle and its clones.\<close>

theorem pipe_notify_replaces:
  assumes "0 < arc_count a (socks s)"
  shows "\<exists>s'. nsock_pipe_notify F a cb s
         = (first_error (fst (notify_codes F (nsock_handle a s) a [1, 2, 3] (lib s))), s')
     \<and> lib s' = snd (notify_codes F (nsock_handle a s) a [1, 2, 3] (lib s))
     \<and> nsock_handle a s' = nsock_handle a s
     \<and> (\<forall>b. arc_count b (socks s') = arc_count b (socks s))
     \<and> pipe_trampoline pipe_id p ev (Some a) s'
         = (if 0 < sint (pipe_id p) then Inr (Some (cb, p, event_from_code ev)) else Inl AssertFailed)
     \<and> map event_from_code [1, 2, 3] = [AddPre, AddPost, RemovePost]
     \<and> (ev \<notin> set [1, 2, 3] \<longrightarrow> event_from_code ev = UnknownEvent ev)"
proof -
  let ?s1 = "s\<lparr>socks := arc_update a (\<lambda>i. i\<lparr>pipe_notify := Some cb\<rparr>) (socks s)\<rparr>"
  have h: "nsock_handle a ?s1 = nsock_handle a s"
    using assms by (simp add: nsock_handle_def arc_get_update)
  let ?c = "notify_codes F (nsock_handle a s) a [1, 2, 3] (lib s)"
  have eq: "nsock_pipe_notify F a cb s = (first_error (fst ?c), ?s1\<lparr>lib := snd ?c\<rparr>)"
    using register_events_first [of F "nsock_handle a s" a "[1, 2, 3]" "lib s"] h
    by (simp add: nsock_pipe_notify_def Let_def NNG_PIPE_EV_ADD_PRE_def NNG_PIPE_EV_ADD_POST_def
        NNG_PIPE_EV_REM_POST_def del: register_events.simps notify_codes.simps)
  show ?thesis
    using assms h
    by (simp add: eq pipe_trampoline_def from_nng_sys_def arc_get_update nsock_handle_def
        event_from_code_def NNG_PIPE_EV_ADD_PRE_def NNG_PIPE_EV_ADD_POST_def
        NNG_PIPE_EV_REM_POST_def del: notify_codes.simps)
qed

theorem pipe_notify_replaces_witness:
  "\<exists>s'. nsock_pipe_notify sample_fns 0 (9 :: nat) sample_session = (Inl (error_from 7), s')
     \<and> pipe_trampoline (\<lambda>p. p) 5 2 (Some 0) s' = Inr (Some (9, 5, AddPost))"
proof -
  let ?s = sample_session
  have "0 < arc_count 0 (socks ?s)"
    by (simp add: sample_session_def arc_count_def)
  from pipe_notify_replaces [OF this, where F = sample_fns and cb = 9 and pipe_id = "\<lambda>p. p"
      and p = 5 and ev = 2]
  obtain s' where s': "nsock_pipe_notify sample_fns 0 9 ?s
       = (first_error (fst (notify_codes sample_fns (nsock_handle 0 ?s) 0 [1, 2, 3] (lib ?s))), s')"
    and t: "pipe_trampoline (\<lambda>p. p) 5 2 (Some 0) s'
       = (if 0 < sint (5 :: u32) then Inr (Some (9, 5, event_from_code 2)) else Inl AssertFailed)"
    by blast
  have "first_error (fst (notify_codes sample_fns (nsock_handle 0 ?s) 0 [1, 2, 3] (lib ?s)))
     = Inl (error_from 7)"
    by (simp add: sample_fns_def first_error_def)
  moreover have "event_from_code 2 = AddPost"
    by (simp add: event_from_code_def NNG_PIPE_EV_ADD_PRE_def NNG_PIPE_EV_ADD_POST_def)
  ultimately show ?thesis using s' t by (intro exI [where x = s']) simp
qed

end
