(* ===== verification/Aio.thy ===== *)
theory Aio
  imports Errors
begin

text \<open>
  \<^verbatim>\<open>anng::aio::Aio\<close> (anng/src/aio.rs): the handle that turns one NNG asynchronous operation into a
  future.  The first part has the functions of the file on an explicit state; the second runs
  \<^verbatim>\<open>Aio::wait\<close> against everything NNG may do meanwhile, as a step relation between the future, the
  operation and the callback; the third shows that every run amounts to one functional step.
\<close>

section \<open>The state\<close>

text \<open>
  What the C side and the handle hold.  \<open>phase\<close> is where the operation is: not busy, running,
  finished with its callback still to run \<^verbatim>\<open>notify_one\<close>, or past it with the callback not returned.
  \<open>slot\<close> and \<open>result\<close> are what \<^verbatim>\<open>nng_aio_get_msg\<close> and \<^verbatim>\<open>nng_aio_result\<close> read; \<open>permit\<close> is the stored
  permit of the \<^verbatim>\<open>Notify\<close>.  \<open>given\<close> and \<open>freed\<close> record the messages that NNG took over and those
  that Rust dropped, so that ownership can be stated; a message is any value \<open>'m\<close>.
\<close>

datatype phase = Idle | Active | Finishing | Notified

record 'm aio =
  phase :: phase
  slot :: "'m option"
  result :: u32
  permit :: bool
  msg_was_set :: bool
  given :: "'m list"
  freed :: "'m list"

datatype implication_on_message = Sent | Received

definition nng_aio_busy :: "'m aio \<Rightarrow> bool" where
  "nng_aio_busy a \<longleftrightarrow> phase a \<noteq> Idle"

section \<open>The functions of the handle\<close>

definition new_inner :: "u32 \<Rightarrow> 'p option \<Rightarrow> 'p run" where
  "new_inner errno ptr =
     (if errno = NNG_OK then (case ptr of Some p \<Rightarrow> Inr p | None \<Rightarrow> Inl ExpectFailed)
      else if errno = nng_err_value ENOMEM then Inl Oom
      else Inl Unreachable)"

definition aio_new :: "'m aio" where
  "aio_new = \<lparr>phase = Idle, slot = None, result = NNG_OK, permit = False, msg_was_set = False,
     given = [], freed = []\<rparr>"

definition take_message :: "bool \<Rightarrow> 'm aio \<Rightarrow> ('m option \<times> 'm aio) run" where
  "take_message da a =
     debug_assert da (\<not> nng_aio_busy a)
       (case slot a of
          None \<Rightarrow> Inr (None, a)
        | Some m \<Rightarrow> Inr (Some m, a\<lparr>slot := None, msg_was_set := False\<rparr>))"

definition set_message :: "bool \<Rightarrow> 'm \<Rightarrow> 'm aio \<Rightarrow> ('m option \<times> 'm aio) run" where
  "set_message da msg a =
     debug_assert da (\<not> nng_aio_busy a)
       (if msg_was_set a
        then Inr (slot a, a\<lparr>slot := Some msg, msg_was_set := True\<rparr>)
        else debug_assert da (slot a = None)
               (Inr (None, a\<lparr>slot := Some msg, msg_was_set := True\<rparr>)))"

text \<open>Dropping an \<^verbatim>\<open>Option<Message>\<close> frees the message.\<close>

definition drop_message :: "'m option \<Rightarrow> 'm aio \<Rightarrow> 'm aio" where
  "drop_message m a = (case m of None \<Rightarrow> a | Some x \<Rightarrow> a\<lparr>freed := freed a @ [x]\<rparr>)"

text \<open>\<^verbatim>\<open>notify_on_call\<close>, the callback.\<close>

definition notify_on_call :: "'m aio \<Rightarrow> 'm aio" where
  "notify_on_call a = a\<lparr>permit := True\<rparr>"

text \<open>The end of \<^verbatim>\<open>Aio::wait\<close>, below the last \<^verbatim>\<open>.await\<close>, once \<^verbatim>\<open>nng_aio_wait\<close> has returned.\<close>

definition wait_result ::
  "ffi_env \<Rightarrow> bool \<Rightarrow> implication_on_message \<Rightarrow> 'm aio \<Rightarrow> ((aio_error + unit) \<times> 'm aio) run" where
  "wait_result E da msg_implication a =
     debug_assert da (\<not> nng_aio_busy a)
       (if result a = NNG_OK
        then (case msg_implication of
                Sent \<Rightarrow> Inr (Inr (), a\<lparr>slot := None, msg_was_set := False\<rparr>)
              | Received \<Rightarrow> Inr (Inr (), a))
        else if result a = nng_err_value ECANCELED then Inr (Inl Cancelled, a)
        else if result a = nng_err_value ETIMEDOUT then Inr (Inl aio_error.TimedOut, a)
        else run_map (\<lambda>k. (Inl (Operation k), a)) (from_nng_err E (result a)))"

text \<open>
  \<^verbatim>\<open>CancellationGuard::drop\<close> in \<^verbatim>\<open>Aio::wait\<close>, once the calls that cancel and wait have returned: eat
  the notification, then decide who owns the message.
\<close>

definition wait_dropped :: "bool \<Rightarrow> 'm aio \<Rightarrow> 'm aio run" where
  "wait_dropped da a =
     debug_assert da (\<not> nng_aio_busy a)
       (if \<not> permit a then Inl Unreachable
        else
          (let a = a\<lparr>permit := False\<rparr> in
           if msg_was_set a \<and> result a = NNG_OK
             then Inr (a\<lparr>slot := None, msg_was_set := False\<rparr>)
           else if \<not> msg_was_set a \<and> result a = NNG_OK then Inr a
           else if msg_was_set a
             then run_map (\<lambda>(m, a). drop_message m a) (take_message da a)
           else Inr a))"

section \<open>One wait against its environment\<close>

text \<open>
  Where the future of \<^verbatim>\<open>Aio::wait\<close> is: awaiting the notification, resumed with the guard forgotten,
  dropped while waiting (inside the guard's \<^verbatim>\<open>drop\<close>), or at an end.
\<close>

datatype pc =
    Awaiting implication_on_message
  | Resumed implication_on_message
  | Cancelling
  | Returned "aio_error + unit"
  | WasDropped
  | Crashed panic

text \<open>
  The operation's own steps.  NNG finishes it when it likes: it takes the message that was set, or
  puts a received one into the slot, or fails with a nonzero number and leaves the slot alone;
  then the callback runs and returns.
\<close>

inductive op_step :: "'m aio \<Rightarrow> 'm aio \<Rightarrow> bool" where
  finish_send: "phase a = Active \<Longrightarrow> msg_was_set a \<Longrightarrow> slot a = Some m \<Longrightarrow>
    op_step a (a\<lparr>phase := Finishing, result := NNG_OK, given := given a @ [m]\<rparr>)"
| finish_recv: "phase a = Active \<Longrightarrow> \<not> msg_was_set a \<Longrightarrow>
    op_step a (a\<lparr>phase := Finishing, result := NNG_OK, slot := Some m\<rparr>)"
| finish_err: "phase a = Active \<Longrightarrow> e \<noteq> NNG_OK \<Longrightarrow>
    op_step a (a\<lparr>phase := Finishing, result := e\<rparr>)"
| callback: "phase a = Finishing \<Longrightarrow> op_step a (notify_on_call (a\<lparr>phase := Notified\<rparr>))"
| callback_return: "phase a = Notified \<Longrightarrow> op_step a (a\<lparr>phase := Idle\<rparr>)"

text \<open>
  The steps of a future that is kept, and of the guard once it runs: the future consumes the permit
  when it is there; \<^verbatim>\<open>nng_aio_wait\<close> returns once the callback has, which is when the phase is
  \<open>Idle\<close>.  Dropping the future is a step apart, possible at any moment before the permit is
  consumed: what a kept future does, and whether it ever wakes, is stated over \<open>wait_step\<close> alone.
\<close>

inductive wait_step :: "ffi_env \<Rightarrow> bool \<Rightarrow> pc \<times> 'm aio \<Rightarrow> pc \<times> 'm aio \<Rightarrow> bool"
  for E :: ffi_env and da :: bool where
  operation: "op_step a a' \<Longrightarrow> wait_step E da (p, a) (p, a')"
| resume: "permit a \<Longrightarrow>
    wait_step E da (Awaiting i, a) (Resumed i, a\<lparr>permit := False\<rparr>)"
| finish: "phase a = Idle \<Longrightarrow> wait_result E da i a = Inr (r, a') \<Longrightarrow>
    wait_step E da (Resumed i, a) (Returned r, a')"
| finish_crash: "phase a = Idle \<Longrightarrow> wait_result E da i a = Inl p \<Longrightarrow>
    wait_step E da (Resumed i, a) (Crashed p, a)"
| drop_done: "phase a = Idle \<Longrightarrow> wait_dropped da a = Inr a' \<Longrightarrow>
    wait_step E da (Cancelling, a) (WasDropped, a')"
| drop_crash: "phase a = Idle \<Longrightarrow> wait_dropped da a = Inl p \<Longrightarrow>
    wait_step E da (Cancelling, a) (Crashed p, a)"

inductive aio_step :: "ffi_env \<Rightarrow> bool \<Rightarrow> pc \<times> 'm aio \<Rightarrow> pc \<times> 'm aio \<Rightarrow> bool"
  for E :: ffi_env and da :: bool where
  kept: "wait_step E da s s' \<Longrightarrow> aio_step E da s s'"
| cancel: "aio_step E da (Awaiting i, a) (Cancelling, a)"

inductive_simps op_step_iff: "op_step a a'"
inductive_cases wait_stepE: "wait_step E da (p, a) (p', a')"
inductive_simps aio_step_iff: "aio_step E da (p, a) (p', a')"
inductive_simps wait_step_Awaiting: "wait_step E da (Awaiting i, a) (p', a')"
inductive_simps wait_step_Resumed: "wait_step E da (Resumed i, a) (p', a')"
inductive_simps wait_step_Cancelling: "wait_step E da (Cancelling, a) (p', a')"
inductive_simps wait_step_Returned: "wait_step E da (Returned r, a) (p', a')"
inductive_simps wait_step_WasDropped: "wait_step E da (WasDropped, a) (p', a')"

lemmas wait_step_simps = wait_step_Awaiting wait_step_Resumed wait_step_Cancelling
  wait_step_Returned wait_step_WasDropped

section \<open>The functional reading\<close>

text \<open>How NNG finished the operation, and what is in the handle once the callback has returned.\<close>

datatype 'm completion = SentOk | ReceivedMsg 'm | Failed u32

definition complete :: "'m completion \<Rightarrow> 'm aio \<Rightarrow> 'm aio" where
  "complete c a =
     (case c of
        SentOk \<Rightarrow> a\<lparr>phase := Idle, permit := True, result := NNG_OK,
          given := given a @ (case slot a of Some m \<Rightarrow> [m] | None \<Rightarrow> [])\<rparr>
      | ReceivedMsg m \<Rightarrow> a\<lparr>phase := Idle, permit := True, result := NNG_OK, slot := Some m\<rparr>
      | Failed e \<Rightarrow> a\<lparr>phase := Idle, permit := True, result := e\<rparr>)"

fun completes :: "implication_on_message \<Rightarrow> 'm completion \<Rightarrow> bool" where
  "completes i SentOk \<longleftrightarrow> i = Sent"
| "completes i (ReceivedMsg m) \<longleftrightarrow> i = Received"
| "completes i (Failed e) \<longleftrightarrow> e \<noteq> NNG_OK"

text \<open>
  How one \<^verbatim>\<open>.await\<close> on \<^verbatim>\<open>wait\<close> ends: the future ran to its end, or was dropped and the operation
  completed (by the cancellation or before it) as given.
\<close>

datatype 'm await = Ran "'m completion" | DroppedAs "'m completion"

fun await_ok :: "implication_on_message \<Rightarrow> 'm await \<Rightarrow> bool" where
  "await_ok i (Ran c) \<longleftrightarrow> completes i c"
| "await_ok i (DroppedAs c) \<longleftrightarrow> completes i c"

fun run_wait ::
  "ffi_env \<Rightarrow> bool \<Rightarrow> implication_on_message \<Rightarrow> 'm await \<Rightarrow> 'm aio
     \<Rightarrow> ((aio_error + unit) option \<times> 'm aio) run" where
  "run_wait E da i (Ran c) a =
     run_map (\<lambda>(r, a). (Some r, a)) (wait_result E da i ((complete c a)\<lparr>permit := False\<rparr>))"
| "run_wait E da i (DroppedAs c) a =
     run_map (\<lambda>a. (None, a)) (wait_dropped da (complete c a))"

text \<open>\<^verbatim>\<open>wait\<close>'s reading of a failure, which never is the success branch.\<close>

definition wait_error :: "ffi_env \<Rightarrow> u32 \<Rightarrow> aio_error" where
  "wait_error E e =
     (if e = nng_err_value ECANCELED then Cancelled
      else if e = nng_err_value ETIMEDOUT then aio_error.TimedOut
      else case from_nng_err E e of Inl _ \<Rightarrow> Cancelled | Inr k \<Rightarrow> Operation k)"

section \<open>The busy-state invariant\<close>

text \<open>
  The states in which no operation runs: nothing busy, no left-over permit, and a message in the
  slot exactly when the handle knows one was set.  \<open>started\<close> is such a state with an operation begun.
\<close>

definition at_rest :: "'m aio \<Rightarrow> bool" where
  "at_rest a \<longleftrightarrow> phase a = Idle \<and> \<not> permit a \<and> (msg_was_set a \<longleftrightarrow> slot a \<noteq> None)"

definition start :: "'m aio \<Rightarrow> 'm aio" where
  "start a = a\<lparr>phase := Active\<rparr>"

section \<open>Lemmas on the functional reading\<close>

lemma phase_complete [simp]:
  "phase (complete c a) = Idle" "permit (complete c a)"
  "msg_was_set (complete c a) = msg_was_set a" "freed (complete c a) = freed a"
  by (simp_all add: complete_def split: completion.splits)

lemma start_simps [simp]:
  "phase (start a) = Active" "permit (start a) = permit a" "msg_was_set (start a) = msg_was_set a"
  "slot (start a) = slot a"
  by (simp_all add: start_def)

lemma from_nng_err_nonzero: "e \<noteq> NNG_OK \<Longrightarrow> \<exists>k. from_nng_err E e = Inr k"
  by (auto simp: from_nng_err_def NNG_OK_def split: option.splits)

lemma wait_result_error:
  assumes "phase a = Idle" "result a \<noteq> NNG_OK"
  shows "wait_result E da i a = Inr (Inl (wait_error E (result a)), a)"
proof -
  obtain k where "from_nng_err E (result a) = Inr k"
    using from_nng_err_nonzero [OF assms(2)] by blast
  with assms show ?thesis
    by (simp add: wait_result_def wait_error_def nng_aio_busy_def)
qed

lemma phase_Idle [simp]: "phase a = Idle \<Longrightarrow> a\<lparr>phase := Idle\<rparr> = a"
  by (cases a) simp

lemma permit_False [simp]: "\<not> permit a \<Longrightarrow> a\<lparr>permit := False\<rparr> = a"
  by (cases a) simp

text \<open>What each outcome of the await leaves behind.\<close>

lemma run_wait_Sent:
  assumes "at_rest a" "msg_was_set a" "slot a = Some m"
  shows "run_wait E da Sent (Ran SentOk) a = Inr (Some (Inr ()),
      a\<lparr>result := NNG_OK, slot := None, msg_was_set := False, given := given a @ [m]\<rparr>)"
    and "e \<noteq> NNG_OK \<Longrightarrow> run_wait E da Sent (Ran (Failed e)) a =
      Inr (Some (Inl (wait_error E e)), a\<lparr>result := e\<rparr>)"
    and "run_wait E da Sent (DroppedAs SentOk) a = Inr (None,
      a\<lparr>result := NNG_OK, slot := None, msg_was_set := False, given := given a @ [m]\<rparr>)"
    and "e \<noteq> NNG_OK \<Longrightarrow> run_wait E da Sent (DroppedAs (Failed e)) a = Inr (None,
      a\<lparr>result := e, slot := None, msg_was_set := False, freed := freed a @ [m]\<rparr>)"
  using assms
  by (simp_all add: at_rest_def wait_dropped_def complete_def nng_aio_busy_def
      take_message_def drop_message_def wait_result_error)
    (simp_all add: wait_result_def nng_aio_busy_def)

lemma run_wait_Received:
  assumes "at_rest a" "\<not> msg_was_set a"
  shows "run_wait E da Received (Ran (ReceivedMsg m)) a =
      Inr (Some (Inr ()), a\<lparr>result := NNG_OK, slot := Some m\<rparr>)"
    and "e \<noteq> NNG_OK \<Longrightarrow> run_wait E da Received (Ran (Failed e)) a =
      Inr (Some (Inl (wait_error E e)), a\<lparr>result := e\<rparr>)"
    and "run_wait E da Received (DroppedAs (ReceivedMsg m)) a =
      Inr (None, a\<lparr>result := NNG_OK, slot := Some m\<rparr>)"
    and "e \<noteq> NNG_OK \<Longrightarrow> run_wait E da Received (DroppedAs (Failed e)) a =
      Inr (None, a\<lparr>result := e\<rparr>)"
  using assms
  by (simp_all add: at_rest_def wait_dropped_def complete_def nng_aio_busy_def
      take_message_def drop_message_def wait_result_error)
    (simp_all add: wait_result_def nng_aio_busy_def)

lemma run_wait_returns:
  assumes "at_rest a" "i = Sent \<longleftrightarrow> msg_was_set a" "completes i c"
  shows "\<exists>r a'. run_wait E da i (Ran c) a = Inr (Some r, a')"
    and "\<exists>a'. run_wait E da i (DroppedAs c) a = Inr (None, a')"
proof -
  have "(\<exists>r a'. run_wait E da i (Ran c) a = Inr (Some r, a'))
     \<and> (\<exists>a'. run_wait E da i (DroppedAs c) a = Inr (None, a'))"
  proof (cases i)
    case Sent
    then have ms: "msg_was_set a" using assms(2) by simp
    then obtain m where "slot a = Some m" using assms(1) by (auto simp: at_rest_def)
    with run_wait_Sent [OF assms(1) ms this] Sent assms(3) show ?thesis
      by (cases c) auto
  next
    case Received
    then have "\<not> msg_was_set a" using assms(2) by auto
    with run_wait_Received [OF assms(1) this] Received assms(3) show ?thesis
      by (cases c) auto
  qed
  then show "\<exists>r a'. run_wait E da i (Ran c) a = Inr (Some r, a')"
    and "\<exists>a'. run_wait E da i (DroppedAs c) a = Inr (None, a')" by blast+
qed

section \<open>Every run is one functional step\<close>

text \<open>
  The operation seen from outside: still running, or completed as \<open>c\<close> and in one of the three
  later phases, with the permit there exactly from the callback on until someone consumes it.
\<close>

definition seen :: "'m completion \<Rightarrow> phase \<Rightarrow> bool \<Rightarrow> 'm aio \<Rightarrow> 'm aio" where
  "seen c ph b a = (complete c a)\<lparr>phase := ph, permit := b\<rparr>"

definition unfinished :: "implication_on_message \<Rightarrow> 'm aio \<Rightarrow> 'm aio \<Rightarrow> bool" where
  "unfinished i a0 a \<longleftrightarrow> a = start a0
     \<or> (\<exists>c. completes i c
          \<and> (a = seen c Finishing False a0 \<or> a = seen c Notified True a0
             \<or> a = seen c Idle True a0))"

fun sim ::
  "ffi_env \<Rightarrow> bool \<Rightarrow> implication_on_message \<Rightarrow> 'm aio \<Rightarrow> pc \<times> 'm aio \<Rightarrow> bool" where
  "sim E da i a0 (Awaiting j, a) \<longleftrightarrow> j = i \<and> unfinished i a0 a"
| "sim E da i a0 (Cancelling, a) \<longleftrightarrow> unfinished i a0 a"
| "sim E da i a0 (Resumed j, a) \<longleftrightarrow> j = i
     \<and> (\<exists>c. completes i c \<and> (a = seen c Notified False a0 \<or> a = seen c Idle False a0))"
| "sim E da i a0 (Returned r, a) \<longleftrightarrow>
     (\<exists>c. completes i c \<and> run_wait E da i (Ran c) a0 = Inr (Some r, a))"
| "sim E da i a0 (WasDropped, a) \<longleftrightarrow>
     (\<exists>c. completes i c \<and> run_wait E da i (DroppedAs c) a0 = Inr (None, a))"
| "sim E da i a0 (Crashed p, a) \<longleftrightarrow> False"

lemma seen_simps [simp]:
  "phase (seen c ph b a) = ph" "permit (seen c ph b a) = b"
  "(seen c ph b a)\<lparr>phase := ph'\<rparr> = seen c ph' b a"
  "(seen c ph b a)\<lparr>permit := b'\<rparr> = seen c ph b' a"
  "notify_on_call (seen c ph b a) = seen c ph True a"
  by (simp_all add: seen_def notify_on_call_def)

lemma seen_Idle:
  "seen c Idle True a = complete c a" "seen c Idle False a = (complete c a)\<lparr>permit := False\<rparr>"
  by (cases c; simp add: seen_def complete_def)+

lemma finishes_as:
  assumes "at_rest a0" "i = Sent \<longleftrightarrow> msg_was_set a0" and "op_step (start a0) a'"
  shows "\<exists>c. completes i c \<and> a' = seen c Finishing False a0"
  using assms(3)
proof (cases rule: op_step.cases)
  case (finish_send m)
  with assms have "completes i SentOk \<and> a' = seen SentOk Finishing False a0"
    by (simp add: seen_def complete_def start_def at_rest_def)
  then show ?thesis by blast
next
  case (finish_recv m)
  with assms have "completes i (ReceivedMsg m) \<and> a' = seen (ReceivedMsg m) Finishing False a0"
    by (cases i) (simp_all add: seen_def complete_def start_def at_rest_def)
  then show ?thesis by blast
next
  case (finish_err e)
  with assms have "completes i (Failed e) \<and> a' = seen (Failed e) Finishing False a0"
    by (simp add: seen_def complete_def start_def at_rest_def)
  then show ?thesis by blast
qed simp_all

lemma seen_step:
  "ph \<noteq> Active \<Longrightarrow> op_step (seen c ph b a0) a' \<longleftrightarrow>
     (ph = Finishing \<and> a' = seen c Notified True a0) \<or> (ph = Notified \<and> a' = seen c Idle b a0)"
  by (cases ph) (auto simp: op_step_iff)

lemma op_step_Idle [simp]: "phase a = Idle \<Longrightarrow> \<not> op_step a a'"
  by (auto simp: op_step_iff)

lemma unfinished_step:
  assumes "at_rest a0" "i = Sent \<longleftrightarrow> msg_was_set a0" "unfinished i a0 a" and "op_step a a'"
  shows "unfinished i a0 a'"
proof (cases "a = start a0")
  case True
  from finishes_as [OF assms(1,2) assms(4) [unfolded True]] show ?thesis
    by (auto simp: unfinished_def)
next
  case False
  with assms(3) obtain c where c: "completes i c" and
    "a = seen c Finishing False a0 \<or> a = seen c Notified True a0 \<or> a = seen c Idle True a0"
    by (auto simp: unfinished_def)
  then show ?thesis
    using assms(4) c by (elim disjE) (auto simp: seen_step unfinished_def)
qed

lemma sim_step:
  assumes a0: "at_rest a0" and i: "i = Sent \<longleftrightarrow> msg_was_set a0"
    and sim: "sim E da i a0 (p, a)" and step: "aio_step E da (p, a) (p', a')"
    and live: "\<forall>r. p \<noteq> Returned r" "p \<noteq> WasDropped"
  shows "sim E da i a0 (p', a')"
proof (cases p)
  case (Awaiting j)
  with sim have j: "j = i" and u: "unfinished i a0 a" by auto
  from step Awaiting consider "p' = p" "op_step a a'"
    | "p' = Resumed j" "permit a" "a' = a\<lparr>permit := False\<rparr>" | "p' = Cancelling" "a' = a"
    by (auto simp: aio_step_iff wait_step_Awaiting)
  then show ?thesis
  proof cases
    case 1
    with unfinished_step [OF a0 i u] Awaiting j show ?thesis by simp
  next
    case 2
    with u a0 j show ?thesis by (auto simp: unfinished_def at_rest_def)
  next
    case 3
    with u show ?thesis by simp
  qed
next
  case (Resumed j)
  with sim obtain c where c: "completes i c"
      "a = seen c Notified False a0 \<or> a = seen c Idle False a0" and j: "j = i" by auto
  with run_wait_returns(1) [OF a0 i c(1), of E da] step Resumed show ?thesis
    by (auto simp: aio_step_iff wait_step_Resumed seen_step seen_Idle run_simps)
next
  case Cancelling
  with sim step have "(p' = p \<and> op_step a a') \<or> (phase a = Idle \<and> p' \<noteq> p)"
    by (auto simp: aio_step_iff wait_step_Cancelling)
  then show ?thesis
  proof
    assume "phase a = Idle \<and> p' \<noteq> p"
    with Cancelling sim obtain c where c: "completes i c" "a = seen c Idle True a0"
      by (auto simp: unfinished_def)
    with run_wait_returns(2) [OF a0 i c(1), of E da] step Cancelling \<open>phase a = Idle \<and> p' \<noteq> p\<close>
    show ?thesis by (auto simp: aio_step_iff wait_step_Cancelling seen_Idle run_simps)
  qed (use Cancelling sim unfinished_step [OF a0 i] in auto)
qed (use sim live in auto)

lemma final_Idle:
  assumes "at_rest a0" "i = Sent \<longleftrightarrow> msg_was_set a0" "completes i c"
  shows "run_wait E da i (Ran c) a0 = Inr (Some r, a) \<Longrightarrow> phase a = Idle \<and> \<not> permit a"
    and "run_wait E da i (DroppedAs c) a0 = Inr (None, a) \<Longrightarrow> phase a = Idle \<and> \<not> permit a"
proof -
  have "(run_wait E da i (Ran c) a0 = Inr (Some r, a) \<longrightarrow> phase a = Idle \<and> \<not> permit a)
    \<and> (run_wait E da i (DroppedAs c) a0 = Inr (None, a) \<longrightarrow> phase a = Idle \<and> \<not> permit a)"
  proof (cases i)
    case Sent
    with assms obtain m where "msg_was_set a0" "slot a0 = Some m" by (auto simp: at_rest_def)
    with run_wait_Sent [OF assms(1) this] Sent assms(1,3) show ?thesis
      by (cases c) (auto simp: at_rest_def)
  next
    case Received
    with assms(2) have "\<not> msg_was_set a0" by auto
    with run_wait_Received [OF assms(1) this] Received assms(1,3) show ?thesis
      by (cases c) (auto simp: at_rest_def)
  qed
  then show "run_wait E da i (Ran c) a0 = Inr (Some r, a) \<Longrightarrow> phase a = Idle \<and> \<not> permit a"
    and "run_wait E da i (DroppedAs c) a0 = Inr (None, a) \<Longrightarrow> phase a = Idle \<and> \<not> permit a"
    by blast+
qed

lemma sim_reach:
  assumes a0: "at_rest a0" and i: "i = Sent \<longleftrightarrow> msg_was_set a0"
    and reach: "(aio_step E da)\<^sup>*\<^sup>* (Awaiting i, start a0) (p, a)"
  shows "sim E da i a0 (p, a)"
proof -
  have "sim E da i a0 (fst s, snd s)"
    if "(aio_step E da)\<^sup>*\<^sup>* (Awaiting i, start a0) s" for s
    using that
  proof (induction rule: rtranclp_induct)
    case base
    show ?case by (simp add: unfinished_def)
  next
    case (step s s')
    show ?case
    proof (cases "(\<exists>r. fst s = Returned r) \<or> fst s = WasDropped")
      case True
      with step.IH final_Idle [OF a0 i] have "phase (snd s) = Idle"
        by (cases "fst s") auto
      with step.hyps(2) True show ?thesis
        by (cases s; cases s') (auto simp: aio_step_iff wait_step_Returned wait_step_WasDropped op_step_iff)
    next
      case False
      with sim_step [OF a0 i step.IH, of "fst s'" "snd s'"] step.hyps(2) show ?thesis
        by (cases s; cases s') auto
    qed
  qed
  from this [OF reach] show ?thesis by simp
qed


text \<open>Conversely every way to complete is a run, in five steps.\<close>

lemma completion_steps:
  assumes "at_rest a0" "i = Sent \<longleftrightarrow> msg_was_set a0" "completes i c"
  shows "op_step (start a0) (seen c Finishing False a0)"
proof (cases c)
  case SentOk
  with assms obtain m where m: "msg_was_set a0" "slot a0 = Some m" by (auto simp: at_rest_def)
  with assms(1) have "seen SentOk Finishing False a0 =
      (start a0)\<lparr>phase := Finishing, result := NNG_OK, given := given (start a0) @ [m]\<rparr>"
    by (simp add: seen_def complete_def start_def at_rest_def)
  with finish_send [of "start a0" m] m SentOk show ?thesis by simp
next
  case (ReceivedMsg m)
  with assms have "\<not> msg_was_set a0" by auto
  moreover have "seen (ReceivedMsg m) Finishing False a0 =
      (start a0)\<lparr>phase := Finishing, result := NNG_OK, slot := Some m\<rparr>"
    using assms(1) by (simp add: seen_def complete_def start_def at_rest_def)
  ultimately show ?thesis using finish_recv [of "start a0" m] ReceivedMsg by simp
next
  case (Failed e)
  moreover have "seen (Failed e) Finishing False a0 =
      (start a0)\<lparr>phase := Finishing, result := e\<rparr>"
    using assms(1) by (simp add: seen_def complete_def start_def at_rest_def)
  ultimately show ?thesis using finish_err [of "start a0" e] assms(3) by simp
qed

lemma callback_steps:
  "op_step (seen c Finishing False a0) (seen c Notified True a0)"
  "op_step (seen c Notified b a0) (seen c Idle b a0)"
  by (simp_all add: seen_step)

lemma kept_run: "(wait_step E da)\<^sup>*\<^sup>* s t \<Longrightarrow> (aio_step E da)\<^sup>*\<^sup>* s t"
  by (induction rule: rtranclp_induct) (auto intro: kept rtranclp.rtrancl_into_rtrancl)

lemma reach_Idle_kept:
  assumes "at_rest a0" "i = Sent \<longleftrightarrow> msg_was_set a0" "completes i c"
  shows "(wait_step E da)\<^sup>*\<^sup>* (p, start a0) (p, seen c Idle True a0)"
proof -
  have "(wait_step E da)\<^sup>*\<^sup>* (p, start a0) (p, seen c Finishing False a0)"
    using operation [OF completion_steps [OF assms], of E da p] by (rule r_into_rtranclp)
  also have "(wait_step E da)\<^sup>*\<^sup>* \<dots> (p, seen c Notified True a0)"
    using operation [OF callback_steps(1), of E da p] by (rule r_into_rtranclp)
  also have "(wait_step E da)\<^sup>*\<^sup>* \<dots> (p, seen c Idle True a0)"
    using operation [OF callback_steps(2), of E da p] by (rule r_into_rtranclp)
  finally show ?thesis .
qed

lemmas reach_Idle = kept_run [OF reach_Idle_kept]

lemma realise_Ran:
  assumes "at_rest a0" "i = Sent \<longleftrightarrow> msg_was_set a0" "completes i c"
    and "run_wait E da i (Ran c) a0 = Inr (Some r, a)"
  shows "(aio_step E da)\<^sup>*\<^sup>* (Awaiting i, start a0) (Returned r, a)"
proof -
  have "aio_step E da (Awaiting i, seen c Idle True a0) (Resumed i, seen c Idle False a0)"
    using kept [OF resume [of "seen c Idle True a0" E da i]] by simp
  moreover have "aio_step E da (Resumed i, seen c Idle False a0) (Returned r, a)"
    using kept [OF finish [of "seen c Idle False a0" E da i r a]] assms(4)
    by (simp add: seen_Idle run_simps)
  ultimately show ?thesis
    using reach_Idle [OF assms(1-3), of E da "Awaiting i"]
    by (meson rtranclp.rtrancl_into_rtrancl)
qed

lemma realise_DroppedAs:
  assumes "at_rest a0" "i = Sent \<longleftrightarrow> msg_was_set a0" "completes i c"
    and "run_wait E da i (DroppedAs c) a0 = Inr (None, a)"
  shows "(aio_step E da)\<^sup>*\<^sup>* (Awaiting i, start a0) (WasDropped, a)"
proof -
  have "aio_step E da (Awaiting i, seen c Idle True a0) (Cancelling, seen c Idle True a0)"
    by (rule cancel)
  moreover have "aio_step E da (Cancelling, seen c Idle True a0) (WasDropped, a)"
    using kept [OF drop_done [of "seen c Idle True a0" da a E]] assms(4)
    by (simp add: seen_Idle run_simps)
  ultimately show ?thesis
    using reach_Idle [OF assms(1-3), of E da "Awaiting i"]
    by (meson rtranclp.rtrancl_into_rtrancl)
qed

section \<open>Termination and progress\<close>

text \<open>The number of steps left.\<close>

fun phase_rank :: "phase \<Rightarrow> nat" where
  "phase_rank Active = 3"
| "phase_rank Finishing = 2"
| "phase_rank Notified = 1"
| "phase_rank Idle = 0"

fun pc_rank :: "pc \<Rightarrow> nat" where
  "pc_rank (Awaiting i) = 2"
| "pc_rank (Resumed i) = 1"
| "pc_rank Cancelling = 1"
| "pc_rank _ = 0"

fun final :: "pc \<Rightarrow> bool" where
  "final (Returned r) = True"
| "final WasDropped = True"
| "final (Crashed p) = True"
| "final _ = False"

lemma op_step_rank: "op_step a a' \<Longrightarrow> phase_rank (phase a) = Suc (phase_rank (phase a'))"
  by (cases rule: op_step.cases) (auto simp: notify_on_call_def)

lemma wait_phase:
  "wait_result E da i a = Inr (r, a') \<Longrightarrow> phase a' = phase a"
  "wait_dropped da a = Inr a' \<Longrightarrow> phase a' = phase a"
  by (auto simp: wait_result_def wait_dropped_def debug_assert_def run_simps take_message_def
      drop_message_def Let_def split: if_splits implication_on_message.splits option.splits)

lemma wait_step_rank:
  assumes "wait_step E da (p, a) (p', a')"
  shows "phase_rank (phase a) + pc_rank p = Suc (phase_rank (phase a') + pc_rank p')"
  using assms by (cases rule: wait_stepE) (auto simp: op_step_rank wait_phase)

lemma aio_step_rank:
  assumes "aio_step E da (p, a) (p', a')"
  shows "phase_rank (phase a) + pc_rank p = Suc (phase_rank (phase a') + pc_rank p')"
  using assms by (auto simp: aio_step_iff dest: wait_step_rank)

lemma aio_steps_rank:
  assumes "((aio_step E da) ^^ n) s s'"
  shows "phase_rank (phase (snd s)) + pc_rank (fst s)
     = n + (phase_rank (phase (snd s')) + pc_rank (fst s'))"
  using assms
proof (induction n arbitrary: s')
  case (Suc n)
  then obtain t where "((aio_step E da) ^^ n) s t" "aio_step E da t s'" by auto
  with Suc.IH [of t] aio_step_rank [of E da "fst t" "snd t" "fst s'" "snd s'"] show ?case by simp
qed simp

lemma unfinished_cases:
  assumes "unfinished i a0 a"
  obtains "a = start a0" | c where "completes i c" "a = seen c Finishing False a0"
    | c where "completes i c" "a = seen c Notified True a0"
    | c where "completes i c" "a = seen c Idle True a0"
  using assms by (auto simp: unfinished_def)

lemma unfinished_progress:
  assumes "at_rest a0" and "i = Sent \<longleftrightarrow> msg_was_set a0" and "unfinished i a0 a"
  shows "phase a = Idle \<or> (\<exists>a'. op_step a a')"
  using assms(3)
proof (cases rule: unfinished_cases)
  case 1
  have "completes i (Failed 1)" by (simp add: NNG_OK_def)
  from completion_steps [OF assms(1,2) this] 1 show ?thesis by blast
next
  case (2 c)
  with callback_steps(1) show ?thesis by blast
next
  case (3 c)
  with callback_steps(2) show ?thesis by blast
qed simp

text \<open>Once the callback has run, the future can be resumed: no wake-up is lost.\<close>

lemma unfinished_wakes:
  assumes "unfinished i a0 a" and "phase a = Notified \<or> phase a = Idle"
  shows "permit a"
  using assms by (cases rule: unfinished_cases) auto

lemma sim_progress:
  assumes a0: "at_rest a0" and i: "i = Sent \<longleftrightarrow> msg_was_set a0"
    and sim: "sim E da i a0 (p, a)" and "\<not> final p"
  shows "\<exists>s. wait_step E da (p, a) s"
proof (cases p)
  case (Awaiting j)
  with sim have u: "unfinished i a0 a" by simp
  from unfinished_progress [OF a0 i u] show ?thesis
  proof
    assume "phase a = Idle"
    with unfinished_wakes [OF u] resume [of a E da j] Awaiting show ?thesis by blast
  qed (use operation in blast)
next
  case (Resumed j)
  with sim obtain c where c: "completes i c"
    "a = seen c Notified False a0 \<or> a = seen c Idle False a0" by auto
  from c(2) show ?thesis
  proof
    assume "a = seen c Notified False a0"
    with operation [OF callback_steps(2)] show ?thesis by blast
  next
    assume a: "a = seen c Idle False a0"
    then have "phase a = Idle" by simp
    then show ?thesis
      using finish [of a E da j] finish_crash [of a E da j] Resumed
      by (cases "wait_result E da j a") (auto simp del: seen_simps)
  qed
next
  case Cancelling
  with sim have u: "unfinished i a0 a" by simp
  from unfinished_progress [OF a0 i u] show ?thesis
  proof
    assume "phase a = Idle"
    then show ?thesis
      using drop_done [of a da] drop_crash [of a da] Cancelling
      by (cases "wait_dropped da a") blast+
  qed (use operation in blast)
qed (use assms(4) in auto)

fun has_dropped :: "pc \<Rightarrow> bool" where
  "has_dropped Cancelling = True"
| "has_dropped WasDropped = True"
| "has_dropped _ = False"

lemma wait_step_dropped:
  assumes "wait_step E da (p, a) (p', a')" and "\<forall>q. p' \<noteq> Crashed q"
  shows "has_dropped p' = has_dropped p"
  using assms by (cases rule: wait_stepE) auto

text \<open>
  A run that can go no further has ended: a kept future has returned, and the guard of a dropped one
  has run to its end.
\<close>

lemma maximal_run_ends:
  assumes a0: "at_rest a0" and i: "i = Sent \<longleftrightarrow> msg_was_set a0"
    and reach: "(aio_step E da)\<^sup>*\<^sup>* (Awaiting i, start a0) (p, a)"
    and run: "(wait_step E da)\<^sup>*\<^sup>* (p, a) s" and "\<forall>t. \<not> wait_step E da s t"
  shows "if has_dropped p then fst s = WasDropped else \<exists>r. fst s = Returned r"
proof -
  have sim: "sim E da i a0 (fst t, snd t)" if "(wait_step E da)\<^sup>*\<^sup>* (p, a) t" for t
    using rtranclp_trans [OF reach kept_run [OF that]] by (intro sim_reach [OF a0 i]) simp
  have "has_dropped (fst s) = has_dropped p"
    using run
  proof (induction rule: rtranclp_induct)
    case (step t u)
    have "(wait_step E da)\<^sup>*\<^sup>* (p, a) u" using step.hyps by (rule rtranclp.rtrancl_into_rtrancl)
    then have "\<forall>q. fst u \<noteq> Crashed q" using sim [of u] by (cases "fst u") auto
    with wait_step_dropped [of E da "fst t" "snd t" "fst u" "snd u"] step show ?case by simp
  qed simp
  moreover have "final (fst s)"
    using sim_progress [OF a0 i sim [OF run]] assms(5) by force
  ultimately show ?thesis using sim [OF run] by (cases "fst s") auto
qed

text \<open>
  A receive: from the moment NNG has finished the operation, nothing touches the slot or the result
  any more.  \<open>completed_by\<close> says that on the way between two states NNG finished the operation by the
  step from \<open>b\<close> to \<open>b'\<close>; every run that leaves the phase \<open>Active\<close> has such a step.
\<close>

fun is_sending :: "pc \<Rightarrow> bool" where
  "is_sending (Awaiting i) \<longleftrightarrow> i = Sent"
| "is_sending (Resumed i) \<longleftrightarrow> i = Sent"
| "is_sending _ \<longleftrightarrow> False"

lemma not_Sent: "i \<noteq> Sent \<longleftrightarrow> i = Received"
  by (cases i) auto

lemma wait_result_keeps:
  "wait_result E da Received a = Inr (r, a') \<Longrightarrow> a' = a"
  by (auto simp: wait_result_def debug_assert_def run_simps split: if_splits)

lemma wait_dropped_keeps:
  "\<lbrakk>wait_dropped da a = Inr a'; \<not> msg_was_set a\<rbrakk> \<Longrightarrow> a' = a\<lparr>permit := False\<rparr>"
  by (auto simp: wait_dropped_def debug_assert_def Let_def split: if_splits)

lemma receive_step_keeps:
  assumes "aio_step E da (p, a) (p', a')" and "phase a \<noteq> Active" "\<not> msg_was_set a" "\<not> is_sending p"
  shows "phase a' \<noteq> Active \<and> \<not> msg_was_set a' \<and> \<not> is_sending p'
    \<and> slot a' = slot a \<and> result a' = result a"
proof (cases "\<exists>i. p = Awaiting i \<and> p' = Cancelling \<and> a' = a")
  case False
  with assms(1) have "wait_step E da (p, a) (p', a')" by (auto simp: aio_step_iff)
  then show ?thesis
    using assms(2-)
    by (cases rule: wait_stepE)
      (auto simp: op_step_iff notify_on_call_def not_Sent wait_phase
        dest: wait_result_keeps wait_dropped_keeps)
qed (use assms in auto)

lemma receive_run_keeps:
  assumes "(aio_step E da)\<^sup>*\<^sup>* (p, a) s" and "phase a \<noteq> Active" "\<not> msg_was_set a" "\<not> is_sending p"
  shows "phase (snd s) \<noteq> Active \<and> \<not> msg_was_set (snd s) \<and> \<not> is_sending (fst s)
    \<and> slot (snd s) = slot a \<and> result (snd s) = result a"
  using assms(1)
proof (induction rule: rtranclp_induct)
  case (step s t)
  with receive_step_keeps [of E da "fst s" "snd s" "fst t" "snd t"] show ?case by simp
qed (use assms(2-) in simp)

definition completed_by ::
  "ffi_env \<Rightarrow> bool \<Rightarrow> pc \<times> 'm aio \<Rightarrow> 'm aio \<Rightarrow> 'm aio \<Rightarrow> pc \<times> 'm aio \<Rightarrow> bool" where
  "completed_by E da s b b' t \<longleftrightarrow>
     (\<exists>q. (aio_step E da)\<^sup>*\<^sup>* s (q, b) \<and> phase b = Active \<and> op_step b b'
        \<and> (aio_step E da)\<^sup>*\<^sup>* (q, b') t)"

lemma run_completes:
  assumes "(aio_step E da)\<^sup>*\<^sup>* s t" and "phase (snd s) = Active"
  shows "phase (snd t) = Active \<or> (\<exists>b b'. completed_by E da s b b' t)"
  using assms(1)
proof (induction rule: rtranclp_induct)
  case (step t u)
  from step.IH show ?case
  proof
    assume act: "phase (snd t) = Active"
    obtain p a p' a' where tu: "t = (p, a)" "u = (p', a')" by (cases t; cases u)
    with step.hyps(2) act have "(p' = p \<and> op_step a a') \<or> phase a' = Active"
      by (auto simp: aio_step_iff elim: wait_stepE)
    with step.hyps(1) act tu show ?thesis by (auto simp: completed_by_def)
  next
    assume "\<exists>b b'. completed_by E da s b b' t"
    with step.hyps(2) show ?thesis
      by (auto simp: completed_by_def intro: rtranclp.rtrancl_into_rtrancl)
  qed
qed (use assms(2) in simp)

section \<open>The properties\<close>

text \<open>C2. Waiting and dropping implement one functional step.  From a handle at rest whose
  operation was just begun, whatever NNG, the callback and the scheduler do and wherever the future
  is dropped: no step ever panics (the \<open>unreachable!\<close> in the guard, the debug assertions and
  \<open>ErrorKind::from_nng_err\<close> included); the states in which \<open>wait\<close> can return are exactly those of
  the functional reading for some way the operation may complete, and likewise for a drop.\<close>

theorem aio_wait_refines:
  assumes "at_rest a" and "i = Sent \<longleftrightarrow> msg_was_set a"
  shows "(\<forall>p a'. \<not> (aio_step E da)\<^sup>*\<^sup>* (Awaiting i, start a) (Crashed p, a'))
    \<and> (\<forall>r a'. (aio_step E da)\<^sup>*\<^sup>* (Awaiting i, start a) (Returned r, a')
        \<longleftrightarrow> (\<exists>c. completes i c \<and> run_wait E da i (Ran c) a = Inr (Some r, a')))
    \<and> (\<forall>a'. (aio_step E da)\<^sup>*\<^sup>* (Awaiting i, start a) (WasDropped, a')
        \<longleftrightarrow> (\<exists>c. completes i c \<and> run_wait E da i (DroppedAs c) a = Inr (None, a')))"
proof (intro conjI allI)
  fix p a'
  show "\<not> (aio_step E da)\<^sup>*\<^sup>* (Awaiting i, start a) (Crashed p, a')"
    using sim_reach [OF assms, of E da "Crashed p" a'] by auto
next
  fix r a'
  show "(aio_step E da)\<^sup>*\<^sup>* (Awaiting i, start a) (Returned r, a')
      \<longleftrightarrow> (\<exists>c. completes i c \<and> run_wait E da i (Ran c) a = Inr (Some r, a'))"
    using sim_reach [OF assms, of E da "Returned r" a'] realise_Ran [OF assms] by auto
next
  fix a'
  show "(aio_step E da)\<^sup>*\<^sup>* (Awaiting i, start a) (WasDropped, a')
      \<longleftrightarrow> (\<exists>c. completes i c \<and> run_wait E da i (DroppedAs c) a = Inr (None, a'))"
    using sim_reach [OF assms, of E da WasDropped a'] realise_DroppedAs [OF assms] by auto
qed

text \<open>A handle with the message 7 set, and the same after it was taken by NNG.\<close>

definition sample_aio :: "nat aio" where
  "sample_aio = aio_new\<lparr>slot := Some 7, msg_was_set := True\<rparr>"

lemma sample_aio_rest: "at_rest sample_aio" "Sent = Sent \<longleftrightarrow> msg_was_set sample_aio"
  by (simp_all add: sample_aio_def aio_new_def at_rest_def)

theorem aio_wait_refines_witness:
  "(aio_step sample_env True)\<^sup>*\<^sup>* (Awaiting Sent, start sample_aio)
     (WasDropped, sample_aio\<lparr>result := 20, slot := None, msg_was_set := False, freed := [7]\<rparr>)"
proof -
  have "completes Sent (Failed 20) \<and> run_wait sample_env True Sent (DroppedAs (Failed 20)) sample_aio
      = Inr (None, sample_aio\<lparr>result := 20, slot := None, msg_was_set := False, freed := [7]\<rparr>)"
    by (simp add: NNG_OK_def sample_aio_def aio_new_def complete_def wait_dropped_def
        nng_aio_busy_def take_message_def drop_message_def)
  with aio_wait_refines [OF sample_aio_rest, of sample_env True] show ?thesis by blast
qed

text \<open>C14. A wait always wakes and always ends.  Take any state a run reaches, the future dropped on
  the way or not.  If the future still awaits and the callback has run, the future can be resumed
  then and there: the notification is never lost, whether it came before or after the future was
  polled.  If from there on the future is no longer dropped, every run comes to an end (there are no
  infinite runs: a run has at most five steps), and where it can go no further \<open>wait\<close> has returned,
  or, for a future dropped before, its guard has run to the end.  That NNG completes every operation
  it was given, at its own time, is NNG's part: it is the step an \<open>Active\<close> operation always has.\<close>

theorem aio_wait_terminates:
  assumes "at_rest a" and "i = Sent \<longleftrightarrow> msg_was_set a"
    and "((aio_step E da) ^^ n) (Awaiting i, start a) (p, a')"
  shows "n \<le> 5
    \<and> (\<forall>j. p = Awaiting j \<and> (phase a' = Notified \<or> phase a' = Idle) \<longrightarrow>
         wait_step E da (p, a') (Resumed j, a'\<lparr>permit := False\<rparr>))
    \<and> (\<forall>s. (wait_step E da)\<^sup>*\<^sup>* (p, a') s \<and> (\<forall>t. \<not> wait_step E da s t) \<longrightarrow>
         (if has_dropped p then fst s = WasDropped else \<exists>r. fst s = Returned r))"
proof (intro conjI allI impI)
  have reach: "(aio_step E da)\<^sup>*\<^sup>* (Awaiting i, start a) (p, a')"
    using assms(3) by (rule relpowp_imp_rtranclp)
  show "n \<le> 5" using aio_steps_rank [OF assms(3)] by simp
  show "wait_step E da (p, a') (Resumed j, a'\<lparr>permit := False\<rparr>)"
    if "p = Awaiting j \<and> (phase a' = Notified \<or> phase a' = Idle)" for j
  proof -
    have "unfinished i a a'" using sim_reach [OF assms(1,2) reach] that by simp
    with that unfinished_wakes have "permit a'" by blast
    with that show ?thesis using resume by blast
  qed
  show "if has_dropped p then fst s = WasDropped else \<exists>r. fst s = Returned r"
    if "(wait_step E da)\<^sup>*\<^sup>* (p, a') s \<and> (\<forall>t. \<not> wait_step E da s t)" for s
    using that by (intro maximal_run_ends [OF assms(1,2) reach]) auto
qed

text \<open>
  The witness: NNG accepts the message 7, the callback runs and returns; the awaiting future can be
  resumed, and returns.
\<close>

theorem aio_wait_terminates_witness:
  "((aio_step sample_env True) ^^ 3) (Awaiting Sent, start sample_aio)
      (Awaiting Sent, seen SentOk Idle True sample_aio)
   \<and> wait_step sample_env True (Awaiting Sent, seen SentOk Idle True sample_aio)
      (Resumed Sent, seen SentOk Idle False sample_aio)"
proof -
  have c: "completes Sent SentOk" by simp
  have "((aio_step sample_env True) ^^ 3) (Awaiting Sent, start sample_aio)
      (Awaiting Sent, seen SentOk Idle True sample_aio)"
    using kept [OF operation [OF completion_steps [OF sample_aio_rest c]]]
      kept [OF operation [OF callback_steps(1)]] kept [OF operation [OF callback_steps(2)]]
    unfolding numeral_3_eq_3 by (meson relpowp_0_I relpowp_Suc_I)
  with aio_wait_terminates [OF sample_aio_rest this] show ?thesis by simp
qed

text \<open>C12. Who owns the message of a send.  Whenever a send of the message in the handle ends,
  exactly one of three things is true of it: NNG accepted it, and it was recorded as given to NNG
  once and the handle refers to it no longer; or the wait returned an error and the handle still
  holds it, for the caller to take back; or the future was dropped, the send failed, and it was
  freed once.  In every case the handle is at rest again, so the next operation may start.\<close>

theorem send_ownership:
  assumes "at_rest a" and "msg_was_set a" and "slot a = Some m"
    and "(aio_step E da)\<^sup>*\<^sup>* (Awaiting Sent, start a) (p, a')" and "final p"
  shows "at_rest a'
    \<and> ((p = Returned (Inr ()) \<or> p = WasDropped)
         \<and> given a' = given a @ [m] \<and> freed a' = freed a \<and> slot a' = None
       \<or> (\<exists>e. p = Returned (Inl e)) \<and> given a' = given a \<and> freed a' = freed a \<and> slot a' = Some m
       \<or> p = WasDropped \<and> given a' = given a \<and> freed a' = freed a @ [m] \<and> slot a' = None)"
proof -
  have i: "Sent = Sent \<longleftrightarrow> msg_was_set a" using assms(2) by simp
  have sim: "sim E da Sent a (p, a')" by (rule sim_reach [OF assms(1) i assms(4)])
  note w = run_wait_Sent [OF assms(1-3), where E = E and da = da]
  show ?thesis
  proof (cases p)
    case (Returned r)
    with sim obtain c where c: "completes Sent c" "run_wait E da Sent (Ran c) a = Inr (Some r, a')"
      by auto
    with w(1,2) Returned assms(1-3) show ?thesis by (cases c) (auto simp: at_rest_def)
  next
    case WasDropped
    with sim obtain c where c: "completes Sent c" "run_wait E da Sent (DroppedAs c) a = Inr (None, a')"
      by auto
    with w(3,4) WasDropped assms(1-3) show ?thesis by (cases c) (auto simp: at_rest_def)
  qed (use sim assms(5) in auto)
qed

theorem send_ownership_witness:
  "\<exists>a'. (aio_step sample_env True)\<^sup>*\<^sup>* (Awaiting Sent, start sample_aio) (WasDropped, a')
     \<and> at_rest a' \<and> (given a' = [7] \<or> freed a' = [7])"
proof -
  have s: "msg_was_set sample_aio" "slot sample_aio = Some 7" "given sample_aio = []"
      "freed sample_aio = []"
    by (simp_all add: sample_aio_def aio_new_def)
  obtain a' where a': "(aio_step sample_env True)\<^sup>*\<^sup>* (Awaiting Sent, start sample_aio)
      (WasDropped, a')"
    using realise_DroppedAs [OF sample_aio_rest, of SentOk]
      run_wait_returns(2) [OF sample_aio_rest, of SentOk] by force
  from send_ownership [OF sample_aio_rest(1) s(1,2) a'] s(3,4) a' show ?thesis by auto
qed

text \<open>C13. Who owns the message of a receive.  A receive ends only after NNG has finished the
  operation, and whatever NNG put into the slot in that step, a message on success and nothing on
  failure, is still there at the end and nowhere else, even if the future was dropped before, during
  or after: no message that arrived is ever lost.  The wait returned \<open>Ok\<close> only with a message and an
  error only without one.  \<open>take_message\<close> then hands exactly that message over once, a second call
  finds nothing, and the handle is at rest.\<close>

theorem receive_ownership:
  assumes "at_rest a" and "\<not> msg_was_set a"
    and "(aio_step E da)\<^sup>*\<^sup>* (Awaiting Received, start a) (p, a')" and "final p"
  shows "(\<exists>b b'. completed_by E da (Awaiting Received, start a) b b' (p, a'))
    \<and> (\<forall>b b'. completed_by E da (Awaiting Received, start a) b b' (p, a') \<longrightarrow>
         slot a' = slot b' \<and> result a' = result b')
    \<and> (slot a' \<noteq> None \<longleftrightarrow> result a' = NNG_OK)
    \<and> given a' = given a \<and> freed a' = freed a
    \<and> (\<exists>a''. take_message da a' = Inr (slot a', a'') \<and> at_rest a''
         \<and> take_message da a'' = Inr (None, a''))
    \<and> ((p = Returned (Inr ()) \<longrightarrow> slot a' \<noteq> None)
       \<and> (\<forall>e. p = Returned (Inl e) \<longrightarrow> slot a' = None))"
proof -
  let ?s = "(Awaiting Received, start a)"
  have i: "Received = Sent \<longleftrightarrow> msg_was_set a" using assms(2) by simp
  have sim: "sim E da Received a (p, a')" by (rule sim_reach [OF assms(1) i assms(3)])
  have slot: "slot a = None" using assms(1,2) by (simp add: at_rest_def)
  note w = run_wait_Received [OF assms(1,2), where E = E and da = da]
  have keeps: "slot a' = slot b' \<and> result a' = result b'" if "completed_by E da ?s b b' (p, a')"
    for b b'
  proof -
    from that obtain q where q: "(aio_step E da)\<^sup>*\<^sup>* ?s (q, b)" "phase b = Active" "op_step b b'"
      "(aio_step E da)\<^sup>*\<^sup>* (q, b') (p, a')" by (auto simp: completed_by_def)
    from sim_reach [OF assms(1) i q(1)] q(2) assms(2)
    have "\<not> msg_was_set b \<and> \<not> is_sending q"
      by (cases q) (auto simp: unfinished_def final_Idle dest: final_Idle [OF assms(1) i])
    with q(2,3) have "phase b' \<noteq> Active" "\<not> msg_was_set b'" "\<not> is_sending q"
      by (auto simp: op_step_iff)
    from receive_run_keeps [OF q(4) this] show ?thesis by simp
  qed
  have ends: "phase a' = Idle \<and> (slot a' \<noteq> None \<longleftrightarrow> result a' = NNG_OK)
    \<and> given a' = given a \<and> freed a' = freed a
    \<and> (\<exists>a''. take_message da a' = Inr (slot a', a'') \<and> at_rest a''
         \<and> take_message da a'' = Inr (None, a''))
    \<and> ((p = Returned (Inr ()) \<longrightarrow> slot a' \<noteq> None)
       \<and> (\<forall>e. p = Returned (Inl e) \<longrightarrow> slot a' = None))"
  proof (cases p)
    case (Returned r)
    with sim obtain c where c: "completes Received c"
        "run_wait E da Received (Ran c) a = Inr (Some r, a')" by auto
    with w(1,2) Returned assms(1,2) slot show ?thesis
      by (cases c) (auto simp: at_rest_def take_message_def nng_aio_busy_def)
  next
    case WasDropped
    with sim obtain c where c: "completes Received c"
        "run_wait E da Received (DroppedAs c) a = Inr (None, a')" by auto
    with w(3,4) WasDropped assms(1,2) slot show ?thesis
      by (cases c) (auto simp: at_rest_def take_message_def nng_aio_busy_def)
  qed (use sim assms(4) in auto)
  from run_completes [OF assms(3)] ends keeps show ?thesis by auto
qed

text \<open>The witness: the message 9 arrives, and then the future is dropped.\<close>

theorem receive_ownership_witness:
  "\<exists>a' b b'. (aio_step sample_env True)\<^sup>*\<^sup>* (Awaiting Received, start aio_new) (WasDropped, a')
     \<and> completed_by sample_env True (Awaiting Received, start aio_new) b b' (WasDropped, a')
     \<and> slot b' = Some (9::nat) \<and> slot a' = slot b' \<and> freed a' = []"
proof -
  have r: "at_rest (aio_new :: nat aio)" "\<not> msg_was_set (aio_new :: nat aio)"
      "Received = Sent \<longleftrightarrow> msg_was_set (aio_new :: nat aio)" "freed (aio_new :: nat aio) = []"
    by (simp_all add: aio_new_def at_rest_def)
  let ?a = "aio_new\<lparr>result := NNG_OK, slot := Some (9::nat)\<rparr>"
  let ?s = "(Awaiting Received, start aio_new)"
  have run: "(aio_step sample_env True)\<^sup>*\<^sup>* ?s (WasDropped, ?a)"
    using realise_DroppedAs [OF r(1,3), of "ReceivedMsg 9"]
      run_wait_Received(3) [OF r(1,2), of _ _ 9] by simp
  have "final WasDropped" by simp
  note own = receive_ownership [OF r(1,2) run this]
  from own obtain b b' where b: "completed_by sample_env True ?s b b' (WasDropped, ?a)" by blast
  with own have "slot ?a = slot b'" by blast
  with run b r(4) show ?thesis
    by (intro exI [of _ ?a] exI [of _ b] exI [of _ b']) simp
qed

end
