(* ===== verification/Channel.thy ===== *)
theory Channel
  imports Aio "HOL-Library.Multiset"
begin

text \<open>
  Sending and receiving whole messages: \<^verbatim>\<open>Socket::{send_msg, try_recv_msg, recv_msg}\<close>
  (anng/src/lib.rs) and the same operations of \<^verbatim>\<open>Context\<close> (anng/src/context.rs).  How each await
  ends is an argument (\<open>await\<close>, see Aio); \<open>None\<close> as a result says that the future was dropped there,
  after which the guards have run.  The locale \<open>msg_channel\<close> is the contract that the protocols
  rely on; both implementations are interpretations of it.
\<close>

section \<open>Reading the result of a non-blocking receive\<close>

definition recvmsg_result :: "c_int \<Rightarrow> 'm option \<Rightarrow> (aio_error + 'm option) run" where
  "recvmsg_result errno msg =
     run_bind (errno_u32 errno) (\<lambda>err.
       if err = 0 then (case msg of None \<Rightarrow> Inl ExpectFailed | Some m \<Rightarrow> Inr (Inr (Some m)))
       else if err = error_code_num EAGAIN then Inr (Inr None)
       else if err = error_code_num ECLOSED then Inl Unreachable
       else if err = error_code_num EINVAL then Inl Unreachable
       else if err = error_code_num ENOMEM then Inl Oom
       else if err = error_code_num ENOTSUP then Inr (Inl (Operation (NngError ENOTSUP)))
       else if err = error_code_num ESTATE then Inr (Inl (Operation (NngError ESTATE)))
       else if err = error_code_num ETIMEDOUT then Inr (Inl aio_error.TimedOut)
       else Inl Unreachable)"

section \<open>Sockets\<close>

record 'm socket =
  s_aio :: "'m aio"
  s_recovered_msg :: "'m option"

definition socket_send_msg ::
  "ffi_env \<Rightarrow> bool \<Rightarrow> 'm \<Rightarrow> 'm await \<Rightarrow> 'm socket
     \<Rightarrow> ((aio_error \<times> 'm + unit) option \<times> 'm socket) run" where
  "socket_send_msg E da message w s =
     run_bind (set_message da message (s_aio s)) (\<lambda>(prev, a).
     run_bind (run_wait E da Sent w (start (drop_message prev a))) (\<lambda>(res, a).
       case res of
         None \<Rightarrow> Inr (None, s\<lparr>s_aio := a\<rparr>)
       | Some (Inr _) \<Rightarrow> Inr (Some (Inr ()), s\<lparr>s_aio := a\<rparr>)
       | Some (Inl e) \<Rightarrow>
           run_bind (take_message da a) (\<lambda>(m, a).
             case m of
               None \<Rightarrow> Inl ExpectFailed
             | Some msg \<Rightarrow> Inr (Some (Inl (e, msg)), s\<lparr>s_aio := a\<rparr>))))"

definition socket_try_recv_msg ::
  "c_int \<times> 'm option \<Rightarrow> 'm socket \<Rightarrow> ((aio_error + 'm option) \<times> 'm socket) run" where
  "socket_try_recv_msg r s =
     (case s_recovered_msg s of
        Some msg \<Rightarrow> Inr (Inr (Some msg), s\<lparr>s_recovered_msg := None\<rparr>)
      | None \<Rightarrow> run_map (\<lambda>x. (x, s)) (recvmsg_result (fst r) (snd r)))"

text \<open>The drop of the guard in \<^verbatim>\<open>recv_msg\<close> runs after the guard of \<^verbatim>\<open>wait\<close> has.\<close>

definition socket_recv_guard :: "bool \<Rightarrow> 'm aio \<Rightarrow> 'm socket \<Rightarrow> 'm socket run" where
  "socket_recv_guard da a s =
     run_bind (take_message da a) (\<lambda>(m, a).
       case m of
         Some msg \<Rightarrow> Inr (s\<lparr>s_aio := a, s_recovered_msg := Some msg\<rparr>)
       | None \<Rightarrow> Inr (s\<lparr>s_aio := a\<rparr>))"

definition socket_recv_msg ::
  "ffi_env \<Rightarrow> bool \<Rightarrow> 'm await \<Rightarrow> 'm socket \<Rightarrow> ((aio_error + 'm) option \<times> 'm socket) run" where
  "socket_recv_msg E da w s =
     (case s_recovered_msg s of
        Some msg \<Rightarrow> Inr (Some (Inr msg), s\<lparr>s_recovered_msg := None\<rparr>)
      | None \<Rightarrow>
          run_bind (run_wait E da Received w (start (s_aio s))) (\<lambda>(res, a).
            case res of
              None \<Rightarrow> run_map (\<lambda>s. (None, s)) (socket_recv_guard da a s)
            | Some (Inl e) \<Rightarrow> Inr (Some (Inl e), s\<lparr>s_aio := a\<rparr>)
            | Some (Inr _) \<Rightarrow>
                run_bind (take_message da a) (\<lambda>(m, a).
                  case m of
                    None \<Rightarrow> Inl ExpectFailed
                  | Some msg \<Rightarrow> Inr (Some (Inr msg), s\<lparr>s_aio := a\<rparr>))))"

section \<open>Contexts\<close>

text \<open>
  A context keeps its own recovered message and borrows the handle of the \<^verbatim>\<open>ContextfulSocket\<close> that
  owns both.
\<close>

record 'm ctx =
  recovered_msg :: "'m option"

record 'm contextful =
  cs_aio :: "'m aio"
  cs_context :: "'m ctx"

definition contextful_new :: "'m contextful" where
  "contextful_new = \<lparr>cs_aio = aio_new, cs_context = \<lparr>recovered_msg = None\<rparr>\<rparr>"

text \<open>\<^verbatim>\<open>Socket::context\<close>, given what \<^verbatim>\<open>nng_ctx_open\<close> returned and a fresh handle.\<close>

definition socket_context :: "c_int \<Rightarrow> 'm contextful run" where
  "socket_context errno =
     run_bind (errno_u32 errno) (\<lambda>x.
       if x = 0 then Inr contextful_new
       else if x = error_code_num ENOMEM then Inl Oom
       else Inl Unreachable)"

definition context_send_msg ::
  "ffi_env \<Rightarrow> bool \<Rightarrow> 'm \<Rightarrow> 'm await \<Rightarrow> 'm aio
     \<Rightarrow> ((aio_error \<times> 'm + unit) option \<times> 'm aio) run" where
  "context_send_msg E da message w aio =
     run_bind (set_message da message aio) (\<lambda>(prev, a).
     run_bind (run_wait E da Sent w (start (drop_message prev a))) (\<lambda>(res, a).
       case res of
         None \<Rightarrow> Inr (None, a)
       | Some (Inr _) \<Rightarrow> Inr (Some (Inr ()), a)
       | Some (Inl e) \<Rightarrow>
           run_bind (take_message da a) (\<lambda>(m, a).
             case m of
               None \<Rightarrow> Inl ExpectFailed
             | Some msg \<Rightarrow> Inr (Some (Inl (e, msg)), a))))"

definition context_try_recv_msg ::
  "c_int \<times> 'm option \<Rightarrow> 'm ctx \<Rightarrow> ((aio_error + 'm option) \<times> 'm ctx) run" where
  "context_try_recv_msg r c =
     (case recovered_msg c of
        Some msg \<Rightarrow> Inr (Inr (Some msg), c\<lparr>recovered_msg := None\<rparr>)
      | None \<Rightarrow> run_map (\<lambda>x. (x, c)) (recvmsg_result (fst r) (snd r)))"

definition context_recv_guard :: "bool \<Rightarrow> 'm aio \<Rightarrow> 'm ctx \<Rightarrow> ('m ctx \<times> 'm aio) run" where
  "context_recv_guard da a c =
     run_bind (take_message da a) (\<lambda>(m, a).
       case m of
         Some msg \<Rightarrow> Inr (c\<lparr>recovered_msg := Some msg\<rparr>, a)
       | None \<Rightarrow> Inr (c, a))"

definition context_recv_msg ::
  "ffi_env \<Rightarrow> bool \<Rightarrow> 'm await \<Rightarrow> 'm ctx \<Rightarrow> 'm aio
     \<Rightarrow> ((aio_error + 'm) option \<times> 'm ctx \<times> 'm aio) run" where
  "context_recv_msg E da w c aio =
     (case recovered_msg c of
        Some msg \<Rightarrow> Inr (Some (Inr msg), c\<lparr>recovered_msg := None\<rparr>, aio)
      | None \<Rightarrow>
          run_bind (run_wait E da Received w (start aio)) (\<lambda>(res, a).
            case res of
              None \<Rightarrow> run_map (\<lambda>(c, a). (None, c, a)) (context_recv_guard da a c)
            | Some (Inl e) \<Rightarrow> Inr (Some (Inl e), c, a)
            | Some (Inr _) \<Rightarrow>
                run_bind (take_message da a) (\<lambda>(m, a).
                  case m of
                    None \<Rightarrow> Inl ExpectFailed
                  | Some msg \<Rightarrow> Inr (Some (Inr msg), c, a))))"

text \<open>
  The three operations as the protocols call them: on the two fields of one
  \<^verbatim>\<open>ContextfulSocket\<close>.
\<close>

definition contextful_send_msg ::
  "ffi_env \<Rightarrow> bool \<Rightarrow> 'm \<Rightarrow> 'm await \<Rightarrow> 'm contextful
     \<Rightarrow> ((aio_error \<times> 'm + unit) option \<times> 'm contextful) run" where
  "contextful_send_msg E da message w s =
     run_map (\<lambda>(r, a). (r, s\<lparr>cs_aio := a\<rparr>)) (context_send_msg E da message w (cs_aio s))"

definition contextful_try_recv_msg ::
  "c_int \<times> 'm option \<Rightarrow> 'm contextful \<Rightarrow> ((aio_error + 'm option) \<times> 'm contextful) run" where
  "contextful_try_recv_msg x s =
     run_map (\<lambda>(r, c). (r, s\<lparr>cs_context := c\<rparr>)) (context_try_recv_msg x (cs_context s))"

definition contextful_recv_msg ::
  "ffi_env \<Rightarrow> bool \<Rightarrow> 'm await \<Rightarrow> 'm contextful
     \<Rightarrow> ((aio_error + 'm) option \<times> 'm contextful) run" where
  "contextful_recv_msg E da w s =
     run_map (\<lambda>(r, c, a). (r, s\<lparr>cs_context := c, cs_aio := a\<rparr>))
       (context_recv_msg E da w (cs_context s) (cs_aio s))"

section \<open>The contract\<close>

text \<open>
  What the protocols rely on.  \<open>idle\<close> is the invariant between operations; \<open>rec\<close> is the message that
  a cancelled receive left behind; \<open>giv\<close> and \<open>fre\<close> are the messages NNG took and Rust dropped.  A
  send ends in one of four ways, a receive in one of five.
\<close>

locale msg_channel =
  fixes send :: "'m \<Rightarrow> 'm await \<Rightarrow> 's \<Rightarrow> ((aio_error \<times> 'm + unit) option \<times> 's) run"
    and recv :: "'m await \<Rightarrow> 's \<Rightarrow> ((aio_error + 'm) option \<times> 's) run"
    and try_recv :: "c_int \<times> 'm option \<Rightarrow> 's \<Rightarrow> ((aio_error + 'm option) \<times> 's) run"
    and idle :: "'s \<Rightarrow> bool" and rec :: "'s \<Rightarrow> 'm option"
    and giv :: "'s \<Rightarrow> 'm list" and fre :: "'s \<Rightarrow> 'm list" and err :: "u32 \<Rightarrow> aio_error"
  assumes send_ok: "idle s \<Longrightarrow> \<exists>s'. send m (Ran SentOk) s = Inr (Some (Inr ()), s')
        \<and> idle s' \<and> rec s' = rec s \<and> giv s' = giv s @ [m] \<and> fre s' = fre s"
    and send_err: "idle s \<Longrightarrow> e \<noteq> NNG_OK \<Longrightarrow>
      \<exists>s'. send m (Ran (Failed e)) s = Inr (Some (Inl (err e, m)), s')
        \<and> idle s' \<and> rec s' = rec s \<and> giv s' = giv s \<and> fre s' = fre s"
    and send_drop_ok: "idle s \<Longrightarrow> \<exists>s'. send m (DroppedAs SentOk) s = Inr (None, s')
        \<and> idle s' \<and> rec s' = rec s \<and> giv s' = giv s @ [m] \<and> fre s' = fre s"
    and send_drop_err: "idle s \<Longrightarrow> e \<noteq> NNG_OK \<Longrightarrow>
      \<exists>s'. send m (DroppedAs (Failed e)) s = Inr (None, s')
        \<and> idle s' \<and> rec s' = rec s \<and> giv s' = giv s \<and> fre s' = fre s @ [m]"
    and recv_rec: "idle s \<Longrightarrow> rec s = Some m \<Longrightarrow> \<exists>s'. recv w s = Inr (Some (Inr m), s')
        \<and> idle s' \<and> rec s' = None \<and> giv s' = giv s \<and> fre s' = fre s"
    and recv_ok: "idle s \<Longrightarrow> rec s = None \<Longrightarrow>
      \<exists>s'. recv (Ran (ReceivedMsg m)) s = Inr (Some (Inr m), s')
        \<and> idle s' \<and> rec s' = None \<and> giv s' = giv s \<and> fre s' = fre s"
    and recv_err: "idle s \<Longrightarrow> rec s = None \<Longrightarrow> e \<noteq> NNG_OK \<Longrightarrow>
      \<exists>s'. recv (Ran (Failed e)) s = Inr (Some (Inl (err e)), s')
        \<and> idle s' \<and> rec s' = None \<and> giv s' = giv s \<and> fre s' = fre s"
    and recv_drop_ok: "idle s \<Longrightarrow> rec s = None \<Longrightarrow>
      \<exists>s'. recv (DroppedAs (ReceivedMsg m)) s = Inr (None, s')
        \<and> idle s' \<and> rec s' = Some m \<and> giv s' = giv s \<and> fre s' = fre s"
    and recv_drop_err: "idle s \<Longrightarrow> rec s = None \<Longrightarrow> e \<noteq> NNG_OK \<Longrightarrow>
      \<exists>s'. recv (DroppedAs (Failed e)) s = Inr (None, s')
        \<and> idle s' \<and> rec s' = None \<and> giv s' = giv s \<and> fre s' = fre s"
    and try_rec: "idle s \<Longrightarrow> rec s = Some m \<Longrightarrow> \<exists>s'. try_recv r s = Inr (Inr (Some m), s')
        \<and> idle s' \<and> rec s' = None \<and> giv s' = giv s \<and> fre s' = fre s"
    and try_fresh: "idle s \<Longrightarrow> rec s = None \<Longrightarrow>
      try_recv r s = run_map (\<lambda>x. (x, s)) (recvmsg_result (fst r) (snd r))"

section \<open>Both implementations meet the contract\<close>

definition socket_idle :: "'m socket \<Rightarrow> bool" where
  "socket_idle s \<longleftrightarrow> at_rest (s_aio s) \<and> \<not> msg_was_set (s_aio s)"

definition contextful_idle :: "'m contextful \<Rightarrow> bool" where
  "contextful_idle s \<longleftrightarrow> at_rest (cs_aio s) \<and> \<not> msg_was_set (cs_aio s)"

lemma complete_start [simp]: "complete c (start a) = complete c a"
  by (simp add: complete_def start_def split: completion.splits)

lemma run_wait_start [simp]: "run_wait E da i w (start a) = run_wait E da i w a"
  by (cases w) simp_all

lemma set_message_idle:
  assumes "at_rest a" "\<not> msg_was_set a"
  shows "set_message da m a = Inr (None, a\<lparr>slot := Some m, msg_was_set := True\<rparr>)"
  using assms by (simp add: set_message_def at_rest_def nng_aio_busy_def)

lemma set_message_rest:
  assumes "at_rest a" "\<not> msg_was_set a"
  shows "at_rest (a\<lparr>slot := Some m, msg_was_set := True\<rparr>)"
  using assms by (simp add: at_rest_def)

lemma slot_None [simp]: "slot a = None \<Longrightarrow> a\<lparr>slot := None\<rparr> = a"
  by (cases a) simp

lemma context_send_outcomes:
  assumes "at_rest a" "\<not> msg_was_set a"
  shows "context_send_msg E da m (Ran SentOk) a = Inr (Some (Inr ()),
        a\<lparr>result := NNG_OK, slot := None, msg_was_set := False, given := given a @ [m]\<rparr>)"
    and "e \<noteq> NNG_OK \<Longrightarrow> context_send_msg E da m (Ran (Failed e)) a =
        Inr (Some (Inl (wait_error E e, m)), a\<lparr>result := e, slot := None, msg_was_set := False\<rparr>)"
    and "context_send_msg E da m (DroppedAs SentOk) a = Inr (None,
        a\<lparr>result := NNG_OK, slot := None, msg_was_set := False, given := given a @ [m]\<rparr>)"
    and "e \<noteq> NNG_OK \<Longrightarrow> context_send_msg E da m (DroppedAs (Failed e)) a = Inr (None,
        a\<lparr>result := e, slot := None, msg_was_set := False, freed := freed a @ [m]\<rparr>)"
proof -
  let ?a = "a\<lparr>slot := Some m, msg_was_set := True\<rparr>"
  have s: "msg_was_set ?a" "slot ?a = Some m" by simp_all
  note w = run_wait_Sent [OF set_message_rest [OF assms] s, where E = E and da = da]
  have idle: "phase a = Idle" using assms(1) by (simp add: at_rest_def)
  note d = context_send_msg_def set_message_idle [OF assms] drop_message_def w
    take_message_def nng_aio_busy_def idle
  show "context_send_msg E da m (Ran SentOk) a = Inr (Some (Inr ()),
        a\<lparr>result := NNG_OK, slot := None, msg_was_set := False, given := given a @ [m]\<rparr>)"
    and "context_send_msg E da m (DroppedAs SentOk) a = Inr (None,
        a\<lparr>result := NNG_OK, slot := None, msg_was_set := False, given := given a @ [m]\<rparr>)"
    by (simp_all add: d del: run_wait.simps)
  assume "e \<noteq> NNG_OK"
  then show "context_send_msg E da m (Ran (Failed e)) a =
        Inr (Some (Inl (wait_error E e, m)), a\<lparr>result := e, slot := None, msg_was_set := False\<rparr>)"
    and "context_send_msg E da m (DroppedAs (Failed e)) a = Inr (None,
        a\<lparr>result := e, slot := None, msg_was_set := False, freed := freed a @ [m]\<rparr>)"
    by (simp_all add: d del: run_wait.simps)
qed

lemma run_bind_assoc: "run_bind (run_bind r f) g = run_bind r (\<lambda>x. run_bind (f x) g)"
  by (cases r) simp_all

lemma run_map_run_map [simp]: "run_map f (run_map g r) = run_map (\<lambda>x. f (g x)) r"
  by (cases r) simp_all

text \<open>The socket's operations are the context's on the socket's own fields.\<close>

lemma socket_send_eq:
  "socket_send_msg E da m w s =
     run_map (\<lambda>(r, a). (r, s\<lparr>s_aio := a\<rparr>)) (context_send_msg E da m w (s_aio s))"
  unfolding socket_send_msg_def context_send_msg_def run_map_def run_bind_assoc
  by (intro arg_cong [where f = "run_bind _"] ext)
    (auto simp: run_bind_assoc split: option.splits sum.splits
      intro!: arg_cong [where f = "run_bind _"] ext)

lemma socket_recv_eq:
  "socket_recv_msg E da w s =
     run_map (\<lambda>(r, c, a). (r, s\<lparr>s_aio := a, s_recovered_msg := recovered_msg c\<rparr>))
       (context_recv_msg E da w \<lparr>recovered_msg = s_recovered_msg s\<rparr> (s_aio s))"
proof (cases "s_recovered_msg s")
  case None
  then show ?thesis
    unfolding socket_recv_msg_def context_recv_msg_def run_map_def
    by (cases "run_wait E da Received w (s_aio s)")
      (auto simp: run_bind_assoc socket_recv_guard_def context_recv_guard_def run_map_def
        split: option.splits sum.splits intro!: arg_cong [where f = "run_bind _"] ext)
next
  case (Some m)
  then show ?thesis by (simp add: socket_recv_msg_def context_recv_msg_def)
qed

lemma socket_try_eq:
  "socket_try_recv_msg r s =
     run_map (\<lambda>(x, c). (x, s\<lparr>s_recovered_msg := recovered_msg c\<rparr>))
       (context_try_recv_msg r \<lparr>recovered_msg = s_recovered_msg s\<rparr>)"
  by (cases "recvmsg_result (fst r) (snd r)")
    (auto simp: socket_try_recv_msg_def context_try_recv_msg_def split: option.splits)

lemma context_recv_outcomes:
  assumes "at_rest a" "\<not> msg_was_set a" "recovered_msg c = None"
  shows "context_recv_msg E da (Ran (ReceivedMsg m)) c a =
        Inr (Some (Inr m), c, a\<lparr>result := NNG_OK\<rparr>)"
    and "e \<noteq> NNG_OK \<Longrightarrow> context_recv_msg E da (Ran (Failed e)) c a =
        Inr (Some (Inl (wait_error E e)), c, a\<lparr>result := e\<rparr>)"
    and "context_recv_msg E da (DroppedAs (ReceivedMsg m)) c a =
        Inr (None, c\<lparr>recovered_msg := Some m\<rparr>, a\<lparr>result := NNG_OK\<rparr>)"
    and "e \<noteq> NNG_OK \<Longrightarrow> context_recv_msg E da (DroppedAs (Failed e)) c a =
        Inr (None, c, a\<lparr>result := e\<rparr>)"
proof -
  note w = run_wait_Received [OF assms(1,2), where E = E and da = da]
  have idle: "phase a = Idle" "slot a = None" "msg_was_set a = False"
    using assms(1,2) by (simp_all add: at_rest_def)
  have [simp]: "a\<lparr>result := x, slot := None, msg_was_set := False\<rparr> = a\<lparr>result := x\<rparr>" for x
    using idle by (cases a) simp
  note d = context_recv_msg_def context_recv_guard_def assms(3) w take_message_def
    nng_aio_busy_def idle
  show "context_recv_msg E da (Ran (ReceivedMsg m)) c a =
        Inr (Some (Inr m), c, a\<lparr>result := NNG_OK\<rparr>)"
    and "context_recv_msg E da (DroppedAs (ReceivedMsg m)) c a =
        Inr (None, c\<lparr>recovered_msg := Some m\<rparr>, a\<lparr>result := NNG_OK\<rparr>)"
    by (simp_all add: d del: run_wait.simps)
  assume "e \<noteq> NNG_OK"
  then show "context_recv_msg E da (Ran (Failed e)) c a =
        Inr (Some (Inl (wait_error E e)), c, a\<lparr>result := e\<rparr>)"
    and "context_recv_msg E da (DroppedAs (Failed e)) c a = Inr (None, c, a\<lparr>result := e\<rparr>)"
    by (simp_all add: d del: run_wait.simps)
qed

lemma context_recv_recovered:
  "recovered_msg c = Some m \<Longrightarrow>
     context_recv_msg E da w c a = Inr (Some (Inr m), c\<lparr>recovered_msg := None\<rparr>, a)"
  by (simp add: context_recv_msg_def)

lemmas channel_outcomes = context_send_outcomes context_recv_outcomes context_recv_recovered

interpretation cs: msg_channel
  "contextful_send_msg E da" "contextful_recv_msg E da" contextful_try_recv_msg
  contextful_idle "\<lambda>s. recovered_msg (cs_context s)" "\<lambda>s. given (cs_aio s)"
  "\<lambda>s. freed (cs_aio s)" "wait_error E" for E da
  by unfold_locales
    (auto simp: contextful_send_msg_def contextful_recv_msg_def contextful_try_recv_msg_def
      contextful_idle_def context_try_recv_msg_def channel_outcomes at_rest_def)

interpretation sock: msg_channel
  "socket_send_msg E da" "socket_recv_msg E da" socket_try_recv_msg
  socket_idle s_recovered_msg "\<lambda>s. given (s_aio s)"
  "\<lambda>s. freed (s_aio s)" "wait_error E" for E da
  by unfold_locales
    (auto simp: socket_send_eq socket_recv_eq socket_try_recv_msg_def socket_idle_def
      channel_outcomes at_rest_def)


section \<open>What a channel guarantees to any client\<close>

text \<open>A client's run: sends, receives and polls in any order, each with how it ended.\<close>

datatype 'm chan_op =
    DoSend 'm "'m await"
  | DoRecv "'m await"
  | DoTry "c_int \<times> 'm option"

text \<open>What NNG can do at each call: the awaits complete as such operations complete, and a
  non-blocking receive returns a code its documentation lists.\<close>

fun op_ok :: "'m chan_op \<Rightarrow> bool" where
  "op_ok (DoSend m w) = await_ok Sent w"
| "op_ok (DoRecv w) = await_ok Received w"
| "op_ok (DoTry (errno, msg)) =
     (errno = 0 \<and> msg \<noteq> None
      \<or> msg = None \<and> errno \<in> {error_code_num EAGAIN, error_code_num ENOTSUP,
          error_code_num ESTATE, error_code_num ETIMEDOUT})"

text \<open>
  The record a client keeps: messages handed to it by receives, messages that came back from failed
  sends.
\<close>

record 'm client_log =
  received :: "'m list"
  returned :: "'m list"

definition log_send :: "(aio_error \<times> 'm + unit) option \<Rightarrow> 'm client_log \<Rightarrow> 'm client_log" where
  "log_send r l =
     (case r of Some (Inl (e, m)) \<Rightarrow> l\<lparr>returned := returned l @ [m]\<rparr> | _ \<Rightarrow> l)"

definition log_recv :: "(aio_error + 'm) option \<Rightarrow> 'm client_log \<Rightarrow> 'm client_log" where
  "log_recv r l = (case r of Some (Inr m) \<Rightarrow> l\<lparr>received := received l @ [m]\<rparr> | _ \<Rightarrow> l)"

definition log_try :: "aio_error + 'm option \<Rightarrow> 'm client_log \<Rightarrow> 'm client_log" where
  "log_try r l =
     (case r of Inr (Some m) \<Rightarrow> l\<lparr>received := received l @ [m]\<rparr> | _ \<Rightarrow> l)"

lemma received_log_recv:
  "received (log_recv r l) = received l @ (case r of Some (Inr m) \<Rightarrow> [m] | _ \<Rightarrow> [])"
  "returned (log_recv r l) = returned l"
  by (auto simp: log_recv_def split: option.splits sum.splits)

lemma received_log_try:
  "received (log_try r l) = received l @ (case r of Inr (Some m) \<Rightarrow> [m] | _ \<Rightarrow> [])"
  "returned (log_try r l) = returned l"
  by (auto simp: log_try_def split: option.splits sum.splits)

text \<open>The messages that arrived during one receive, when it reached NNG at all.\<close>

fun arrived :: "'m chan_op \<Rightarrow> 'm list" where
  "arrived (DoSend m w) = []"
| "arrived (DoRecv (Ran (ReceivedMsg m))) = [m]"
| "arrived (DoRecv (DroppedAs (ReceivedMsg m))) = [m]"
| "arrived (DoRecv _) = []"
| "arrived (DoTry r) = opt_list (snd r)"

fun sent_msgs :: "'m chan_op \<Rightarrow> 'm list" where
  "sent_msgs (DoSend m w) = [m]"
| "sent_msgs _ = []"

text \<open>
  The run, over the three functions of a channel, with the messages that arrived: a receive that
  finds a recovered message does not reach NNG.
\<close>

definition chan_step ::
  "('m \<Rightarrow> 'm await \<Rightarrow> 's \<Rightarrow> ((aio_error \<times> 'm + unit) option \<times> 's) run)
   \<Rightarrow> ('m await \<Rightarrow> 's \<Rightarrow> ((aio_error + 'm) option \<times> 's) run)
   \<Rightarrow> (c_int \<times> 'm option \<Rightarrow> 's \<Rightarrow> ((aio_error + 'm option) \<times> 's) run)
   \<Rightarrow> 'm chan_op \<Rightarrow> 'm client_log \<times> 's \<Rightarrow> ('m client_log \<times> 's) run" where
  "chan_step send recv try_recv op ls =
     (case op of
        DoSend m w \<Rightarrow> run_map (\<lambda>(r, s). (log_send r (fst ls), s)) (send m w (snd ls))
      | DoRecv w \<Rightarrow> run_map (\<lambda>(r, s). (log_recv r (fst ls), s)) (recv w (snd ls))
      | DoTry x \<Rightarrow> run_map (\<lambda>(r, s). (log_try r (fst ls), s)) (try_recv x (snd ls)))"

fun chan_run ::
  "('m \<Rightarrow> 'm await \<Rightarrow> 's \<Rightarrow> ((aio_error \<times> 'm + unit) option \<times> 's) run)
   \<Rightarrow> ('m await \<Rightarrow> 's \<Rightarrow> ((aio_error + 'm) option \<times> 's) run)
   \<Rightarrow> (c_int \<times> 'm option \<Rightarrow> 's \<Rightarrow> ((aio_error + 'm option) \<times> 's) run)
   \<Rightarrow> ('s \<Rightarrow> 'm option) \<Rightarrow> 'm chan_op list \<Rightarrow> 'm client_log \<times> 's
   \<Rightarrow> (('m client_log \<times> 's) \<times> 'm list) run" where
  "chan_run send recv try_recv rec [] ls = Inr (ls, [])"
| "chan_run send recv try_recv rec (op # ops) ls =
     run_bind (chan_step send recv try_recv op ls) (\<lambda>ls'.
     run_map (\<lambda>(ls'', arr). (ls'', (if rec (snd ls) = None then arrived op else []) @ arr))
       (chan_run send recv try_recv rec ops ls'))"

context msg_channel
begin

lemma send_cases:
  assumes "idle s" "await_ok Sent w"
  shows "\<exists>r s'. send m w s = Inr (r, s') \<and> idle s' \<and> rec s' = rec s
     \<and> (r = Some (Inr ()) \<and> giv s' = giv s @ [m] \<and> fre s' = fre s
        \<or> (\<exists>e. r = Some (Inl (e, m))) \<and> giv s' = giv s \<and> fre s' = fre s
        \<or> r = None \<and> (giv s' = giv s @ [m] \<and> fre s' = fre s
            \<or> giv s' = giv s \<and> fre s' = fre s @ [m]))"
proof (cases w)
  case (Ran c)
  with assms(2) show ?thesis
    using send_ok [OF assms(1), of m] send_err [OF assms(1), of _ m]
    by (cases c) fastforce+
next
  case (DroppedAs c)
  with assms(2) show ?thesis
    using send_drop_ok [OF assms(1), of m] send_drop_err [OF assms(1), of _ m]
    by (cases c) fastforce+
qed

lemma recv_cases:
  assumes "idle s" "await_ok Received w"
  shows "\<exists>r s'. recv w s = Inr (r, s') \<and> idle s' \<and> giv s' = giv s \<and> fre s' = fre s
     \<and> (case r of Some (Inr m) \<Rightarrow> [m] | _ \<Rightarrow> []) @ opt_list (rec s')
       = opt_list (rec s) @ (if rec s = None then arrived (DoRecv w) else [])"
proof (cases "rec s")
  case None
  show ?thesis
  proof (cases w)
    case (Ran c)
    with assms(2) None show ?thesis
      using recv_ok [OF assms(1) None] recv_err [OF assms(1) None]
      by (cases c) fastforce+
  next
    case (DroppedAs c)
    with assms(2) None show ?thesis
      using recv_drop_ok [OF assms(1) None] recv_drop_err [OF assms(1) None]
      by (cases c) fastforce+
  qed
next
  case (Some m)
  with recv_rec [OF assms(1) Some, of w] show ?thesis by fastforce
qed

lemma try_cases:
  assumes "idle s" "op_ok (DoTry x)"
  shows "\<exists>r s'. try_recv x s = Inr (r, s') \<and> idle s' \<and> giv s' = giv s \<and> fre s' = fre s
     \<and> (case r of Inr (Some m) \<Rightarrow> [m] | _ \<Rightarrow> []) @ opt_list (rec s')
       = opt_list (rec s) @ (if rec s = None then arrived (DoTry x) else [])"
proof (cases "rec s")
  case None
  with try_fresh [OF assms(1) None, of x] assms show ?thesis
    by (cases x) (auto simp: recvmsg_result_def errno_u32_def)
next
  case (Some m)
  with try_rec [OF assms(1) Some, of x] show ?thesis by fastforce
qed

lemma step_cases:
  assumes "idle s" "op_ok op"
  shows "\<exists>l' s'. chan_step send recv try_recv op (l, s) = Inr (l', s') \<and> idle s'
     \<and> received l' @ opt_list (rec s') = received l @ opt_list (rec s)
         @ (if rec s = None then arrived op else [])
     \<and> mset (returned l') + mset (giv s') + mset (fre s')
         = mset (returned l) + mset (giv s) + mset (fre s) + mset (sent_msgs op)"
proof (cases op)
  case (DoSend m w)
  with assms(2) have "await_ok Sent w" by simp
  from send_cases [OF assms(1) this, of m] DoSend show ?thesis
    by (auto simp: chan_step_def log_send_def)
next
  case (DoRecv w)
  with assms(2) have "await_ok Received w" by simp
  from recv_cases [OF assms(1) this] obtain r s' where
    "recv w s = Inr (r, s')" "idle s'" "giv s' = giv s" "fre s' = fre s"
    "(case r of Some (Inr m) \<Rightarrow> [m] | _ \<Rightarrow> []) @ opt_list (rec s')
       = opt_list (rec s) @ (if rec s = None then arrived (DoRecv w) else [])" by blast
  with DoRecv show ?thesis
    by (simp add: chan_step_def received_log_recv)
next
  case (DoTry x)
  with assms(2) have "op_ok (DoTry x)" by simp
  from try_cases [OF assms(1) this] obtain r s' where
    "try_recv x s = Inr (r, s')" "idle s'" "giv s' = giv s" "fre s' = fre s"
    "(case r of Inr (Some m) \<Rightarrow> [m] | _ \<Rightarrow> []) @ opt_list (rec s')
       = opt_list (rec s) @ (if rec s = None then arrived (DoTry x) else [])" by blast
  with DoTry show ?thesis
    by (simp add: chan_step_def received_log_try)
qed

lemma run_conserves:
  assumes "idle s" "list_all op_ok ops"
  shows "\<exists>l' s' arr. chan_run send recv try_recv rec ops (l, s) = Inr ((l', s'), arr) \<and> idle s'
     \<and> received l' @ opt_list (rec s') = received l @ opt_list (rec s) @ arr
     \<and> mset (returned l') + mset (giv s') + mset (fre s')
         = mset (returned l) + mset (giv s) + mset (fre s) + mset (concat (map sent_msgs ops))"
  using assms
proof (induction ops arbitrary: l s)
  case (Cons op ops)
  obtain l1 s1 where 1: "chan_step send recv try_recv op (l, s) = Inr (l1, s1)" "idle s1"
    "received l1 @ opt_list (rec s1) = received l @ opt_list (rec s)
         @ (if rec s = None then arrived op else [])"
    "mset (returned l1) + mset (giv s1) + mset (fre s1)
         = mset (returned l) + mset (giv s) + mset (fre s) + mset (sent_msgs op)"
    using step_cases [of s op l] Cons.prems by auto
  obtain l2 s2 arr where 2: "chan_run send recv try_recv rec ops (l1, s1) = Inr ((l2, s2), arr)"
      "idle s2" "received l2 @ opt_list (rec s2) = received l1 @ opt_list (rec s1) @ arr"
      "mset (returned l2) + mset (giv s2) + mset (fre s2)
         = mset (returned l1) + mset (giv s1) + mset (fre s1) + mset (concat (map sent_msgs ops))"
    using Cons.IH [OF 1(2)] Cons.prems by fastforce
  from 2(3) 1(3) have "received l2 @ opt_list (rec s2) = received l @ opt_list (rec s)
      @ (if rec s = None then arrived op else []) @ arr"
    by (metis append.assoc)
  moreover have "mset (returned l2) + mset (giv s2) + mset (fre s2)
      = mset (returned l) + mset (giv s) + mset (fre s)
        + mset (concat (map sent_msgs (op # ops)))"
    unfolding 2(4) 1(4) by simp
  moreover have "chan_run send recv try_recv rec (op # ops) (l, s)
      = Inr ((l2, s2), (if rec s = None then arrived op else []) @ arr)"
    using 1(1) 2(1) by simp
  ultimately show ?case using 2(2) by blast
qed simp

end


section \<open>The properties\<close>

text \<open>C10. No message is lost or duplicated by cancellation.  From an idle socket, whatever
  sequence of sends, receives and polls is performed and wherever each future is dropped: nothing
  panics; the messages that arrived from NNG are handed to the client in order, each once, except
  for at most one that is kept for the next receive; and every message the client gave to a send is
  exactly one of accepted by NNG, returned with an error, or freed.\<close>

theorem socket_conserves_messages:
  assumes "socket_idle s" and "list_all op_ok ops"
  shows "\<exists>l s' arr.
     chan_run (socket_send_msg E da) (socket_recv_msg E da) socket_try_recv_msg s_recovered_msg
       ops (\<lparr>received = [], returned = []\<rparr>, s) = Inr ((l, s'), arr)
     \<and> socket_idle s'
     \<and> received l @ opt_list (s_recovered_msg s') = opt_list (s_recovered_msg s) @ arr
     \<and> mset (returned l) + mset (given (s_aio s')) + mset (freed (s_aio s'))
         = mset (given (s_aio s)) + mset (freed (s_aio s)) + mset (concat (map sent_msgs ops))"
  using sock.run_conserves [OF assms, of E da "\<lparr>received = [], returned = []\<rparr>"] by simp

definition sample_socket :: "nat socket" where
  "sample_socket = \<lparr>s_aio = aio_new, s_recovered_msg = None\<rparr>"

definition sample_chan_ops :: "nat chan_op list" where
  "sample_chan_ops = [DoSend 1 (Ran SentOk), DoRecv (DroppedAs (ReceivedMsg 2)),
     DoTry (8, None), DoSend 3 (DroppedAs (Failed 20)), DoRecv (Ran (ReceivedMsg 4))]"

theorem socket_conserves_messages_witness:
  "\<exists>l s' arr.
     chan_run (socket_send_msg sample_env True) (socket_recv_msg sample_env True)
       socket_try_recv_msg s_recovered_msg sample_chan_ops
       (\<lparr>received = [], returned = []\<rparr>, sample_socket) = Inr ((l, s'), arr)
     \<and> received l @ opt_list (s_recovered_msg s') = arr
     \<and> mset (returned l) + mset (given (s_aio s')) + mset (freed (s_aio s')) = {#1, 3#}"
proof -
  have "socket_idle sample_socket"
    by (simp add: socket_idle_def sample_socket_def aio_new_def at_rest_def)
  moreover have "list_all op_ok sample_chan_ops"
    by (simp add: sample_chan_ops_def NNG_OK_def)
  moreover have "given (s_aio sample_socket) = []" "freed (s_aio sample_socket) = []"
    "s_recovered_msg sample_socket = None" "concat (map sent_msgs sample_chan_ops) = [1, 3]"
    by (simp_all add: sample_socket_def aio_new_def sample_chan_ops_def)
  ultimately show ?thesis
    using socket_conserves_messages [of sample_socket sample_chan_ops sample_env True]
    by (simp add: add_mset_commute) blast
qed

text \<open>C6. Contexts conserve messages in the same way: \<open>Context::send_msg\<close>, \<open>recv_msg\<close> and
  \<open>try_recv_msg\<close>, with the recovered message in the context and the handle borrowed from the
  \<open>ContextfulSocket\<close>, lose and duplicate nothing and never panic, under every interleaving of
  completions and drops.\<close>

theorem context_conserves_messages:
  assumes "contextful_idle s" and "list_all op_ok ops"
  shows "\<exists>l s' arr.
     chan_run (contextful_send_msg E da) (contextful_recv_msg E da) contextful_try_recv_msg
       (\<lambda>s. recovered_msg (cs_context s)) ops (\<lparr>received = [], returned = []\<rparr>, s)
       = Inr ((l, s'), arr)
     \<and> contextful_idle s'
     \<and> received l @ opt_list (recovered_msg (cs_context s'))
         = opt_list (recovered_msg (cs_context s)) @ arr
     \<and> mset (returned l) + mset (given (cs_aio s')) + mset (freed (cs_aio s'))
         = mset (given (cs_aio s)) + mset (freed (cs_aio s)) + mset (concat (map sent_msgs ops))"
  using cs.run_conserves [OF assms, of E da "\<lparr>received = [], returned = []\<rparr>"] by simp

lemma contextful_new_idle: "contextful_idle contextful_new"
  by (simp add: contextful_idle_def contextful_new_def aio_new_def at_rest_def)

theorem context_conserves_messages_witness:
  "\<exists>l s' arr.
     chan_run (contextful_send_msg sample_env True) (contextful_recv_msg sample_env True)
       contextful_try_recv_msg (\<lambda>s. recovered_msg (cs_context s)) sample_chan_ops
       (\<lparr>received = [], returned = []\<rparr>, contextful_new) = Inr ((l, s'), arr)
     \<and> contextful_idle s'"
proof -
  have "list_all op_ok sample_chan_ops"
    by (simp add: sample_chan_ops_def NNG_OK_def)
  from context_conserves_messages [OF contextful_new_idle this, of sample_env True]
  show ?thesis by blast
qed

end
