(* ===== verification/Protocols.thy ===== *)
theory Protocols
  imports Channel Options
begin

text \<open>
  The protocol types of anng/src/protocols on top of the channels: request/reply
  (\<^verbatim>\<open>reqrep0.rs\<close>), survey (\<^verbatim>\<open>survey0.rs\<close>), publish/subscribe (\<^verbatim>\<open>pubsub0.rs\<close>), and the protocols that
  only send and receive (\<^verbatim>\<open>pipeline0.rs\<close>, \<^verbatim>\<open>pair1.rs\<close>, \<^verbatim>\<open>bus0.rs\<close>).  Each \<^verbatim>\<open>async\<close> method takes the
  way its await ends and returns \<open>None\<close> when it was dropped there.
\<close>

section \<open>Protocols that only send and receive\<close>

definition pull ::
  "ffi_env \<Rightarrow> bool \<Rightarrow> 'm await \<Rightarrow> 'm socket \<Rightarrow> ((aio_error + 'm) option \<times> 'm socket) run" where
  "pull E da w s = socket_recv_msg E da w s"

definition try_pull ::
  "c_int \<times> 'm option \<Rightarrow> 'm socket \<Rightarrow> ((aio_error + 'm option) \<times> 'm socket) run" where
  "try_pull r s = socket_try_recv_msg r s"

definition push ::
  "ffi_env \<Rightarrow> bool \<Rightarrow> 'm \<Rightarrow> 'm await \<Rightarrow> 'm socket
     \<Rightarrow> ((aio_error \<times> 'm + unit) option \<times> 'm socket) run" where
  "push E da message w s = socket_send_msg E da message w s"

definition pair1_send ::
  "ffi_env \<Rightarrow> bool \<Rightarrow> 'm \<Rightarrow> 'm await \<Rightarrow> 'm socket
     \<Rightarrow> ((aio_error \<times> 'm + unit) option \<times> 'm socket) run" where
  "pair1_send E da message w s = socket_send_msg E da message w s"

definition pair1_receive ::
  "ffi_env \<Rightarrow> bool \<Rightarrow> 'm await \<Rightarrow> 'm socket \<Rightarrow> ((aio_error + 'm) option \<times> 'm socket) run" where
  "pair1_receive E da w s = socket_recv_msg E da w s"

definition pair1_try_receive ::
  "c_int \<times> 'm option \<Rightarrow> 'm socket \<Rightarrow> ((aio_error + 'm option) \<times> 'm socket) run" where
  "pair1_try_receive r s = socket_try_recv_msg r s"

definition bus0_send ::
  "ffi_env \<Rightarrow> bool \<Rightarrow> 'm \<Rightarrow> 'm await \<Rightarrow> 'm socket
     \<Rightarrow> ((aio_error \<times> 'm + unit) option \<times> 'm socket) run" where
  "bus0_send E da message w s = socket_send_msg E da message w s"

definition bus0_receive ::
  "ffi_env \<Rightarrow> bool \<Rightarrow> 'm await \<Rightarrow> 'm socket \<Rightarrow> ((aio_error + 'm) option \<times> 'm socket) run" where
  "bus0_receive E da w s = socket_recv_msg E da w s"

definition bus0_try_receive ::
  "c_int \<times> 'm option \<Rightarrow> 'm socket \<Rightarrow> ((aio_error + 'm option) \<times> 'm socket) run" where
  "bus0_try_receive r s = socket_try_recv_msg r s"

definition publish ::
  "ffi_env \<Rightarrow> bool \<Rightarrow> 'm \<Rightarrow> 'm await \<Rightarrow> 'm socket
     \<Rightarrow> ((aio_error \<times> 'm + unit) option \<times> 'm socket) run" where
  "publish E da message w s = socket_send_msg E da message w s"

section \<open>Request/reply\<close>

text \<open>\<open>request\<close> ends its first phase; \<open>Some (Inr ())\<close> is the reply future, run by \<open>reply_future\<close>.\<close>

definition request ::
  "ffi_env \<Rightarrow> bool \<Rightarrow> 'm \<Rightarrow> 'm await \<Rightarrow> 'm contextful
     \<Rightarrow> ((aio_error \<times> 'm + unit) option \<times> 'm contextful) run" where
  "request E da message w s = contextful_send_msg E da message w s"

definition reply_future ::
  "ffi_env \<Rightarrow> bool \<Rightarrow> 'm await \<Rightarrow> 'm contextful
     \<Rightarrow> ((aio_error + 'm) option \<times> 'm contextful) run" where
  "reply_future E da w s = contextful_recv_msg E da w s"

record responder =
  sent :: bool

definition rep0_receive ::
  "ffi_env \<Rightarrow> bool \<Rightarrow> 'm await \<Rightarrow> 'm contextful
     \<Rightarrow> ((aio_error + 'm \<times> responder) option \<times> 'm contextful) run" where
  "rep0_receive E da w s =
     run_map (\<lambda>(r, s).
       (case r of
          None \<Rightarrow> None
        | Some (Inl e) \<Rightarrow> Some (Inl e)
        | Some (Inr message) \<Rightarrow> Some (Inr (message, \<lparr>sent = False\<rparr>)), s))
       (contextful_recv_msg E da w s)"

definition rep0_try_receive ::
  "c_int \<times> 'm option \<Rightarrow> 'm contextful
     \<Rightarrow> ((aio_error + ('m \<times> responder) option) \<times> 'm contextful) run" where
  "rep0_try_receive x s =
     run_map (\<lambda>(r, s).
       (case r of
          Inl e \<Rightarrow> Inl e
        | Inr (Some message) \<Rightarrow> Inr (Some (message, \<lparr>sent = False\<rparr>))
        | Inr None \<Rightarrow> Inr None, s))
       (contextful_try_recv_msg x s)"

text \<open>\<^verbatim>\<open>impl Drop for Responder\<close>: whether the warning is logged.\<close>

definition responder_drop :: "responder \<Rightarrow> bool" where
  "responder_drop r \<longleftrightarrow> \<not> sent r"

text \<open>
  \<^verbatim>\<open>Responder::reply\<close>.  The responder is consumed, hence dropped, unless it is handed back with an
  error; the Boolean is whether that drop logged.
\<close>

definition reply ::
  "ffi_env \<Rightarrow> bool \<Rightarrow> 'm \<Rightarrow> 'm await \<Rightarrow> responder \<Rightarrow> 'm contextful
     \<Rightarrow> ((responder \<times> aio_error \<times> 'm + unit) option \<times> bool \<times> 'm contextful) run" where
  "reply E da message w self s =
     (let self = self\<lparr>sent := True\<rparr> in
      run_map (\<lambda>(r, s).
        case r of
          None \<Rightarrow> (None, responder_drop self, s)
        | Some (Inl (e, msg)) \<Rightarrow> (Some (Inl (self, e, msg)), False, s)
        | Some (Inr _) \<Rightarrow> (Some (Inr ()), responder_drop self, s))
        (contextful_send_msg E da message w s))"

section \<open>Survey\<close>

text \<open>
  \<^verbatim>\<open>survey\<close> sets the option of the context and then sends.  Both C calls act on one world \<open>n\<close> of NNG:
  \<open>ctx_set_ms\<close> is \<^verbatim>\<open>nng_ctx_set_ms\<close>, and \<open>ctx_send\<close> is \<^verbatim>\<open>nng_ctx_send\<close>, which starts the operation that
  \<open>send_msg\<close> then awaits.  The world is returned whatever the outcome, a panic included.
\<close>

definition survey ::
  "ffi_env \<Rightarrow> bool \<Rightarrow> 'n set_ms \<Rightarrow> ('m \<Rightarrow> 'n \<Rightarrow> 'n) \<Rightarrow> 'm \<Rightarrow> duration \<Rightarrow> 'm await
     \<Rightarrow> 'n \<Rightarrow> 'm contextful \<Rightarrow> 'n \<times> ((aio_error \<times> 'm + unit) option \<times> 'm contextful) run" where
  "survey E da ctx_set_ms ctx_send message timeout w n s =
     (case set_survey_timeout ctx_set_ms timeout n of
        (n, Inl p) \<Rightarrow> (n, Inl p)
      | (n, Inr _) \<Rightarrow> (ctx_send message n, contextful_send_msg E da message w s))"

text \<open>\<^verbatim>\<open>SurveyResponses::next\<close>; the outer option is the drop of the future.\<close>

definition survey_next ::
  "ffi_env \<Rightarrow> bool \<Rightarrow> 'm await \<Rightarrow> 'm contextful
     \<Rightarrow> ((aio_error + 'm) option option \<times> 'm contextful) run" where
  "survey_next E da w s =
     run_map (\<lambda>(r, s).
       (case r of
          None \<Rightarrow> None
        | Some (Inr message) \<Rightarrow> Some (Some (Inr message))
        | Some (Inl e) \<Rightarrow>
            if e = aio_error.TimedOut then Some None
            else if e = Operation (NngError ESTATE) then Some None
            else Some (Some (Inl e)), s))
       (contextful_recv_msg E da w s)"

definition survey_try_next ::
  "c_int \<times> 'm option \<Rightarrow> 'm contextful
     \<Rightarrow> ((aio_error + 'm option) option \<times> 'm contextful) run" where
  "survey_try_next x s =
     run_map (\<lambda>(r, s).
       (case r of
          Inr (Some message) \<Rightarrow> Some (Inr (Some message))
        | Inr None \<Rightarrow> None
        | Inl e \<Rightarrow>
            if e = Operation (NngError ESTATE) then Some (Inr None) else Some (Inl e), s))
       (contextful_try_recv_msg x s)"

definition next_survey ::
  "ffi_env \<Rightarrow> bool \<Rightarrow> 'm await \<Rightarrow> 'm contextful
     \<Rightarrow> ((aio_error + 'm) option \<times> 'm contextful) run" where
  "next_survey E da w s = contextful_recv_msg E da w s"

definition try_next_survey ::
  "c_int \<times> 'm option \<Rightarrow> 'm contextful \<Rightarrow> ((aio_error + 'm option) \<times> 'm contextful) run" where
  "try_next_survey x s = contextful_try_recv_msg x s"

definition respond ::
  "ffi_env \<Rightarrow> bool \<Rightarrow> 'm \<Rightarrow> 'm await \<Rightarrow> 'm contextful
     \<Rightarrow> ((aio_error \<times> 'm + unit) option \<times> 'm contextful) run" where
  "respond E da message w s = contextful_send_msg E da message w s"

section \<open>Publish/subscribe\<close>

definition sub0_next ::
  "ffi_env \<Rightarrow> bool \<Rightarrow> 'm await \<Rightarrow> 'm contextful
     \<Rightarrow> ((aio_error + 'm) option \<times> 'm contextful) run" where
  "sub0_next E da w s = contextful_recv_msg E da w s"

definition sub0_try_next ::
  "c_int \<times> 'm option \<Rightarrow> 'm contextful \<Rightarrow> ((aio_error + 'm option) \<times> 'm contextful) run" where
  "sub0_try_next x s = contextful_try_recv_msg x s"

text \<open>
  The subscription calls: a C function from the topic (\<open>[]\<close> for the null pointer with length 0)
  and the subscriptions \<open>'t\<close> to a return code and new subscriptions.
\<close>

definition subscribe_to :: "(byte list \<Rightarrow> 't \<Rightarrow> c_int \<times> 't) \<Rightarrow> byte list \<Rightarrow> 't \<Rightarrow> 't run" where
  "subscribe_to ctx_subscribe topic t =
     (case ctx_subscribe topic t of (errno, t') \<Rightarrow>
        run_bind (errno_u32 errno) (\<lambda>x.
          if x = 0 then Inr t'
          else if x = error_code_num ENOMEM then Inl Oom
          else Inl Unreachable))"

definition disable_filtering :: "(byte list \<Rightarrow> 't \<Rightarrow> c_int \<times> 't) \<Rightarrow> 't \<Rightarrow> 't run" where
  "disable_filtering ctx_subscribe t =
     (case ctx_subscribe [] t of (errno, t') \<Rightarrow>
        run_bind (errno_u32 errno) (\<lambda>x.
          if x = 0 then Inr t'
          else if x = error_code_num ENOMEM then Inl Oom
          else Inl Unreachable))"

definition unsubscribe_from ::
  "(byte list \<Rightarrow> 't \<Rightarrow> c_int \<times> 't) \<Rightarrow> byte list \<Rightarrow> 't \<Rightarrow> (bool \<times> 't) run" where
  "unsubscribe_from ctx_unsubscribe topic t =
     (case ctx_unsubscribe topic t of (errno, t') \<Rightarrow>
        run_bind (errno_u32 errno) (\<lambda>x.
          if x = 0 then Inr (True, t')
          else if x = error_code_num ENOMEM then Inl Oom
          else if x = error_code_num ENOTSUP then Inl Unreachable
          else if x = error_code_num ECLOSED then Inl Unreachable
          else if x = error_code_num ENOENT then Inr (False, t')
          else Inl Unreachable))"

section \<open>Properties of request/reply\<close>

text \<open>C27. What a request's reply future returns.  After a request that was sent, the reply is the
  message the context recovered from an earlier cancelled receive, if there is one, however this
  reply's own await would end; only without one is it the message NNG delivers, an error when NNG
  fails, and nothing when the future is dropped.\<close>

theorem reply_future_outcome:
  assumes "contextful_idle s"
  shows "\<exists>s1. request E da message (Ran SentOk) s = Inr (Some (Inr ()), s1) \<and> contextful_idle s1
     \<and> given (cs_aio s1) = given (cs_aio s) @ [message]
     \<and> (case recovered_msg (cs_context s) of
          Some old \<Rightarrow> \<exists>s2. reply_future E da w s1 = Inr (Some (Inr old), s2)
            \<and> recovered_msg (cs_context s2) = None
        | None \<Rightarrow>
            (\<exists>s2. reply_future E da (Ran (ReceivedMsg answer)) s1 = Inr (Some (Inr answer), s2))
            \<and> (e \<noteq> NNG_OK \<longrightarrow> (\<exists>s2. reply_future E da (Ran (Failed e)) s1
                 = Inr (Some (Inl (wait_error E e)), s2)))
            \<and> (\<exists>s2. reply_future E da (DroppedAs (ReceivedMsg answer)) s1 = Inr (None, s2)
                 \<and> recovered_msg (cs_context s2) = Some answer))"
proof -
  obtain s1 where 1: "contextful_send_msg E da message (Ran SentOk) s = Inr (Some (Inr ()), s1)"
      "contextful_idle s1" "recovered_msg (cs_context s1) = recovered_msg (cs_context s)"
      "given (cs_aio s1) = given (cs_aio s) @ [message]"
    using cs.send_ok [OF assms] by blast
  show ?thesis
  proof (cases "recovered_msg (cs_context s)")
    case None
    then have "recovered_msg (cs_context s1) = None" using 1(3) by simp
    from cs.recv_ok [OF 1(2) this] cs.recv_err [OF 1(2) this] cs.recv_drop_ok [OF 1(2) this]
    show ?thesis using None 1 unfolding request_def reply_future_def by fastforce
  next
    case (Some old)
    then have "recovered_msg (cs_context s1) = Some old" using 1(3) by simp
    from cs.recv_rec [OF 1(2) this] show ?thesis
      using Some 1 unfolding request_def reply_future_def by fastforce
  qed
qed

theorem reply_future_outcome_witness:
  "\<exists>s1 s2. request sample_env True (1::nat) (Ran SentOk) contextful_new = Inr (Some (Inr ()), s1)
     \<and> reply_future sample_env True (Ran (ReceivedMsg 2)) s1 = Inr (Some (Inr 2), s2)"
proof -
  have "recovered_msg (cs_context (contextful_new :: nat contextful)) = None"
    by (simp add: contextful_new_def)
  with reply_future_outcome [OF contextful_new_idle, where E = sample_env and da = True
      and message = "1::nat" and answer = 2]
  show ?thesis by fastforce
qed

text \<open>C15. A reply that arrives as its future is cancelled is not discarded: it answers the next
  request.  After a request whose reply future was dropped just as the reply \<open>old\<close> arrived, the
  reply future of the next request returns \<open>old\<close> at once, whatever NNG has or will deliver for
  that request.  If instead the dropped future's receive failed, the next request gets its own
  reply.\<close>

theorem cancelled_reply_answers_next_request:
  assumes "contextful_idle s" and "recovered_msg (cs_context s) = None" and "e \<noteq> NNG_OK"
  shows "(\<exists>s1 s2 s3 s4.
       request E da req (Ran SentOk) s = Inr (Some (Inr ()), s1)
     \<and> reply_future E da (DroppedAs (ReceivedMsg old)) s1 = Inr (None, s2)
     \<and> request E da req' (Ran SentOk) s2 = Inr (Some (Inr ()), s3)
     \<and> reply_future E da w s3 = Inr (Some (Inr old), s4))
   \<and> (\<exists>s1 s2 s3 s4.
       request E da req (Ran SentOk) s = Inr (Some (Inr ()), s1)
     \<and> reply_future E da (DroppedAs (Failed e)) s1 = Inr (None, s2)
     \<and> request E da req' (Ran SentOk) s2 = Inr (Some (Inr ()), s3)
     \<and> reply_future E da (Ran (ReceivedMsg answer)) s3 = Inr (Some (Inr answer), s4))"
proof -
  note defs = request_def reply_future_def
  obtain s1 where 1: "request E da req (Ran SentOk) s = Inr (Some (Inr ()), s1)"
      "contextful_idle s1" "recovered_msg (cs_context s1) = None"
    using cs.send_ok [OF assms(1), of E da req] assms(2) by (auto simp: defs)
  obtain s2 where 2: "reply_future E da (DroppedAs (ReceivedMsg old)) s1 = Inr (None, s2)"
      "contextful_idle s2" "recovered_msg (cs_context s2) = Some old"
    using cs.recv_drop_ok [OF 1(2,3), of E da old] by (auto simp: defs)
  obtain s3 where 3: "request E da req' (Ran SentOk) s2 = Inr (Some (Inr ()), s3)"
      "contextful_idle s3" "recovered_msg (cs_context s3) = Some old"
    using cs.send_ok [OF 2(2), of E da req'] 2(3) by (auto simp: defs)
  obtain s4 where 4: "reply_future E da w s3 = Inr (Some (Inr old), s4)"
    using cs.recv_rec [OF 3(2,3), of E da w] by (auto simp: defs)
  obtain t2 where t2: "reply_future E da (DroppedAs (Failed e)) s1 = Inr (None, t2)"
      "contextful_idle t2" "recovered_msg (cs_context t2) = None"
    using cs.recv_drop_err [OF 1(2,3) assms(3), of E da] by (auto simp: defs)
  obtain t3 where t3: "request E da req' (Ran SentOk) t2 = Inr (Some (Inr ()), t3)"
      "contextful_idle t3" "recovered_msg (cs_context t3) = None"
    using cs.send_ok [OF t2(2), of E da req'] t2(3) by (auto simp: defs)
  obtain t4 where "reply_future E da (Ran (ReceivedMsg answer)) t3 = Inr (Some (Inr answer), t4)"
    using cs.recv_ok [OF t3(2,3), of E da answer] by (auto simp: defs)
  with 1 2 3 4 t2 t3 show ?thesis by blast
qed

theorem cancelled_reply_answers_next_request_witness:
  "\<exists>s1 s2 s3 s4.
       request sample_env True (1::nat) (Ran SentOk) contextful_new = Inr (Some (Inr ()), s1)
     \<and> reply_future sample_env True (DroppedAs (ReceivedMsg 2)) s1 = Inr (None, s2)
     \<and> request sample_env True 3 (Ran SentOk) s2 = Inr (Some (Inr ()), s3)
     \<and> reply_future sample_env True (Ran (ReceivedMsg 4)) s3 = Inr (Some (Inr 2), s4)"
proof -
  have "recovered_msg (cs_context (contextful_new :: nat contextful)) = None" "(1 :: u32) \<noteq> NNG_OK"
    by (simp_all add: contextful_new_def NNG_OK_def)
  from cancelled_reply_answers_next_request [OF contextful_new_idle this] show ?thesis by blast
qed

text \<open>C34. A request is never lost by a cancelled \<open>receive\<close>.  When \<open>receive\<close> on a replier's context is
  dropped after a request arrived, the next \<open>receive\<close>, or \<open>try_receive\<close>, returns that request with
  an unused responder, without asking NNG again; dropped before, it leaves nothing behind.\<close>

theorem receive_is_cancel_safe:
  assumes "contextful_idle s" and "recovered_msg (cs_context s) = None" and "e \<noteq> NNG_OK"
  shows "(\<exists>s1. rep0_receive E da (DroppedAs (ReceivedMsg req)) s = Inr (None, s1)
       \<and> (\<exists>s2. rep0_receive E da w s1 = Inr (Some (Inr (req, \<lparr>sent = False\<rparr>)), s2)
            \<and> contextful_idle s2 \<and> recovered_msg (cs_context s2) = None)
       \<and> (\<exists>s2. rep0_try_receive x s1 = Inr (Inr (Some (req, \<lparr>sent = False\<rparr>)), s2)
            \<and> contextful_idle s2 \<and> recovered_msg (cs_context s2) = None))
   \<and> (\<exists>s1. rep0_receive E da (DroppedAs (Failed e)) s = Inr (None, s1)
       \<and> (\<exists>s2. rep0_receive E da (Ran (ReceivedMsg req)) s1
            = Inr (Some (Inr (req, \<lparr>sent = False\<rparr>)), s2)))"
proof -
  note defs = rep0_receive_def rep0_try_receive_def
  obtain s1 where 1: "contextful_recv_msg E da (DroppedAs (ReceivedMsg req)) s = Inr (None, s1)"
      "contextful_idle s1" "recovered_msg (cs_context s1) = Some req"
    using cs.recv_drop_ok [OF assms(1,2), of E da req] by auto
  obtain t1 where t1: "contextful_recv_msg E da (DroppedAs (Failed e)) s = Inr (None, t1)"
      "contextful_idle t1" "recovered_msg (cs_context t1) = None"
    using cs.recv_drop_err [OF assms, of E da] by auto
  show ?thesis
    using cs.recv_rec [OF 1(2,3), of E da w] cs.try_rec [OF 1(2,3), of x]
      cs.recv_ok [OF t1(2,3), of E da req] 1 t1
    by (auto simp: defs)
qed

theorem receive_is_cancel_safe_witness:
  "\<exists>s1 s2. rep0_receive sample_env True (DroppedAs (ReceivedMsg (5::nat))) contextful_new
      = Inr (None, s1)
     \<and> rep0_receive sample_env True (Ran (ReceivedMsg 6)) s1
      = Inr (Some (Inr (5, \<lparr>sent = False\<rparr>)), s2)"
proof -
  have "recovered_msg (cs_context (contextful_new :: nat contextful)) = None" "(1 :: u32) \<noteq> NNG_OK"
    by (simp_all add: contextful_new_def NNG_OK_def)
  from receive_is_cancel_safe [OF contextful_new_idle this, of sample_env True 5
      "Ran (ReceivedMsg 6)"]
  show ?thesis by blast
qed

text \<open>Which responders warn when they are dropped.  One fresh from \<open>receive\<close> does.  \<open>reply\<close> hands
  the reply to NNG or gives it back; no drop during or after a \<open>reply\<close> call warns: not when the
  reply was sent, not when the future was dropped before NNG took it (the peer must then re-send),
  and not when it failed and the caller drops the responder it got back.\<close>

theorem responder_warnings:
  assumes "contextful_idle s" and "e \<noteq> NNG_OK"
  shows "responder_drop \<lparr>sent = False\<rparr>
   \<and> (\<exists>s'. reply E da m (Ran SentOk) r s = Inr (Some (Inr ()), False, s')
        \<and> given (cs_aio s') = given (cs_aio s) @ [m])
   \<and> (\<exists>s' r'. reply E da m (Ran (Failed e)) r s
          = Inr (Some (Inl (r', wait_error E e, m)), False, s')
        \<and> \<not> responder_drop r'
        \<and> (\<exists>s''. reply E da m (Ran SentOk) r' s' = Inr (Some (Inr ()), False, s'')))
   \<and> (\<exists>s'. reply E da m (DroppedAs (Failed e)) r s = Inr (None, False, s')
        \<and> freed (cs_aio s') = freed (cs_aio s) @ [m])"
proof -
  obtain s1 where 1: "contextful_send_msg E da m (Ran (Failed e)) s
      = Inr (Some (Inl (wait_error E e, m)), s1)" "contextful_idle s1"
    using cs.send_err [OF assms, of E da m] by blast
  show ?thesis
    using cs.send_ok [OF assms(1), of E da m] 1 cs.send_ok [OF 1(2), of E da m]
      cs.send_drop_err [OF assms, of E da m]
    by (auto simp: reply_def responder_drop_def)
qed

theorem responder_warnings_witness:
  "\<exists>s'. reply sample_env True (5::nat) (DroppedAs (Failed 20)) \<lparr>sent = False\<rparr> contextful_new
      = Inr (None, False, s') \<and> freed (cs_aio s') = [5]"
proof -
  have "(20 :: u32) \<noteq> NNG_OK" "freed (cs_aio (contextful_new :: nat contextful)) = []"
    by (simp_all add: NNG_OK_def contextful_new_def aio_new_def)
  with responder_warnings [OF contextful_new_idle, of 20 sample_env True "5::nat" "\<lparr>sent = False\<rparr>"]
  show ?thesis by auto
qed

section \<open>Properties of survey\<close>

lemma from_nng_err_code_iff: "from_nng_err E e = Inr (NngError c) \<longleftrightarrow> e = error_code_num c"
proof
  assume "from_nng_err E e = Inr (NngError c)"
  then show "e = error_code_num c"
    by (auto simp: from_nng_err_def from_nng_err_arms_Some nng_err_value_eq_num
        split: option.splits if_splits)
next
  assume "e = error_code_num c"
  then show "from_nng_err E e = Inr (NngError c)"
    using from_nng_err_value [of E c] by (simp only: nng_err_value_eq_num)
qed

lemma wait_error_code_iff:
  assumes "e \<noteq> NNG_OK" "c \<notin> {ECANCELED, ETIMEDOUT}"
  shows "wait_error E e = Operation (NngError c) \<longleftrightarrow> e = error_code_num c"
proof -
  have ne: "nng_err_value ECANCELED \<noteq> error_code_num c" "nng_err_value ETIMEDOUT \<noteq> error_code_num c"
    using assms(2) by (cases c; simp)+
  obtain k where k: "from_nng_err E e = Inr k" using from_nng_err_nonzero [OF assms(1)] by blast
  have we: "wait_error E e = (if e = nng_err_value ECANCELED then Cancelled
      else if e = nng_err_value ETIMEDOUT then aio_error.TimedOut else Operation k)"
    by (simp only: wait_error_def k sum.case)
  have "k = NngError c \<longleftrightarrow> e = error_code_num c" using from_nng_err_code_iff [of E e c] k by simp
  with ne show ?thesis unfolding we by (metis aio_error.distinct(3,5) aio_error.inject)
qed

text \<open>C29. What a survey's response stream yields, for every way the receive may end.  \<open>next\<close> yields
  the delivered response; it ends the stream exactly when NNG's receive timed out or answered
  \<open>NNG_ESTATE\<close>, and yields any other error.  \<open>try_next\<close> reads every code of \<^verbatim>\<open>nng_ctx_recvmsg\<close>: 0 with a
  message yields it, \<open>NNG_EAGAIN\<close> says that the survey is still open, \<open>NNG_ESTATE\<close> that it has ended,
  \<open>NNG_ETIMEDOUT\<close> and \<open>NNG_ENOTSUP\<close> come out as errors (a protocol-level timeout is not the end of the
  stream here), and every other code panics.  A response that arrived for a dropped \<open>next\<close> is yielded
  first by whichever of the two is called then, whatever NNG answers.\<close>

theorem survey_stream_outcome:
  assumes "contextful_idle s" and "recovered_msg (cs_context s) = None" and "e \<noteq> NNG_OK"
  shows "(\<exists>s'. survey_next E da (Ran (ReceivedMsg m)) s = Inr (Some (Some (Inr m)), s'))
   \<and> (\<exists>s'. survey_next E da (Ran (Failed e)) s =
        Inr (Some (if e = error_code_num ETIMEDOUT \<or> e = error_code_num ESTATE then None
                   else Some (Inl (wait_error E e))), s'))
   \<and> (\<exists>s'. survey_next E da (DroppedAs (ReceivedMsg m)) s = Inr (None, s')
        \<and> (\<exists>s''. survey_next E da w s' = Inr (Some (Some (Inr m)), s''))
        \<and> (\<exists>s''. survey_try_next x s' = Inr (Some (Inr (Some m)), s'')))
   \<and> survey_try_next (rc, msg) s =
       (if sint rc < 0 then Inl ExpectFailed
        else if rc = 0 then
          (case msg of None \<Rightarrow> Inl ExpectFailed | Some r \<Rightarrow> Inr (Some (Inr (Some r)), s))
        else if rc = error_code_num EAGAIN then Inr (None, s)
        else if rc = error_code_num ESTATE then Inr (Some (Inr None), s)
        else if rc = error_code_num ETIMEDOUT then Inr (Some (Inl aio_error.TimedOut), s)
        else if rc = error_code_num ENOTSUP then Inr (Some (Inl (Operation (NngError ENOTSUP))), s)
        else if rc = error_code_num ENOMEM then Inl Oom
        else Inl Unreachable)"
proof -
  have tmo: "wait_error E e = aio_error.TimedOut \<longleftrightarrow> e = error_code_num ETIMEDOUT"
    using from_nng_err_nonzero [OF assms(3), of E] by (auto simp: wait_error_def)
  have est: "wait_error E e = Operation (NngError ESTATE) \<longleftrightarrow> e = error_code_num ESTATE"
    using wait_error_code_iff [OF assms(3), where E = E and c = ESTATE] by simp
  obtain s1 where 1: "contextful_recv_msg E da (Ran (ReceivedMsg m)) s = Inr (Some (Inr m), s1)"
    using cs.recv_ok [OF assms(1,2), of E da m] by blast
  obtain s2 where 2: "contextful_recv_msg E da (Ran (Failed e)) s
      = Inr (Some (Inl (wait_error E e)), s2)"
    using cs.recv_err [OF assms, of E da] by blast
  obtain s3 where 3: "contextful_recv_msg E da (DroppedAs (ReceivedMsg m)) s = Inr (None, s3)"
      "contextful_idle s3" "recovered_msg (cs_context s3) = Some m"
    using cs.recv_drop_ok [OF assms(1,2), of E da m] by blast
  obtain s4 where 4: "contextful_recv_msg E da w s3 = Inr (Some (Inr m), s4)"
    using cs.recv_rec [OF 3(2,3), of E da w] by blast
  obtain s5 where 5: "contextful_try_recv_msg x s3 = Inr (Inr (Some m), s5)"
    using cs.try_rec [OF 3(2,3), of x] by blast
  have "survey_next E da (Ran (Failed e)) s =
        Inr (Some (if e = error_code_num ETIMEDOUT \<or> e = error_code_num ESTATE then None
                   else Some (Inl (wait_error E e))), s2)"
    unfolding survey_next_def 2 using tmo est by simp
  moreover have "survey_try_next (rc, msg) s =
       (if sint rc < 0 then Inl ExpectFailed
        else if rc = 0 then
          (case msg of None \<Rightarrow> Inl ExpectFailed | Some r \<Rightarrow> Inr (Some (Inr (Some r)), s))
        else if rc = error_code_num EAGAIN then Inr (None, s)
        else if rc = error_code_num ESTATE then Inr (Some (Inr None), s)
        else if rc = error_code_num ETIMEDOUT then Inr (Some (Inl aio_error.TimedOut), s)
        else if rc = error_code_num ENOTSUP then Inr (Some (Inl (Operation (NngError ENOTSUP))), s)
        else if rc = error_code_num ENOMEM then Inl Oom
        else Inl Unreachable)"
    using cs.try_fresh [OF assms(1,2)]
    by (auto simp: survey_try_next_def recvmsg_result_def errno_u32_def split: option.splits)
  ultimately show ?thesis using 1 3(1) 4 5 by (auto simp: survey_next_def survey_try_next_def)
qed

theorem survey_stream_outcome_witness:
  "survey_try_next (5, None) (contextful_new :: nat contextful)
     = Inr (Some (Inl aio_error.TimedOut), contextful_new)
   \<and> survey_try_next (3, None) (contextful_new :: nat contextful) = Inl Unreachable
   \<and> (\<exists>s'. survey_next sample_env True (Ran (Failed 5)) (contextful_new :: nat contextful)
        = Inr (Some None, s'))"
proof -
  have "recovered_msg (cs_context (contextful_new :: nat contextful)) = None" "(5 :: u32) \<noteq> NNG_OK"
    by (simp_all add: contextful_new_def NNG_OK_def)
  note T = survey_stream_outcome [OF contextful_new_idle this, where E = sample_env and da = True]
  show ?thesis using T [where rc = 5 and msg = None] T [where rc = 3 and msg = None] by simp
qed

text \<open>C30. A survey sets its timeout before it sends, or does not send at all.  On one world of NNG
  that sees every call: a timeout beyond \<open>i32::MAX\<close> milliseconds panics before any call is made; when
  setting the option fails, that call was the only one and \<open>survey\<close> panics; otherwise the option is
  set first and the message is sent after it, each once, whether the send succeeds, fails or is
  dropped.  A failed send gives the message back, a send dropped and failed frees it, and a response
  recovered from a cancelled \<open>next\<close> of an earlier survey is the first response of the new one.\<close>

theorem survey_sets_timeout_then_sends:
  assumes "contextful_idle s" and "e \<noteq> NNG_OK"
    and "set_ms ''surveyor:survey-time'' (int (as_millis timeout)) n = (rc, n')"
  shows "if i32_max < int (as_millis timeout)
     then survey E da set_ms ctx_send m timeout w n s = (n, Inl Explicit)
     else if rc \<noteq> 0
     then survey E da set_ms ctx_send m timeout w n s
       = (n', Inl (if sint rc < 0 then ExpectFailed else Unreachable))
     else (\<exists>s'. survey E da set_ms ctx_send m timeout (Ran SentOk) n s
              = (ctx_send m n', Inr (Some (Inr ()), s'))
            \<and> given (cs_aio s') = given (cs_aio s) @ [m]
            \<and> (\<forall>old. recovered_msg (cs_context s) = Some old \<longrightarrow>
                (\<exists>s''. survey_next E da w s' = Inr (Some (Some (Inr old)), s''))))
       \<and> (\<exists>s'. survey E da set_ms ctx_send m timeout (Ran (Failed e)) n s
              = (ctx_send m n', Inr (Some (Inl (wait_error E e, m)), s'))
            \<and> given (cs_aio s') = given (cs_aio s) \<and> freed (cs_aio s') = freed (cs_aio s))
       \<and> (\<exists>s'. survey E da set_ms ctx_send m timeout (DroppedAs (Failed e)) n s
              = (ctx_send m n', Inr (None, s'))
            \<and> given (cs_aio s') = given (cs_aio s) \<and> freed (cs_aio s') = freed (cs_aio s) @ [m])"
proof -
  obtain s1 where 1: "contextful_send_msg E da m (Ran SentOk) s = Inr (Some (Inr ()), s1)"
      "contextful_idle s1" "given (cs_aio s1) = given (cs_aio s) @ [m]"
      "recovered_msg (cs_context s1) = recovered_msg (cs_context s)"
    using cs.send_ok [OF assms(1), of E da m] by blast
  obtain s2 where 2: "contextful_send_msg E da m (Ran (Failed e)) s
      = Inr (Some (Inl (wait_error E e, m)), s2)"
      "given (cs_aio s2) = given (cs_aio s)" "freed (cs_aio s2) = freed (cs_aio s)"
    using cs.send_err [OF assms(1,2), of E da m] by blast
  obtain s3 where 3: "contextful_send_msg E da m (DroppedAs (Failed e)) s = Inr (None, s3)"
      "given (cs_aio s3) = given (cs_aio s)" "freed (cs_aio s3) = freed (cs_aio s) @ [m]"
    using cs.send_drop_err [OF assms(1,2), of E da m] by blast
  have "\<exists>s''. survey_next E da w s1 = Inr (Some (Some (Inr old)), s'')"
    if "recovered_msg (cs_context s) = Some old" for old
    using cs.recv_rec [OF 1(2), of old E da w] that 1(4) by (auto simp: survey_next_def)
  with 1 2 3 assms(3) show ?thesis
    by (simp add: survey_def set_survey_timeout_def errno_u32_def)
qed

text \<open>The witness: a world that lists the calls made on it.\<close>

theorem survey_sets_timeout_then_sends_witness:
  "\<exists>s'. survey sample_env True (\<lambda>opt ms calls. (0, calls @ [Inl (opt, ms)]))
        (\<lambda>message calls. calls @ [Inr message]) (7::nat)
        \<lparr>d_secs = 1, d_nanos = 0\<rparr> (Ran SentOk) [] contextful_new
      = ([Inl (''surveyor:survey-time'', 1000), Inr 7], Inr (Some (Inr ()), s'))
     \<and> given (cs_aio s') = [7]"
proof -
  let ?t = "\<lparr>d_secs = 1, d_nanos = 0\<rparr>"
  let ?set = "\<lambda>opt ms calls. (0 :: c_int, calls @ [Inl (opt, ms)])"
  have "(1 :: u32) \<noteq> NNG_OK" by (simp add: NNG_OK_def)
  moreover have "?set ''surveyor:survey-time'' (int (as_millis ?t)) []
      = (0, [Inl (''surveyor:survey-time'', 1000)])"
    by (simp add: as_millis_def)
  ultimately show ?thesis
    using survey_sets_timeout_then_sends [OF contextful_new_idle, where e = 1 and set_ms = ?set
        and timeout = ?t and n = "[]" and rc = 0 and n' = "[Inl (''surveyor:survey-time'', 1000)]"
        and E = sample_env and da = True and m = "7::nat"
        and ctx_send = "\<lambda>message calls. calls @ [Inr message]"]
    by (simp add: as_millis_def i32_max_def contextful_new_def aio_new_def)
qed

section \<open>Properties of publish/subscribe\<close>

text \<open>The subscriptions of a context, as NNG documents them: a set of topics.\<close>

definition topic_subscribe :: "byte list \<Rightarrow> byte list set \<Rightarrow> c_int \<times> byte list set" where
  "topic_subscribe topic t = (0, insert topic t)"

definition topic_unsubscribe :: "byte list \<Rightarrow> byte list set \<Rightarrow> c_int \<times> byte list set" where
  "topic_unsubscribe topic t =
     (if topic \<in> t then (0, t - {topic}) else (error_code_num ENOENT, t))"

text \<open>What the subscription calls do, for every return code.  \<open>subscribe_to\<close> and
  \<open>disable_filtering\<close> (the empty topic) succeed on 0 only and panic otherwise; \<open>unsubscribe_from\<close>
  answers \<open>true\<close> on 0 and \<open>false\<close> on \<open>NNG_ENOENT\<close>, and panics otherwise: \<open>OOM\<close> for
  \<open>NNG_ENOMEM\<close>, a failed \<open>expect\<close> for a negative code, \<open>unreachable!\<close> for the rest.  Over a set of
  topics, subscribing and then unsubscribing a new topic answers \<open>true\<close> and restores the set.\<close>

theorem subscription_outcome:
  assumes "sub topic t = (errno, t')" and "unsub topic t = (errno, t')"
  shows "subscribe_to sub topic t =
       (if errno = 0 then Inr t' else if errno = error_code_num ENOMEM then Inl Oom
        else if sint errno < 0 then Inl ExpectFailed else Inl Unreachable)
   \<and> disable_filtering sub t = subscribe_to sub [] t
   \<and> unsubscribe_from unsub topic t =
       (if errno = 0 then Inr (True, t') else if errno = error_code_num ENOENT then Inr (False, t')
        else if errno = error_code_num ENOMEM then Inl Oom
        else if sint errno < 0 then Inl ExpectFailed else Inl Unreachable)
   \<and> (x \<notin> ts \<longrightarrow> run_bind (subscribe_to topic_subscribe x ts)
          (unsubscribe_from topic_unsubscribe x) = Inr (True, ts))"
  using assms
  by (auto simp: subscribe_to_def disable_filtering_def unsubscribe_from_def errno_u32_def
      topic_subscribe_def topic_unsubscribe_def)

theorem subscription_outcome_witness:
  "unsubscribe_from topic_unsubscribe [1] {} = Inr (False, {})"
  using subscription_outcome [of "\<lambda>topic t. (12, {})" "[1]" "{}" 12 "{}" topic_unsubscribe]
  by (simp add: topic_unsubscribe_def)

end
