(* ===== verification/Endpoint.thy ===== *)
theory Endpoint
  imports Channel Init
begin

text \<open>
  Opening sockets and attaching listeners and dialers (anng/src/protocols/mod.rs), the methods
  \<^verbatim>\<open>Socket::{dial, listen}\<close> (anng/src/lib.rs) and the constructors \<^verbatim>\<open>socket\<close>, \<^verbatim>\<open>dial\<close> and
  \<^verbatim>\<open>listen\<close> of every protocol type.  NNG is the parameter \<open>W\<close>: its functions act on a state \<open>'w\<close>.
  The C functions that create something return the code and the handle they wrote.
\<close>

section \<open>The C functions\<close>

record 'w ep_api =
  e_init :: "'w nng_init"
  e_open :: "string \<Rightarrow> 'w \<Rightarrow> (c_int \<times> nat) \<times> 'w"
  e_aio_alloc :: "'w \<Rightarrow> (u32 \<times> unit option) \<times> 'w"
  e_listener_create :: "nat \<Rightarrow> string \<Rightarrow> 'w \<Rightarrow> (c_int \<times> nat) \<times> 'w"
  e_listener_start :: "nat \<Rightarrow> 'w \<Rightarrow> c_int \<times> 'w"
  e_listener_close :: "nat \<Rightarrow> 'w \<Rightarrow> c_int \<times> 'w"
  e_dialer_create :: "nat \<Rightarrow> string \<Rightarrow> 'w \<Rightarrow> (c_int \<times> nat) \<times> 'w"
  e_dialer_start :: "nat \<Rightarrow> 'w \<Rightarrow> c_int \<times> 'w"
  e_dialer_close :: "nat \<Rightarrow> 'w \<Rightarrow> c_int \<times> 'w"
  e_socket_close :: "nat \<Rightarrow> 'w \<Rightarrow> 'w"

type_synonym ('a, 'w) io_res = "((io_error + 'a) \<times> 'w) run"

text \<open>\<open>io::Error::from(AioError::Operation(ErrorKind::from_nz_u32(err)))\<close>\<close>

definition op_io_error :: "ffi_env \<Rightarrow> u32 \<Rightarrow> io_error run" where
  "op_io_error E err = run_bind (from_nng_err E err) (\<lambda>k. aio_error_into_io E (Operation k))"

section \<open>Sockets\<close>

text \<open>A new socket: its handle and the state of its channel.\<close>

definition create_socket ::
  "'w ep_api \<Rightarrow> string \<Rightarrow> 'w \<Rightarrow> (nat \<times> 'm socket, 'w) io_res" where
  "create_socket W nng_proto_open w =
     run_bind (init_nng (e_init W) None w) (\<lambda>(r, w).
       case r of
         Inl _ \<Rightarrow> Inl ExpectFailed
       | Inr _ \<Rightarrow>
           (case e_open W nng_proto_open w of ((errno, sock), w) \<Rightarrow>
              run_bind (errno_u32 errno) (\<lambda>err.
                if err = 0 then
                  (case e_aio_alloc W w of ((rv, ptr), w) \<Rightarrow>
                     run_bind (new_inner rv ptr) (\<lambda>_.
                       Inr (Inr (sock, \<lparr>s_aio = aio_new, s_recovered_msg = None\<rparr>), w)))
                else if err = error_code_num ENOMEM then Inl Oom
                else Inl Unreachable)))"

text \<open>The codes of \<^verbatim>\<open>nng_listener_create\<close> and \<^verbatim>\<open>nng_dialer_create\<close> that are reported as errors.\<close>

definition create_errors :: "u32 list" where
  "create_errors = map error_code_num [ECLOSED, EADDRINVAL, EINVAL, ENOTSUP]"

section \<open>Listeners\<close>

definition add_listener_to_socket ::
  "ffi_env \<Rightarrow> 'w ep_api \<Rightarrow> nat \<Rightarrow> string \<Rightarrow> (nat \<Rightarrow> 'w \<Rightarrow> (io_error + unit) \<times> 'w) \<Rightarrow> 'w
     \<Rightarrow> (nat, 'w) io_res" where
  "add_listener_to_socket E W sock url pre_start w =
     (case e_listener_create W sock url w of ((errno, listener), w) \<Rightarrow>
      run_bind (errno_u32 errno) (\<lambda>err.
        if err = 0 then
          (case pre_start listener w of
             (Inl e, w) \<Rightarrow>
               (case e_listener_close W listener w of (errno, w) \<Rightarrow>
                  run_bind (errno_u32 errno) (\<lambda>err.
                    if err = 0 then Inr (Inl e, w) else Inl Unreachable))
           | (Inr _, w) \<Rightarrow>
               (case e_listener_start W listener w of (errno, w) \<Rightarrow>
                  run_bind (errno_u32 errno) (\<lambda>err.
                    if err = 0 then Inr (Inr listener, w)
                    else if err = error_code_num ECLOSED then Inl Unreachable
                    else if err = error_code_num ESTOPPED then Inl Unreachable
                    else if err = error_code_num ESTATE then Inl Unreachable
                    else if err = error_code_num EADDRINUSE \<or> err = error_code_num EPERM
                      then run_map (\<lambda>e. (Inl e, w)) (op_io_error E err)
                    else Inl Unreachable)))
        else if err = error_code_num ENOMEM then Inl Oom
        else if err \<in> set create_errors then run_map (\<lambda>e. (Inl e, w)) (op_io_error E err)
        else Inl Unreachable))"

section \<open>Dialers\<close>

text \<open>The codes of \<^verbatim>\<open>nng_dialer_start\<close> that are reported as they are.\<close>

definition dial_errors :: "u32 list" where
  "dial_errors = map error_code_num [EADDRINVAL, ECONNABORTED, ECONNSHUT, ECRYPTO, ECONNREFUSED,
     ECONNRESET, EINVAL, EPEERAUTH, EPROTO, EUNREACHABLE]"

text \<open>The closure given to \<^verbatim>\<open>spawn_blocking\<close>, which reads the code of \<^verbatim>\<open>nng_dialer_start\<close>.\<close>

definition dial_worker :: "ffi_env \<Rightarrow> c_int \<Rightarrow> (io_error + unit) run" where
  "dial_worker E errno =
     run_bind (errno_u32 errno) (\<lambda>err.
       if err = 0 then Inr (Inr ())
       else if err = error_code_num ECANCELED then run_map Inl (aio_error_into_io E Cancelled)
       else if err = error_code_num ECLOSED
         then run_map Inl (aio_error_into_io E (Operation (NngError ECLOSED)))
       else if err = error_code_num ESTOPPED
         then run_map Inl (aio_error_into_io E (Operation (NngError ESTOPPED)))
       else if err = error_code_num ESTATE then Inl Unreachable
       else if err = error_code_num EAGAIN
         then run_map Inl (aio_error_into_io E (Operation (NngError EADDRINVAL)))
       else if err = error_code_num ENOMEM then Inl Oom
       else if err = error_code_num ETIMEDOUT
         then run_map Inl (aio_error_into_io E aio_error.TimedOut)
       else if err \<in> set dial_errors then run_map Inl (op_io_error E err)
       else Inl Unreachable)"

text \<open>
  A panic of the worker is a \<^verbatim>\<open>JoinError\<close>, which \<^verbatim>\<open>?\<close> turns into an \<^verbatim>\<open>io::Error\<close>: tokio's
  conversion is the parameter \<open>join\<close>.  \<open>dropped\<close> says that the future was dropped at
  \<^verbatim>\<open>handle.await\<close>; the worker then runs on, detached.
\<close>

definition add_dialer_to_socket ::
  "ffi_env \<Rightarrow> (panic \<Rightarrow> io_error) \<Rightarrow> 'w ep_api \<Rightarrow> bool \<Rightarrow> nat \<Rightarrow> string
     \<Rightarrow> (nat \<Rightarrow> 'w \<Rightarrow> (io_error + unit) \<times> 'w) \<Rightarrow> 'w \<Rightarrow> ((io_error + nat) option \<times> 'w) run" where
  "add_dialer_to_socket E join W dropped sock url pre_start w =
     (case e_aio_alloc W w of ((rv, ptr), w) \<Rightarrow>
      run_bind (new_inner rv ptr) (\<lambda>_.
     (case e_dialer_create W sock url w of ((errno, dialer), w) \<Rightarrow>
      run_bind (errno_u32 errno) (\<lambda>err.
        if err = 0 then
          (case pre_start dialer w of
             (Inl e, w) \<Rightarrow>
               (case e_dialer_close W dialer w of (errno, w) \<Rightarrow>
                  run_bind (errno_u32 errno) (\<lambda>err.
                    if err = 0 then Inr (Some (Inl e), w) else Inl Unreachable))
           | (Inr _, w) \<Rightarrow>
               (case e_dialer_start W dialer w of (errno, w) \<Rightarrow>
                  if dropped then Inr (None, w)
                  else
                    (case dial_worker E errno of
                       Inr (Inr _) \<Rightarrow> Inr (Some (Inr dialer), w)
                     | Inr (Inl e) \<Rightarrow> Inr (Some (Inl e), snd (e_dialer_close W dialer w))
                     | Inl p \<Rightarrow> Inr (Some (Inl (join p)), snd (e_dialer_close W dialer w)))))
        else if err = error_code_num ENOMEM then Inl Oom
        else if err \<in> set create_errors
          then run_map (\<lambda>e. (Some (Inl e), w)) (op_io_error E err)
        else Inl Unreachable))))"

section \<open>The public methods\<close>

text \<open>\<^verbatim>\<open>PipeOptions\<close> has no fields, so the closures that the methods pass on do nothing.\<close>

definition no_options :: "nat \<Rightarrow> 'w \<Rightarrow> (io_error + unit) \<times> 'w" where
  "no_options h w = (Inr (), w)"

definition dial_with_opts ::
  "ffi_env \<Rightarrow> (panic \<Rightarrow> io_error) \<Rightarrow> 'w ep_api \<Rightarrow> bool \<Rightarrow> nat \<Rightarrow> string \<Rightarrow> 'w
     \<Rightarrow> ((io_error + nat) option \<times> 'w) run" where
  "dial_with_opts E join W dropped sock url w =
     add_dialer_to_socket E join W dropped sock url no_options w"

definition socket_dial ::
  "ffi_env \<Rightarrow> (panic \<Rightarrow> io_error) \<Rightarrow> 'w ep_api \<Rightarrow> bool \<Rightarrow> nat \<Rightarrow> string \<Rightarrow> 'w
     \<Rightarrow> ((io_error + nat) option \<times> 'w) run" where
  "socket_dial E join W dropped sock url w = dial_with_opts E join W dropped sock url w"

definition listen_with_opts ::
  "ffi_env \<Rightarrow> 'w ep_api \<Rightarrow> nat \<Rightarrow> string \<Rightarrow> 'w \<Rightarrow> (nat, 'w) io_res" where
  "listen_with_opts E W sock url w = add_listener_to_socket E W sock url no_options w"

definition socket_listen ::
  "ffi_env \<Rightarrow> 'w ep_api \<Rightarrow> nat \<Rightarrow> string \<Rightarrow> 'w \<Rightarrow> (nat, 'w) io_res" where
  "socket_listen E W sock url w = listen_with_opts E W sock url w"

text \<open>\<^verbatim>\<open>impl Drop for Socket\<close>\<close>

definition socket_drop :: "'w ep_api \<Rightarrow> nat \<Rightarrow> 'w \<Rightarrow> 'w" where
  "socket_drop W sock w = e_socket_close W sock w"

text \<open>
  \<open>let socket = Self::socket()?; socket.listen(url).await?; Ok(socket)\<close>, and the same with
  \<open>dial\<close>: on the way out with an error, or when the future is dropped, the socket is dropped.
\<close>

definition proto_listen ::
  "ffi_env \<Rightarrow> 'w ep_api \<Rightarrow> string \<Rightarrow> string \<Rightarrow> 'w \<Rightarrow> (nat \<times> 'm socket, 'w) io_res" where
  "proto_listen E W proto_open url w =
     run_bind (create_socket W proto_open w) (\<lambda>(r, w).
       case r of
         Inl e \<Rightarrow> Inr (Inl e, w)
       | Inr sock \<Rightarrow>
           run_map (\<lambda>(l, w).
             case l of
               Inl e \<Rightarrow> (Inl e, socket_drop W (fst sock) w)
             | Inr _ \<Rightarrow> (Inr sock, w))
             (socket_listen E W (fst sock) url w))"

definition proto_dial ::
  "ffi_env \<Rightarrow> (panic \<Rightarrow> io_error) \<Rightarrow> 'w ep_api \<Rightarrow> bool \<Rightarrow> string \<Rightarrow> string \<Rightarrow> 'w
     \<Rightarrow> ((io_error + nat \<times> 'm socket) option \<times> 'w) run" where
  "proto_dial E join W dropped proto_open url w =
     run_bind (create_socket W proto_open w) (\<lambda>(r, w).
       case r of
         Inl e \<Rightarrow> Inr (Some (Inl e), w)
       | Inr sock \<Rightarrow>
           run_map (\<lambda>(d, w).
             case d of
               None \<Rightarrow> (None, socket_drop W (fst sock) w)
             | Some (Inl e) \<Rightarrow> (Some (Inl e), socket_drop W (fst sock) w)
             | Some (Inr _) \<Rightarrow> (Some (Inr sock), w))
             (socket_dial E join W dropped (fst sock) url w))"

section \<open>The protocol types\<close>

text \<open>\<^verbatim>\<open>Req0::{socket, listen, dial}\<close>\<close>

definition req0_socket :: "'w ep_api \<Rightarrow> 'w \<Rightarrow> (nat \<times> 'm socket, 'w) io_res" where
  "req0_socket W w = create_socket W ''nng_req0_open'' w"

definition req0_listen ::
  "ffi_env \<Rightarrow> 'w ep_api \<Rightarrow> string \<Rightarrow> 'w \<Rightarrow> (nat \<times> 'm socket, 'w) io_res" where
  "req0_listen E W url w = proto_listen E W ''nng_req0_open'' url w"

definition req0_dial ::
  "ffi_env \<Rightarrow> (panic \<Rightarrow> io_error) \<Rightarrow> 'w ep_api \<Rightarrow> bool \<Rightarrow> string \<Rightarrow> 'w
     \<Rightarrow> ((io_error + nat \<times> 'm socket) option \<times> 'w) run" where
  "req0_dial E join W dropped url w = proto_dial E join W dropped ''nng_req0_open'' url w"

text \<open>\<^verbatim>\<open>Rep0::{socket, listen, dial}\<close>\<close>

definition rep0_socket :: "'w ep_api \<Rightarrow> 'w \<Rightarrow> (nat \<times> 'm socket, 'w) io_res" where
  "rep0_socket W w = create_socket W ''nng_rep0_open'' w"

definition rep0_listen ::
  "ffi_env \<Rightarrow> 'w ep_api \<Rightarrow> string \<Rightarrow> 'w \<Rightarrow> (nat \<times> 'm socket, 'w) io_res" where
  "rep0_listen E W url w = proto_listen E W ''nng_rep0_open'' url w"

definition rep0_dial ::
  "ffi_env \<Rightarrow> (panic \<Rightarrow> io_error) \<Rightarrow> 'w ep_api \<Rightarrow> bool \<Rightarrow> string \<Rightarrow> 'w
     \<Rightarrow> ((io_error + nat \<times> 'm socket) option \<times> 'w) run" where
  "rep0_dial E join W dropped url w = proto_dial E join W dropped ''nng_rep0_open'' url w"

text \<open>\<^verbatim>\<open>Surveyor0::{socket, listen, dial}\<close>\<close>

definition surveyor0_socket :: "'w ep_api \<Rightarrow> 'w \<Rightarrow> (nat \<times> 'm socket, 'w) io_res" where
  "surveyor0_socket W w = create_socket W ''nng_surveyor0_open'' w"

definition surveyor0_listen ::
  "ffi_env \<Rightarrow> 'w ep_api \<Rightarrow> string \<Rightarrow> 'w \<Rightarrow> (nat \<times> 'm socket, 'w) io_res" where
  "surveyor0_listen E W url w = proto_listen E W ''nng_surveyor0_open'' url w"

definition surveyor0_dial ::
  "ffi_env \<Rightarrow> (panic \<Rightarrow> io_error) \<Rightarrow> 'w ep_api \<Rightarrow> bool \<Rightarrow> string \<Rightarrow> 'w
     \<Rightarrow> ((io_error + nat \<times> 'm socket) option \<times> 'w) run" where
  "surveyor0_dial E join W dropped url w = proto_dial E join W dropped ''nng_surveyor0_open'' url w"

text \<open>\<^verbatim>\<open>Respondent0::{socket, listen, dial}\<close>\<close>

definition respondent0_socket :: "'w ep_api \<Rightarrow> 'w \<Rightarrow> (nat \<times> 'm socket, 'w) io_res" where
  "respondent0_socket W w = create_socket W ''nng_respondent0_open'' w"

definition respondent0_listen ::
  "ffi_env \<Rightarrow> 'w ep_api \<Rightarrow> string \<Rightarrow> 'w \<Rightarrow> (nat \<times> 'm socket, 'w) io_res" where
  "respondent0_listen E W url w = proto_listen E W ''nng_respondent0_open'' url w"

definition respondent0_dial ::
  "ffi_env \<Rightarrow> (panic \<Rightarrow> io_error) \<Rightarrow> 'w ep_api \<Rightarrow> bool \<Rightarrow> string \<Rightarrow> 'w
     \<Rightarrow> ((io_error + nat \<times> 'm socket) option \<times> 'w) run" where
  "respondent0_dial E join W dropped url w = proto_dial E join W dropped ''nng_respondent0_open'' url w"

text \<open>\<^verbatim>\<open>Sub0::{socket, listen, dial}\<close>\<close>

definition sub0_socket :: "'w ep_api \<Rightarrow> 'w \<Rightarrow> (nat \<times> 'm socket, 'w) io_res" where
  "sub0_socket W w = create_socket W ''nng_sub0_open'' w"

definition sub0_listen ::
  "ffi_env \<Rightarrow> 'w ep_api \<Rightarrow> string \<Rightarrow> 'w \<Rightarrow> (nat \<times> 'm socket, 'w) io_res" where
  "sub0_listen E W url w = proto_listen E W ''nng_sub0_open'' url w"

definition sub0_dial ::
  "ffi_env \<Rightarrow> (panic \<Rightarrow> io_error) \<Rightarrow> 'w ep_api \<Rightarrow> bool \<Rightarrow> string \<Rightarrow> 'w
     \<Rightarrow> ((io_error + nat \<times> 'm socket) option \<times> 'w) run" where
  "sub0_dial E join W dropped url w = proto_dial E join W dropped ''nng_sub0_open'' url w"

text \<open>\<^verbatim>\<open>Pub0::{socket, listen, dial}\<close>\<close>

definition pub0_socket :: "'w ep_api \<Rightarrow> 'w \<Rightarrow> (nat \<times> 'm socket, 'w) io_res" where
  "pub0_socket W w = create_socket W ''nng_pub0_open'' w"

definition pub0_listen ::
  "ffi_env \<Rightarrow> 'w ep_api \<Rightarrow> string \<Rightarrow> 'w \<Rightarrow> (nat \<times> 'm socket, 'w) io_res" where
  "pub0_listen E W url w = proto_listen E W ''nng_pub0_open'' url w"

definition pub0_dial ::
  "ffi_env \<Rightarrow> (panic \<Rightarrow> io_error) \<Rightarrow> 'w ep_api \<Rightarrow> bool \<Rightarrow> string \<Rightarrow> 'w
     \<Rightarrow> ((io_error + nat \<times> 'm socket) option \<times> 'w) run" where
  "pub0_dial E join W dropped url w = proto_dial E join W dropped ''nng_pub0_open'' url w"

text \<open>\<^verbatim>\<open>Pull0::{socket, listen, dial}\<close>\<close>

definition pull0_socket :: "'w ep_api \<Rightarrow> 'w \<Rightarrow> (nat \<times> 'm socket, 'w) io_res" where
  "pull0_socket W w = create_socket W ''nng_pull0_open'' w"

definition pull0_listen ::
  "ffi_env \<Rightarrow> 'w ep_api \<Rightarrow> string \<Rightarrow> 'w \<Rightarrow> (nat \<times> 'm socket, 'w) io_res" where
  "pull0_listen E W url w = proto_listen E W ''nng_pull0_open'' url w"

definition pull0_dial ::
  "ffi_env \<Rightarrow> (panic \<Rightarrow> io_error) \<Rightarrow> 'w ep_api \<Rightarrow> bool \<Rightarrow> string \<Rightarrow> 'w
     \<Rightarrow> ((io_error + nat \<times> 'm socket) option \<times> 'w) run" where
  "pull0_dial E join W dropped url w = proto_dial E join W dropped ''nng_pull0_open'' url w"

text \<open>\<^verbatim>\<open>Push0::{socket, listen, dial}\<close>\<close>

definition push0_socket :: "'w ep_api \<Rightarrow> 'w \<Rightarrow> (nat \<times> 'm socket, 'w) io_res" where
  "push0_socket W w = create_socket W ''nng_push0_open'' w"

definition push0_listen ::
  "ffi_env \<Rightarrow> 'w ep_api \<Rightarrow> string \<Rightarrow> 'w \<Rightarrow> (nat \<times> 'm socket, 'w) io_res" where
  "push0_listen E W url w = proto_listen E W ''nng_push0_open'' url w"

definition push0_dial ::
  "ffi_env \<Rightarrow> (panic \<Rightarrow> io_error) \<Rightarrow> 'w ep_api \<Rightarrow> bool \<Rightarrow> string \<Rightarrow> 'w
     \<Rightarrow> ((io_error + nat \<times> 'm socket) option \<times> 'w) run" where
  "push0_dial E join W dropped url w = proto_dial E join W dropped ''nng_push0_open'' url w"

text \<open>\<^verbatim>\<open>Pair1::{socket, listen, dial}\<close>\<close>

definition pair1_socket :: "'w ep_api \<Rightarrow> 'w \<Rightarrow> (nat \<times> 'm socket, 'w) io_res" where
  "pair1_socket W w = create_socket W ''nng_pair1_open'' w"

definition pair1_listen ::
  "ffi_env \<Rightarrow> 'w ep_api \<Rightarrow> string \<Rightarrow> 'w \<Rightarrow> (nat \<times> 'm socket, 'w) io_res" where
  "pair1_listen E W url w = proto_listen E W ''nng_pair1_open'' url w"

definition pair1_dial ::
  "ffi_env \<Rightarrow> (panic \<Rightarrow> io_error) \<Rightarrow> 'w ep_api \<Rightarrow> bool \<Rightarrow> string \<Rightarrow> 'w
     \<Rightarrow> ((io_error + nat \<times> 'm socket) option \<times> 'w) run" where
  "pair1_dial E join W dropped url w = proto_dial E join W dropped ''nng_pair1_open'' url w"

text \<open>\<^verbatim>\<open>Bus0::{socket, listen, dial}\<close>\<close>

definition bus0_socket :: "'w ep_api \<Rightarrow> 'w \<Rightarrow> (nat \<times> 'm socket, 'w) io_res" where
  "bus0_socket W w = create_socket W ''nng_bus0_open'' w"

definition bus0_listen ::
  "ffi_env \<Rightarrow> 'w ep_api \<Rightarrow> string \<Rightarrow> 'w \<Rightarrow> (nat \<times> 'm socket, 'w) io_res" where
  "bus0_listen E W url w = proto_listen E W ''nng_bus0_open'' url w"

definition bus0_dial ::
  "ffi_env \<Rightarrow> (panic \<Rightarrow> io_error) \<Rightarrow> 'w ep_api \<Rightarrow> bool \<Rightarrow> string \<Rightarrow> 'w
     \<Rightarrow> ((io_error + nat \<times> 'm socket) option \<times> 'w) run" where
  "bus0_dial E join W dropped url w = proto_dial E join W dropped ''nng_bus0_open'' url w"

section \<open>Lemmas\<close>

lemma io_from_code_returns:
  assumes "c \<notin> {ETIMEDOUT, ECANCELED, EINTR}"
  shows "\<exists>e. aio_error_into_io E (Operation (NngError c)) = Inr e"
proof (cases "aio_error_into_io E (Operation (NngError c))")
  case (Inl p)
  with aio_error_into_io_panics [of E "Operation (NngError c)" p] assms show ?thesis by auto
qed simp

lemma op_io_error_code:
  "op_io_error E (error_code_num c) = aio_error_into_io E (Operation (NngError c))"
  using from_nng_err_value [of E c]
  by (simp add: op_io_error_def nng_err_value_eq_num del: aio_error_into_io.simps)

lemma op_io_error_returns:
  assumes "x \<in> set (map error_code_num cs)" and "set cs \<inter> {ETIMEDOUT, ECANCELED, EINTR} = {}"
  shows "\<exists>e. op_io_error E x = Inr e"
proof -
  obtain c where c: "x = error_code_num c" "c \<in> set cs" using assms(1) by auto
  then have "c \<notin> {ETIMEDOUT, ECANCELED, EINTR}" using assms(2) by blast
  from io_from_code_returns [OF this, of E] show ?thesis by (simp only: c(1) op_io_error_code)
qed

lemma create_error_returns: "x \<in> set create_errors \<Longrightarrow> \<exists>e. op_io_error E x = Inr e"
  by (rule op_io_error_returns [of _ "[ECLOSED, EADDRINVAL, EINVAL, ENOTSUP]"])
    (auto simp: create_errors_def)

lemma dial_error_returns: "x \<in> set dial_errors \<Longrightarrow> \<exists>e. op_io_error E x = Inr e"
  by (rule op_io_error_returns [of _ "[EADDRINVAL, ECONNABORTED, ECONNSHUT, ECRYPTO, ECONNREFUSED,
     ECONNRESET, EINVAL, EPEERAUTH, EPROTO, EUNREACHABLE]"]) (auto simp: dial_errors_def)

lemma dial_worker_Ok: "dial_worker E errno = Inr (Inr u) \<longleftrightarrow> errno = 0"
proof
  assume "dial_worker E errno = Inr (Inr u)"
  then show "errno = 0"
    by (auto simp: dial_worker_def run_simps errno_u32_def
        simp del: aio_error_into_io.simps split: if_splits)
qed (simp add: dial_worker_def)

section \<open>The calls on handles\<close>

text \<open>A record of the calls that begin, start and end the life of a handle, kept beside NNG's state.\<close>

datatype call =
    SockOpened nat | SockClosed nat
  | ListenerCreated nat | ListenerStarted nat | ListenerClosed nat
  | DialerCreated nat | DialerStarted nat | DialerClosed nat

definition logged :: "'w ep_api \<Rightarrow> ('w \<times> call list) ep_api" where
  "logged W = \<lparr>
     e_init = (\<lambda>p (w, l). let (r, w') = e_init W p w in (r, w', l)),
     e_open = (\<lambda>f (w, l). let ((r, h), w') = e_open W f w in
        ((r, h), w', if r = 0 then l @ [SockOpened h] else l)),
     e_aio_alloc = (\<lambda>(w, l). let (r, w') = e_aio_alloc W w in (r, w', l)),
     e_listener_create = (\<lambda>s u (w, l). let ((r, h), w') = e_listener_create W s u w in
        ((r, h), w', if r = 0 then l @ [ListenerCreated h] else l)),
     e_listener_start = (\<lambda>h (w, l). let (r, w') = e_listener_start W h w in
        (r, w', l @ [ListenerStarted h])),
     e_listener_close = (\<lambda>h (w, l). let (r, w') = e_listener_close W h w in
        (r, w', l @ [ListenerClosed h])),
     e_dialer_create = (\<lambda>s u (w, l). let ((r, h), w') = e_dialer_create W s u w in
        ((r, h), w', if r = 0 then l @ [DialerCreated h] else l)),
     e_dialer_start = (\<lambda>h (w, l). let (r, w') = e_dialer_start W h w in
        (r, w', l @ [DialerStarted h])),
     e_dialer_close = (\<lambda>h (w, l). let (r, w') = e_dialer_close W h w in
        (r, w', l @ [DialerClosed h])),
     e_socket_close = (\<lambda>h (w, l). (e_socket_close W h w, l @ [SockClosed h]))\<rparr>"

lemma run_map_Inl_eq: "run_map (\<lambda>e. (Inl e, w)) r = Inr (x, w') \<longleftrightarrow> (\<exists>e. r = Inr e \<and> x = Inl e \<and> w' = w)"
  by (cases r) auto

lemma run_map_Some_eq:
  "run_map (\<lambda>e. (Some (Inl e), w)) r = Inr (x, w') \<longleftrightarrow>
     (\<exists>e. r = Inr e \<and> x = Some (Inl e) \<and> w' = w)"
  by (cases r) auto

lemma errno_u32_bind: "run_bind (errno_u32 e) f = (if sint e < 0 then Inl ExpectFailed else f e)"
  by (simp add: errno_u32_def)

lemma new_inner_Inr: "new_inner rv ptr = Inr u \<longleftrightarrow> rv = NNG_OK \<and> ptr = Some u"
  by (auto simp: new_inner_def split: option.splits)

lemma create_socket_InrD:
  assumes "create_socket W f w = Inr (r, w')"
  shows "\<exists>w1 w2 h. init_nng (e_init W) None w = Inr (Inr (), w1)
    \<and> e_open W f w1 = ((0, h), w2) \<and> e_aio_alloc W w2 = ((NNG_OK, Some ()), w')
    \<and> r = Inr (h, \<lparr>s_aio = aio_new, s_recovered_msg = None\<rparr>)"
proof -
  obtain q w1 where 1: "init_nng (e_init W) None w = Inr (q, w1)"
    using assms by (auto simp: create_socket_def run_bind_eq_Inr)
  have q: "q = Inr ()" using assms 1 by (cases q) (simp_all add: create_socket_def)
  obtain errno h w2 where 2: "e_open W f w1 = ((errno, h), w2)" by (metis surj_pair)
  obtain rv ptr w3 where 3: "e_aio_alloc W w2 = ((rv, ptr), w3)" by (metis surj_pair)
  have "errno = 0"
    using assms 1 q 2 by (simp add: create_socket_def errno_u32_bind split: if_splits)
  with assms 1 q 2 3 show ?thesis
    by (auto simp: create_socket_def errno_u32_bind run_bind_eq_Inr new_inner_Inr)
qed

lemma listen_InrD:
  assumes "socket_listen E W sock url w = Inr (r, w')"
  shows "(\<exists>errno h e. errno \<noteq> 0 \<and> e_listener_create W sock url w = ((errno, h), w') \<and> r = Inl e)
    \<or> (\<exists>h w2 errno. e_listener_create W sock url w = ((0, h), w2)
         \<and> e_listener_start W h w2 = (errno, w') \<and> (r = Inr h \<or> (\<exists>e. r = Inl e)))"
proof -
  obtain errno h w2 where 2: "e_listener_create W sock url w = ((errno, h), w2)"
    by (metis surj_pair)
  obtain code w3 where 3: "e_listener_start W h w2 = (code, w3)" by (metis surj_pair)
  show ?thesis
    using assms 2 3
    by (auto simp: socket_listen_def listen_with_opts_def add_listener_to_socket_def
        no_options_def errno_u32_bind run_map_Inl_eq split: if_splits)
qed

lemma dial_InrD:
  assumes "socket_dial E join W dropped sock url w = Inr (r, w')"
  shows "\<exists>w1. e_aio_alloc W w = ((NNG_OK, Some ()), w1)
    \<and> ((\<exists>errno h e. errno \<noteq> 0 \<and> e_dialer_create W sock url w1 = ((errno, h), w')
          \<and> r = Some (Inl e))
       \<or> (\<exists>h w2 errno w3. e_dialer_create W sock url w1 = ((0, h), w2)
            \<and> e_dialer_start W h w2 = (errno, w3)
            \<and> (r = Some (Inr h) \<and> w' = w3 \<or> r = None \<and> w' = w3
               \<or> (\<exists>e. r = Some (Inl e)) \<and> w' = snd (e_dialer_close W h w3))))"
proof -
  obtain rv ptr w1 where 1: "e_aio_alloc W w = ((rv, ptr), w1)" by (metis surj_pair)
  obtain errno h w2 where 2: "e_dialer_create W sock url w1 = ((errno, h), w2)"
    by (metis surj_pair)
  obtain code w3 where 3: "e_dialer_start W h w2 = (code, w3)" by (metis surj_pair)
  have alloc: "rv = NNG_OK" "ptr = Some ()"
    using assms 1
    by (auto simp: socket_dial_def dial_with_opts_def add_dialer_to_socket_def run_bind_eq_Inr
        new_inner_Inr)
  show ?thesis
  proof (cases "errno = 0")
    case True
    with assms 1 2 3 alloc show ?thesis
      by (cases "dial_worker E code")
        (auto simp: socket_dial_def dial_with_opts_def add_dialer_to_socket_def no_options_def
          new_inner_def split: if_splits sum.split_asm)
  next
    case False
    with assms 1 2 3 alloc show ?thesis
      by (auto simp: socket_dial_def dial_with_opts_def add_dialer_to_socket_def no_options_def
          new_inner_def errno_u32_bind run_map_Some_eq split: if_splits)
  qed
qed

lemma init_logged:
  "init_nng (e_init (logged W)) None (w, l)
     = run_map (\<lambda>(r, w). (r, w, l)) (init_nng (e_init W) None w)"
  by (simp add: init_nng_def logged_def split: prod.splits)

lemma create_socket_logged:
  assumes "create_socket (logged W) f (w, l) = Inr (r, w', l')"
  shows "\<exists>s. r = Inr s \<and> l' = l @ [SockOpened (fst s)]"
  using create_socket_InrD [OF assms]
  by (auto simp: init_logged run_map_eq_Inr) (auto simp: logged_def split: prod.splits)

lemma listen_logged:
  assumes "socket_listen E (logged W) sock url (w, l) = Inr (r, w', l')"
  shows "\<exists>k. l' = l @ k \<and>
     (case r of
        Inr h \<Rightarrow> k = [ListenerCreated h, ListenerStarted h]
      | Inl e \<Rightarrow> k = [] \<or> (\<exists>h. k = [ListenerCreated h, ListenerStarted h]))"
  using listen_InrD [OF assms] by (auto simp: logged_def split: prod.splits)

lemma dial_logged:
  assumes "socket_dial E join (logged W) dropped sock url (w, l) = Inr (r, w', l')"
  shows "\<exists>k. l' = l @ k \<and>
     (case r of
        Some (Inr h) \<Rightarrow> k = [DialerCreated h, DialerStarted h]
      | Some (Inl e) \<Rightarrow> k = [] \<or> (\<exists>h. k = [DialerCreated h, DialerStarted h, DialerClosed h])
      | None \<Rightarrow> \<exists>h. k = [DialerCreated h, DialerStarted h])"
  using dial_InrD [OF assms] by (auto simp: logged_def split: prod.splits)

section \<open>Properties\<close>

text \<open>C21. What dialing does, for every return code of \<open>nng_dialer_start\<close>.  Once the dialer exists, a
  code of 0 returns it; every other code, documented or not, negative or one that panics the
  worker, returns an error after the dialer was closed once; temporary resolver failures are reported
  as an invalid address; a timeout as \<open>TimedOut\<close>.  If the future is dropped while the worker
  runs, the dialer is left running.\<close>

theorem dial_outcome:
  assumes "e_aio_alloc W w = ((NNG_OK, Some ()), w1)"
    and "e_dialer_create W sock url w1 = ((0, d), w2)"
    and "e_dialer_start W d w2 = (errno, w3)"
  shows "(if errno = 0 then socket_dial E join W False sock url w = Inr (Some (Inr d), w3)
      else \<exists>e. socket_dial E join W False sock url w
               = Inr (Some (Inl e), snd (e_dialer_close W d w3))
            \<and> (errno = error_code_num ETIMEDOUT \<longrightarrow> io_kind E e = io_error_kind.TimedOut)
            \<and> (errno = error_code_num EAGAIN \<longrightarrow>
                 aio_error_into_io E (Operation (NngError EADDRINVAL)) = Inr e))
     \<and> socket_dial E join W True sock url w = Inr (None, w3)"
proof -
  have dial: "socket_dial E join W False sock url w =
      (case dial_worker E errno of
         Inr (Inr _) \<Rightarrow> Inr (Some (Inr d), w3)
       | Inr (Inl e) \<Rightarrow> Inr (Some (Inl e), snd (e_dialer_close W d w3))
       | Inl p \<Rightarrow> Inr (Some (Inl (join p)), snd (e_dialer_close W d w3)))"
    and dropped: "socket_dial E join W True sock url w = Inr (None, w3)"
    using assms
    by (simp_all add: socket_dial_def dial_with_opts_def add_dialer_to_socket_def no_options_def
        new_inner_def)
  have tmo: "dial_worker E (error_code_num ETIMEDOUT)
      = Inr (Inl (IoCustom io_error_kind.TimedOut ''operation timed out''))"
    by (simp add: dial_worker_def errno_u32_def)
  have again: "dial_worker E (error_code_num EAGAIN)
      = run_map Inl (aio_error_into_io E (Operation (NngError EADDRINVAL)))"
    by (simp add: dial_worker_def errno_u32_def del: aio_error_into_io.simps)
  obtain ea where ea: "aio_error_into_io E (Operation (NngError EADDRINVAL)) = Inr ea"
    using io_from_code_returns [of EADDRINVAL E] by auto
  show ?thesis
  proof (cases "errno = 0")
    case True
    then show ?thesis using dial dropped by (simp add: dial_worker_def)
  next
    case False
    then have "dial_worker E errno \<noteq> Inr (Inr ())" by (simp add: dial_worker_Ok)
    then have "\<exists>e. socket_dial E join W False sock url w
        = Inr (Some (Inl e), snd (e_dialer_close W d w3))
        \<and> (errno = error_code_num ETIMEDOUT \<longrightarrow> io_kind E e = io_error_kind.TimedOut)
        \<and> (errno = error_code_num EAGAIN \<longrightarrow> ea = e)"
      using dial tmo again ea
      by (cases "dial_worker E errno")
        (auto simp: io_kind_def simp del: error_code_num.simps aio_error_into_io.simps
          split: sum.splits)
    then show ?thesis using False dropped ea by auto
  qed
qed

lemma create_errors_simps:
  assumes "c \<in> set create_errors"
  shows "\<not> sint c < 0" and "c \<noteq> 0" and "c \<noteq> error_code_num ENOMEM"
  using assms by (auto simp: create_errors_def)

lemma added_listener_outcome:
  assumes "e_listener_create W sock url w = ((0, l), w1)"
    and "pre l w1 = (Inr u, w2)" and "e_listener_start W l w2 = (errno, w3)"
  shows "if errno = 0 then add_listener_to_socket E W sock url pre w = Inr (Inr l, w3)
     else if errno \<in> {error_code_num EADDRINUSE, error_code_num EPERM}
       then \<exists>e. add_listener_to_socket E W sock url pre w = Inr (Inl e, w3)
         \<and> io_kind E e = (if errno = error_code_num EPERM then io_error_kind.PermissionDenied
                          else io_error_kind.AddrInUse)
     else add_listener_to_socket E W sock url pre w
       = Inl (if sint errno < 0 then ExpectFailed else Unreachable)"
proof -
  have "op_io_error E 10 = aio_error_into_io E (Operation (NngError EADDRINUSE))"
    "op_io_error E 16 = aio_error_into_io E (Operation (NngError EPERM))"
    using op_io_error_code [of E EADDRINUSE] op_io_error_code [of E EPERM] by simp_all
  with assms show ?thesis
    by (auto simp: add_listener_to_socket_def errno_u32_def io_kind_def)
qed

text \<open>An NNG whose functions succeed with the handle 7, apart from the dialer's start.\<close>

definition sample_ep :: "c_int \<Rightarrow> unit ep_api" where
  "sample_ep code = \<lparr>
     e_init = (\<lambda>p w. (NNG_OK, w)), e_open = (\<lambda>f w. ((0, 7), w)),
     e_aio_alloc = (\<lambda>w. ((NNG_OK, Some ()), w)),
     e_listener_create = (\<lambda>s u w. ((0, 7), w)), e_listener_start = (\<lambda>h w. (code, w)),
     e_listener_close = (\<lambda>h w. (0, w)), e_dialer_create = (\<lambda>s u w. ((0, 7), w)),
     e_dialer_start = (\<lambda>h w. (code, w)), e_dialer_close = (\<lambda>h w. (0, w)),
     e_socket_close = (\<lambda>h w. w)\<rparr>"

theorem dial_outcome_witness:
  "\<exists>e. socket_dial sample_env (\<lambda>p. IoSimple io_error_kind.Other) (sample_ep 5) False 1 ''u'' ()
     = Inr (Some (Inl e), ()) \<and> io_kind sample_env e = io_error_kind.TimedOut"
  using dial_outcome [of "sample_ep 5" "()" "()" 1 "''u''" 7 "()" 5 "()" sample_env
      "\<lambda>p. IoSimple io_error_kind.Other"]
  by (simp add: sample_ep_def)

text \<open>C39. What listening does, for every return code of \<open>nng_listener_create\<close> and \<open>nng_listener_start\<close>.
  Two zeros return the listener; the four codes \<open>NNG_ECLOSED\<close>, \<open>NNG_EADDRINVAL\<close>, \<open>NNG_EINVAL\<close> and
  \<open>NNG_ENOTSUP\<close> of the first call, and \<open>NNG_EADDRINUSE\<close> and \<open>NNG_EPERM\<close> of the second, return an error,
  and a listener that was created is then not closed: no \<open>nng_listener_close\<close> is called.  Every other
  code panics: in particular \<open>NNG_ENOMEM\<close> panics at either call (as "OOM" at the first), although the
  documentation of \<^verbatim>\<open>Socket::listen\<close> lists out-of-memory conditions among the errors it returns.\<close>

theorem listen_outcome:
  assumes "e_listener_create W sock url w = ((c, l), w2)"
    and "e_listener_start W l w2 = (errno, w3)"
  shows "if c \<noteq> 0 then
       (if c \<in> set create_errors then \<exists>e. socket_listen E W sock url w = Inr (Inl e, w2)
        else socket_listen E W sock url w
          = Inl (if sint c < 0 then ExpectFailed
                 else if c = error_code_num ENOMEM then Oom else Unreachable))
     else if errno = 0 then socket_listen E W sock url w = Inr (Inr l, w3)
     else if errno \<in> {error_code_num EADDRINUSE, error_code_num EPERM}
       then \<exists>e. socket_listen E W sock url w = Inr (Inl e, w3)
         \<and> io_kind E e = (if errno = error_code_num EPERM then io_error_kind.PermissionDenied
                          else io_error_kind.AddrInUse)
     else socket_listen E W sock url w
       = Inl (if sint errno < 0 then ExpectFailed else Unreachable)"
proof (cases "c = 0")
  case True
  have "no_options l w2 = (Inr (), w2)" by (simp add: no_options_def)
  from added_listener_outcome [where pre = no_options, OF assms(1) [unfolded True] this assms(2), of E]
  show ?thesis using True unfolding socket_listen_def listen_with_opts_def by simp
next
  case False
  then show ?thesis
    using assms(1) create_errors_simps [of c] create_error_returns [of c E]
    by (cases "c \<in> set create_errors")
      (auto simp: socket_listen_def listen_with_opts_def add_listener_to_socket_def errno_u32_def)
qed

theorem listen_outcome_witness:
  "\<exists>e. socket_listen sample_env (sample_ep 10) 1 ''u'' () = Inr (Inl e, ())
     \<and> io_kind sample_env e = io_error_kind.AddrInUse"
  using listen_outcome [of "sample_ep 10" 1 "''u''" "()" 0 7 "()" 10 "()" sample_env]
  by (simp add: sample_ep_def)

text \<open>C8. The constructors leave no socket behind.  \<open>P::listen\<close> and \<open>P::dial\<close> of any protocol,
  whatever NNG returns: on success one socket was opened, not closed, and its endpoint created and
  started; on an error, or when the future of \<open>dial\<close> is dropped, the socket that was opened is the
  last thing closed, once; a dialer that failed to start was closed before it.\<close>

theorem constructors_close_sockets:
  fixes rl :: "io_error + nat \<times> 'm socket" and rd :: "(io_error + nat \<times> 'm socket) option"
  assumes "proto_listen E (logged W) po url (w, []) = Inr (rl, w', ll)"
    and "proto_dial E join (logged W) dropped po' url (v, []) = Inr (rd, v', ld)"
  shows "(case rl of
       Inr s \<Rightarrow> \<exists>h. ll = [SockOpened (fst s), ListenerCreated h, ListenerStarted h]
     | Inl e \<Rightarrow> \<exists>s k. ll = [SockOpened s] @ k @ [SockClosed s]
         \<and> (k = [] \<or> (\<exists>h. k = [ListenerCreated h, ListenerStarted h])))
   \<and> (case rd of
       Some (Inr s) \<Rightarrow> \<exists>h. ld = [SockOpened (fst s), DialerCreated h, DialerStarted h]
     | Some (Inl e) \<Rightarrow> \<exists>s k. ld = [SockOpened s] @ k @ [SockClosed s]
         \<and> (k = [] \<or> (\<exists>h. k = [DialerCreated h, DialerStarted h, DialerClosed h]))
     | None \<Rightarrow> \<exists>s h. ld = [SockOpened s, DialerCreated h, DialerStarted h, SockClosed s])"
proof -
  obtain q :: "io_error + nat \<times> 'm socket" and w1 l1 where q: "create_socket (logged W) po (w, []) = Inr (q, w1, l1)"
    using assms(1) by (auto simp: proto_listen_def run_bind_eq_Inr)
  then obtain s :: "nat \<times> 'm socket" where s: "q = Inr s" "l1 = [SockOpened (fst s)]"
    using create_socket_logged [OF q] by auto
  obtain q' :: "io_error + nat \<times> 'm socket" and v1 k1 where q': "create_socket (logged W) po' (v, []) = Inr (q', v1, k1)"
    using assms(2) by (auto simp: proto_dial_def run_bind_eq_Inr)
  then obtain t :: "nat \<times> 'm socket" where t: "q' = Inr t" "k1 = [SockOpened (fst t)]"
    using create_socket_logged [OF q'] by auto
  have drop: "socket_drop (logged W) h (x, l) = (e_socket_close W h x, l @ [SockClosed h])" for h x l
    by (simp add: socket_drop_def logged_def)
  obtain r1 x1 m1 where r1: "socket_listen E (logged W) (fst s) url (w1, l1) = Inr (r1, x1, m1)"
    using assms(1) q s by (auto simp: proto_listen_def run_map_eq_Inr)
  obtain r2 x2 m2 where r2:
    "socket_dial E join (logged W) dropped (fst t) url (v1, k1) = Inr (r2, x2, m2)"
    using assms(2) q' t by (auto simp: proto_dial_def run_map_eq_Inr)
  have "case rl of
       Inr s \<Rightarrow> \<exists>h. ll = [SockOpened (fst s), ListenerCreated h, ListenerStarted h]
     | Inl e \<Rightarrow> \<exists>s k. ll = [SockOpened s] @ k @ [SockClosed s]
         \<and> (k = [] \<or> (\<exists>h. k = [ListenerCreated h, ListenerStarted h]))"
    using listen_logged [OF r1] assms(1) q s r1 drop by (cases r1) (auto simp: proto_listen_def)
  moreover have "case rd of
       Some (Inr s) \<Rightarrow> \<exists>h. ld = [SockOpened (fst s), DialerCreated h, DialerStarted h]
     | Some (Inl e) \<Rightarrow> \<exists>s k. ld = [SockOpened s] @ k @ [SockClosed s]
         \<and> (k = [] \<or> (\<exists>h. k = [DialerCreated h, DialerStarted h, DialerClosed h]))
     | None \<Rightarrow> \<exists>s h. ld = [SockOpened s, DialerCreated h, DialerStarted h, SockClosed s]"
    using dial_logged [OF r2] assms(2) q' t r2 drop
    by (cases r2) (auto simp: proto_dial_def split: sum.split_asm)
  ultimately show ?thesis by blast
qed

theorem constructors_close_sockets_witness:
  "\<exists>e s k. proto_listen sample_env (logged (sample_ep 10)) ''nng_rep0_open'' ''u'' ((), [])
       = Inr (Inl e :: io_error + nat \<times> nat socket, (), [SockOpened s] @ k @ [SockClosed s])"
proof -
  let ?W = "logged (sample_ep 10)"
  obtain e where e: "op_io_error sample_env 10 = Inr e"
    using op_io_error_returns [of 10 "[EADDRINUSE]" sample_env] by auto
  have s: "create_socket ?W f ((), []) = Inr (Inr (7, \<lparr>s_aio = aio_new, s_recovered_msg = None\<rparr>),
      (), [SockOpened 7])" for f
    by (simp add: create_socket_def init_nng_def init_result_def logged_def sample_ep_def
        new_inner_def)
  have l: "proto_listen sample_env ?W ''nng_rep0_open'' ''u'' ((), [])
      = Inr (Inl e :: io_error + nat \<times> nat socket, (),
          [SockOpened 7, ListenerCreated 7, ListenerStarted 7, SockClosed 7])"
    unfolding proto_listen_def s
    by (simp add: socket_listen_def listen_with_opts_def add_listener_to_socket_def no_options_def
        logged_def sample_ep_def errno_u32_bind e socket_drop_def)
  have d: "proto_dial sample_env (\<lambda>p. IoSimple io_error_kind.Other) ?W True ''nng_req0_open'' ''u''
      ((), []) = Inr (None :: (io_error + nat \<times> nat socket) option, (),
          [SockOpened 7, DialerCreated 7, DialerStarted 7, SockClosed 7])"
    unfolding proto_dial_def s
    by (simp add: socket_dial_def dial_with_opts_def add_dialer_to_socket_def no_options_def
        logged_def sample_ep_def new_inner_def socket_drop_def)
  obtain s k where "[SockOpened 7, ListenerCreated 7, ListenerStarted 7, SockClosed 7]
      = [SockOpened s] @ k @ [SockClosed s]"
    using constructors_close_sockets [OF l d] by auto
  with l show ?thesis by metis
qed

end
