(* ===== verification/IpText.thy ===== *)
theory IpText
  imports Prelude "HOL-Library.Monad_Syntax"
begin

text \<open>
  Internet addresses as the standard library prints and parses them (\<^verbatim>\<open>core::net\<close>): what
  \<^verbatim>\<open>Url::from_nng\<close>, \<^verbatim>\<open>listen_tcp\<close> and \<^verbatim>\<open>parse_tcp_url\<close> of anng/src/pipes.rs and the display of
  nng/src/addr.rs use of it.  A parser is a function from the text to a value and the text that is
  left; a failed one leaves the text as it was, so it is just \<open>None\<close>.
\<close>

section \<open>Display\<close>

definition hex_char :: "nat \<Rightarrow> char" where
  "hex_char d = (if d < 10 then char_of (48 + d) else char_of (87 + d))"

fun show_hex :: "nat \<Rightarrow> string" where
  "show_hex n = (if n < 16 then [hex_char n] else show_hex (n div 16) @ [hex_char (n mod 16)])"

declare show_hex.simps [simp del]

fun join :: "string \<Rightarrow> string list \<Rightarrow> string" where
  "join sep [] = []"
| "join sep [x] = x"
| "join sep (x # y # xs) = x @ sep @ join sep (y # xs)"

text \<open>\<^verbatim>\<open>Ipv4Addr\<close> from its bits, and its display.\<close>

type_synonym ipv4 = u32

definition octets :: "ipv4 \<Rightarrow> nat list" where
  "octets a = [unat a div 16777216, unat a div 65536 mod 256, unat a div 256 mod 256,
     unat a mod 256]"

definition show_ipv4 :: "ipv4 \<Rightarrow> string" where
  "show_ipv4 a = join ''.'' (map show_nat (octets a))"

text \<open>\<^verbatim>\<open>Ipv6Addr\<close> as its eight segments, and its display with the first longest run of zeros.\<close>

type_synonym ipv6 = "nat list"

fun segments :: "byte list \<Rightarrow> ipv6" where
  "segments (a # b # bs) = (unat a * 256 + unat b) # segments bs"
| "segments _ = []"

text \<open>The scan keeps the current run and the longest one, as start and length.\<close>

fun zero_run :: "nat \<Rightarrow> nat \<times> nat \<Rightarrow> nat \<times> nat \<Rightarrow> nat list \<Rightarrow> nat \<times> nat" where
  "zero_run i cur best [] = best"
| "zero_run i cur best (x # xs) =
     (if x = 0 then
        (let cur = ((if snd cur = 0 then i else fst cur), snd cur + 1) in
         zero_run (i + 1) cur (if snd cur > snd best then cur else best) xs)
      else zero_run (i + 1) (0, 0) best xs)"

definition show_ipv6 :: "ipv6 \<Rightarrow> string" where
  "show_ipv6 segs =
     (if take 6 segs = [0, 0, 0, 0, 0, 65535]
      then ''::ffff:'' @ join ''.'' (map show_nat
        [segs ! 6 div 256, segs ! 6 mod 256, segs ! 7 div 256, segs ! 7 mod 256])
      else
        (let (start, n) = zero_run 0 (0, 0) (0, 0) segs in
         if n > 1
         then join '':'' (map show_hex (take start segs)) @ ''::''
            @ join '':'' (map show_hex (drop (start + n) segs))
         else join '':'' (map show_hex segs)))"

text \<open>\<^verbatim>\<open>SocketAddrV4\<close> and \<^verbatim>\<open>SocketAddrV6\<close> (the flow information is always 0 here).\<close>

datatype socket_addr = V4 ipv4 nat | V6 ipv6 nat nat

fun show_socket_addr :: "socket_addr \<Rightarrow> string" where
  "show_socket_addr (V4 ip port) = show_ipv4 ip @ '':'' @ show_nat port"
| "show_socket_addr (V6 ip port scope) =
     (if scope = 0 then ''['' @ show_ipv6 ip @ '']:'' @ show_nat port
      else ''['' @ show_ipv6 ip @ ''%'' @ show_nat scope @ '']:'' @ show_nat port)"

text \<open>The addresses that the types can hold.\<close>

fun valid_addr :: "socket_addr \<Rightarrow> bool" where
  "valid_addr (V4 ip port) \<longleftrightarrow> port < 65536"
| "valid_addr (V6 ip port scope) \<longleftrightarrow>
     length ip = 8 \<and> (\<forall>g\<in>set ip. g < 65536) \<and> port < 65536 \<and> scope < 4294967296"

section \<open>The parser\<close>

text \<open>\<^verbatim>\<open>char::to_digit\<close>\<close>

definition to_digit :: "nat \<Rightarrow> char \<Rightarrow> nat option" where
  "to_digit radix c =
     (let k = of_char c;
          v = (if 48 \<le> k \<and> k \<le> 57 then k - 48
               else if 97 \<le> k \<and> k \<le> 122 then k - 87
               else if 65 \<le> k \<and> k \<le> 90 then k - 55 else radix)
      in if v < radix then Some v else None)"

fun take_digits :: "nat \<Rightarrow> string \<Rightarrow> nat list \<times> string" where
  "take_digits radix [] = ([], [])"
| "take_digits radix (c # cs) =
     (case to_digit radix c of
        None \<Rightarrow> ([], c # cs)
      | Some d \<Rightarrow> (let (ds, rest) = take_digits radix cs in (d # ds, rest)))"

definition digits_value :: "nat \<Rightarrow> nat list \<Rightarrow> nat" where
  "digits_value radix ds = foldl (\<lambda>a d. a * radix + d) 0 ds"

text \<open>
  \<^verbatim>\<open>read_number\<close>: as many digits as follow, at most \<open>max_digits\<close> of them, with leading zeros only
  where they are allowed, and a value that fits the type (whose largest is \<open>limit\<close>).
\<close>

definition read_number ::
  "nat \<Rightarrow> nat option \<Rightarrow> bool \<Rightarrow> nat \<Rightarrow> string \<Rightarrow> (nat \<times> string) option" where
  "read_number radix max_digits zero_prefix limit s =
     (let (ds, rest) = take_digits radix s in
      if ds = [] \<or> (case max_digits of None \<Rightarrow> False | Some k \<Rightarrow> k < length ds)
         \<or> \<not> zero_prefix \<and> 1 < length ds \<and> hd ds = 0 \<or> limit < digits_value radix ds
      then None else Some (digits_value radix ds, rest))"

definition read_octet :: "string \<Rightarrow> (nat \<times> string) option" where
  "read_octet = read_number 10 (Some 3) False 255"

definition read_group :: "string \<Rightarrow> (nat \<times> string) option" where
  "read_group = read_number 16 (Some 4) True 65535"

fun read_char :: "char \<Rightarrow> string \<Rightarrow> string option" where
  "read_char c [] = None"
| "read_char c (d # ds) = (if c = d then Some ds else None)"

text \<open>\<^verbatim>\<open>read_separator\<close>: the separator stands before every item but the first.\<close>

definition read_separator ::
  "char \<Rightarrow> nat \<Rightarrow> (string \<Rightarrow> ('a \<times> string) option) \<Rightarrow> string \<Rightarrow> ('a \<times> string) option" where
  "read_separator sep i inner s =
     (if 0 < i then do { s \<leftarrow> read_char sep s; inner s } else inner s)"

definition read_ipv4 :: "string \<Rightarrow> (ipv4 \<times> string) option" where
  "read_ipv4 s = do {
     (a, s) \<leftarrow> read_separator CHR ''.'' 0 read_octet s;
     (b, s) \<leftarrow> read_separator CHR ''.'' 1 read_octet s;
     (c, s) \<leftarrow> read_separator CHR ''.'' 2 read_octet s;
     (d, s) \<leftarrow> read_separator CHR ''.'' 3 read_octet s;
     Some (word_of_nat (a * 16777216 + b * 65536 + c * 256 + d), s) }"

text \<open>
  \<^verbatim>\<open>read_groups\<close> with \<open>k\<close> slots left at position \<open>i\<close>: the groups, whether they end with an embedded
  IPv4 address (which needs two slots), and the text that is left.
\<close>

fun read_groups :: "nat \<Rightarrow> nat \<Rightarrow> string \<Rightarrow> nat list \<times> bool \<times> string" where
  "read_groups 0 i s = ([], False, s)"
| "read_groups (Suc k) i s =
     (case (if 0 < k then read_separator CHR '':'' i read_ipv4 s else None) of
        Some (v4, s) \<Rightarrow> ([unat v4 div 65536, unat v4 mod 65536], True, s)
      | None \<Rightarrow>
          (case read_separator CHR '':'' i read_group s of
             Some (g, s) \<Rightarrow> (let (gs, v4, s) = read_groups k (i + 1) s in (g # gs, v4, s))
           | None \<Rightarrow> ([], False, s)))"

definition read_ipv6 :: "string \<Rightarrow> (ipv6 \<times> string) option" where
  "read_ipv6 s =
     (let (head, v4, s) = read_groups 8 0 s in
      if length head = 8 then Some (head, s)
      else if v4 then None
      else do {
        s \<leftarrow> read_char CHR '':'' s;
        s \<leftarrow> read_char CHR '':'' s;
        let (tail, _, s) = read_groups (8 - (length head + 1)) 0 s in
        Some (head @ replicate (8 - length tail - length head) 0 @ tail, s) })"

definition read_port :: "string \<Rightarrow> (nat \<times> string) option" where
  "read_port s = do { s \<leftarrow> read_char CHR '':'' s; read_number 10 None True 65535 s }"

definition read_scope_id :: "string \<Rightarrow> (nat \<times> string) option" where
  "read_scope_id s = do { s \<leftarrow> read_char CHR ''%'' s; read_number 10 None True 4294967295 s }"

definition read_socket_addr_v4 :: "string \<Rightarrow> (socket_addr \<times> string) option" where
  "read_socket_addr_v4 s = do {
     (ip, s) \<leftarrow> read_ipv4 s;
     (port, s) \<leftarrow> read_port s;
     Some (V4 ip port, s) }"

definition read_socket_addr_v6 :: "string \<Rightarrow> (socket_addr \<times> string) option" where
  "read_socket_addr_v6 s = do {
     s \<leftarrow> read_char CHR ''['' s;
     (ip, s) \<leftarrow> read_ipv6 s;
     let (scope, s) = (case read_scope_id s of Some r \<Rightarrow> r | None \<Rightarrow> (0, s));
     s \<leftarrow> read_char CHR '']'' s;
     (port, s) \<leftarrow> read_port s;
     Some (V6 ip port scope, s) }"

text \<open>\<^verbatim>\<open>str::parse::<SocketAddr>\<close>: everything must be consumed.\<close>

definition parse_socket_addr :: "string \<Rightarrow> socket_addr option" where
  "parse_socket_addr s =
     (case (case read_socket_addr_v4 s of Some r \<Rightarrow> Some r | None \<Rightarrow> read_socket_addr_v6 s) of
        Some (a, []) \<Rightarrow> Some a
      | _ \<Rightarrow> None)"

section \<open>Numbers\<close>

function digits :: "nat \<Rightarrow> nat \<Rightarrow> nat list" where
  "digits r n = (if r < 2 \<or> n < r then [n] else digits r (n div r) @ [n mod r])"
  by pat_completeness auto
termination by (relation "measure snd") (auto simp: div_less_dividend)

declare digits.simps [simp del]

lemma show_nat_digits: "show_nat n = map digit_char (digits 10 n)"
  by (induction n rule: show_nat.induct) (subst show_nat.simps, subst digits.simps, simp)

lemma show_hex_digits: "show_hex n = map hex_char (digits 16 n)"
  by (induction n rule: show_hex.induct) (subst show_hex.simps, subst digits.simps, simp)

lemma digits_nonempty [simp]: "digits r n \<noteq> []"
  by (subst digits.simps) simp

lemma digits_value_snoc: "digits_value r (ds @ [d]) = digits_value r ds * r + d"
  by (simp add: digits_value_def)

lemma digits_value_digits [simp]: "digits_value r (digits r n) = n"
proof (induction r n rule: digits.induct)
  case (1 r n)
  show ?case
  proof (cases "r < 2 \<or> n < r")
    case True
    then show ?thesis by (simp add: digits.simps [of r n] digits_value_def)
  next
    case False
    with 1 have "digits_value r (digits r (n div r)) = n div r" by blast
    with False show ?thesis by (simp add: digits.simps [of r n] digits_value_snoc)
  qed
qed

lemma digits_less: "\<lbrakk>2 \<le> r; d \<in> set (digits r n)\<rbrakk> \<Longrightarrow> d < r"
proof (induction r n rule: digits.induct)
  case (1 r n)
  then have "d \<in> set (if r < 2 \<or> n < r then [n] else digits r (n div r) @ [n mod r])"
    by (subst (asm) digits.simps) simp
  with 1 show ?case by (auto split: if_splits)
qed

lemma length_digits: "\<lbrakk>2 \<le> r; n < r ^ Suc k\<rbrakk> \<Longrightarrow> length (digits r n) \<le> Suc k"
proof (induction k arbitrary: n)
  case (Suc k)
  have "n div r < r ^ Suc k"
    by (rule less_mult_imp_div_less) (use Suc.prems(2) in \<open>simp only: power_Suc mult.commute\<close>)
  then have "length (digits r (n div r)) \<le> Suc k" by (rule Suc.IH [OF Suc.prems(1)])
  then show ?case by (subst digits.simps) simp
qed (subst digits.simps, simp)

lemma length_show_nat: "n < 10 ^ Suc k \<Longrightarrow> length (show_nat n) \<le> Suc k"
  using length_digits [of 10] by (simp add: show_nat_digits)

lemma digits_0 [simp]: "digits r 0 = [0]"
  by (subst digits.simps) auto

lemma hd_digits: "2 \<le> r \<Longrightarrow> hd (digits r n) = 0 \<longleftrightarrow> n = 0"
proof (induction r n rule: digits.induct)
  case (1 r n)
  then show ?case by (subst digits.simps) (auto simp: div_eq_0_iff)
qed

definition no_digit :: "nat \<Rightarrow> string \<Rightarrow> bool" where
  "no_digit r s \<longleftrightarrow> (case s of [] \<Rightarrow> True | c # _ \<Rightarrow> to_digit r c = None)"

lemma no_digit_simps [simp]:
  "no_digit r []" "no_digit r (c # s) \<longleftrightarrow> to_digit r c = None"
  by (simp_all add: no_digit_def)

lemma take_digits_map:
  "\<lbrakk>\<And>d. d \<in> set ds \<Longrightarrow> to_digit r (f d) = Some d; no_digit r rest\<rbrakk>
     \<Longrightarrow> take_digits r (map f ds @ rest) = (ds, rest)"
  by (induction ds) (auto simp: no_digit_def split: list.splits)

lemma read_number_digits:
  assumes r: "2 \<le> r" and f: "\<And>d. d < r \<Longrightarrow> to_digit r (f d) = Some d"
    and "no_digit r rest" and "n \<le> limit"
    and "\<And>k. m = Some k \<Longrightarrow> 0 < k \<and> n < r ^ k"
  shows "read_number r m z limit (map f (digits r n) @ rest) = Some (n, rest)"
proof -
  have split: "take_digits r (map f (digits r n) @ rest) = (digits r n, rest)"
    by (rule take_digits_map) (use digits_less [OF r] assms in auto)
  have len: "length (digits r n) \<le> k" if "m = Some k" for k
    using assms(5) [OF that] length_digits [OF r, of n "k - 1"] by simp
  have zero: "\<not> (1 < length (digits r n) \<and> hd (digits r n) = 0)"
    using hd_digits [OF r, of n] by auto
  show ?thesis
    using len zero assms(4) by (auto simp: read_number_def split split: option.splits dest: leD)
qed

lemma to_digit_digit_char: "\<lbrakk>d < 10; 10 \<le> r\<rbrakk> \<Longrightarrow> to_digit r (digit_char d) = Some d"
  by (simp add: to_digit_def digit_char_def)

lemma to_digit_hex_char: "d < 16 \<Longrightarrow> to_digit 16 (hex_char d) = Some d"
  by (simp add: to_digit_def hex_char_def)

lemma read_decimal:
  assumes "no_digit 10 rest" and "n \<le> limit" and "\<And>k. m = Some k \<Longrightarrow> 0 < k \<and> n < 10 ^ k"
  shows "read_number 10 m z limit (show_nat n @ rest) = Some (n, rest)"
  unfolding show_nat_digits by (rule read_number_digits) (use assms to_digit_digit_char in auto)

lemma read_octet_show_nat [simp]:
  "\<lbrakk>n < 256; no_digit 10 rest\<rbrakk> \<Longrightarrow> read_octet (show_nat n @ rest) = Some (n, rest)"
  unfolding read_octet_def by (rule read_decimal) auto

lemma read_group_show_hex [simp]:
  "\<lbrakk>g < 65536; no_digit 16 rest\<rbrakk> \<Longrightarrow> read_group (show_hex g @ rest) = Some (g, rest)"
  unfolding read_group_def show_hex_digits
  by (rule read_number_digits) (auto simp: to_digit_hex_char)

lemma separators_no_digit [simp]:
  "to_digit r CHR '':'' = None" "to_digit r CHR ''.'' = None" "to_digit r CHR ''%'' = None"
  "to_digit r CHR ''['' = None" "to_digit r CHR '']'' = None"
  by (simp_all add: to_digit_def)

lemma read_port_show_nat [simp]:
  "\<lbrakk>n < 65536; no_digit 10 rest\<rbrakk> \<Longrightarrow> read_port (CHR '':'' # show_nat n @ rest) = Some (n, rest)"
  using read_decimal [of rest n 65535 None] by (simp add: read_port_def)

lemma read_scope_id_show_nat [simp]:
  "\<lbrakk>n < 4294967296; no_digit 10 rest\<rbrakk>
     \<Longrightarrow> read_scope_id (CHR ''%'' # show_nat n @ rest) = Some (n, rest)"
  using read_decimal [of rest n 4294967295 None] by (simp add: read_scope_id_def)

section \<open>IPv4\<close>

lemma read_ipv4_text:
  assumes "a < 256" and "b < 256" and "c < 256" and "d < 256" and "no_digit 10 rest"
  shows "read_ipv4 (join ''.'' (map show_nat [a, b, c, d]) @ rest)
    = Some (word_of_nat (a * 16777216 + b * 65536 + c * 256 + d), rest)"
  using assms by (simp add: read_ipv4_def read_separator_def)

lemma octets_recompose:
  "n div 16777216 * 16777216 + n div 65536 mod 256 * 65536 + n div 256 mod 256 * 256 + n mod 256
     = (n :: nat)"
proof -
  have two: "n div 65536 = n div 256 div 256" and three: "n div 16777216 = n div 256 div 256 div 256"
    by (simp_all add: div_mult2_eq [symmetric])
  have "n div 256 * 256 + n mod 256 = n"
    and "n div 256 div 256 * 256 + n div 256 mod 256 = n div 256"
    and "n div 256 div 256 div 256 * 256 + n div 256 div 256 mod 256 = n div 256 div 256"
    by (simp_all only: div_mult_mod_eq)
  then show ?thesis unfolding two three by linarith
qed

lemma first_octet: "unat (a :: ipv4) div 16777216 < 256"
proof -
  have "unat a < 2 ^ 32" using unsigned_less [of a] by simp
  then show ?thesis by (simp add: less_mult_imp_div_less)
qed

lemma read_ipv4_show_ipv4:
  "no_digit 10 rest \<Longrightarrow> read_ipv4 (show_ipv4 a @ rest) = Some (a, rest)"
  using arg_cong [OF octets_recompose [of "unat a"], where f = "word_of_nat :: nat \<Rightarrow> ipv4"]
    read_ipv4_text [OF first_octet [of a]]
  by (simp add: show_ipv4_def octets_def)

section \<open>IPv6\<close>

text \<open>Text that ends a number or a group, and text that ends a list of groups.\<close>

definition ends :: "string \<Rightarrow> bool" where
  "ends t \<longleftrightarrow> no_digit 16 t \<and> (case t of [] \<Rightarrow> True | c # _ \<Rightarrow> c \<noteq> CHR ''.'')"

definition stops :: "string \<Rightarrow> bool" where
  "stops t \<longleftrightarrow> (case t of [] \<Rightarrow> True
     | c # cs \<Rightarrow> c = CHR '']'' \<or> c = CHR ''%'' \<or> c = CHR '':'' \<and> (\<exists>ds. cs = CHR '':'' # ds))"

lemma to_digit_mono: "\<lbrakk>to_digit s c = None; r \<le> s\<rbrakk> \<Longrightarrow> to_digit r c = None"
  by (auto simp: to_digit_def Let_def split: if_splits)

lemma no_digit_10: "no_digit 16 t \<Longrightarrow> no_digit 10 t"
  by (auto simp: no_digit_def to_digit_mono split: list.splits)

lemma ends_simps [simp]:
  "ends []" "ends (CHR '':'' # s)" "ends (CHR ''['' # s)" "ends (CHR '']'' # s)"
  "ends (CHR ''%'' # s)"
  by (simp_all add: ends_def)

lemma ends_no_digit: "ends t \<Longrightarrow> no_digit 16 t"
  by (simp add: ends_def)

lemma stops_ends: "stops t \<Longrightarrow> ends t"
  by (auto simp: stops_def split: list.splits)

lemma read_number_no_digit: "no_digit r t \<Longrightarrow> read_number r m z limit t = None"
  by (cases t) (auto simp: read_number_def)

lemma read_group_no_digit: "ends t \<Longrightarrow> read_group t = None"
  by (simp add: read_group_def read_number_no_digit ends_no_digit)

lemma after_digits_no_dot:
  "\<lbrakk>CHR ''.'' \<notin> set u; ends t\<rbrakk> \<Longrightarrow> read_char CHR ''.'' (snd (take_digits 10 (u @ t))) = None"
proof (induction u)
  case Nil
  then show ?case
    by (cases t) (auto simp: ends_def dest: to_digit_mono [where r = 10])
qed (auto split: option.splits prod.splits)

lemma read_ipv4_no_dot:
  assumes "CHR ''.'' \<notin> set u" and "ends t"
  shows "read_ipv4 (u @ t) = None"
proof -
  have "read_octet s = Some (n, rest) \<Longrightarrow> rest = snd (take_digits 10 s)" for s n rest
    by (auto simp: read_octet_def read_number_def Let_def split: prod.splits if_splits)
  with after_digits_no_dot [OF assms] show ?thesis
    by (cases "read_octet (u @ t)") (auto simp: read_ipv4_def read_separator_def)
qed

lemma set_show_hex: "CHR ''.'' \<notin> set (show_hex g)"
proof
  assume "CHR ''.'' \<in> set (show_hex g)"
  then obtain d where "d \<in> set (digits 16 g)" and d: "CHR ''.'' = hex_char d"
    by (auto simp: show_hex_digits)
  then have "to_digit 16 (hex_char d) = Some d"
    by (intro to_digit_hex_char digits_less [of 16]) auto
  then show False by (simp flip: d)
qed

fun group_text :: "nat \<Rightarrow> nat list \<Rightarrow> string" where
  "group_text i [] = []"
| "group_text i (g # gs) = (if 0 < i then '':'' else []) @ show_hex g @ group_text (Suc i) gs"

lemma group_text_Suc: "group_text (Suc i) gs = group_text (Suc j) gs"
  by (induction gs arbitrary: i j) auto

lemma join_groups: "join '':'' (map show_hex gs) = group_text 0 gs"
proof (induction gs rule: induct_list012)
  case (3 x y zs)
  then show ?case using group_text_Suc [of 1 zs 0] by simp
qed simp_all

lemma ends_group_text: "ends t \<Longrightarrow> ends (group_text (Suc i) gs @ t)"
  by (cases gs) auto

lemma read_groups_stop: "stops t \<Longrightarrow> read_groups k i t = ([], False, t)"
  using read_ipv4_no_dot [of "[]"] read_group_no_digit
  by (cases k) (auto simp: read_separator_def stops_def split: list.splits)

lemma read_groups_text:
  "\<lbrakk>length gs \<le> k; \<forall>g\<in>set gs. g < 65536; stops t\<rbrakk>
     \<Longrightarrow> read_groups k i (group_text i gs @ t) = (gs, False, t)"
proof (induction gs arbitrary: k i)
  case (Cons g gs)
  obtain k' where k: "k = Suc k'" using Cons.prems(1) by (cases k) auto
  let ?rest = "group_text (Suc i) gs @ t"
  have e: "ends ?rest" by (intro ends_group_text stops_ends Cons.prems)
  have "read_ipv4 (show_hex g @ ?rest) = None" by (rule read_ipv4_no_dot [OF set_show_hex e])
  moreover have "read_group (show_hex g @ ?rest) = Some (g, ?rest)"
    by (rule read_group_show_hex) (use Cons.prems ends_no_digit [OF e] in auto)
  moreover have "read_groups k' (i + 1) ?rest = (gs, False, t)"
    using Cons by (simp add: k)
  ultimately show ?case by (auto simp: k read_separator_def)
qed (simp add: read_groups_stop)

text \<open>The run of zeros that the display leaves out really is one.\<close>

definition zero_span :: "nat list \<Rightarrow> nat \<times> nat \<Rightarrow> bool" where
  "zero_span xs r \<longleftrightarrow> xs = take (fst r) xs @ replicate (snd r) 0 @ drop (fst r + snd r) xs"

lemma zero_span_append: "zero_span xs r \<Longrightarrow> fst r + snd r \<le> length xs \<Longrightarrow> zero_span (xs @ ys) r"
  by (simp add: zero_span_def)

lemma zero_run_span:
  assumes "zero_span pre best" and "fst best + snd best \<le> length pre"
    and "snd cur = 0 \<or> fst cur + snd cur = length pre \<and> drop (fst cur) pre = replicate (snd cur) 0"
  shows "zero_span (pre @ xs) (zero_run (length pre) cur best xs)
    \<and> (let r = zero_run (length pre) cur best xs in fst r + snd r \<le> length (pre @ xs))"
  using assms
proof (induction xs arbitrary: pre cur best)
  case (Cons x xs)
  let ?pre = "pre @ [x]"
  let ?cur = "((if snd cur = 0 then length pre else fst cur), snd cur + 1)"
  have best: "zero_span ?pre best" "fst best + snd best \<le> length ?pre"
    using Cons.prems by (auto intro: zero_span_append)
  show ?case
  proof (cases "x = 0")
    case True
    have cur: "fst ?cur + snd ?cur = length ?pre" "drop (fst ?cur) ?pre = replicate (snd ?cur) 0"
      using Cons.prems(3) True by (auto simp: replicate_append_same)
    then have "zero_span ?pre ?cur"
      using append_take_drop_id [of "fst ?cur" ?pre] by (simp add: zero_span_def)
    then show ?thesis
      using Cons.IH [of ?pre "if snd ?cur > snd best then ?cur else best" ?cur] best cur True
      by (auto simp: Let_def)
  next
    case False
    then show ?thesis using Cons.IH [of ?pre best "(0, 0)"] best by simp
  qed
qed simp

lemma zero_run_split:
  assumes "zero_run 0 (0, 0) (0, 0) segs = (start, n)"
  shows "segs = take start segs @ replicate n 0 @ drop (start + n) segs"
    and "start + n \<le> length segs"
  using zero_run_span [of "[]" "(0, 0)" "(0, 0)" segs] assms
  by (simp_all add: zero_span_def Let_def)

lemma show_hex_65535: "show_hex 65535 = ''ffff''"
proof -
  have f: "hex_char 15 = CHR ''f''"
    using char_of_char [of "CHR ''f''", where ?'a = nat] by (simp add: hex_char_def)
  have "show_hex 15 = ''f''" by (subst show_hex.simps) (simp add: f)
  then have "show_hex 255 = ''ff''" by (subst show_hex.simps) (simp add: f)
  then have "show_hex 4095 = ''fff''" by (subst show_hex.simps) (simp add: f)
  then show ?thesis by (subst show_hex.simps) (simp add: f)
qed

lemma eq_eight: "length xs = 8 \<Longrightarrow> xs = take 6 xs @ [xs ! 6, xs ! 7]"
  using append_take_drop_id [of 6 xs] Cons_nth_drop_Suc [of 6 xs] Cons_nth_drop_Suc [of 7 xs]
  by simp

lemma replicate_five: "replicate 5 x = [x, x, x, x, x]"
  by (simp add: eval_nat_numeral)

lemma read_ipv6_mapped:
  assumes "x < 65536" and "y < 65536" and t: "stops t"
  shows "read_ipv6 (''::ffff:'' @ join ''.'' (map show_nat [x div 256, x mod 256, y div 256, y mod 256])
      @ t) = Some ([0, 0, 0, 0, 0, 65535, x, y], t)"
proof -
  define dotted where "dotted = join ''.'' (map show_nat [x div 256, x mod 256, y div 256, y mod 256]) @ t"
  let ?n = "x div 256 * 16777216 + x mod 256 * 65536 + y div 256 * 256 + y mod 256"
  have n: "?n = x * 65536 + y"
    using div_mult_mod_eq [of x 256] div_mult_mod_eq [of y 256] by linarith
  define w :: ipv4 where "w = word_of_nat (x * 65536 + y)"
  have v4: "read_ipv4 dotted = Some (w, t)"
    unfolding dotted_def w_def n [symmetric]
    by (rule read_ipv4_text)
       (use assms no_digit_10 [OF ends_no_digit [OF stops_ends [OF t]]] in auto)
  have w: "unat w = x * 65536 + y"
    unfolding w_def unsigned_of_nat of_nat_id by (rule take_bit_nat_eq_self) (use assms in simp)
  have tail: "read_groups 6 1 (CHR '':'' # dotted) = ([x, y], True, t)"
    using assms v4 read_groups.simps(2) [of 5 1 "CHR '':'' # dotted"]
    by (simp add: read_separator_def w)
  have no: "read_ipv4 (show_hex 65535 @ CHR '':'' # dotted) = None"
    by (rule read_ipv4_no_dot [OF set_show_hex]) simp
  have grp: "read_group (show_hex 65535 @ CHR '':'' # dotted) = Some (65535, CHR '':'' # dotted)"
    by (rule read_group_show_hex) simp_all
  have rest: "read_groups 7 0 (show_hex 65535 @ CHR '':'' # dotted) = ([65535, x, y], True, t)"
    using no grp tail read_groups.simps(2) [of 6 0 "show_hex 65535 @ CHR '':'' # dotted"]
    by (simp add: read_separator_def)
  have head: "read_groups 8 0 (CHR '':'' # CHR '':'' # s) = ([], False, CHR '':'' # CHR '':'' # s)" for s
    by (rule read_groups_stop) (simp add: stops_def)
  show ?thesis
    using rest unfolding dotted_def [symmetric]
    by (simp add: read_ipv6_def head show_hex_65535 replicate_five)
qed

lemma read_ipv6_show_ipv6:
  assumes len: "length segs = 8" and small: "\<forall>g\<in>set segs. g < 65536" and t: "stops t"
  shows "read_ipv6 (show_ipv6 segs @ t) = Some (segs, t)"
proof (cases "take 6 segs = [0, 0, 0, 0, 0, 65535]")
  case True
  then have "segs = [0, 0, 0, 0, 0, 65535, segs ! 6, segs ! 7]"
    using eq_eight [OF len] by simp
  moreover have "segs ! 6 < 65536" "segs ! 7 < 65536" using len small by simp_all
  ultimately show ?thesis
    using read_ipv6_mapped [OF _ _ t, of "segs ! 6" "segs ! 7"] True by (simp add: show_ipv6_def)
next
  case False
  obtain start n where run: "zero_run 0 (0, 0) (0, 0) segs = (start, n)" by fastforce
  note split = zero_run_split [OF run]
  let ?a = "take start segs" and ?b = "drop (start + n) segs"
  have a: "\<forall>g\<in>set ?a. g < 65536" and b: "\<forall>g\<in>set ?b. g < 65536"
    using small by (auto dest: in_set_takeD in_set_dropD)
  show ?thesis
  proof (cases "1 < n")
    case True
    have "read_groups 8 0 (group_text 0 ?a @ ''::'' @ group_text 0 ?b @ t)
        = (?a, False, ''::'' @ group_text 0 ?b @ t)"
      by (rule read_groups_text [OF _ a]) (use len split True in \<open>auto simp: stops_def\<close>)
    moreover have "read_groups (8 - (start + 1)) 0 (group_text 0 ?b @ t) = (?b, False, t)"
      by (rule read_groups_text [OF _ b t]) (use len split True in auto)
    ultimately show ?thesis
      using False True len split(2) split(1) [symmetric]
      by (simp add: show_ipv6_def run join_groups read_ipv6_def min_def)
  next
    case n: False
    have "read_groups 8 0 (group_text 0 segs @ t) = (segs, False, t)"
      by (rule read_groups_text [OF _ small t]) (simp add: len)
    then show ?thesis using False n by (simp add: show_ipv6_def run join_groups read_ipv6_def len)
  qed
qed

section \<open>Socket addresses\<close>

lemma read_v4_show:
  "\<lbrakk>port < 65536; no_digit 10 t\<rbrakk>
     \<Longrightarrow> read_socket_addr_v4 (show_socket_addr (V4 ip port) @ t) = Some (V4 ip port, t)"
  by (simp add: read_socket_addr_v4_def read_ipv4_show_ipv4)

lemma read_v6_show:
  assumes "valid_addr (V6 ip port scope)" and t: "no_digit 10 t"
  shows "read_socket_addr_v6 (show_socket_addr (V6 ip port scope) @ t) = Some (V6 ip port scope, t)"
proof -
  have ip: "read_ipv6 (show_ipv6 ip @ c # s) = Some (ip, c # s)" if "c \<in> {CHR '']'', CHR ''%''}" for c s
    by (rule read_ipv6_show_ipv6) (use assms that in \<open>auto simp: stops_def\<close>)
  have none: "read_scope_id (CHR '']'' # s) = None" for s by (simp add: read_scope_id_def)
  show ?thesis using assms by (simp add: read_socket_addr_v6_def ip none)
qed

theorem parse_show_socket_addr:
  assumes "valid_addr a"
  shows "parse_socket_addr (show_socket_addr a) = Some a"
proof (cases a)
  case (V4 ip port)
  then show ?thesis
    using read_v4_show [of port "[]" ip] assms by (simp add: parse_socket_addr_def del: show_socket_addr.simps)
next
  case (V6 ip port scope)
  have "read_ipv4 (show_socket_addr a) = None"
    using read_ipv4_no_dot [of "[]" "show_socket_addr a"] by (simp add: V6)
  then show ?thesis
    using read_v6_show [of ip port scope "[]"] assms
    by (simp add: V6 parse_socket_addr_def read_socket_addr_v4_def del: show_socket_addr.simps)
qed

end
