(* ===== verification/Sockaddr.thy ===== *)
theory Sockaddr
  imports Prelude
begin

text \<open>
  The address that NNG hands to the wrappers, \<^verbatim>\<open>nng_sockaddr\<close> (nng-sys/src/bindings.rs): a C union
  of structs.  First the layouts that \<^verbatim>\<open>#[repr(C)]\<close> gives to structs and unions, for any type built
  of integers and arrays; then the types of the bindings; then the union as the wrappers see it, one
  group of fields for each view of the same memory, with the byte order of the target.
\<close>

section \<open>Layouts\<close>

text \<open>\<open>CInt n\<close> is an integer of \<open>n\<close> bytes, which is also its alignment (64-bit targets).\<close>

datatype ctype =
    CInt nat
  | CArray ctype nat
  | CStruct "(string \<times> ctype) list"
  | CUnion "(string \<times> ctype) list"

definition round_up :: "nat \<Rightarrow> nat \<Rightarrow> nat" where
  "round_up n a = (n + a - 1) div a * a"

lemma size_field: "f \<in> set fs \<Longrightarrow> size (snd f) < Suc (size_list (size_prod (\<lambda>_. 0) size) fs)"
  by (induction fs) (auto simp: less_Suc_eq_le split: prod.splits)

function align_of :: "ctype \<Rightarrow> nat" where
  "align_of (CInt n) = n"
| "align_of (CArray t n) = align_of t"
| "align_of (CStruct fs) = foldr max (map (\<lambda>f. align_of (snd f)) fs) 1"
| "align_of (CUnion fs) = foldr max (map (\<lambda>f. align_of (snd f)) fs) 1"
  by pat_completeness auto
termination by (relation "measure size") (auto simp: size_field)

text \<open>Fields of given name, size and alignment, placed one after the other from an offset on.\<close>

fun place :: "nat \<Rightarrow> (string \<times> nat \<times> nat) list \<Rightarrow> (string \<times> nat) list \<times> nat" where
  "place off [] = ([], off)"
| "place off ((x, s, a) # fs) =
     (let at = round_up off a; (offsets, stop) = place (at + s) fs in ((x, at) # offsets, stop))"

function size_of :: "ctype \<Rightarrow> nat" where
  "size_of (CInt n) = n"
| "size_of (CArray t n) = n * size_of t"
| "size_of (CStruct fs) =
     round_up (snd (place 0 (map (\<lambda>f. (fst f, size_of (snd f), align_of (snd f))) fs)))
       (align_of (CStruct fs))"
| "size_of (CUnion fs) =
     round_up (foldr max (map (\<lambda>f. size_of (snd f)) fs) 0) (align_of (CUnion fs))"
  by pat_completeness auto
termination by (relation "measure size") (auto simp: size_field)

definition measured :: "(string \<times> ctype) list \<Rightarrow> (string \<times> nat \<times> nat) list" where
  "measured fs = map (\<lambda>f. (fst f, size_of (snd f), align_of (snd f))) fs"

text \<open>A field's offset and type, and the place a path of fields names.\<close>

fun member_at :: "ctype \<Rightarrow> string \<Rightarrow> (nat \<times> ctype) option" where
  "member_at (CStruct fs) x =
     (case (map_of (fst (place 0 (measured fs))) x, map_of fs x) of
        (Some off, Some t) \<Rightarrow> Some (off, t) | _ \<Rightarrow> None)"
| "member_at (CUnion fs) x = map_option (\<lambda>t. (0, t)) (map_of fs x)"
| "member_at _ x = None"

fun locate :: "ctype \<Rightarrow> string list \<Rightarrow> (nat \<times> ctype) option" where
  "locate t [] = Some (0, t)"
| "locate t (x # xs) =
     (case member_at t x of
        None \<Rightarrow> None
      | Some (off, u) \<Rightarrow> map_option (\<lambda>(o', v). (off + o', v)) (locate u xs))"

text \<open>A type of the source: integers of the machine's sizes, fields with distinct names.\<close>

function wf_ctype :: "ctype \<Rightarrow> bool" where
  "wf_ctype (CInt n) \<longleftrightarrow> n \<in> {1, 2, 4, 8}"
| "wf_ctype (CArray t n) \<longleftrightarrow> wf_ctype t"
| "wf_ctype (CStruct fs) \<longleftrightarrow> distinct (map fst fs) \<and> list_all (\<lambda>f. wf_ctype (snd f)) fs"
| "wf_ctype (CUnion fs) \<longleftrightarrow> distinct (map fst fs) \<and> list_all (\<lambda>f. wf_ctype (snd f)) fs"
  by pat_completeness auto
termination by (relation "measure size") (auto simp: size_field)

section \<open>The types of the bindings\<close>

definition sockaddr_inproc_type :: ctype where
  "sockaddr_inproc_type =
     CStruct [(''sa_family'', CInt 2), (''sa_name'', CArray (CInt 1) 128)]"

definition sockaddr_path_type :: ctype where
  "sockaddr_path_type =
     CStruct [(''sa_family'', CInt 2), (''sa_path'', CArray (CInt 1) 128)]"

definition sockaddr_in6_type :: ctype where
  "sockaddr_in6_type =
     CStruct [(''sa_family'', CInt 2), (''sa_port'', CInt 2), (''sa_scope'', CInt 4),
       (''sa_addr'', CArray (CInt 1) 16)]"

definition sockaddr_in_type :: ctype where
  "sockaddr_in_type =
     CStruct [(''sa_family'', CInt 2), (''sa_port'', CInt 2), (''sa_addr'', CInt 4)]"

definition sockaddr_abstract_type :: ctype where
  "sockaddr_abstract_type =
     CStruct [(''sa_family'', CInt 2), (''sa_len'', CInt 2), (''sa_name'', CArray (CInt 1) 107)]"

definition sockaddr_storage_type :: ctype where
  "sockaddr_storage_type =
     CStruct [(''sa_family'', CInt 2), (''sa_pad'', CArray (CInt 8) 16)]"

definition sockaddr_type :: ctype where
  "sockaddr_type = CUnion [(''s_family'', CInt 2), (''s_ipc'', sockaddr_path_type),
     (''s_inproc'', sockaddr_inproc_type), (''s_in6'', sockaddr_in6_type),
     (''s_in'', sockaddr_in_type), (''s_abstract'', sockaddr_abstract_type),
     (''s_storage'', sockaddr_storage_type)]"

lemmas sockaddr_types = sockaddr_type_def sockaddr_path_type_def sockaddr_inproc_type_def
  sockaddr_in6_type_def sockaddr_in_type_def sockaddr_abstract_type_def sockaddr_storage_type_def

section \<open>The address in memory\<close>

definition nat_of_bytes :: "byte list \<Rightarrow> nat" where
  "nat_of_bytes bs = foldl (\<lambda>a b. a * 256 + unat b) 0 bs"

text \<open>A load of an integer on a little-endian (\<open>le\<close>) or big-endian target.\<close>

definition load_word :: "bool \<Rightarrow> byte list \<Rightarrow> 'a::len word" where
  "load_word le bs = word_of_nat (nat_of_bytes (if le then rev bs else bs))"

definition bytes_at :: "string list \<Rightarrow> byte list \<Rightarrow> byte list" where
  "bytes_at p mem =
     (case locate sockaddr_type p of None \<Rightarrow> [] | Some (off, t) \<Rightarrow> take (size_of t) (drop off mem))"

text \<open>
  The fields that the wrappers read, as a load from memory gives them: addresses and ports are in
  network byte order.
\<close>

record nng_sockaddr =
  s_family :: u16
  in_port :: u16
  in_addr :: u32
  in6_port :: u16
  in6_addr :: "byte list"
  in6_scope :: u32
  ipc_path :: "byte list"
  inproc_name :: "byte list"
  abs_len :: u16
  abs_name :: "byte list"

definition sockaddr_of :: "bool \<Rightarrow> byte list \<Rightarrow> nng_sockaddr" where
  "sockaddr_of le mem =
     \<lparr>s_family = load_word le (bytes_at [''s_family''] mem),
      in_port = load_word le (bytes_at [''s_in'', ''sa_port''] mem),
      in_addr = load_word le (bytes_at [''s_in'', ''sa_addr''] mem),
      in6_port = load_word le (bytes_at [''s_in6'', ''sa_port''] mem),
      in6_addr = bytes_at [''s_in6'', ''sa_addr''] mem,
      in6_scope = load_word le (bytes_at [''s_in6'', ''sa_scope''] mem),
      ipc_path = bytes_at [''s_ipc'', ''sa_path''] mem,
      inproc_name = bytes_at [''s_inproc'', ''sa_name''] mem,
      abs_len = load_word le (bytes_at [''s_abstract'', ''sa_len''] mem),
      abs_name = bytes_at [''s_abstract'', ''sa_name''] mem\<rparr>"

datatype nng_sockaddr_family =
    NNG_AF_UNSPEC | NNG_AF_INPROC | NNG_AF_IPC | NNG_AF_INET | NNG_AF_INET6 | NNG_AF_ABSTRACT

fun family_value :: "nng_sockaddr_family \<Rightarrow> u16" where
  "family_value NNG_AF_UNSPEC = 0"
| "family_value NNG_AF_INPROC = 1"
| "family_value NNG_AF_IPC = 2"
| "family_value NNG_AF_INET = 3"
| "family_value NNG_AF_INET6 = 4"
| "family_value NNG_AF_ABSTRACT = 5"

definition family_try_convert_from :: "int \<Rightarrow> nng_sockaddr_family option" where
  "family_try_convert_from v =
     (if v = 0 then Some NNG_AF_UNSPEC
      else if v = 1 then Some NNG_AF_INPROC
      else if v = 2 then Some NNG_AF_IPC
      else if v = 3 then Some NNG_AF_INET
      else if v = 4 then Some NNG_AF_INET6
      else None)"

section \<open>Byte order\<close>

text \<open>\<^verbatim>\<open>from_be\<close> swaps on little-endian targets.\<close>

definition swap16 :: "u16 \<Rightarrow> u16" where
  "swap16 x = push_bit 8 x OR drop_bit 8 x"

definition swap32 :: "u32 \<Rightarrow> u32" where
  "swap32 x = push_bit 24 x OR (push_bit 8 x AND 16711680) OR (drop_bit 8 x AND 65280)
     OR drop_bit 24 x"

definition u16_from_be :: "bool \<Rightarrow> u16 \<Rightarrow> u16" where
  "u16_from_be le x = (if le then swap16 x else x)"

definition u32_from_be :: "bool \<Rightarrow> u32 \<Rightarrow> u32" where
  "u32_from_be le x = (if le then swap32 x else x)"

section \<open>Layouts keep fields inside and apart\<close>

lemma foldr_max_ge: "x \<in> set xs \<Longrightarrow> x \<le> foldr max xs (z :: nat)"
  by (induction xs) auto

lemma foldr_max_in: "\<lbrakk>\<forall>x\<in>set xs. x \<in> A; z \<in> A\<rbrakk> \<Longrightarrow> foldr max xs (z :: nat) \<in> A"
  by (induction xs) (auto simp: max_def)

lemma round_up_ge: "0 < a \<Longrightarrow> n \<le> round_up n a"
proof -
  assume "0 < a"
  then have "(n + a - 1) mod a < a" by simp
  moreover have "(n + a - 1) div a * a + (n + a - 1) mod a = n + a - 1" by simp
  ultimately show ?thesis unfolding round_up_def by linarith
qed

lemma dvd_round_up [simp]: "a dvd round_up n a"
  by (simp add: round_up_def)

lemma align_of_cases: "wf_ctype t \<Longrightarrow> align_of t \<in> {1, 2, 4, 8}"
proof (induction t rule: align_of.induct)
  case (3 fs)
  then show ?case unfolding align_of.simps by (intro foldr_max_in) (auto simp: list_all_iff)
next
  case (4 fs)
  then show ?case unfolding align_of.simps by (intro foldr_max_in) (auto simp: list_all_iff)
qed auto

lemma align_of_pos: "wf_ctype t \<Longrightarrow> 0 < align_of t"
  using align_of_cases [of t] by auto

lemma small_dvd: "\<lbrakk>a \<in> {1, 2, 4, 8}; b \<in> {1, 2, 4, 8}; a \<le> b\<rbrakk> \<Longrightarrow> a dvd (b :: nat)"
  by auto

lemma align_dvd_size: "wf_ctype t \<Longrightarrow> align_of t dvd size_of t"
  by (induction t rule: align_of.induct) auto

lemma place_mono: "\<forall>(x, s, a)\<in>set fs. 0 < a \<Longrightarrow> off \<le> snd (place off fs)"
proof (induction off fs rule: place.induct)
  case (2 off x s a fs)
  then have "round_up off a + s \<le> snd (place (round_up off a + s) fs)" by simp
  with round_up_ge [of a off] 2(2) show ?case by (auto simp: Let_def split: prod.splits)
qed simp

lemma place_field:
  assumes "\<forall>(x, s, a)\<in>set fs. 0 < a" and "map_of (fst (place off fs)) x = Some at"
    and "map_of fs x = Some (s, a)"
  shows "off \<le> at \<and> at + s \<le> snd (place off fs) \<and> a dvd at"
  using assms
proof (induction off fs rule: place.induct)
  case (2 off y s' a' fs)
  let ?o = "round_up off a'"
  have ge: "off \<le> ?o" using round_up_ge [of a' off] 2(2) by auto
  show ?case
  proof (cases "x = y")
    case True
    then show ?thesis
      using 2(2-) ge place_mono [of fs "?o + s'"] by (auto simp: Let_def split: prod.splits)
  next
    case False
    then have "?o + s' \<le> at \<and> at + s \<le> snd (place (?o + s') fs) \<and> a dvd at"
      using 2 by (auto simp: Let_def split: prod.splits)
    then show ?thesis using ge by (auto simp: Let_def split: prod.splits)
  qed
qed simp

lemma place_apart:
  assumes "\<forall>(x, s, a)\<in>set fs. 0 < a"
    and "map_of (fst (place off fs)) x = Some at" "map_of fs x = Some (s, a)"
    and "map_of (fst (place off fs)) y = Some at'" "map_of fs y = Some (s', a')" and "x \<noteq> y"
  shows "at + s \<le> at' \<or> at' + s' \<le> at"
  using assms
proof (induction off fs rule: place.induct)
  case (2 off z sz az fs)
  let ?o = "round_up off az + sz"
  have pos: "\<forall>(x, s, a)\<in>set fs. 0 < a" using 2(2) by simp
  note later = place_field [OF pos, of ?o]
  show ?case
    using 2 later [of x at s a] later [of y at' s' a']
    by (auto simp: Let_def split: prod.splits if_splits)
qed simp

lemma map_of_measured: "map_of (measured fs) x = map_option (\<lambda>t. (size_of t, align_of t)) (map_of fs x)"
  by (induction fs) (auto simp: measured_def)

lemma wf_member: "\<lbrakk>list_all (\<lambda>f. wf_ctype (snd f)) fs; map_of fs x = Some t\<rbrakk> \<Longrightarrow> wf_ctype t"
  by (auto simp: list_all_iff dest!: map_of_SomeD)

lemma measured_pos:
  "list_all (\<lambda>f. wf_ctype (snd f)) fs \<Longrightarrow> \<forall>(x, s, a)\<in>set (measured fs). 0 < a"
  by (auto simp: measured_def list_all_iff align_of_pos)

lemma align_member:
  "map_of fs x = Some t \<Longrightarrow> align_of t \<le> foldr max (map (\<lambda>f. align_of (snd f)) fs) 1"
  by (rule foldr_max_ge) (force dest: map_of_SomeD)

lemma size_struct_ge: "wf_ctype (CStruct fs) \<Longrightarrow> snd (place 0 (measured fs)) \<le> size_of (CStruct fs)"
  using round_up_ge [OF align_of_pos, of "CStruct fs"] by (simp only: size_of.simps measured_def)

lemma size_union_ge:
  assumes "wf_ctype (CUnion fs)" and "map_of fs x = Some t"
  shows "size_of t \<le> size_of (CUnion fs)"
proof -
  have "size_of t \<le> foldr max (map (\<lambda>f. size_of (snd f)) fs) 0"
    by (rule foldr_max_ge) (use assms(2) in \<open>force dest: map_of_SomeD\<close>)
  also have "\<dots> \<le> size_of (CUnion fs)"
    unfolding size_of.simps by (rule round_up_ge [OF align_of_pos [OF assms(1)]])
  finally show ?thesis .
qed

lemma member_fits:
  assumes "wf_ctype t" and "member_at t x = Some (off, u)"
  shows "wf_ctype u \<and> off + size_of u \<le> size_of t \<and> align_of u dvd off \<and> align_of u dvd align_of t"
proof (cases t)
  case (CStruct fs)
  have wf: "list_all (\<lambda>f. wf_ctype (snd f)) fs" using assms(1) CStruct by simp
  have u: "map_of (fst (place 0 (measured fs))) x = Some off" "map_of fs x = Some u"
    using assms(2) CStruct by (auto split: option.splits)
  have wfu: "wf_ctype u" by (rule wf_member [OF wf u(2)])
  have "off + size_of u \<le> snd (place 0 (measured fs)) \<and> align_of u dvd off"
    using place_field [OF measured_pos [OF wf] u(1)] u(2) by (simp add: map_of_measured)
  moreover have "align_of u dvd align_of t"
    using small_dvd [OF align_of_cases [OF wfu] align_of_cases [OF assms(1)]] align_member [OF u(2)]
    by (simp add: CStruct)
  ultimately show ?thesis
    using wfu size_struct_ge [of fs] assms(1) CStruct by (auto intro: le_trans)
next
  case (CUnion fs)
  have u: "off = 0" "map_of fs x = Some u" using assms(2) CUnion by auto
  have wfu: "wf_ctype u" using wf_member [OF _ u(2)] assms(1) CUnion by simp
  moreover have "align_of u dvd align_of t"
    using small_dvd [OF align_of_cases [OF wfu] align_of_cases [OF assms(1)]] align_member [OF u(2)]
    by (simp add: CUnion)
  ultimately show ?thesis using size_union_ge [OF _ u(2)] assms(1) CUnion u(1) by simp
qed (use assms in auto)

lemma locate_fits:
  "\<lbrakk>wf_ctype t; locate t p = Some (off, u)\<rbrakk>
     \<Longrightarrow> wf_ctype u \<and> off + size_of u \<le> size_of t \<and> align_of u dvd off \<and> align_of u dvd align_of t"
proof (induction p arbitrary: t off)
  case (Cons x p)
  obtain o1 v o2 where f: "member_at t x = Some (o1, v)" and p: "locate v p = Some (o2, u)"
    and off: "off = o1 + o2"
    using Cons.prems(2) by (auto split: option.splits prod.splits)
  have v: "wf_ctype v" "o1 + size_of v \<le> size_of t" "align_of v dvd o1" "align_of v dvd align_of t"
    using member_fits [OF Cons.prems(1) f] by auto
  from Cons.IH [OF v(1) p] v show ?case
    by (auto simp: off intro: dvd_trans dvd_add)
qed simp

lemma members_apart:
  assumes "wf_ctype (CStruct fs)" and "x \<noteq> y"
    and x: "member_at (CStruct fs) x = Some (at, t)" and y: "member_at (CStruct fs) y = Some (at', u)"
  shows "at + size_of t \<le> at' \<or> at' + size_of u \<le> at"
  using place_apart [OF measured_pos, of fs 0 x at "size_of t" "align_of t" y at'] assms
  by (auto simp: map_of_measured split: option.splits)

section \<open>The views of the address\<close>

lemma sockaddr_paths:
  "locate sockaddr_type [''s_family''] = Some (0, CInt 2)"
  "locate sockaddr_type [''s_in'', ''sa_port''] = Some (2, CInt 2)"
  "locate sockaddr_type [''s_in'', ''sa_addr''] = Some (4, CInt 4)"
  "locate sockaddr_type [''s_in6'', ''sa_port''] = Some (2, CInt 2)"
  "locate sockaddr_type [''s_in6'', ''sa_addr''] = Some (8, CArray (CInt 1) 16)"
  "locate sockaddr_type [''s_in6'', ''sa_scope''] = Some (4, CInt 4)"
  "locate sockaddr_type [''s_ipc'', ''sa_path''] = Some (2, CArray (CInt 1) 128)"
  "locate sockaddr_type [''s_inproc'', ''sa_name''] = Some (2, CArray (CInt 1) 128)"
  "locate sockaddr_type [''s_abstract'', ''sa_len''] = Some (2, CInt 2)"
  "locate sockaddr_type [''s_abstract'', ''sa_name''] = Some (4, CArray (CInt 1) 107)"
  by code_simp+

lemma bytes_at_simps:
  "bytes_at [''s_family''] mem = take 2 mem"
  "bytes_at [''s_in'', ''sa_port''] mem = take 2 (drop 2 mem)"
  "bytes_at [''s_in'', ''sa_addr''] mem = take 4 (drop 4 mem)"
  "bytes_at [''s_in6'', ''sa_port''] mem = take 2 (drop 2 mem)"
  "bytes_at [''s_in6'', ''sa_addr''] mem = take 16 (drop 8 mem)"
  "bytes_at [''s_in6'', ''sa_scope''] mem = take 4 (drop 4 mem)"
  "bytes_at [''s_ipc'', ''sa_path''] mem = take 128 (drop 2 mem)"
  "bytes_at [''s_inproc'', ''sa_name''] mem = take 128 (drop 2 mem)"
  "bytes_at [''s_abstract'', ''sa_len''] mem = take 2 (drop 2 mem)"
  "bytes_at [''s_abstract'', ''sa_name''] mem = take 107 (drop 4 mem)"
  by (simp_all add: bytes_at_def sockaddr_paths del: locate.simps)

lemma sockaddr_size: "size_of sockaddr_type = 136" "align_of sockaddr_type = 8"
  by code_simp+

lemma wf_sockaddr: "wf_ctype sockaddr_type"
  by (simp add: sockaddr_types)

lemma union_views:
  assumes "locate sockaddr_type [v, x] = Some (a, t)"
  obtains fs where "wf_ctype (CStruct fs)" and "member_at sockaddr_type v = Some (0, CStruct fs)"
    and "member_at (CStruct fs) x = Some (a, t)"
proof -
  obtain u where u: "member_at sockaddr_type v = Some (0, u)" "member_at u x = Some (a, t)"
    using assms by (auto simp: sockaddr_type_def split: option.splits)
  then have "wf_ctype u" using member_fits [OF wf_sockaddr] by blast
  moreover obtain fs where "u = CStruct fs"
    using u by (auto simp: sockaddr_types split: if_splits)
  ultimately show thesis using that u by blast
qed

section \<open>Loads and byte order\<close>

lemma less_65536: "unat (x :: u16) < 65536"
  using unsigned_less [of x] by simp

lemma less_256: "unat (b :: byte) < 256"
  using unsigned_less [of b] by simp

lemma swap16_unat: "unat (swap16 x) = unat x mod 256 * 256 + unat x div 256"
proof -
  have disj: "\<And>n. \<not> bit (push_bit 8 x) n \<or> \<not> bit (drop_bit 8 x) n"
    by (auto simp: bit_simps dest: bit_imp_le_length)
  have "swap16 x = push_bit 8 x + drop_bit 8 x"
    using disj unfolding swap16_def by (intro disjunctive_add [symmetric])
  then have "unat (swap16 x) = (unat (push_bit 8 x) + unat (drop_bit 8 x)) mod 65536"
    by (simp add: unat_word_ariths)
  moreover have "unat (push_bit 8 x) = unat x mod 256 * 256"
    by (simp add: unsigned_push_bit_eq push_bit_eq_mult unat_word_ariths mult_mod_left)
  moreover have "unat (drop_bit 8 x) = unat x div 256"
    by (simp add: drop_bit_eq_div unat_div_distrib)
  moreover have "unat x div 256 < 256" using less_65536 [of x] by (simp add: less_mult_imp_div_less)
  then have "unat x mod 256 * 256 + unat x div 256 < 65536"
    using mod_less_divisor [of 256 "unat x"] by linarith
  ultimately show ?thesis by simp
qed

lemma swap16_swap16 [simp]: "swap16 (swap16 x) = x"
proof -
  have "unat x div 256 < 256"
    using less_65536 [of x] by (simp add: less_mult_imp_div_less)
  then have "unat (swap16 (swap16 x)) = unat x" unfolding swap16_unat by simp
  then show ?thesis by (metis word_eq_iff_unsigned)
qed

lemma swap32_parts:
  "swap32 x = push_bit 24 x + push_bit 16 (take_bit 8 (drop_bit 8 x))
     + push_bit 8 (take_bit 8 (drop_bit 16 x)) + drop_bit 24 x"
proof -
  have m1: "push_bit 8 x AND 16711680 = push_bit 16 (take_bit 8 (drop_bit 8 x))"
  proof -
    have m: "(16711680 :: u32) = push_bit 16 (mask 8)" by (simp add: mask_eq_exp_minus_1 push_bit_eq_mult)
    show ?thesis unfolding m by (intro bit_eqI) (auto simp: bit_simps)
  qed
  have m2: "drop_bit 8 x AND 65280 = push_bit 8 (take_bit 8 (drop_bit 16 x))"
  proof -
    have m: "(65280 :: u32) = push_bit 8 (mask 8)" by (simp add: mask_eq_exp_minus_1 push_bit_eq_mult)
    show ?thesis unfolding m by (intro bit_eqI) (auto simp: bit_simps)
  qed
  show ?thesis
    unfolding swap32_def m1 m2
    by (subst disjunctive_add; (subst disjunctive_add)?; (subst disjunctive_add)?)
       (auto simp: bit_simps or.assoc dest: bit_imp_le_length)
qed

lemma swap32_unat:
  "swap32 x = word_of_nat (unat x mod 256 * 16777216 + unat x div 256 mod 256 * 65536
     + unat x div 65536 mod 256 * 256 + unat x div 16777216)"
proof -
  have push: "push_bit k w = word_of_nat (unat w * 2 ^ k)" for k and w :: u32
    by (simp add: push_bit_eq_mult)
  have take: "unat (take_bit 8 w) = unat w mod 256" for w :: u32
    unfolding unsigned_take_bit_eq by (simp add: take_bit_eq_mod)
  have drop: "unat (drop_bit k w) = unat w div 2 ^ k" for k and w :: u32
    by (simp only: unsigned_drop_bit_eq take_bit_nat_eq_self [OF unsigned_less]) (simp add: drop_bit_eq_div)
  have last: "drop_bit 24 x = word_of_nat (unat x div 16777216)"
    using drop [of 24 x] of_nat_unat [of "drop_bit 24 x", where ?'a = "32 word"] by (simp only: ucast_id) simp
  have "push_bit 24 x = push_bit 24 (take_bit 8 x)" by (intro bit_eqI) (auto simp: bit_simps)
  then have first: "push_bit 24 x = word_of_nat (unat x mod 256 * 16777216)"
    by (simp only: push [of 24 "take_bit 8 x"] take) simp
  show ?thesis
    unfolding swap32_parts first push [of 16] push [of 8] take drop last by simp
qed

text \<open>An integer in network byte order is read alike on every target.\<close>

lemma u16_from_load: "u16_from_be le (load_word le [a, b]) = word_of_nat (unat a * 256 + unat b)"
proof (cases le)
  case True
  have small: "unat b * 256 + unat a < 65536" using less_256 [of a] less_256 [of b] by linarith
  then have x: "unat (word_of_nat (unat b * 256 + unat a) :: u16) = unat b * 256 + unat a"
    unfolding unsigned_of_nat of_nat_id by (intro take_bit_nat_eq_self) simp
  have "swap16 (word_of_nat (unat b * 256 + unat a))
      = word_of_nat (unat (swap16 (word_of_nat (unat b * 256 + unat a))))"
    by (simp only: of_nat_unat ucast_id)
  also have "\<dots> = word_of_nat (unat a * 256 + unat b)"
    unfolding swap16_unat x using less_256 [of a] by simp
  finally show ?thesis by (simp only: u16_from_be_def load_word_def True nat_of_bytes_def) simp
qed (simp add: u16_from_be_def load_word_def nat_of_bytes_def)

lemma byte_split: "b < 256 \<Longrightarrow> (n * 256 + b) div 256 = n" "b < 256 \<Longrightarrow> (n * 256 + b) mod 256 = (b :: nat)"
  by simp_all

lemma u32_from_load:
  "u32_from_be le (load_word le [a, b, c, d])
     = word_of_nat (unat a * 16777216 + unat b * 65536 + unat c * 256 + unat d)"
proof (cases le)
  case True
  let ?n = "unat d * 16777216 + unat c * 65536 + unat b * 256 + unat a"
  note small = less_256 [of a] less_256 [of b] less_256 [of c] less_256 [of d]
  then have "?n < 2 ^ 32" by simp
  then have x: "unat (word_of_nat ?n :: u32) = ?n"
    unfolding unsigned_of_nat of_nat_id by (intro take_bit_nat_eq_self) simp
  have n: "?n = ((unat d * 256 + unat c) * 256 + unat b) * 256 + unat a" by simp
  have two: "?n div 65536 = ?n div 256 div 256" and three: "?n div 16777216 = ?n div 256 div 256 div 256"
    by (simp_all only: div_mult2_eq [symmetric]) simp_all
  have "?n mod 256 = unat a" "?n div 256 mod 256 = unat b" "?n div 65536 mod 256 = unat c"
    "?n div 16777216 = unat d"
    unfolding two three unfolding n by (simp_all only: byte_split small mod_less)
  then have "swap32 (word_of_nat ?n)
      = word_of_nat (unat a * 16777216 + unat b * 65536 + unat c * 256 + unat d)"
    unfolding swap32_unat x by simp
  moreover have "nat_of_bytes [d, c, b, a] = ?n" by (simp add: nat_of_bytes_def)
  ultimately show ?thesis by (simp only: u32_from_be_def load_word_def True) simp
qed (simp add: u32_from_be_def load_word_def nat_of_bytes_def)

section \<open>Properties\<close>

text \<open>
  C26. The union of addresses is laid out so that the wrappers may read it.  Whatever path of fields
  a wrapper names, the field lies inside the union's 136 bytes and is aligned, and so is every
  \<^verbatim>\<open>repr(C)\<close> type; the family of every view is the union's own \<^verbatim>\<open>s_family\<close>, so that it may be read
  before the view is known; and two different fields of one view share no byte.
\<close>

theorem sockaddr_views:
  assumes "locate sockaddr_type p = Some (off, t)"
  shows "off + size_of t \<le> size_of sockaddr_type \<and> size_of sockaddr_type = 136 \<and> align_of t dvd off
    \<and> (member_at sockaddr_type v = Some (o1, CStruct fs) \<longrightarrow>
        locate sockaddr_type [v, ''sa_family''] = locate sockaddr_type [''s_family''])
    \<and> (x \<noteq> y \<and> locate sockaddr_type [v, x] = Some (a, t1) \<and> locate sockaddr_type [v, y] = Some (b, t2)
        \<longrightarrow> a + size_of t1 \<le> b \<or> b + size_of t2 \<le> a)"
proof (intro conjI impI)
  show "off + size_of t \<le> size_of sockaddr_type" "align_of t dvd off"
    using locate_fits [OF wf_sockaddr assms] by auto
  show "size_of sockaddr_type = 136" by (rule sockaddr_size)
  show "locate sockaddr_type [v, ''sa_family''] = locate sockaddr_type [''s_family'']"
    if "member_at sockaddr_type v = Some (o1, CStruct fs)"
    using that by (auto simp: sockaddr_types measured_def round_up_def split: if_splits)
  show "a + size_of t1 \<le> b \<or> b + size_of t2 \<le> a"
    if both: "x \<noteq> y \<and> locate sockaddr_type [v, x] = Some (a, t1)
      \<and> locate sockaddr_type [v, y] = Some (b, t2)"
  proof -
    obtain fs where fs: "wf_ctype (CStruct fs)" "member_at sockaddr_type v = Some (0, CStruct fs)"
      and x: "member_at (CStruct fs) x = Some (a, t1)"
      using both by (blast elim: union_views)
    have "member_at (CStruct fs) y = Some (b, t2)"
      using both fs(2) by (auto split: option.splits)
    with fs(1) x both show ?thesis by (intro members_apart) auto
  qed
qed

theorem sockaddr_views_witness:
  "4 + size_of (CArray (CInt 1) 107) \<le> size_of sockaddr_type"
  by (rule sockaddr_views [OF sockaddr_paths(10), THEN conjunct1])

end
