(* ===== verification/Addr.thy ===== *)
theory Addr
  imports Errors IpText Sockaddr
begin

text \<open>
  Addresses: \<^verbatim>\<open>anng::pipes::Url\<close> with \<^verbatim>\<open>parse_tcp_url\<close> and \<^verbatim>\<open>Message::remote_addr\<close>
  (anng/src/pipes.rs, anng/src/message.rs), \<^verbatim>\<open>nng::SocketAddr\<close> (nng/src/addr.rs) and the integer
  conversions of nng-sys/src/lib.rs.  A Rust string is the list of its UTF-8 bytes, as characters.
  The parts of the standard library the code uses are definitions: lossy UTF-8 here, the display and
  the parser of socket addresses in theory \<open>IpText\<close>.
\<close>

section \<open>Bytes and text\<close>

definition chars_of :: "byte list \<Rightarrow> string" where
  "chars_of bs = map (\<lambda>b. char_of (unat b)) bs"

text \<open>\<^verbatim>\<open>as_bytes\<close>\<close>

definition bytes_of :: "string \<Rightarrow> byte list" where
  "bytes_of s = map (\<lambda>c. word_of_nat (of_char c)) s"

lemma unat_of_char: "unat (word_of_nat (of_char c) :: byte) = of_char c"
  using of_char_mod_256 [of c, where ?'a = nat] mod_less_divisor [of 256 "of_char c :: nat"]
  by (simp add: unsigned_of_nat take_bit_nat_eq_self)

lemma length_bytes_of [simp]: "length (bytes_of s) = length s"
  by (simp add: bytes_of_def)

lemma chars_of_bytes_of [simp]: "chars_of (bytes_of s) = s"
  by (simp add: bytes_of_def chars_of_def o_def unat_of_char)

definition is_cont :: "byte \<Rightarrow> bool" where
  "is_cont b \<longleftrightarrow> 128 \<le> unat b \<and> unat b \<le> 191"

definition between :: "nat \<Rightarrow> byte \<Rightarrow> nat \<Rightarrow> bool" where
  "between lo b hi \<longleftrightarrow> lo \<le> unat b \<and> unat b \<le> hi"

text \<open>
  One step of the decoder of \<^verbatim>\<open>from_utf8_lossy\<close>: whether the bytes at the front are a scalar value,
  and how many bytes after the first belong to it (or to the invalid part that is replaced).
\<close>

definition second_ok :: "byte \<Rightarrow> byte \<Rightarrow> bool" where
  "second_ok b c \<longleftrightarrow>
     (if b = 224 then between 160 c 191
      else if b = 237 then between 128 c 159
      else if b = 240 then between 144 c 191
      else if b = 244 then between 128 c 143
      else is_cont c)"

definition utf8_next :: "byte \<Rightarrow> byte list \<Rightarrow> bool \<times> nat" where
  "utf8_next b bs =
     (if unat b < 128 then (True, 0)
      else if between 194 b 223 then
        (case bs of c # _ \<Rightarrow> if is_cont c then (True, 1) else (False, 0) | [] \<Rightarrow> (False, 0))
      else if between 224 b 239 then
        (case bs of
           c # cs \<Rightarrow>
             if \<not> second_ok b c then (False, 0)
             else (case cs of d # _ \<Rightarrow> if is_cont d then (True, 2) else (False, 1)
                   | [] \<Rightarrow> (False, 1))
         | [] \<Rightarrow> (False, 0))
      else if between 240 b 244 then
        (case bs of
           c # cs \<Rightarrow>
             if \<not> second_ok b c then (False, 0)
             else (case cs of
                     d # ds \<Rightarrow>
                       if \<not> is_cont d then (False, 1)
                       else (case ds of e # _ \<Rightarrow> if is_cont e then (True, 3) else (False, 2)
                             | [] \<Rightarrow> (False, 2))
                   | [] \<Rightarrow> (False, 1))
         | [] \<Rightarrow> (False, 0))
      else (False, 0))"

function utf8_lossy :: "byte list \<Rightarrow> byte list" where
  "utf8_lossy [] = []"
| "utf8_lossy (b # bs) =
     (let (ok, n) = utf8_next b bs in
      (if ok then b # take n bs else [239, 191, 189]) @ utf8_lossy (drop n bs))"
  by pat_completeness auto
termination by (relation "measure length") auto

function utf8_valid :: "byte list \<Rightarrow> bool" where
  "utf8_valid [] = True"
| "utf8_valid (b # bs) = (let (ok, n) = utf8_next b bs in ok \<and> utf8_valid (drop n bs))"
  by pat_completeness auto
termination by (relation "measure length") auto

text \<open>\<^verbatim>\<open>CStr::from_ptr\<close>: the bytes before the first NUL.\<close>

definition cstr :: "byte list \<Rightarrow> byte list" where
  "cstr bs = takeWhile (\<lambda>b. b \<noteq> 0) bs"

text \<open>\<^verbatim>\<open>{b:02x}\<close> and \<^verbatim>\<open>is_ascii_graphic\<close>\<close>

definition hex2 :: "byte \<Rightarrow> string" where
  "hex2 b = [hex_char (unat b div 16), hex_char (unat b mod 16)]"

definition is_ascii_graphic :: "byte \<Rightarrow> bool" where
  "is_ascii_graphic b \<longleftrightarrow> 33 \<le> unat b \<and> unat b \<le> 126"

definition percent_encode :: "byte list \<Rightarrow> string" where
  "percent_encode name =
     concat (map (\<lambda>b. if is_ascii_graphic b then [char_of (unat b)] else ''%'' @ hex2 b) name)"

text \<open>\<^verbatim>\<open>str::split_once\<close>\<close>

fun split_once :: "string \<Rightarrow> string \<Rightarrow> (string \<times> string) option" where
  "split_once sep s =
     (if take (length sep) s = sep then Some ([], drop (length sep) s)
      else case s of
             [] \<Rightarrow> None
           | c # cs \<Rightarrow> map_option (\<lambda>(a, b). (c # a, b)) (split_once sep cs))"

declare split_once.simps [simp del]

section \<open>anng: Url\<close>

definition from_nng :: "bool \<Rightarrow> nng_sockaddr \<Rightarrow> byte list \<Rightarrow> string option run" where
  "from_nng le addr scheme =
     (if \<not> utf8_valid scheme then Inr None
      else
        (let url = chars_of scheme @ ''://''; s_family = s_family addr in
         if s_family = family_value NNG_AF_UNSPEC then Inr None
         else if s_family = family_value NNG_AF_INET
           then Inr (Some (url @ show_ipv4 (u32_from_be le (in_addr addr)) @ '':''
                  @ show_nat (unat (u16_from_be le (in_port addr)))))
         else if s_family = family_value NNG_AF_INET6
           then Inr (Some (url @ show_socket_addr
                  (V6 (segments (in6_addr addr)) (unat (u16_from_be le (in6_port addr)))
                    (unat (in6_scope addr)))))
         else if s_family = family_value NNG_AF_IPC
           then Inr (Some (url @ chars_of (utf8_lossy (cstr (ipc_path addr)))))
         else if s_family = family_value NNG_AF_ABSTRACT
           then (if unat (abs_len addr) \<le> length (abs_name addr)
                 then Inr (Some (url @ percent_encode (take (unat (abs_len addr)) (abs_name addr))))
                 else Inl SliceIndex)
         else if s_family = family_value NNG_AF_INPROC
           then Inr (Some (url @ chars_of (utf8_lossy (cstr (inproc_name addr)))))
         else Inl Unimplemented))"

definition url_scheme :: "string \<Rightarrow> string run" where
  "url_scheme url =
     (case split_once ''://'' url of None \<Rightarrow> Inl ExpectFailed | Some (s, _) \<Rightarrow> Inr s)"

text \<open>
  \<^verbatim>\<open>Listener::local_addr\<close>: what the two C functions return is the argument; \<open>written\<close> is the
  result of \<^verbatim>\<open>nng_url_sprintf\<close> and \<open>buf\<close> the 144-byte buffer it filled.
\<close>

definition listener_local_addr :: "c_int \<Rightarrow> int \<Rightarrow> byte list \<Rightarrow> (io_error + string) run" where
  "listener_local_addr errno written buf =
     (if errno \<noteq> 0 then Inl Unreachable
      else if written < 0
        then Inr (Inl (IoCustom io_error_kind.InvalidData ''nng_url_sprintf failed''))
      else if written = 0
        then Inr (Inl (IoCustom io_error_kind.InvalidData ''nng_url_sprintf returned empty URL''))
      else if \<not> nat written < 144 then Inl AssertFailed
      else if utf8_valid (take (nat written) buf)
        then Inr (Inr (chars_of (take (nat written) buf)))
      else Inr (Inl (IoCustom io_error_kind.InvalidData ''URL is not valid UTF-8'')))"

section \<open>Parsing TCP addresses\<close>

definition tcp_schemes :: "string list" where
  "tcp_schemes = [''tcp'', ''tcp4'', ''tcp6'', ''tls+tcp'', ''tls+tcp4'', ''tls+tcp6'']"

definition parse_tcp_url :: "string \<Rightarrow> io_error + socket_addr" where
  "parse_tcp_url url =
     (case split_once ''://'' url of
        None \<Rightarrow> Inl (IoCustom io_error_kind.InvalidData (''malformed URL: '' @ url))
      | Some (scheme, addr_part) \<Rightarrow>
          if scheme \<notin> set tcp_schemes
          then Inl (IoCustom io_error_kind.InvalidData (''unexpected URL scheme in '' @ url))
          else
            (case parse_socket_addr addr_part of
               Some a \<Rightarrow> Inr a
             | None \<Rightarrow> Inl (IoCustom io_error_kind.InvalidData
                 (''failed to parse socket address from '' @ addr_part
                   @ '': invalid socket address syntax''))))"

section \<open>Message::remote_addr\<close>

text \<open>
  What the C functions return for the message's pipe: its number, the code and address of
  \<^verbatim>\<open>nng_pipe_peer_addr\<close>, the code and text of \<^verbatim>\<open>nng_pipe_get_scheme\<close>.
\<close>

definition msg_pipe :: "u32 \<Rightarrow> u32 option" where
  "msg_pipe p = (if 0 < p then Some p else None)"

definition remote_addr ::
  "bool \<Rightarrow> u32 \<Rightarrow> u32 \<times> nng_sockaddr \<Rightarrow> u32 \<times> byte list \<Rightarrow> string option run" where
  "remote_addr le pipe peer get_scheme =
     (case msg_pipe pipe of
        None \<Rightarrow> Inr None
      | Some _ \<Rightarrow>
          (let errno = fst peer in
           if errno = NNG_OK then
             (let errno = fst get_scheme in
              if errno = NNG_OK then from_nng le (snd peer) (snd get_scheme)
              else if errno = nng_err_value ENOENT then Inr None
              else if errno = nng_err_value ENOTSUP then Inr None
              else Inl Unreachable)
           else if errno = nng_err_value ENOTSUP then Inr None
           else if errno = nng_err_value ENOENT then Inr None
           else if errno AND NNG_ESYSERR \<noteq> 0 then Inr None
           else Inl Unreachable))"

section \<open>nng: SocketAddr\<close>

datatype nng_socket_addr =
    InProc string | Ipc string | Inet socket_addr | Inet6 socket_addr
  | Abstract "byte list" | Unspecified

definition buf_to_string :: "byte list \<Rightarrow> string" where
  "buf_to_string buf = chars_of (utf8_lossy (takeWhile (\<lambda>b. b \<noteq> 0) buf))"

definition nng_addr_from :: "bool \<Rightarrow> nng_sockaddr \<Rightarrow> nng_socket_addr run" where
  "nng_addr_from le addr =
     (case family_try_convert_from (uint (s_family addr)) of
        Some NNG_AF_INPROC \<Rightarrow> Inr (InProc (buf_to_string (inproc_name addr)))
      | Some NNG_AF_IPC \<Rightarrow> Inr (Ipc (buf_to_string (ipc_path addr)))
      | Some NNG_AF_INET \<Rightarrow>
          Inr (Inet (V4 (u32_from_be le (in_addr addr)) (unat (in_port addr))))
      | Some NNG_AF_INET6 \<Rightarrow>
          Inr (Inet6 (V6 (segments (in6_addr addr)) (unat (in6_port addr)) 0))
      | Some NNG_AF_ABSTRACT \<Rightarrow>
          if unat (abs_len addr) \<le> length (abs_name addr)
          then Inr (Abstract (take (unat (abs_len addr)) (abs_name addr))) else Inl SliceIndex
      | Some NNG_AF_UNSPEC \<Rightarrow> Inr Unspecified
      | None \<Rightarrow> Inr Unspecified)"

fun nng_addr_display :: "nng_socket_addr \<Rightarrow> string" where
  "nng_addr_display (InProc s) = ''inproc://'' @ s"
| "nng_addr_display (Ipc s) = ''ipc://'' @ s"
| "nng_addr_display (Inet s) = ''tcp://'' @ show_socket_addr s"
| "nng_addr_display (Inet6 s) = ''tcp://'' @ show_socket_addr s"
| "nng_addr_display (Abstract s) = ''abstract://'' @ percent_encode s"
| "nng_addr_display Unspecified = ''unspecified''"

section \<open>nng-sys: other enums\<close>

datatype nng_stat_type_enum =
    NNG_STAT_SCOPE | NNG_STAT_LEVEL | NNG_STAT_COUNTER | NNG_STAT_STRING | NNG_STAT_BOOLEAN
  | NNG_STAT_ID

definition stat_type_try_convert_from :: "int \<Rightarrow> nng_stat_type_enum option" where
  "stat_type_try_convert_from v =
     (if v = 0 then Some NNG_STAT_SCOPE
      else if v = 1 then Some NNG_STAT_LEVEL
      else if v = 2 then Some NNG_STAT_COUNTER
      else if v = 3 then Some NNG_STAT_STRING
      else if v = 4 then Some NNG_STAT_BOOLEAN
      else if v = 5 then Some NNG_STAT_ID
      else None)"

datatype nng_unit_enum =
    NNG_UNIT_NONE | NNG_UNIT_BYTES | NNG_UNIT_MESSAGES | NNG_UNIT_MILLIS | NNG_UNIT_EVENTS

definition unit_try_convert_from :: "int \<Rightarrow> nng_unit_enum option" where
  "unit_try_convert_from v =
     (if v = 0 then Some NNG_UNIT_NONE
      else if v = 1 then Some NNG_UNIT_BYTES
      else if v = 2 then Some NNG_UNIT_MESSAGES
      else if v = 3 then Some NNG_UNIT_MILLIS
      else if v = 4 then Some NNG_UNIT_EVENTS
      else None)"

lemma char_of_eq_iff: "char_of n = c \<longleftrightarrow> n mod 256 = (of_char c :: nat)"
  by (metis char_of_char of_char_of char_of_mod_256)

lemmas text_eval = chars_of_def char_of_eq_iff utf8_next_def is_cont_def

section \<open>Printing and parsing URLs\<close>

lemma split_once_first:
  assumes "CHR '':'' \<notin> set a"
  shows "split_once ''://'' (a @ '':'' @ ''//'' @ b) = Some (a, b)"
  using assms
proof (induction a)
  case Nil
  show ?case by (subst split_once.simps) simp
next
  case (Cons c a)
  then show ?case by (subst split_once.simps) auto
qed

lemma tcp_scheme_no_colon: "s \<in> set tcp_schemes \<Longrightarrow> CHR '':'' \<notin> set s"
  by (auto simp: tcp_schemes_def)

lemma parse_tcp_url_show:
  assumes "s \<in> set tcp_schemes" and "valid_addr a"
  shows "parse_tcp_url (s @ ''://'' @ show_socket_addr a) = Inr a"
  using split_once_first [OF tcp_scheme_no_colon [OF assms(1)]] assms
  by (simp add: parse_tcp_url_def parse_show_socket_addr del: show_socket_addr.simps)

section \<open>Addresses as the two crates report them\<close>

lemma family_try_convert_from_iff:
  "family_try_convert_from v = Some f \<longleftrightarrow> f \<noteq> NNG_AF_ABSTRACT \<and> v = uint (family_value f)"
  by (cases f) (auto simp: family_try_convert_from_def)

lemma family_value_inject: "family_value f = family_value g \<longleftrightarrow> f = g"
  by (cases f; cases g) simp_all

lemma from_nng_inet:
  assumes "s_family addr = family_value NNG_AF_INET" and "utf8_valid scheme"
  shows "from_nng le addr scheme = Inr (Some (chars_of scheme @ ''://''
    @ show_socket_addr (V4 (u32_from_be le (in_addr addr)) (unat (u16_from_be le (in_port addr))))))"
  using assms by (simp add: from_nng_def Let_def)


lemma from_nng_path:
  assumes "utf8_valid scheme"
  shows "s_family addr = family_value NNG_AF_IPC \<Longrightarrow> from_nng le addr scheme
      = Inr (Some (chars_of scheme @ ''://'' @ buf_to_string (ipc_path addr)))"
    and "s_family addr = family_value NNG_AF_INPROC \<Longrightarrow> from_nng le addr scheme
      = Inr (Some (chars_of scheme @ ''://'' @ buf_to_string (inproc_name addr)))"
  using assms by (simp_all add: from_nng_def Let_def buf_to_string_def cstr_def)

lemma utf8_lossy_valid: "utf8_valid bs \<Longrightarrow> utf8_lossy bs = bs"
proof (induction bs rule: utf8_valid.induct)
  case (2 b bs)
  obtain ok n where step: "utf8_next b bs = (ok, n)" by fastforce
  then show ?case using 2 by (simp add: step)
qed simp

lemma utf8_valid_ascii: "\<forall>b\<in>set bs. unat b < 128 \<Longrightarrow> utf8_valid bs"
  by (induction bs) (simp_all add: utf8_next_def)

text \<open>The scheme of a URL is what stands before it, when it has no colon of its own.\<close>

lemma from_nng_some:
  assumes "from_nng le addr scheme = Inr (Some url)"
  shows "utf8_valid scheme \<and> s_family addr \<noteq> family_value NNG_AF_UNSPEC
    \<and> (\<exists>rest. url = chars_of scheme @ ''://'' @ rest)"
  using assms by (auto simp: from_nng_def Let_def split: if_splits)

lemma url_scheme_append:
  "CHR '':'' \<notin> set s \<Longrightarrow> url_scheme (s @ ''://'' @ rest) = Inr s"
  using split_once_first [of s rest] by (simp add: url_scheme_def)

lemma all_families:
  "(\<forall>f. P f) \<longleftrightarrow> P NNG_AF_UNSPEC \<and> P NNG_AF_INPROC \<and> P NNG_AF_IPC \<and> P NNG_AF_INET
     \<and> P NNG_AF_INET6 \<and> P NNG_AF_ABSTRACT"
  by (metis nng_sockaddr_family.exhaust)

lemma from_nng_panics_iff:
  assumes "unat (abs_len addr) \<le> length (abs_name addr)"
  shows "from_nng le addr scheme = Inl p \<longleftrightarrow>
    p = Unimplemented \<and> utf8_valid scheme \<and> (\<forall>f. s_family addr \<noteq> family_value f)"
  using assms unfolding all_families by (auto simp: from_nng_def Let_def split: if_splits)

section \<open>Internet addresses from memory\<close>

lemma from_nng_inet6:
  assumes "s_family addr = family_value NNG_AF_INET6" and "utf8_valid scheme"
  shows "from_nng le addr scheme = Inr (Some (chars_of scheme @ ''://'' @ show_socket_addr
    (V6 (segments (in6_addr addr)) (unat (u16_from_be le (in6_port addr))) (unat (in6_scope addr)))))"
  using assms by (simp add: from_nng_def Let_def)

lemma two_bytes:
  assumes "length bs = 2"
  shows "unat (u16_from_be le (load_word le bs)) = nat_of_bytes bs" and "nat_of_bytes bs < 65536"
proof -
  obtain a b where bs: "bs = [a, b]" using assms by (auto simp: length_Suc_conv numeral_2_eq_2)
  show lt: "nat_of_bytes bs < 65536"
    using less_256 [of a] less_256 [of b] by (simp add: bs nat_of_bytes_def)
  have "u16_from_be le (load_word le bs) = word_of_nat (nat_of_bytes bs)"
    using u16_from_load [of le a b] by (simp add: bs nat_of_bytes_def)
  then show "unat (u16_from_be le (load_word le bs)) = nat_of_bytes bs"
    using lt by (simp only: unsigned_of_nat of_nat_id take_bit_nat_eq_self) (simp add: take_bit_nat_eq_self)
qed

lemma four_bytes:
  assumes "length bs = 4"
  shows "u32_from_be le (load_word le bs) = word_of_nat (nat_of_bytes bs)"
proof -
  obtain a b c d where bs: "bs = [a, b, c, d]"
    using assms by (auto simp: length_Suc_conv eval_nat_numeral)
  have "nat_of_bytes bs = unat a * 16777216 + unat b * 65536 + unat c * 256 + unat d"
    by (simp add: bs nat_of_bytes_def)
  then show ?thesis using u32_from_load [of le a b c d] by (simp only: bs)
qed

lemma from_nng_memory:
  assumes "length mem = 136" and "utf8_valid scheme"
  shows "s_family (sockaddr_of le mem) = family_value NNG_AF_INET \<Longrightarrow>
      from_nng le (sockaddr_of le mem) scheme = Inr (Some (chars_of scheme @ ''://''
        @ show_socket_addr (V4 (word_of_nat (nat_of_bytes (take 4 (drop 4 mem))))
            (nat_of_bytes (take 2 (drop 2 mem))))))"
    and "s_family (sockaddr_of le mem) = family_value NNG_AF_INET6 \<Longrightarrow>
      from_nng le (sockaddr_of le mem) scheme = Inr (Some (chars_of scheme @ ''://''
        @ show_socket_addr (V6 (segments (take 16 (drop 8 mem))) (nat_of_bytes (take 2 (drop 2 mem)))
            (unat (load_word le (take 4 (drop 4 mem)) :: u32)))))"
  using assms two_bytes [of "take 2 (drop 2 mem)"] four_bytes [of "take 4 (drop 4 mem)"]
  by (simp_all only: from_nng_inet from_nng_inet6) (simp_all add: sockaddr_of_def bytes_at_simps)

lemma segments_ok:
  "\<lbrakk>length bs = 2 * n\<rbrakk> \<Longrightarrow> length (segments bs) = n \<and> (\<forall>g\<in>set (segments bs). g < 65536)"
proof (induction bs arbitrary: n rule: segments.induct)
  case (1 a b bs)
  then obtain k where "n = Suc k" "length bs = 2 * k" by (cases n) auto
  with 1(1) [of k] show ?case using less_256 [of a] less_256 [of b] by auto
qed auto

lemma valid_memory:
  assumes "length mem = 136"
  shows "valid_addr (V4 ip (nat_of_bytes (take 2 (drop 2 mem))))"
    and "valid_addr (V6 (segments (take 16 (drop 8 mem))) (nat_of_bytes (take 2 (drop 2 mem)))
      (unat (x :: u32)))"
proof -
  have "unat x < 2 ^ 32" using unsigned_less [of x] by simp
  then show "valid_addr (V4 ip (nat_of_bytes (take 2 (drop 2 mem))))"
    and "valid_addr (V6 (segments (take 16 (drop 8 mem))) (nat_of_bytes (take 2 (drop 2 mem)))
      (unat (x :: u32)))"
    using two_bytes(2) [of "take 2 (drop 2 mem)"] segments_ok [of "take 16 (drop 8 mem)" 8] assms
    by auto
qed

section \<open>Percent encoding\<close>

lemma char_of_inject: "\<lbrakk>m < 256; n < 256\<rbrakk> \<Longrightarrow> char_of m = char_of n \<longleftrightarrow> m = (n :: nat)"
  by (metis mod_less of_char_of)

lemma hex_char_inject: "\<lbrakk>a < 16; b < 16\<rbrakk> \<Longrightarrow> hex_char a = hex_char b \<longleftrightarrow> a = b"
  by (auto simp: hex_char_def char_of_inject split: if_splits)

lemma byte_less: "unat (b :: byte) < 256"
  using unsigned_less [of b] by simp

lemma byte_eqI: "unat a = unat b \<Longrightarrow> a = (b :: byte)"
  by (metis word_eq_iff_unsigned)

lemma unat_mod_byte: "unat a mod 256 = unat b mod 256 \<longleftrightarrow> a = (b :: byte)"
  using byte_eqI byte_less by (metis mod_less)

lemma hex2_inject: "hex2 a = hex2 b \<longleftrightarrow> a = b"
proof
  assume "hex2 a = hex2 b"
  then have "unat a div 16 = unat b div 16" and "unat a mod 16 = unat b mod 16"
    using byte_less [of a] byte_less [of b]
    by (simp_all add: hex2_def hex_char_inject less_mult_imp_div_less)
  then have "unat a = unat b" by (metis div_mult_mod_eq)
  then show "a = b" by (rule byte_eqI)
qed simp

lemma char_of_unat_inject: "char_of (unat a) = (char_of (unat b) :: char) \<longleftrightarrow> a = (b :: byte)"
  by (auto simp: char_of_inject byte_less intro: byte_eqI)

lemma percent_char: "char_of (unat (b :: byte)) = CHR ''%'' \<longleftrightarrow> b = 37"
proof -
  have "CHR ''%'' = char_of (unat (37 :: byte))"
    using char_of_char [of "CHR ''%''", where ?'a = nat] by simp
  then show ?thesis by (simp only: char_of_unat_inject)
qed

lemma percent_encode_simps [simp]:
  "percent_encode [] = []"
  "percent_encode (b # bs) =
     (if is_ascii_graphic b then [char_of (unat b)] else ''%'' @ hex2 b) @ percent_encode bs"
  by (simp_all add: percent_encode_def)

lemma percent_encode_inject:
  "\<lbrakk>37 \<notin> set a; 37 \<notin> set b\<rbrakk> \<Longrightarrow> percent_encode a = percent_encode b \<longleftrightarrow> a = b"
proof (induction a arbitrary: b)
  case Nil
  then show ?case by (cases b) auto
next
  case (Cons x a)
  then show ?case
  proof (cases b)
    case (Cons y b')
    have "x \<noteq> 37" and "y \<noteq> 37" and "37 \<notin> set b'" and "37 \<notin> set a"
      using Cons.prems Cons by auto
    moreover have "hex2 x @ c = hex2 y @ d \<longleftrightarrow> x = y \<and> c = d" for c d
      using hex2_inject by (auto simp: hex2_def)
    ultimately show ?thesis
      using Cons.IH [of b'] Cons percent_char
      by (auto simp: char_of_unat_inject unat_mod_byte dest: sym [of "CHR ''%''"])
  qed auto
qed


section \<open>Properties\<close>

definition sample_inet :: nng_sockaddr where
  "sample_inet = \<lparr>s_family = 3, in_port = 36895, in_addr = 16777343, in6_port = 0, in6_addr = [],
     in6_scope = 0, ipc_path = [], inproc_name = [], abs_len = 0, abs_name = []\<rparr>"

text \<open>
  C25. The address of a TCP pipe survives printing and parsing, from the memory of the C union to the
  parsed socket address: for each of the six schemes that \<open>parse_tcp_url\<close> accepts and for both
  internet families, the URL that \<open>Url::from_nng\<close> prints has that scheme and parses back to the
  address, port and scope that the bytes stand for in network byte order, whatever the byte order of
  the target (which only the scope is read in).
\<close>

theorem tcp_address_roundtrip:
  assumes "length mem = size_of sockaddr_type" and "utf8_valid scheme"
    and "chars_of scheme \<in> set tcp_schemes"
    and "s_family (sockaddr_of le mem) \<in> {family_value NNG_AF_INET, family_value NNG_AF_INET6}"
  shows "\<exists>url. from_nng le (sockaddr_of le mem) scheme = Inr (Some url)
    \<and> url_scheme url = Inr (chars_of scheme)
    \<and> parse_tcp_url url = Inr
        (if s_family (sockaddr_of le mem) = family_value NNG_AF_INET
         then V4 (word_of_nat (nat_of_bytes (take 4 (drop 4 mem)))) (nat_of_bytes (take 2 (drop 2 mem)))
         else V6 (segments (take 16 (drop 8 mem))) (nat_of_bytes (take 2 (drop 2 mem)))
           (unat (load_word le (take 4 (drop 4 mem)) :: u32)))"
    (is "\<exists>url. _ \<and> _ \<and> parse_tcp_url url = Inr ?a")
proof -
  have "from_nng le (sockaddr_of le mem) scheme
      = Inr (Some (chars_of scheme @ ''://'' @ show_socket_addr ?a))"
    using from_nng_memory [OF assms(1) [unfolded sockaddr_size] assms(2), of le] assms(4)
    by (cases "s_family (sockaddr_of le mem) = family_value NNG_AF_INET")
       (simp_all only: if_True if_False insert_iff empty_iff simp_thms)
  moreover have "valid_addr ?a" using valid_memory assms(1) by (simp add: sockaddr_size)
  ultimately show ?thesis
    using parse_tcp_url_show [OF assms(3)] url_scheme_append [OF tcp_scheme_no_colon [OF assms(3)]]
    by blast
qed

definition sample_mem :: "byte list" where
  "sample_mem = [3, 0, 31, 144, 127, 0, 0, 1] @ replicate 128 0"

theorem tcp_address_roundtrip_witness:
  "\<exists>url. from_nng True (sockaddr_of True sample_mem) [116, 99, 112] = Inr (Some url)
    \<and> url_scheme url = Inr ''tcp'' \<and> parse_tcp_url url = Inr (V4 2130706433 8080)"
proof -
  have tcp: "chars_of [116, 99, 112] = ''tcp''" by (simp add: text_eval)
  have fam: "s_family (sockaddr_of True sample_mem) = family_value NNG_AF_INET"
    by (simp add: sockaddr_of_def bytes_at_simps load_word_def nat_of_bytes_def sample_mem_def)
  have "length sample_mem = size_of sockaddr_type" by (simp add: sockaddr_size sample_mem_def)
  moreover have "utf8_valid [116, 99, 112]" "chars_of [116, 99, 112] \<in> set tcp_schemes"
    unfolding tcp by code_simp+
  moreover have "s_family (sockaddr_of True sample_mem)
      \<in> {family_value NNG_AF_INET, family_value NNG_AF_INET6}" by (simp add: fam)
  ultimately have "\<exists>url. from_nng True (sockaddr_of True sample_mem) [116, 99, 112] = Inr (Some url)
      \<and> url_scheme url = Inr (chars_of [116, 99, 112])
      \<and> parse_tcp_url url = Inr (V4 (word_of_nat (nat_of_bytes (take 4 (drop 4 sample_mem))))
          (nat_of_bytes (take 2 (drop 2 sample_mem))))"
    using tcp_address_roundtrip [of sample_mem "[116, 99, 112]" True]
    by (simp only: fam if_True simp_thms refl)
  moreover have "nat_of_bytes (take 4 (drop 4 sample_mem)) = 2130706433"
    and "nat_of_bytes (take 2 (drop 2 sample_mem)) = 8080"
    by (simp_all add: sample_mem_def nat_of_bytes_def)
  ultimately show ?thesis unfolding tcp by simp
qed

text \<open>
  The two crates name the path of an IPC or in-process pipe alike: the URL of \<^verbatim>\<open>anng\<close> is its
  scheme, \<^verbatim>\<open>://\<close> and the very text that \<^verbatim>\<open>nng\<close> keeps, so with the family's own scheme it is what
  \<^verbatim>\<open>nng\<close> displays; and for a path of valid UTF-8 the text is the path up to its first NUL, byte
  for byte.
\<close>

theorem crates_agree_on_paths:
  assumes "utf8_valid scheme"
    and "s_family addr = family_value NNG_AF_IPC \<and> path = ipc_path addr \<and> own = ''ipc''
      \<or> s_family addr = family_value NNG_AF_INPROC \<and> path = inproc_name addr \<and> own = ''inproc''"
  shows "\<exists>text a. from_nng le addr scheme = Inr (Some (chars_of scheme @ ''://'' @ text))
    \<and> nng_addr_from le addr = Inr a
    \<and> nng_addr_display a = own @ ''://'' @ text
    \<and> (utf8_valid (cstr path) \<longrightarrow> text = chars_of (cstr path))"
  using assms(2) from_nng_path [OF assms(1), of addr le]
  by (auto simp: nng_addr_from_def family_try_convert_from_def buf_to_string_def cstr_def
      utf8_lossy_valid)

theorem crates_agree_on_paths_witness:
  "\<exists>text a. from_nng True (sample_inet\<lparr>s_family := 2, ipc_path := [47, 97, 0, 98]\<rparr>) [105, 112, 99]
      = Inr (Some (''ipc://'' @ text))
    \<and> nng_addr_from True (sample_inet\<lparr>s_family := 2, ipc_path := [47, 97, 0, 98]\<rparr>) = Inr a
    \<and> nng_addr_display a = ''ipc://'' @ text \<and> text = ''/a''"
proof -
  let ?a = "sample_inet\<lparr>s_family := 2, ipc_path := [47, 97, 0, 98]\<rparr>"
  have chars: "chars_of [105, 112, 99] = ''ipc''" and "utf8_valid [105, 112, 99]"
    and "chars_of (cstr [47, 97, 0, 98]) = ''/a''" and "utf8_valid (cstr [47, 97, 0, 98])"
    by (simp_all add: text_eval cstr_def)
  then show ?thesis
    using crates_agree_on_paths [of "[105, 112, 99]" ?a "[47, 97, 0, 98]" "''ipc''" True]
    by auto
qed

text \<open>
  For internet addresses the crates differ.  Both report the same IP address, but \<^verbatim>\<open>nng\<close> leaves
  the port in network byte order: on a little-endian target it reports the port with its two bytes
  exchanged, the right one only when the two bytes are equal; for IPv6 it also reports scope 0.
\<close>

theorem nng_port_is_network_order:
  fixes addr :: nng_sockaddr and le :: bool
  defines "port \<equiv> \<lambda>p. unat (u16_from_be le p)"
  shows "(s_family addr = family_value NNG_AF_INET \<longrightarrow>
      (\<exists>q. nng_addr_from le addr = Inr (Inet (V4 (u32_from_be le (in_addr addr)) q))
        \<and> (if le then q = port (in_port addr) mod 256 * 256 + port (in_port addr) div 256
           else q = port (in_port addr))
        \<and> (q = port (in_port addr)
            \<longleftrightarrow> \<not> le \<or> unat (in_port addr) mod 256 = unat (in_port addr) div 256)))
    \<and> (s_family addr = family_value NNG_AF_INET6 \<and> utf8_valid scheme \<longrightarrow>
        from_nng le addr scheme = Inr (Some (chars_of scheme @ ''://'' @ show_socket_addr
            (V6 (segments (in6_addr addr)) (port (in6_port addr)) (unat (in6_scope addr)))))
        \<and> nng_addr_from le addr
            = Inr (Inet6 (V6 (segments (in6_addr addr)) (unat (in6_port addr)) 0)))"
proof -
  have swap: "unat x mod 256 * 256 + unat x div 256 = unat x
      \<longleftrightarrow> unat x mod 256 = unat x div 256" for x :: u16
  proof -
    have "256 * (n div 256) + n mod 256 = n" for n :: nat by simp
    from this [of "unat x"] show ?thesis by linarith
  qed
  have twice: "unat x = unat (swap16 x) mod 256 * 256 + unat (swap16 x) div 256" for x :: u16
    using swap16_unat [of "swap16 x"] swap16_swap16 [of x] by simp
  have v4: "nng_addr_from le addr
      = Inr (Inet (V4 (u32_from_be le (in_addr addr)) (unat (in_port addr))))"
    if "s_family addr = family_value NNG_AF_INET"
    using that by (simp add: nng_addr_from_def family_try_convert_from_def)
  have v6: "nng_addr_from le addr
      = Inr (Inet6 (V6 (segments (in6_addr addr)) (unat (in6_port addr)) 0))"
    if "s_family addr = family_value NNG_AF_INET6"
    using that by (simp add: nng_addr_from_def family_try_convert_from_def)
  have v6_url: "from_nng le addr scheme = Inr (Some (chars_of scheme @ ''://'' @ show_socket_addr
      (V6 (segments (in6_addr addr)) (port (in6_port addr)) (unat (in6_scope addr)))))"
    if "s_family addr = family_value NNG_AF_INET6" and "utf8_valid scheme"
    using that by (simp add: from_nng_def Let_def port_def)
  have "(if le then unat x = port x mod 256 * 256 + port x div 256 else unat x = port x)
      \<and> (unat x = port x \<longleftrightarrow> \<not> le \<or> unat x mod 256 = unat x div 256)" for x
    using twice [of x] swap [of x] swap16_unat [of x] by (auto simp: port_def u16_from_be_def)
  then show ?thesis using v4 v6 v6_url by blast
qed

theorem nng_port_is_network_order_witness:
  "nng_addr_from True sample_inet = Inr (Inet (V4 2130706433 36895))
    \<and> unat (u16_from_be True (in_port sample_inet)) = 8080"
proof -
  have "s_family sample_inet = family_value NNG_AF_INET"
    and "u32_from_be True (in_addr sample_inet) = 2130706433"
    and "unat (u16_from_be True (in_port sample_inet)) = 8080"
    by code_simp+
  then show ?thesis
    using nng_port_is_network_order [of sample_inet True "[]"] by auto
qed

text \<open>Abstract sockets.  \<^verbatim>\<open>nng\<close> never reports one: its family conversion knows every family except
  this one, so the address is \<^verbatim>\<open>Unspecified\<close>.  \<^verbatim>\<open>anng\<close> prints the name percent-encoded; the
  encoding tells any two names without a percent sign apart, but the percent sign itself is printed
  as it is, so the name \<^verbatim>\<open>%20\<close> and the name of one space have one URL.
\<close>

theorem abstract_addresses:
  fixes addr :: nng_sockaddr and scheme :: "byte list" and le :: bool
  shows "(\<forall>v f. family_try_convert_from v = Some f
      \<longleftrightarrow> f \<noteq> NNG_AF_ABSTRACT \<and> v = uint (family_value f))
    \<and> (s_family addr = family_value NNG_AF_ABSTRACT \<longrightarrow> nng_addr_from le addr = Inr Unspecified)
    \<and> (s_family addr = family_value NNG_AF_ABSTRACT \<and> utf8_valid scheme
        \<and> unat (abs_len addr) \<le> length (abs_name addr) \<longrightarrow>
          from_nng le addr scheme = Inr (Some (chars_of scheme @ ''://''
            @ percent_encode (take (unat (abs_len addr)) (abs_name addr)))))
    \<and> (\<forall>a b. 37 \<notin> set a \<and> 37 \<notin> set b \<longrightarrow> (percent_encode a = percent_encode b \<longleftrightarrow> a = b))
    \<and> percent_encode [37, 50, 48] = percent_encode [32]"
proof -
  have "percent_encode [37, 50, 48] = percent_encode [32]"
    by (simp add: is_ascii_graphic_def hex2_def hex_char_def char_of_eq_iff)
  moreover have "s_family addr = family_value NNG_AF_ABSTRACT \<longrightarrow>
      nng_addr_from le addr = Inr Unspecified"
    by (simp add: nng_addr_from_def family_try_convert_from_def)
  moreover have "s_family addr = family_value NNG_AF_ABSTRACT \<and> utf8_valid scheme
      \<and> unat (abs_len addr) \<le> length (abs_name addr) \<longrightarrow>
        from_nng le addr scheme = Inr (Some (chars_of scheme @ ''://''
          @ percent_encode (take (unat (abs_len addr)) (abs_name addr))))"
    by (simp add: from_nng_def Let_def)
  ultimately show ?thesis
    using family_try_convert_from_iff percent_encode_inject by blast
qed

theorem abstract_addresses_witness:
  "nng_addr_from True (sample_inet\<lparr>s_family := 5, abs_len := 2, abs_name := [97, 98]\<rparr>)
      = Inr Unspecified
    \<and> from_nng True (sample_inet\<lparr>s_family := 5, abs_len := 2, abs_name := [97, 98]\<rparr>) [120]
      = Inr (Some (''x://'' @ percent_encode [97, 98]))"
  using abstract_addresses
    [where addr = "sample_inet\<lparr>s_family := 5, abs_len := 2, abs_name := [97, 98]\<rparr>"
      and scheme = "[120]" and le = True]
  by (simp add: text_eval)

text \<open>
  \<open>Message::remote_addr\<close>: a message without a pipe has no address and NNG is not asked; a pipe
  that is gone or has no address (\<open>ENOENT\<close>, \<open>ENOTSUP\<close>, any system error) gives \<open>None\<close>; a URL is
  returned only when both calls succeeded, and then its scheme is the pipe's; the function panics
  exactly on another code, or on an address of an unknown family.
\<close>

theorem remote_addr_outcome:
  fixes addr :: nng_sockaddr and scheme :: "byte list" and le :: bool and pipe :: u32 and e :: u32
    and e' :: u32
  defines "r \<equiv> remote_addr le pipe (e, addr) (e', scheme)"
    and "absent \<equiv> \<lambda>c. c = nng_err_value ENOTSUP \<or> c = nng_err_value ENOENT"
  assumes "unat (abs_len addr) \<le> length (abs_name addr)" and "CHR '':'' \<notin> set (chars_of scheme)"
  shows "(pipe = 0 \<longrightarrow> r = Inr None)
    \<and> (e \<noteq> NNG_OK \<and> (absent e \<or> e AND NNG_ESYSERR \<noteq> 0) \<longrightarrow> r = Inr None)
    \<and> (e = NNG_OK \<and> absent e' \<longrightarrow> r = Inr None)
    \<and> (\<forall>url. r = Inr (Some url) \<longrightarrow>
        pipe \<noteq> 0 \<and> e = NNG_OK \<and> e' = NNG_OK \<and> url_scheme url = Inr (chars_of scheme))
    \<and> (r = Inl Unreachable \<longleftrightarrow> pipe \<noteq> 0
        \<and> (if e = NNG_OK then e' \<noteq> NNG_OK \<and> \<not> absent e'
           else \<not> absent e \<and> e AND NNG_ESYSERR = 0))
    \<and> (r = Inl Unimplemented \<longleftrightarrow> pipe \<noteq> 0 \<and> e = NNG_OK \<and> e' = NNG_OK \<and> utf8_valid scheme
        \<and> (\<forall>f. s_family addr \<noteq> family_value f))"
proof -
  have panics: "\<And>p. from_nng le addr scheme = Inl p \<longleftrightarrow>
      p = Unimplemented \<and> utf8_valid scheme \<and> (\<forall>f. s_family addr \<noteq> family_value f)"
    by (rule from_nng_panics_iff [OF assms(3)])
  have url: "\<And>url. from_nng le addr scheme = Inr (Some url) \<Longrightarrow>
      url_scheme url = Inr (chars_of scheme)"
    using from_nng_some url_scheme_append [OF assms(4)] by metis
  have "nng_err_value ENOENT \<noteq> NNG_OK" and "nng_err_value ENOTSUP \<noteq> NNG_OK"
    by (simp_all add: NNG_OK_def)
  moreover have "0 < pipe \<longleftrightarrow> pipe \<noteq> 0" by (simp add: word_neq_0_conv)
  ultimately show ?thesis
    using url panics
    unfolding r_def absent_def remote_addr_def msg_pipe_def
    by (auto simp: Let_def)
qed

theorem remote_addr_outcome_witness:
  "remote_addr True 0 (0, sample_inet) (0, [116, 99, 112]) = Inr None
    \<and> remote_addr True 1 (12, sample_inet) (0, [116, 99, 112]) = Inr None
    \<and> remote_addr True 1 (7, sample_inet) (0, [116, 99, 112]) = Inl Unreachable"
proof -
  have "unat (abs_len sample_inet) \<le> length (abs_name sample_inet)"
    and "CHR '':'' \<notin> set (chars_of [116, 99, 112])"
    by (simp_all add: text_eval sample_inet_def eq_commute [of _ "char_of _"])
  note outcome = remote_addr_outcome [OF this, where le = True and e' = 0]
  have "(12 :: u32) \<noteq> NNG_OK" and "(7 :: u32) \<noteq> NNG_OK" and "(7 :: u32) AND NNG_ESYSERR = 0"
    and "(1 :: u32) \<noteq> 0" and "nng_err_value ENOENT = 12" and "nng_err_value ENOTSUP = 9"
    and "(7 :: u32) \<noteq> 12" and "(7 :: u32) \<noteq> 9"
    by (simp_all add: NNG_OK_def NNG_ESYSERR_def)
  note facts = this
  have "remote_addr True 0 (0, sample_inet) (0, [116, 99, 112]) = Inr None"
    using outcome [where pipe = 0 and e = 0] by blast
  moreover have "remote_addr True 1 (12, sample_inet) (0, [116, 99, 112]) = Inr None"
    using facts outcome [where pipe = 1 and e = 12] by metis
  moreover have "remote_addr True 1 (7, sample_inet) (0, [116, 99, 112]) = Inl Unreachable"
    using facts outcome [where pipe = 1 and e = 7] by metis
  ultimately show ?thesis by blast
qed

end
