(* ===== verification/Tcp.thy ===== *)
theory Tcp
  imports Endpoint Addr
begin

text \<open>
  Listening on TCP: \<^verbatim>\<open>Socket::listen_tcp\<close>, \<^verbatim>\<open>TcpOptions\<close> and \<^verbatim>\<open>TcpListener::local_addr\<close>
  (anng/src/pipes.rs), over the listeners of theory \<open>Endpoint\<close> and the addresses of theory \<open>Addr\<close>.
\<close>

record tcp_options =
  no_delay :: bool
  keep_alive :: bool

definition tcp_options_default :: tcp_options where
  "tcp_options_default = \<lparr>no_delay = True, keep_alive = False\<rparr>"

definition NNG_OPT_TCP_NODELAY :: string where
  "NNG_OPT_TCP_NODELAY = ''tcp-nodelay''"

definition NNG_OPT_TCP_KEEPALIVE :: string where
  "NNG_OPT_TCP_KEEPALIVE = ''tcp-keepalive''"

text \<open>
  The closure that \<open>listen_tcp\<close> runs before the listener is started; \<open>set_bool\<close> is
  \<^verbatim>\<open>nng_listener_set_bool\<close>, whose results are dropped.
\<close>

definition set_tcp_options ::
  "(nat \<Rightarrow> string \<Rightarrow> bool \<Rightarrow> 'w \<Rightarrow> c_int \<times> 'w) \<Rightarrow> tcp_options \<Rightarrow> nat \<Rightarrow> 'w
     \<Rightarrow> (io_error + unit) \<times> 'w" where
  "set_tcp_options set_bool options listener w =
     (let (_, w) = set_bool listener NNG_OPT_TCP_NODELAY (no_delay options) w;
          (_, w) = set_bool listener NNG_OPT_TCP_KEEPALIVE (keep_alive options) w
      in (Inr (), w))"

definition listen_tcp ::
  "ffi_env \<Rightarrow> 'w ep_api \<Rightarrow> (nat \<Rightarrow> string \<Rightarrow> bool \<Rightarrow> 'w \<Rightarrow> c_int \<times> 'w) \<Rightarrow> nat \<Rightarrow> socket_addr
     \<Rightarrow> tcp_options \<Rightarrow> 'w \<Rightarrow> (nat, 'w) io_res" where
  "listen_tcp E W set_bool sock addr options w =
     (let url = ''tcp://'' @ show_socket_addr addr in
      if CHR 0x00 \<in> set url then Inl ExpectFailed
      else add_listener_to_socket E W sock url (set_tcp_options set_bool options) w)"

text \<open>\<open>errno\<close>, \<open>written\<close> and \<open>buf\<close> are what the C functions return, as for \<open>listener_local_addr\<close>.\<close>

definition tcp_listener_local_addr ::
  "c_int \<Rightarrow> int \<Rightarrow> byte list \<Rightarrow> (io_error + socket_addr) run" where
  "tcp_listener_local_addr errno written buf =
     run_bind (listener_local_addr errno written buf) (\<lambda>r.
       case r of Inl _ \<Rightarrow> Inl ExpectFailed | Inr url \<Rightarrow> Inr (parse_tcp_url url))"

section \<open>The text of an address\<close>

definition ascii :: "string \<Rightarrow> bool" where
  "ascii s \<longleftrightarrow> (\<forall>c\<in>set s. 33 \<le> (of_char c :: nat) \<and> (of_char c :: nat) < 127)"

lemma ascii_simps [simp]:
  "ascii []" "ascii (c # s) \<longleftrightarrow> (33 \<le> (of_char c :: nat) \<and> (of_char c :: nat) < 127) \<and> ascii s"
  "ascii (s @ t) \<longleftrightarrow> ascii s \<and> ascii t"
  by (auto simp: ascii_def)

lemma ascii_show_nat [simp]: "ascii (show_nat n)"
  unfolding ascii_def show_nat_digits
  by (auto dest!: digits_less [rotated] simp: digit_char_def)

lemma ascii_show_hex [simp]: "ascii (show_hex n)"
  unfolding ascii_def show_hex_digits
  by (auto dest!: digits_less [rotated] simp: hex_char_def)

lemma ascii_join: "\<lbrakk>ascii sep; list_all ascii xs\<rbrakk> \<Longrightarrow> ascii (join sep xs)"
  by (induction sep xs rule: join.induct) auto

lemma ascii_show_ipv4 [simp]: "ascii (show_ipv4 a)"
  unfolding show_ipv4_def by (rule ascii_join) (auto simp: octets_def)

lemma ascii_hexes: "ascii (join '':'' (map show_hex gs))"
  by (rule ascii_join) (auto simp: list_all_iff)

lemma ascii_show_ipv6 [simp]: "ascii (show_ipv6 segs)"
  by (auto simp: show_ipv6_def ascii_hexes Let_def split: prod.splits)

lemma ascii_show_socket_addr [simp]: "ascii (show_socket_addr a)"
  by (cases a) auto

lemma length_show_hex: "n < 16 ^ Suc k \<Longrightarrow> length (show_hex n) \<le> Suc k"
  using length_digits [of 16] by (simp add: show_hex_digits)

lemma length_join:
  "\<lbrakk>\<forall>x\<in>set xs. length x \<le> n; xs \<noteq> []\<rbrakk>
     \<Longrightarrow> length (join [c] xs) + 1 \<le> (n + 1) * length xs"
  by (induction "[c]" xs rule: join.induct) auto

lemma length_hexes:
  assumes "\<forall>g\<in>set gs. g < 65536"
  shows "length (join '':'' (map show_hex gs)) \<le> 5 * length gs - 1"
proof (cases "gs = []")
  case False
  have "\<forall>x\<in>set (map show_hex gs). length x \<le> 4"
    using assms length_show_hex [of _ 3] by auto
  from length_join [OF this, of "CHR '':''"] show ?thesis using False by simp
qed simp

lemma length_show_ipv4_text:
  "\<lbrakk>a < 256; b < 256; c < 256; d < 256\<rbrakk>
     \<Longrightarrow> length (join ''.'' (map show_nat [a, b, c, d])) \<le> 15"
  using length_show_nat [of a 2] length_show_nat [of b 2] length_show_nat [of c 2]
    length_show_nat [of d 2] by simp

lemma length_show_ipv6:
  assumes "length segs = 8" and small: "\<forall>g\<in>set segs. g < 65536"
  shows "length (show_ipv6 segs) \<le> 39"
proof (cases "take 6 segs = [0, 0, 0, 0, 0, 65535]")
  case True
  have "segs ! 6 < 65536" "segs ! 7 < 65536" using assms by simp_all
  then show ?thesis
    using True length_show_ipv4_text [of "segs ! 6 div 256" "segs ! 6 mod 256" "segs ! 7 div 256"
        "segs ! 7 mod 256"]
    by (simp add: show_ipv6_def less_mult_imp_div_less)
next
  case False
  obtain start n where run: "zero_run 0 (0, 0) (0, 0) segs = (start, n)" by fastforce
  have "\<forall>g\<in>set (take start segs). g < 65536" "\<forall>g\<in>set (drop (start + n) segs). g < 65536"
    using small by (auto dest: in_set_takeD in_set_dropD)
  from length_hexes [OF this(1)] length_hexes [OF this(2)] length_hexes [OF small]
  show ?thesis
    using False assms(1) zero_run_split(2) [OF run] by (simp add: show_ipv6_def run) arith
qed

lemma length_show_socket_addr: "valid_addr a \<Longrightarrow> length (show_socket_addr a) \<le> 58"
proof (cases a)
  case (V4 ip port)
  then show "valid_addr a \<Longrightarrow> ?thesis"
    using length_show_ipv4_text [of "unat ip div 16777216" "unat ip div 65536 mod 256"
        "unat ip div 256 mod 256" "unat ip mod 256"] length_show_nat [of port 4] first_octet [of ip]
    by (simp add: show_ipv4_def octets_def)
next
  case (V6 ip port scope)
  then show "valid_addr a \<Longrightarrow> ?thesis"
    using length_show_ipv6 [of ip] length_show_nat [of port 4] length_show_nat [of scope 9] by auto
qed

section \<open>Properties\<close>

lemma utf8_valid_bytes_of: "ascii s \<Longrightarrow> utf8_valid (bytes_of s)"
  by (rule utf8_valid_ascii) (auto simp: bytes_of_def ascii_def unat_of_char)

lemma tcp_scheme_text: "s \<in> set tcp_schemes \<Longrightarrow> ascii s \<and> length s \<le> 8"
  by (auto simp: tcp_schemes_def)



text \<open>
  What a TCP listener says its address is.  When NNG writes the URL of an address, for any of the
  six schemes, the address comes back, and the URL fits the 144-byte buffer.  Every failure of
  \<open>Listener::local_addr\<close> is a panic here, although the function returns a \<^verbatim>\<open>Result\<close>: the only error
  it can return is a URL that does not parse.
\<close>

theorem tcp_local_addr_outcome:
  assumes "valid_addr a" and "s \<in> set tcp_schemes" and "length buf = 144"
    and "take n buf = bytes_of (s @ ''://'' @ show_socket_addr a)" and "n \<le> 144"
  shows "tcp_listener_local_addr 0 (int n) buf = Inr (Inr a) \<and> n < 144
    \<and> (tcp_listener_local_addr errno written any = Inr (Inl e) \<longrightarrow>
        errno = 0 \<and> 0 < written \<and> written < 144
        \<and> parse_tcp_url (chars_of (take (nat written) any)) = Inl e)
    \<and> (errno \<noteq> 0 \<or> written \<le> 0 \<or> 144 \<le> written \<longrightarrow>
        \<not> returns (tcp_listener_local_addr errno written any))"
proof -
  let ?url = "s @ ''://'' @ show_socket_addr a"
  have n: "n = length ?url" using arg_cong [OF assms(4), where f = length] assms(3,5) by simp
  then have lt: "0 < n" "n < 144"
    using length_show_socket_addr [OF assms(1)] tcp_scheme_text [OF assms(2)] by auto
  have "utf8_valid (bytes_of ?url)"
    by (rule utf8_valid_bytes_of) (use tcp_scheme_text [OF assms(2)] in simp)
  then have "listener_local_addr 0 (int n) buf = Inr (Inr ?url)"
    using lt assms(4) by (simp add: listener_local_addr_def)
  then have "tcp_listener_local_addr 0 (int n) buf = Inr (Inr a)"
    by (simp add: tcp_listener_local_addr_def parse_tcp_url_show [OF assms(2,1)]
        del: append_Cons append_assoc)
  with lt show ?thesis
    by (auto simp: tcp_listener_local_addr_def listener_local_addr_def split: if_splits)
qed

definition sample_buf :: "byte list" where
  "sample_buf = bytes_of (''tcp://'' @ show_socket_addr (V4 2130706433 8080)) @ replicate 124 0"

theorem tcp_local_addr_outcome_witness:
  "tcp_listener_local_addr 0 20 sample_buf = Inr (Inr (V4 2130706433 8080))"
proof -
  have len: "length (show_socket_addr (V4 2130706433 8080)) = 14"
    by (simp add: show_ipv4_def octets_def show_nat.simps)
  have "take 20 sample_buf = bytes_of (''tcp://'' @ show_socket_addr (V4 2130706433 8080))"
    and "length sample_buf = 144"
    using len by (simp_all add: sample_buf_def del: show_socket_addr.simps append_Cons)
  then show ?thesis
    using tcp_local_addr_outcome [of "V4 2130706433 8080" "''tcp''" sample_buf 20]
    by (simp add: tcp_schemes_def)
qed

end
