(* ===== verification/Text.thy ===== *)
theory Text
  imports Prelude "HOL-Library.Sublist"
begin

text \<open>
  The string functions of the standard library that the build script and the example programs use.
  Strings are lists of bytes; the functions that look for whitespace know the ASCII one, except
  \<open>trim_utf8\<close>.
\<close>

section \<open>Strings\<close>

definition to_upper :: "char \<Rightarrow> char" where
  "to_upper c = (let k = of_char c :: nat in if 97 \<le> k \<and> k \<le> 122 then char_of (k - 32) else c)"

definition to_lower :: "char \<Rightarrow> char" where
  "to_lower c = (let k = of_char c :: nat in if 65 \<le> k \<and> k \<le> 90 then char_of (k + 32) else c)"

definition replace_dash :: "char \<Rightarrow> char" where
  "replace_dash c = (if c = CHR ''-'' then CHR ''_'' else c)"

definition is_whitespace :: "char \<Rightarrow> bool" where
  "is_whitespace c = (let k = of_char c :: nat in k = 32 \<or> (9 \<le> k \<and> k \<le> 13))"

definition strip_prefix :: "string \<Rightarrow> string \<Rightarrow> string option" where
  "strip_prefix p s = (if prefix p s then Some (drop (length p) s) else None)"

text \<open>\<open>split(sep)\<close>: the pieces between separators, one more than there are separators.\<close>

fun split_on :: "char \<Rightarrow> string \<Rightarrow> string list" where
  "split_on sep [] = [[]]"
| "split_on sep (c # cs) =
     (if c = sep then [] # split_on sep cs
      else (case split_on sep cs of [] \<Rightarrow> [[c]] | w # ws \<Rightarrow> (c # w) # ws))"

text \<open>\<open>split_whitespace()\<close>: the nonempty pieces between whitespace.\<close>

fun words_from :: "string \<Rightarrow> string \<Rightarrow> string list" where
  "words_from acc [] = (if acc = [] then [] else [acc])"
| "words_from acc (c # cs) =
     (if is_whitespace c then (if acc = [] then words_from [] cs else acc # words_from [] cs)
      else words_from (acc @ [c]) cs)"

definition split_whitespace :: "string \<Rightarrow> string list" where
  "split_whitespace s = words_from [] s"

text \<open>\<open>trim()\<close>\<close>

definition trim :: "string \<Rightarrow> string" where
  "trim s = rev (dropWhile is_whitespace (rev (dropWhile is_whitespace s)))"

text \<open>\<open>Path::join\<close>\<close>

definition path_join :: "string \<Rightarrow> string \<Rightarrow> string" where
  "path_join p q =
     (if prefix ''/'' q then q
      else if p = [] \<or> last p = CHR ''/'' then p @ q
      else p @ ''/'' @ q)"

text \<open>
  \<^verbatim>\<open>str::trim\<close> on UTF-8 text: every code point with the property \<^verbatim>\<open>White_Space\<close> as its bytes.  A
  character of valid text is a white space exactly when its bytes are one of these.
\<close>

definition white_space :: "string list" where
  "white_space =
     map (\<lambda>k. [char_of k]) [9, 10, 11, 12, 13, 32 :: nat]
     @ map (\<lambda>k. map char_of [194, k]) [0x85, 0xA0 :: nat]
     @ [map char_of [0xE1, 0x9A, 0x80 :: nat]]
     @ map (\<lambda>k. map char_of [0xE2, 0x80, k]) ([0x80..<0x8B] @ [0xA8, 0xA9, 0xAF :: nat])
     @ [map char_of [0xE2, 0x81, 0x9F :: nat], map char_of [0xE3, 0x80, 0x80 :: nat]]"

lemma white_space_nonempty: "w \<in> set white_space \<Longrightarrow> w \<noteq> []"
  by (auto simp: white_space_def)

function trim_with ::
  "(string \<Rightarrow> string \<Rightarrow> bool) \<Rightarrow> (nat \<Rightarrow> string \<Rightarrow> string) \<Rightarrow> string \<Rightarrow> string" where
  "trim_with at_end strip s =
     (case find (\<lambda>w. at_end w s) white_space of
        None \<Rightarrow> s
      | Some w \<Rightarrow>
          (let r = strip (length w) s in
           if length r < length s then trim_with at_end strip r else s))"
  by pat_completeness auto
termination by (relation "measure (\<lambda>(_, _, s). length s)") auto

declare trim_with.simps [simp del]

definition trim_utf8 :: "string \<Rightarrow> string" where
  "trim_utf8 s =
     trim_with suffix (\<lambda>n s. take (length s - n) s) (trim_with prefix drop s)"

text \<open>\<^verbatim>\<open>str::parse\<close> for an unsigned type whose largest value is \<open>limit\<close>, and \<^verbatim>\<open>ParseIntError\<close>.\<close>

datatype parse_int_error = EmptyInt | InvalidDigit | PosOverflow

fun parse_int_error_display :: "parse_int_error \<Rightarrow> string" where
  "parse_int_error_display EmptyInt = ''cannot parse integer from empty string''"
| "parse_int_error_display InvalidDigit = ''invalid digit found in string''"
| "parse_int_error_display PosOverflow = ''number too large to fit in target type''"

fun parse_digits :: "nat \<Rightarrow> nat \<Rightarrow> string \<Rightarrow> parse_int_error + nat" where
  "parse_digits limit acc [] = Inr acc"
| "parse_digits limit acc (c # cs) =
     (case char_digit c of
        None \<Rightarrow> Inl InvalidDigit
      | Some d \<Rightarrow>
          if limit < 10 * acc + d then Inl PosOverflow else parse_digits limit (10 * acc + d) cs)"

definition parse_uint :: "nat \<Rightarrow> string \<Rightarrow> parse_int_error + nat" where
  "parse_uint limit s =
     (case s of
        [] \<Rightarrow> Inl EmptyInt
      | c # cs \<Rightarrow> parse_digits limit 0 (if c = CHR ''+'' \<and> cs \<noteq> [] then cs else s))"

lemma parse_digits_append:
  "parse_digits limit acc (xs @ ys) =
     (case parse_digits limit acc xs of Inl e \<Rightarrow> Inl e | Inr a \<Rightarrow> parse_digits limit a ys)"
  by (induction limit acc xs rule: parse_digits.induct) (auto split: option.splits)

lemma parse_digits_show_nat:
  "parse_digits limit 0 (show_nat n) =
     (if n \<le> limit then Inr n else Inl PosOverflow)"
proof (induction n rule: show_nat.induct)
  case (1 n)
  show ?case
  proof (cases "n < 10")
    case True
    then show ?thesis by (simp add: show_nat.simps [of n])
  next
    case False
    then show ?thesis
      using 1 div_le_dividend [of n 10] by (auto simp: show_nat.simps [of n] parse_digits_append)
  qed
qed

lemma parse_uint_show_nat [simp]:
  "parse_uint limit (show_nat n) = (if n \<le> limit then Inr n else Inl PosOverflow)"
proof -
  obtain c cs where c: "show_nat n = c # cs" using show_nat_nonempty by (cases "show_nat n") auto
  then have "c \<in> digit_char ` {0..<10}" using set_show_nat [of n] by auto
  then obtain d where "d < 10" "char_digit c = Some d" by auto
  then have "c \<noteq> CHR ''+''" by (auto simp: char_digit_def)
  then show ?thesis using c parse_digits_show_nat [of limit n] by (simp add: parse_uint_def)
qed

text \<open>\<^verbatim>\<open>str::parse::<u64>().ok()\<close>\<close>

definition parse_u64 :: "string \<Rightarrow> nat option" where
  "parse_u64 s = (case parse_uint (2 ^ 64 - 1) s of Inl _ \<Rightarrow> None | Inr n \<Rightarrow> Some n)"

lemma parse_u64_show [simp]: "parse_u64 (show_nat n) = (if n < 2 ^ 64 then Some n else None)"
  by (simp add: parse_u64_def)

end
