(* ===== verification/BuildScript.thy ===== *)
theory BuildScript
  imports Text
begin

text \<open>
  The build script of \<^verbatim>\<open>nng-sys\<close> (nng-sys/build.rs): where the NNG library comes from, which
  directives it prints for cargo, and when it panics.  The machine it runs on is a record: the
  environment, the files that exist, the compile-time features, and the programs and libraries that
  the script calls (the compiler probe, pkg-config, vcpkg, git, cmake, bindgen and the preprocessor).
  Each of those reads the whole environment and prints lines of its own on the script's output, as
  \<^verbatim>\<open>cc\<close>, pkg-config and cmake do.  Paths are those of Unix; strings are ASCII.
\<close>

section \<open>The machine\<close>

record features =
  vendored :: bool
  vendored_stats :: bool
  tls :: bool
  bindgen :: bool
  msvc :: bool
  windows :: bool
  unix :: bool

type_synonym env = "(string \<times> string) list"

text \<open>
  What a program or library answers, as a function of the environment it inherits: the lines it
  prints and its result.  \<open>cmake_build\<close> answers where it installed NNG and whether there is a
  directory \<^verbatim>\<open>lib64\<close> there, or \<open>None\<close> when the \<^verbatim>\<open>cmake\<close> crate panics.
\<close>

type_synonym 'a tool = "env \<Rightarrow> string list \<times> 'a"

record machine =
  env_vars :: env
  path_exists :: "string \<Rightarrow> bool"
  cfg :: features
  min_version :: "bool tool"
  compile_probe :: "bool tool"
  pkg_config :: "string list option tool"
  vcpkg :: "string list option tool"
  git_submodule :: "bool tool"
  cmake_build :: "bool \<Rightarrow> (string \<times> string) list \<Rightarrow> (string \<times> bool) option tool"
  bindgen_ok :: "string list \<Rightarrow> bool tool"
  copy_ok :: bool
  expand_header :: "string list \<Rightarrow> string list option tool"

text \<open>
  A script prints lines and then returns or panics; what it printed stays.  All lines go to the same
  output, which cargo reads; the model keeps whose line each is.
\<close>

datatype printed = Script string | Tool string

type_synonym 'a script = "printed list \<times> 'a run"

definition ret :: "'a \<Rightarrow> 'a script" where
  "ret x = ([], Inr x)"

definition fail :: "panic \<Rightarrow> 'a script" where
  "fail p = ([], Inl p)"

definition say :: "string \<Rightarrow> unit script" where
  "say l = ([Script l], Inr ())"

definition andthen :: "'a script \<Rightarrow> ('a \<Rightarrow> 'b script) \<Rightarrow> 'b script" where
  "andthen m f =
     (case m of (out, Inl p) \<Rightarrow> (out, Inl p) | (out, Inr x) \<Rightarrow> (let (out', r) = f x in (out @ out', r)))"

fun say_all :: "string list \<Rightarrow> unit script" where
  "say_all [] = ret ()"
| "say_all (l # ls) = andthen (say l) (\<lambda>_. say_all ls)"

definition run_tool :: "machine \<Rightarrow> 'a tool \<Rightarrow> 'a script" where
  "run_tool B t = (let (out, x) = t (env_vars B) in (map Tool out, Inr x))"

definition answer :: "machine \<Rightarrow> 'a tool \<Rightarrow> 'a" where
  "answer B t = snd (t (env_vars B))"

definition expect :: "'a option \<Rightarrow> 'a script" where
  "expect x = (case x of None \<Rightarrow> fail ExpectFailed | Some y \<Rightarrow> ret y)"

lemma andthen_simps [simp]:
  "andthen (ret x) f = f x"
  "andthen (fail p) f = fail p"
  "andthen (out, Inl p) f = (out, Inl p)"
  "fst (andthen (say l) g) = Script l # fst (g ())"
  "snd (andthen (say l) g) = snd (g ())"
  "expect (Some y) = ret y"
  "expect None = fail ExpectFailed"
  "fst (ret z) = []" "snd (ret z) = Inr z"
  "fst (fail q) = []" "snd (fail q) = Inl q"
  by (simp_all add: andthen_def ret_def fail_def say_def expect_def split_beta Let_def)

lemma andthen_Inr: "andthen (out, Inr x) f = (out @ fst (f x), snd (f x))"
  by (simp add: andthen_def split_beta Let_def)

lemma run_tool_simps [simp]:
  "fst (run_tool B t) = map Tool (fst (t (env_vars B)))" "snd (run_tool B t) = Inr (answer B t)"
  "snd (andthen (run_tool B t) h) = snd (h (answer B t))"
  "fst (andthen (run_tool B t) h) = map Tool (fst (t (env_vars B))) @ fst (h (answer B t))"
  by (simp_all add: run_tool_def answer_def andthen_def split_beta Let_def)

lemma fst_say_all [simp]: "fst (say_all ls) = map Script ls"
  by (induction ls) simp_all

lemma snd_say_all [simp]: "snd (say_all ls) = Inr ()"
  by (induction ls) simp_all

declare say_all.simps [simp del]

lemma andthen_say_all [simp]:
  "fst (andthen (say_all ls) f) = map Script ls @ fst (f ())" "snd (andthen (say_all ls) f) = snd (f ())"
  by (simp_all add: andthen_def split_beta split: sum.split)

section \<open>Environment variables\<close>

definition ENV_VARS :: "string list" where
  "ENV_VARS = [''NNG_DIR'', ''NNG_LIB_DIR'', ''NNG_INCLUDE_DIR'', ''NNG_STATIC'', ''NNG_NO_VENDOR'']"

definition env_var :: "machine \<Rightarrow> string \<Rightarrow> string option" where
  "env_var B name = map_of (env_vars B) name"

definition target_prefixed :: "string \<Rightarrow> string \<Rightarrow> string" where
  "target_prefixed target name = map (to_upper \<circ> replace_dash) target @ ''_'' @ name"

definition get_env_var :: "machine \<Rightarrow> string \<Rightarrow> string option script" where
  "get_env_var B name =
     andthen (expect (env_var B ''TARGET'')) (\<lambda>target.
       ret (case env_var B (target_prefixed target name) of Some v \<Rightarrow> Some v | None \<Rightarrow> env_var B name))"

definition truthy :: "string \<Rightarrow> bool" where
  "truthy v \<longleftrightarrow> v \<noteq> ''0'' \<and> map to_lower v \<noteq> ''false''"

definition force_no_vendor :: "machine \<Rightarrow> bool script" where
  "force_no_vendor B =
     andthen (get_env_var B ''NNG_NO_VENDOR'') (\<lambda>v.
       ret (case v of Some v \<Rightarrow> truthy v | None \<Rightarrow> False))"

definition should_link_static :: "machine \<Rightarrow> bool \<Rightarrow> bool script" where
  "should_link_static B vend =
     andthen (get_env_var B ''NNG_STATIC'') (\<lambda>v.
       ret (case v of Some v \<Rightarrow> truthy v | None \<Rightarrow> vend))"

section \<open>Finding a library on the system\<close>

datatype library_source = Vendored | PkgConfig | Vcpkg | Manual

text \<open>The include directories named by \<^verbatim>\<open>-I\<close> in the words of CFLAGS.\<close>

fun include_flags :: "string list \<Rightarrow> string list" where
  "include_flags [] = []"
| "include_flags (flag # rest) =
     (case strip_prefix ''-I'' flag of
        None \<Rightarrow> include_flags rest
      | Some [] \<Rightarrow> (case rest of [] \<Rightarrow> [] | next_path # rest' \<Rightarrow> next_path # include_flags rest')
      | Some path \<Rightarrow> path # include_flags rest)"

definition homebrew_prefixes :: "string list" where
  "homebrew_prefixes = [''/opt/homebrew'', ''/opt/local'']"

fun contains :: "string \<Rightarrow> string \<Rightarrow> bool" where
  "contains p [] \<longleftrightarrow> p = []"
| "contains p (c # cs) \<longleftrightarrow> prefix p (c # cs) \<or> contains p cs"

definition found_at :: "string \<Rightarrow> (library_source \<times> string list) option script" where
  "found_at pre =
     andthen (say_all
       [''cargo:warning=found NNG in Homebrew location: '' @ pre,
        ''cargo:rustc-link-search=native='' @ path_join pre ''lib'',
        ''cargo:include='' @ path_join pre ''include'',
        ''cargo:root='' @ pre]) (\<lambda>_. ret (Some (Manual, [path_join pre ''include''])))"

definition try_platform_specific_paths :: "machine \<Rightarrow> (library_source \<times> string list) option script" where
  "try_platform_specific_paths B =
     andthen (run_tool B (compile_probe B)) (\<lambda>found.
      if found then
        andthen (say ''cargo:warning=found NNG via system compiler defaults'') (\<lambda>_.
        andthen (get_env_var B ''CFLAGS'') (\<lambda>cflags.
          ret (Some (Manual, include_flags (split_whitespace (case cflags of None \<Rightarrow> [] | Some v \<Rightarrow> v))))))
      else
        andthen (expect (env_var B ''TARGET'')) (\<lambda>target.
          if contains ''darwin'' target then
            (case filter (\<lambda>p. path_exists B (path_join p ''include/nng/nng.h'')) homebrew_prefixes of
               [] \<Rightarrow> ret None
             | pre # _ \<Rightarrow> found_at pre)
          else ret None))"

definition try_pkg_config :: "machine \<Rightarrow> (library_source \<times> string list) option script" where
  "try_pkg_config B =
     (if unix (cfg B) then
        andthen (run_tool B (pkg_config B)) (\<lambda>lib.
          case lib of
            None \<Rightarrow> ret None
          | Some inc \<Rightarrow>
             andthen (say ''cargo:warning=found NNG via pkg-config'') (\<lambda>_. ret (Some (PkgConfig, inc))))
      else ret None)"

definition try_vcpkg :: "machine \<Rightarrow> (library_source \<times> string list) option script" where
  "try_vcpkg B =
     (if msvc (cfg B) then
        andthen (run_tool B (vcpkg B)) (\<lambda>lib.
          case lib of
            None \<Rightarrow> ret None
          | Some inc \<Rightarrow> andthen (say ''cargo:warning=found NNG via vcpkg'') (\<lambda>_. ret (Some (Vcpkg, inc))))
      else ret None)"

definition use_nng_dir :: "machine \<Rightarrow> string \<Rightarrow> (library_source \<times> string list) option script" where
  "use_nng_dir B dir =
     (if \<not> path_exists B dir then fail Explicit
      else
        andthen (say_all
          [''cargo:warning=using NNG from NNG_DIR: '' @ dir,
           ''cargo:rustc-link-search=native='' @ path_join dir ''lib'',
           ''cargo:include='' @ path_join dir ''include'',
           ''cargo:root='' @ dir]) (\<lambda>_. ret (Some (Manual, [path_join dir ''include'']))))"

definition use_lib_dir :: "machine \<Rightarrow> string \<Rightarrow> (library_source \<times> string list) option script" where
  "use_lib_dir B lib_dir =
     andthen (get_env_var B ''NNG_INCLUDE_DIR'') (\<lambda>inc.
     andthen (expect inc) (\<lambda>inc_dir.
       if \<not> path_exists B lib_dir then fail Explicit
       else if \<not> path_exists B inc_dir then fail Explicit
       else
         andthen (say_all
           [''cargo:warning=using NNG from NNG_LIB_DIR/NNG_INCLUDE_DIR'',
            ''cargo:rustc-link-search=native='' @ lib_dir,
            ''cargo:include='' @ inc_dir]) (\<lambda>_. ret (Some (Manual, [inc_dir])))))"

definition try_find_system_library :: "machine \<Rightarrow> (library_source \<times> string list) option script" where
  "try_find_system_library B =
     andthen (get_env_var B ''NNG_DIR'') (\<lambda>dir.
       case dir of Some dir \<Rightarrow> use_nng_dir B dir
       | None \<Rightarrow>
     andthen (get_env_var B ''NNG_LIB_DIR'') (\<lambda>lib_dir.
       case lib_dir of Some lib_dir \<Rightarrow> use_lib_dir B lib_dir
       | None \<Rightarrow>
     andthen (try_pkg_config B) (\<lambda>r.
       case r of Some x \<Rightarrow> ret (Some x)
       | None \<Rightarrow>
     andthen (try_vcpkg B) (\<lambda>r.
       case r of Some x \<Rightarrow> ret (Some x)
       | None \<Rightarrow> try_platform_specific_paths B))))"

section \<open>Building the vendored sources\<close>

definition check_vendored_source :: "machine \<Rightarrow> unit script" where
  "check_vendored_source B =
     (if path_exists B ''nng/CMakeLists.txt'' then ret ()
      else if path_exists B ''.git'' then
        andthen (say ''cargo:warning=nng/CMakeLists.txt not found, attempting to initialize submodule'') (\<lambda>_.
        andthen (run_tool B (git_submodule B)) (\<lambda>ok.
          if ok then say ''cargo:warning=initialized nng submodule'' else fail Explicit))
      else fail Explicit)"

definition on_off :: "bool \<Rightarrow> string" where
  "on_off b = (if b then ''ON'' else ''OFF'')"

definition cmake_defines :: "features \<Rightarrow> bool \<Rightarrow> (string \<times> string) list" where
  "cmake_defines f static =
     [(''NNG_TESTS'', ''OFF''), (''NNG_TOOLS'', ''OFF''),
      (''NNG_ENABLE_STATS'', on_off (vendored_stats f \<or> msvc f)),
      (''NNG_ENABLE_TLS'', on_off (tls f)),
      (''NNG_ENABLE_NNGCAT'', ''OFF''), (''NNG_ENABLE_COVERAGE'', ''OFF''),
      (''BUILD_SHARED_LIBS'', on_off (\<not> static))]"

text \<open>The variables \<^verbatim>\<open>NNG_CMAKE_*\<close>, in the order of the environment; a managed name panics.\<close>

fun forward_cmake :: "string set \<Rightarrow> (string \<times> string) list \<Rightarrow> (string \<times> string) list script" where
  "forward_cmake managed [] = ret []"
| "forward_cmake managed ((key, v) # vs) =
     (case strip_prefix ''NNG_CMAKE_'' key of
        None \<Rightarrow> forward_cmake managed vs
      | Some cmake_var \<Rightarrow>
          if cmake_var \<in> managed then fail Explicit
          else
            andthen (say (''cargo:rerun-if-env-changed='' @ key)) (\<lambda>_.
            andthen (forward_cmake managed vs) (\<lambda>ds. ret ((cmake_var, v) # ds))))"

definition build_vendored :: "machine \<Rightarrow> (library_source \<times> string list) script" where
  "build_vendored B =
     andthen (should_link_static B True) (\<lambda>static.
     andthen (forward_cmake (fst ` set (cmake_defines (cfg B) static)) (env_vars B)) (\<lambda>extra.
     andthen (run_tool B (cmake_build B (msvc (cfg B)) (cmake_defines (cfg B) static @ extra))) (\<lambda>built.
     andthen (expect built) (\<lambda>(dst, lib64).
       let lib_dir = (if msvc (cfg B) then path_join dst ''build/Release''
                      else if lib64 then path_join dst ''lib64''
                      else path_join dst ''lib'');
           include_dir = path_join dst ''include'' in
       andthen (say_all
         [''cargo:rustc-link-search=native='' @ lib_dir,
          ''cargo:include='' @ include_dir,
          ''cargo:root='' @ dst,
          ''cargo:vendored=1'']) (\<lambda>_. ret (Vendored, [include_dir]))))))"

section \<open>The script\<close>

definition emit_cfg_directives :: "machine \<Rightarrow> unit script" where
  "emit_cfg_directives B =
     andthen (say ''cargo::rustc-check-cfg=cfg(try_from)'') (\<lambda>_.
     andthen (run_tool B (min_version B)) (\<lambda>recent.
       if recent then say ''cargo:rustc-cfg=try_from'' else ret ()))"

text \<open>Where the library comes from.\<close>

definition find_library :: "machine \<Rightarrow> (library_source \<times> string list) script" where
  "find_library B =
     andthen (force_no_vendor B) (\<lambda>force_system.
       if vendored (cfg B) \<and> \<not> force_system then
         andthen (check_vendored_source B) (\<lambda>_. build_vendored B)
       else
         andthen (try_find_system_library B) (\<lambda>r.
           case r of Some x \<Rightarrow> ret x | None \<Rightarrow> fail Explicit))"

definition link_lib :: "machine \<Rightarrow> library_source \<Rightarrow> unit script" where
  "link_lib B source =
     (case source of
        PkgConfig \<Rightarrow> ret ()
      | Vcpkg \<Rightarrow> ret ()
      | _ \<Rightarrow>
          andthen (should_link_static B (source = Vendored)) (\<lambda>static.
            if static then say ''cargo:rustc-link-lib=static=nng''
            else say ''cargo:rustc-link-lib=dylib=nng''))"

definition link_extras :: "features \<Rightarrow> unit script" where
  "link_extras f =
     andthen (if tls f then say_all
         [''cargo:rustc-link-lib=dylib=mbedcrypto'', ''cargo:rustc-link-lib=dylib=mbedtls'',
          ''cargo:rustc-link-lib=dylib=mbedx509''] else ret ()) (\<lambda>_.
       if windows f then say_all
         [''cargo:rustc-link-lib=advapi32'', ''cargo:rustc-link-lib=ws2_32'',
          ''cargo:rustc-link-lib=mswsock''] else ret ())"

definition generate_bindings :: "machine \<Rightarrow> string list \<Rightarrow> unit script" where
  "generate_bindings B includes =
     andthen (expect (env_var B ''OUT_DIR'')) (\<lambda>_.
     andthen (run_tool B (bindgen_ok B includes)) (\<lambda>ok.
       if ok then ret () else fail ExpectFailed))"

definition provide_bindings :: "machine \<Rightarrow> library_source \<Rightarrow> string list \<Rightarrow> unit script" where
  "provide_bindings B source includes =
     (if bindgen (cfg B) \<or> source \<noteq> Vendored then
        andthen (if \<not> bindgen (cfg B)
           then say ''cargo:warning=running bindgen when using system-provided NNG'' else ret ()) (\<lambda>_.
        generate_bindings B includes)
      else
        andthen (expect (env_var B ''CARGO_MANIFEST_DIR'')) (\<lambda>_.
        andthen (expect (env_var B ''OUT_DIR'')) (\<lambda>_.
          if copy_ok B then ret () else fail ExpectFailed)))"

text \<open>What makes cargo run the script again.\<close>

fun rerun_env :: "machine \<Rightarrow> string list \<Rightarrow> unit script" where
  "rerun_env B [] = ret ()"
| "rerun_env B (var # names) =
     andthen (say (''cargo:rerun-if-env-changed='' @ var)) (\<lambda>_.
     andthen (expect (env_var B ''TARGET'')) (\<lambda>target.
     andthen (say (''cargo:rerun-if-env-changed='' @ target_prefixed target var)) (\<lambda>_.
       rerun_env B names)))"

definition rerun_directives :: "machine \<Rightarrow> library_source \<Rightarrow> unit script" where
  "rerun_directives B source =
     andthen (say ''cargo:rerun-if-changed=build.rs'') (\<lambda>_.
     andthen (if source = Vendored then say_all
         [''cargo:rerun-if-changed=nng/CMakeLists.txt'', ''cargo:rerun-if-changed=nng/include/nng/nng.h'']
       else ret ()) (\<lambda>_.
     andthen (if bindgen (cfg B) then say ''cargo:rerun-if-changed=src/wrapper.h'' else ret ()) (\<lambda>_.
       rerun_env B ENV_VARS)))"

text \<open>\<open>parse_version\<close> on what follows \<^verbatim>\<open>RUST_VERSION_\<close>; pieces after the third are ignored.\<close>

definition parse_version :: "string \<Rightarrow> (nat \<times> nat \<times> nat) script" where
  "parse_version version =
     andthen (say (''version: '' @ version)) (\<lambda>_.
       case split_on (CHR ''_'') version of
         a # b # c # _ \<Rightarrow>
           (case parse_u64 a of None \<Rightarrow> fail ExpectFailed | Some major \<Rightarrow>
           (case parse_u64 b of None \<Rightarrow> fail ExpectFailed | Some minor \<Rightarrow>
           (case parse_u64 c of None \<Rightarrow> fail ExpectFailed | Some patch \<Rightarrow>
              ret (major, minor, patch))))
       | _ \<Rightarrow> fail ExpectFailed)"

text \<open>The last line with the prefix decides.\<close>

fun find_version :: "(nat \<times> nat \<times> nat) option \<Rightarrow> string list \<Rightarrow> (nat \<times> nat \<times> nat) option script" where
  "find_version v [] = ret v"
| "find_version v (line # ls) =
     (case strip_prefix ''RUST_VERSION_'' (trim line) of
        None \<Rightarrow> find_version v ls
      | Some version \<Rightarrow> andthen (parse_version version) (\<lambda>x. find_version (Some x) ls))"

definition show_version :: "nat \<times> nat \<times> nat \<Rightarrow> string" where
  "show_version v = (case v of (a, b, c) \<Rightarrow> show_nat a @ ''.'' @ show_nat b @ ''.'' @ show_nat c)"

definition export_version :: "machine \<Rightarrow> library_source \<Rightarrow> string list \<Rightarrow> unit script" where
  "export_version B source includes =
     andthen (say ''cargo:rerun-if-changed=expando.c'') (\<lambda>_.
     andthen (run_tool B (expand_header B includes)) (\<lambda>expanded.
     andthen (expect expanded) (\<lambda>ls.
     andthen (find_version None ls) (\<lambda>v.
     andthen (expect v) (\<lambda>v.
     andthen (say (''cargo:version='' @ show_version v)) (\<lambda>_.
       if source \<noteq> Vendored then say (''cargo:warning=binding to NNG v'' @ show_version v)
       else ret ()))))))"

definition main_script :: "machine \<Rightarrow> unit script" where
  "main_script B =
     andthen (emit_cfg_directives B) (\<lambda>_.
     andthen (find_library B) (\<lambda>(source, includes).
     andthen (link_lib B source) (\<lambda>_.
     andthen (link_extras (cfg B)) (\<lambda>_.
     andthen (provide_bindings B source includes) (\<lambda>_.
     andthen (rerun_directives B source) (\<lambda>_.
       export_version B source includes))))))"

section \<open>Running scripts\<close>

lemma andthen_Inr_iff:
  "snd (andthen m f) = Inr y \<longleftrightarrow> (\<exists>x. snd m = Inr x \<and> snd (f x) = Inr y)"
  by (cases m; cases "snd m") (auto simp: andthen_def split_beta Let_def)

lemma fst_andthen: "snd m = Inr x \<Longrightarrow> fst (andthen m f) = fst m @ fst (f x)"
  by (cases m) (simp add: andthen_Inr)

lemma fst_andthen_cases:
  "fst (andthen m f) = fst m \<or> (\<exists>x. snd m = Inr x \<and> fst (andthen m f) = fst m @ fst (f x))"
  by (cases m; cases "snd m") (auto simp: andthen_Inr)

lemma expect_Inr: "snd (expect x) = Inr y \<longleftrightarrow> x = Some y"
  by (cases x) simp_all

section \<open>Which variables are announced\<close>

definition rerun_prefix :: string where
  "rerun_prefix = ''cargo:rerun-if-env-changed=''"

text \<open>The names in the script's own lines that ask cargo to watch a variable.\<close>

fun rerun_name :: "printed \<Rightarrow> string list" where
  "rerun_name (Script l) = opt_list (strip_prefix rerun_prefix l)"
| "rerun_name (Tool l) = []"

definition rerun_names :: "printed list \<Rightarrow> string list" where
  "rerun_names out = concat (map rerun_name out)"

lemma rerun_names_append [simp]: "rerun_names (a @ b) = rerun_names a @ rerun_names b"
  by (simp add: rerun_names_def)

lemma rerun_names_Nil [simp]: "rerun_names [] = []"
  by (simp add: rerun_names_def)

lemma rerun_names_Cons:
  "rerun_names (Script l # ls) = opt_list (strip_prefix rerun_prefix l) @ rerun_names ls"
  by (simp add: rerun_names_def)

lemma rerun_names_Tool [simp]: "rerun_names (map Tool ls) = []"
  by (simp add: rerun_names_def comp_def)

lemma strip_rerun: "strip_prefix rerun_prefix (''cargo:rerun-if-env-changed='' @ n) = Some n"
  by (simp add: strip_prefix_def rerun_prefix_def)

lemmas strip_rerun_eval [simp] = strip_rerun [simplified append_Cons append_Nil]

definition silent :: "'a script \<Rightarrow> bool" where
  "silent m \<longleftrightarrow> rerun_names (fst m) = []"

lemma silent_andthen: "\<lbrakk>silent m; \<And>x. silent (f x)\<rbrakk> \<Longrightarrow> silent (andthen m f)"
  using fst_andthen_cases [of m f] by (auto simp: silent_def)

lemma silent_ret: "silent (ret x)" and silent_fail: "silent (fail p)"
  and silent_expect: "silent (expect v)"
  by (simp_all add: silent_def expect_def split: option.splits)

lemma silent_tool: "silent (run_tool B t)"
  by (simp add: silent_def)

lemma silent_say: "strip_prefix rerun_prefix l = None \<Longrightarrow> silent (say l)"
  by (simp add: silent_def say_def rerun_names_Cons)

lemma silent_say_all:
  "list_all (\<lambda>l. strip_prefix rerun_prefix l = None) ls \<Longrightarrow> silent (say_all ls)"
  by (induction ls) (simp_all add: silent_def rerun_names_Cons say_all.simps)

lemma silent_if: "\<lbrakk>c \<Longrightarrow> silent m; \<not> c \<Longrightarrow> silent n\<rbrakk> \<Longrightarrow> silent (if c then m else n)"
  by simp

lemma silent_option:
  "\<lbrakk>silent m; \<And>x. silent (f x)\<rbrakk> \<Longrightarrow> silent (case v of None \<Rightarrow> m | Some x \<Rightarrow> f x)"
  by (cases v) simp_all

lemma silent_list:
  "\<lbrakk>silent m; \<And>x xs. silent (f x xs)\<rbrakk> \<Longrightarrow> silent (case v of [] \<Rightarrow> m | x # xs \<Rightarrow> f x xs)"
  by (cases v) simp_all

lemmas silent_intros = silent_andthen silent_ret silent_fail silent_expect silent_tool silent_say
  silent_say_all
  silent_if silent_option silent_list

lemmas lines_eval = strip_prefix_def rerun_prefix_def

lemma silent_get_env_var: "silent (get_env_var B n)"
  unfolding get_env_var_def by (intro silent_intros)

lemma silent_force: "silent (force_no_vendor B)" and silent_static: "silent (should_link_static B v)"
  unfolding force_no_vendor_def should_link_static_def by (intro silent_intros silent_get_env_var)+

lemma silent_platform: "silent (try_platform_specific_paths B)"
  unfolding try_platform_specific_paths_def found_at_def
  by (intro silent_intros silent_get_env_var) (simp_all add: lines_eval)

lemma silent_system: "silent (try_find_system_library B)"
  unfolding try_find_system_library_def use_nng_dir_def use_lib_dir_def try_pkg_config_def
    try_vcpkg_def
  by (intro silent_intros silent_get_env_var silent_platform) (simp_all add: lines_eval)

lemma silent_check: "silent (check_vendored_source B)"
  unfolding check_vendored_source_def by (intro silent_intros) (simp_all add: lines_eval)

lemma silent_emit: "silent (emit_cfg_directives B)"
  unfolding emit_cfg_directives_def by (intro silent_intros) (simp_all add: lines_eval)

lemma silent_link: "silent (link_lib B src)"
  unfolding link_lib_def
  by (cases src) (auto intro!: silent_intros silent_static simp: lines_eval)

lemma silent_extras: "silent (link_extras f)"
  unfolding link_extras_def by (intro silent_intros) (simp_all add: lines_eval)

lemma silent_bindings: "silent (provide_bindings B src inc)"
  unfolding provide_bindings_def generate_bindings_def
  by (intro silent_intros) (simp_all add: lines_eval)

lemma silent_parse_version: "silent (parse_version v)"
  unfolding parse_version_def by (intro silent_intros) (simp_all add: lines_eval)

lemma silent_find_version: "silent (find_version v ls)"
  by (induction ls arbitrary: v)
    (auto intro!: silent_intros silent_parse_version split: option.splits)

lemma silent_export: "silent (export_version B src inc)"
  unfolding export_version_def
  by (intro silent_intros silent_find_version) (simp_all add: lines_eval)

definition cmake_keys :: "(string \<times> string) list \<Rightarrow> string list" where
  "cmake_keys vs = filter (prefix ''NNG_CMAKE_'') (map fst vs)"

lemma forward_cmake_names:
  "snd (forward_cmake M vs) = Inr ds \<Longrightarrow> rerun_names (fst (forward_cmake M vs)) = cmake_keys vs"
proof (induction vs arbitrary: ds)
  case (Cons p vs)
  obtain k v where p: "p = (k, v)" by (cases p)
  show ?case
  proof (cases "strip_prefix ''NNG_CMAKE_'' k")
    case None
    then have "\<not> prefix ''NNG_CMAKE_'' k" by (simp add: strip_prefix_def split: if_splits)
    with None show ?thesis using Cons p by (simp add: cmake_keys_def)
  next
    case (Some c)
    then have "prefix ''NNG_CMAKE_'' k" by (simp add: strip_prefix_def split: if_splits)
    moreover have "c \<notin> M" and "\<exists>ds. snd (forward_cmake M vs) = Inr ds"
      using Cons.prems Some p by (auto simp: andthen_Inr_iff split: if_splits)
    ultimately show ?thesis
      using Cons.IH Some p by (auto simp: fst_andthen rerun_names_Cons cmake_keys_def)
  qed
qed (simp add: cmake_keys_def)

lemma build_vendored_names:
  assumes "snd (build_vendored B) = Inr r"
  shows "fst r = Vendored \<and> rerun_names (fst (build_vendored B)) = cmake_keys (env_vars B)"
proof -
  obtain st ds dst lib64 where st: "snd (should_link_static B True) = Inr st"
    and ds: "snd (forward_cmake (fst ` set (cmake_defines (cfg B) st)) (env_vars B)) = Inr ds"
    and built: "answer B (cmake_build B (msvc (cfg B)) (cmake_defines (cfg B) st @ ds)) = Some (dst, lib64)"
    and r: "fst r = Vendored"
    using assms by (auto simp: build_vendored_def andthen_Inr_iff expect_Inr Let_def)
  have "silent (should_link_static B True)" by (rule silent_static)
  then show ?thesis
    using forward_cmake_names [OF ds] r
    by (simp add: build_vendored_def fst_andthen [OF st] fst_andthen [OF ds] built Let_def silent_def
        rerun_names_Cons lines_eval)
qed

lemma find_library_names:
  assumes "snd (find_library B) = Inr (src, inc)"
  shows "rerun_names (fst (find_library B)) = (if src = Vendored then cmake_keys (env_vars B) else [])"
proof -
  obtain fs where fs: "snd (force_no_vendor B) = Inr fs"
    using assms by (auto simp: find_library_def andthen_Inr_iff)
  note q = silent_force [of B, unfolded silent_def] silent_check [of B, unfolded silent_def]
    silent_system [of B, unfolded silent_def]
  show ?thesis
  proof (cases "vendored (cfg B) \<and> \<not> fs")
    case True
    then have c: "snd (check_vendored_source B) = Inr ()" and "snd (build_vendored B) = Inr (src, inc)"
      using assms fs by (auto simp: find_library_def andthen_Inr_iff)
    from build_vendored_names [OF this(2)] True q show ?thesis
      by (simp add: find_library_def fst_andthen [OF fs] fst_andthen [OF c])
  next
    case False
    then obtain r where r: "snd (try_find_system_library B) = Inr (Some r)" "r = (src, inc)"
      using assms fs by (auto simp: find_library_def andthen_Inr_iff split: option.splits)
    have "src \<noteq> Vendored"
      using r by (auto simp: try_find_system_library_def use_nng_dir_def use_lib_dir_def
          try_pkg_config_def try_vcpkg_def try_platform_specific_paths_def found_at_def
          andthen_Inr_iff split: option.splits if_splits list.splits)
    with False q r show ?thesis
      by (auto simp: find_library_def fst_andthen [OF fs] fst_andthen [OF r(1)])
  qed
qed

lemma rerun_env_names:
  assumes "env_var B ''TARGET'' = Some t"
  shows "rerun_names (fst (rerun_env B vs)) = concat (map (\<lambda>v. [v, target_prefixed t v]) vs)
     \<and> snd (rerun_env B vs) = Inr ()"
  using assms by (induction vs) (simp_all add: rerun_names_Cons)

lemma rerun_directives_names:
  assumes "env_var B ''TARGET'' = Some t"
  shows "rerun_names (fst (rerun_directives B src)) = concat (map (\<lambda>v. [v, target_prefixed t v]) ENV_VARS)"
  using rerun_env_names [OF assms, of ENV_VARS]
  by (cases "src = Vendored"; cases "bindgen (cfg B)")
    (simp_all add: rerun_directives_def rerun_names_Cons lines_eval del: rerun_env.simps)

lemma find_library_target:
  "snd (find_library B) = Inr r \<Longrightarrow> \<exists>t. env_var B ''TARGET'' = Some t"
  by (auto simp: find_library_def force_no_vendor_def get_env_var_def andthen_Inr_iff expect_Inr)

text \<open>The announced variables of a build that succeeds.\<close>

definition announced :: "machine \<Rightarrow> library_source \<Rightarrow> string list" where
  "announced B src =
     (if src = Vendored then cmake_keys (env_vars B) else [])
     @ concat (map (\<lambda>v. [v, target_prefixed (the (env_var B ''TARGET'')) v]) ENV_VARS)"

lemma main_script_names:
  assumes "snd (main_script B) = Inr ()"
  shows "\<exists>src inc. snd (find_library B) = Inr (src, inc)
     \<and> rerun_names (fst (main_script B)) = announced B src"
proof -
  obtain src inc where e: "snd (emit_cfg_directives B) = Inr ()" and f: "snd (find_library B) = Inr (src, inc)"
    and l: "snd (link_lib B src) = Inr ()" and x: "snd (link_extras (cfg B)) = Inr ()"
    and p: "snd (provide_bindings B src inc) = Inr ()" and r: "snd (rerun_directives B src) = Inr ()"
    using assms by (auto simp: main_script_def andthen_Inr_iff)
  obtain t where t: "env_var B ''TARGET'' = Some t" using find_library_target [OF f] by blast
  note quiet = silent_emit [of B, unfolded silent_def] silent_link [of B src, unfolded silent_def]
    silent_extras [of "cfg B", unfolded silent_def] silent_bindings [of B src inc, unfolded silent_def]
    silent_export [of B src inc, unfolded silent_def]
  have "fst (main_script B) = fst (emit_cfg_directives B) @ fst (find_library B) @ fst (link_lib B src)
     @ fst (link_extras (cfg B)) @ fst (provide_bindings B src inc) @ fst (rerun_directives B src)
     @ fst (export_version B src inc)"
    by (simp add: main_script_def fst_andthen [OF e] fst_andthen [OF f] fst_andthen [OF l]
        fst_andthen [OF x] fst_andthen [OF p] fst_andthen [OF r])
  then show ?thesis
    using f t find_library_names [OF f] rerun_directives_names [OF t, of src] quiet
    by (simp add: announced_def)
qed

section \<open>Which variables are read\<close>

text \<open>
  The environment \<open>e\<close> has the variables that the script itself reads as the machine \<open>B\<close> has them;
  and every program the script calls prints and answers under \<open>e\<close> what it does on \<open>B\<close>.
\<close>

definition read_names :: "machine \<Rightarrow> string set" where
  "read_names B = {''TARGET'', ''OUT_DIR'', ''CARGO_MANIFEST_DIR''}
     \<union> (\<Union>v \<in> set (ENV_VARS @ [''CFLAGS'']). {v} \<union> (\<lambda>t. target_prefixed t v) ` set_option (env_var B ''TARGET''))"

definition cmake_vars :: "(string \<times> string) list \<Rightarrow> (string \<times> string) list" where
  "cmake_vars vs = filter (\<lambda>p. prefix ''NNG_CMAKE_'' (fst p)) vs"

definition env_agree :: "machine \<Rightarrow> env \<Rightarrow> bool" where
  "env_agree B e \<longleftrightarrow>
     (\<forall>n \<in> read_names B. map_of e n = env_var B n) \<and> cmake_vars e = cmake_vars (env_vars B)"

definition tools_alike :: "machine \<Rightarrow> env \<Rightarrow> bool" where
  "tools_alike B e \<longleftrightarrow>
     min_version B e = min_version B (env_vars B)
     \<and> compile_probe B e = compile_probe B (env_vars B)
     \<and> pkg_config B e = pkg_config B (env_vars B)
     \<and> vcpkg B e = vcpkg B (env_vars B)
     \<and> git_submodule B e = git_submodule B (env_vars B)
     \<and> (\<forall>release ds. cmake_build B release ds e = cmake_build B release ds (env_vars B))
     \<and> (\<forall>inc. bindgen_ok B inc e = bindgen_ok B inc (env_vars B))
     \<and> (\<forall>inc. expand_header B inc e = expand_header B inc (env_vars B))"

lemma tools_agree:
  assumes "tools_alike B e"
  shows "run_tool (B\<lparr>env_vars := e\<rparr>) (min_version B) = run_tool B (min_version B)"
    and "run_tool (B\<lparr>env_vars := e\<rparr>) (compile_probe B) = run_tool B (compile_probe B)"
    and "run_tool (B\<lparr>env_vars := e\<rparr>) (pkg_config B) = run_tool B (pkg_config B)"
    and "run_tool (B\<lparr>env_vars := e\<rparr>) (vcpkg B) = run_tool B (vcpkg B)"
    and "run_tool (B\<lparr>env_vars := e\<rparr>) (git_submodule B) = run_tool B (git_submodule B)"
    and "run_tool (B\<lparr>env_vars := e\<rparr>) (cmake_build B r ds) = run_tool B (cmake_build B r ds)"
    and "run_tool (B\<lparr>env_vars := e\<rparr>) (bindgen_ok B inc) = run_tool B (bindgen_ok B inc)"
    and "run_tool (B\<lparr>env_vars := e\<rparr>) (expand_header B inc) = run_tool B (expand_header B inc)"
  using assms by (simp_all add: tools_alike_def run_tool_def)

lemma forward_cmake_filter: "forward_cmake M (cmake_vars vs) = forward_cmake M vs"
  by (induction vs) (auto simp: cmake_vars_def strip_prefix_def)

lemma env_var_with [simp]: "env_var (B\<lparr>env_vars := e\<rparr>) n = map_of e n"
  by (simp add: env_var_def)

lemma get_env_var_agree:
  assumes "env_agree B e" and "n \<in> set (ENV_VARS @ [''CFLAGS''])"
  shows "get_env_var (B\<lparr>env_vars := e\<rparr>) n = get_env_var B n"
proof -
  let ?B = "B\<lparr>env_vars := e\<rparr>"
  have t: "env_var ?B ''TARGET'' = env_var B ''TARGET''" and n: "env_var ?B n = env_var B n"
    using assms by (auto simp: env_agree_def read_names_def)
  have "env_var ?B (target_prefixed t n) = env_var B (target_prefixed t n)"
    if "env_var B ''TARGET'' = Some t" for t
    using assms that unfolding env_agree_def read_names_def by auto
  then show ?thesis
    by (cases "env_var B ''TARGET''") (simp_all add: get_env_var_def t n del: env_var_with cong: option.case_cong)
qed

lemma agree_reads:
  assumes "env_agree B e"
  shows "get_env_var (B\<lparr>env_vars := e\<rparr>) ''NNG_DIR'' = get_env_var B ''NNG_DIR''"
    and "get_env_var (B\<lparr>env_vars := e\<rparr>) ''NNG_LIB_DIR'' = get_env_var B ''NNG_LIB_DIR''"
    and "get_env_var (B\<lparr>env_vars := e\<rparr>) ''NNG_INCLUDE_DIR'' = get_env_var B ''NNG_INCLUDE_DIR''"
    and "get_env_var (B\<lparr>env_vars := e\<rparr>) ''NNG_STATIC'' = get_env_var B ''NNG_STATIC''"
    and "get_env_var (B\<lparr>env_vars := e\<rparr>) ''NNG_NO_VENDOR'' = get_env_var B ''NNG_NO_VENDOR''"
    and "get_env_var (B\<lparr>env_vars := e\<rparr>) ''CFLAGS'' = get_env_var B ''CFLAGS''"
    and "map_of e ''TARGET'' = env_var B ''TARGET''"
    and "map_of e ''OUT_DIR'' = env_var B ''OUT_DIR''"
    and "map_of e ''CARGO_MANIFEST_DIR'' = env_var B ''CARGO_MANIFEST_DIR''"
    and "forward_cmake M e = forward_cmake M (env_vars B)"
proof -
  show "forward_cmake M e = forward_cmake M (env_vars B)"
    using assms forward_cmake_filter unfolding env_agree_def by metis
qed (use assms get_env_var_agree [OF assms] in \<open>simp_all add: ENV_VARS_def env_agree_def read_names_def\<close>)

lemma rerun_env_agree: "env_agree B e \<Longrightarrow> rerun_env (B\<lparr>env_vars := e\<rparr>) vs = rerun_env B vs"
  by (induction vs) (simp_all add: agree_reads)

lemma static_agree: "env_agree B e \<Longrightarrow> should_link_static (B\<lparr>env_vars := e\<rparr>) v = should_link_static B v"
  by (simp add: should_link_static_def agree_reads)

lemma library_agree:
  assumes "env_agree B e" and "tools_alike B e"
  shows "find_library (B\<lparr>env_vars := e\<rparr>) = find_library B"
proof -
  let ?B = "B\<lparr>env_vars := e\<rparr>"
  note agree = agree_reads [OF assms(1)] tools_agree [OF assms(2)]
  have p: "try_platform_specific_paths ?B = try_platform_specific_paths B"
    by (simp add: try_platform_specific_paths_def agree cong: option.case_cong if_cong)
  have "try_pkg_config ?B = try_pkg_config B" "try_vcpkg ?B = try_vcpkg B"
    by (simp_all add: try_pkg_config_def try_vcpkg_def agree cong: option.case_cong if_cong)
  with p have s: "try_find_system_library ?B = try_find_system_library B"
    by (simp add: try_find_system_library_def use_nng_dir_def use_lib_dir_def agree
        cong: option.case_cong if_cong)
  have "check_vendored_source ?B = check_vendored_source B" "build_vendored ?B = build_vendored B"
    by (simp_all add: check_vendored_source_def build_vendored_def static_agree [OF assms(1)] agree)
  with s show ?thesis by (simp add: find_library_def force_no_vendor_def agree cong: if_cong)
qed

lemma link_lib_agree: "env_agree B e \<Longrightarrow> link_lib (B\<lparr>env_vars := e\<rparr>) src = link_lib B src"
  by (cases src) (simp_all add: link_lib_def static_agree)

lemma main_script_agree:
  assumes "env_agree B e" and "tools_alike B e"
  shows "main_script (B\<lparr>env_vars := e\<rparr>) = main_script B"
proof -
  let ?B = "B\<lparr>env_vars := e\<rparr>"
  note agree = agree_reads [OF assms(1)] tools_agree [OF assms(2)]
  have "emit_cfg_directives ?B = emit_cfg_directives B"
    by (simp add: emit_cfg_directives_def agree)
  moreover have "provide_bindings ?B src inc = provide_bindings B src inc" for src inc
    by (simp add: provide_bindings_def generate_bindings_def agree cong: if_cong)
  moreover have "rerun_directives ?B src = rerun_directives B src" for src
    by (simp add: rerun_directives_def rerun_env_agree [OF assms(1)])
  moreover have "export_version ?B src inc = export_version B src inc" for src inc
    by (simp add: export_version_def agree)
  ultimately show ?thesis
    by (simp add: main_script_def library_agree [OF assms] link_lib_agree [OF assms(1)])
qed

section \<open>What the choice depends on\<close>

text \<open>The value of a variable, the one of the target first.\<close>

definition lookup :: "machine \<Rightarrow> string \<Rightarrow> string option" where
  "lookup B v = (case snd (get_env_var B v) of Inr x \<Rightarrow> x | Inl _ \<Rightarrow> None)"

lemma get_env_var_lookup:
  "env_var B ''TARGET'' = Some t \<Longrightarrow> get_env_var B v = ret (lookup B v)"
  by (simp add: lookup_def get_env_var_def)

definition wants :: "machine \<Rightarrow> string \<Rightarrow> bool \<Rightarrow> bool" where
  "wants B v d = (case lookup B v of Some x \<Rightarrow> truthy x | None \<Rightarrow> d)"

lemma find_library_eq:
  assumes "env_var B ''TARGET'' = Some t"
  shows "find_library B =
     (if vendored (cfg B) \<and> \<not> wants B ''NNG_NO_VENDOR'' False
      then andthen (check_vendored_source B) (\<lambda>_. build_vendored B)
      else andthen (try_find_system_library B) (\<lambda>r. case r of Some x \<Rightarrow> ret x | None \<Rightarrow> fail Explicit))"
  by (simp add: find_library_def force_no_vendor_def get_env_var_lookup [OF assms] wants_def)

lemma system_library_eq:
  assumes "env_var B ''TARGET'' = Some t"
  shows "snd (try_find_system_library B) =
     (case lookup B ''NNG_DIR'' of
        Some d \<Rightarrow> if path_exists B d then Inr (Some (Manual, [path_join d ''include''])) else Inl Explicit
      | None \<Rightarrow>
     (case lookup B ''NNG_LIB_DIR'' of
        Some l \<Rightarrow>
          (case lookup B ''NNG_INCLUDE_DIR'' of
             Some i \<Rightarrow> if path_exists B l \<and> path_exists B i then Inr (Some (Manual, [i])) else Inl Explicit
           | None \<Rightarrow> Inl ExpectFailed)
      | None \<Rightarrow>
     (case (if unix (cfg B) then answer B (pkg_config B) else None) of
        Some inc \<Rightarrow> Inr (Some (PkgConfig, inc))
      | None \<Rightarrow>
     (case (if msvc (cfg B) then answer B (vcpkg B) else None) of
        Some inc \<Rightarrow> Inr (Some (Vcpkg, inc))
      | None \<Rightarrow> snd (try_platform_specific_paths B)))))"
  by (auto simp: try_find_system_library_def use_nng_dir_def use_lib_dir_def try_pkg_config_def
      try_vcpkg_def get_env_var_lookup [OF assms] andthen_def split_beta Let_def say_def ret_def
      fail_def split: option.splits)

lemma platform_source:
  "snd (try_platform_specific_paths B) = Inr (Some (src, inc)) \<Longrightarrow> src = Manual"
  by (auto simp: try_platform_specific_paths_def found_at_def andthen_Inr_iff
      split: if_splits list.splits)

lemma link_lib_eq:
  assumes "env_var B ''TARGET'' = Some t"
  shows "link_lib B src =
     (if src \<in> {PkgConfig, Vcpkg} then ret ()
      else say (if wants B ''NNG_STATIC'' (src = Vendored) then ''cargo:rustc-link-lib=static=nng''
                else ''cargo:rustc-link-lib=dylib=nng''))"
  by (cases src) (simp_all add: link_lib_def should_link_static_def get_env_var_lookup [OF assms] wants_def)

section \<open>The words of CFLAGS\<close>

datatype cflag = Joined string | Spaced string | OtherFlag string

fun render_flag :: "cflag \<Rightarrow> string" where
  "render_flag (Joined p) = ''-I'' @ p"
| "render_flag (Spaced p) = ''-I'' @ '' '' @ p"
| "render_flag (OtherFlag w) = w"

definition render_flags :: "cflag list \<Rightarrow> string" where
  "render_flags fs = concat (map (\<lambda>f. render_flag f @ '' '') fs)"

definition plain_word :: "string \<Rightarrow> bool" where
  "plain_word w \<longleftrightarrow> w \<noteq> [] \<and> list_all (\<lambda>c. \<not> is_whitespace c) w"

fun flag_ok :: "cflag \<Rightarrow> bool" where
  "flag_ok (Joined p) \<longleftrightarrow> plain_word p"
| "flag_ok (Spaced p) \<longleftrightarrow> plain_word p"
| "flag_ok (OtherFlag w) \<longleftrightarrow> plain_word w \<and> \<not> prefix ''-I'' w"

fun flag_dirs :: "cflag \<Rightarrow> string list" where
  "flag_dirs (Joined p) = [p]"
| "flag_dirs (Spaced p) = [p]"
| "flag_dirs (OtherFlag w) = []"

lemma words_from_word:
  "\<lbrakk>list_all (\<lambda>c. \<not> is_whitespace c) w; acc @ w \<noteq> []; is_whitespace c\<rbrakk> \<Longrightarrow>
     words_from acc (w @ c # cs) = (acc @ w) # words_from [] cs"
  by (induction w arbitrary: acc) auto

lemma not_ws: "\<not> is_whitespace (CHR ''-'')" "\<not> is_whitespace (CHR ''I'')" "is_whitespace (CHR '' '')"
  by (simp_all add: is_whitespace_def)

lemma words_from_plain:
  "plain_word w \<Longrightarrow> words_from [] (w @ CHR '' '' # cs) = w # words_from [] cs"
  using words_from_word [of w "[]" "CHR '' ''" cs] not_ws by (simp add: plain_word_def)

lemma include_flags_flag:
  assumes "flag_ok f"
  shows "include_flags (words_from [] (render_flag f @ '' '' @ rest))
     = flag_dirs f @ include_flags (words_from [] rest)"
proof (cases f)
  case (Joined p)
  then have "plain_word (''-I'' @ p)" and "p \<noteq> []" using assms by (auto simp: plain_word_def not_ws)
  with words_from_plain [of "''-I'' @ p" rest] Joined show ?thesis
    by (cases p) (simp_all add: strip_prefix_def)
next
  case (Spaced p)
  have "plain_word ''-I''" by (simp add: plain_word_def not_ws)
  with words_from_plain [of "''-I''" "p @ '' '' @ rest"] words_from_plain [of p rest] Spaced assms
  show ?thesis by (simp add: strip_prefix_def)
next
  case (OtherFlag w)
  with words_from_plain [of w rest] assms show ?thesis by (simp add: strip_prefix_def)
qed

section \<open>Versions\<close>

lemma split_on_plain: "sep \<notin> set w \<Longrightarrow> split_on sep (w @ sep # s) = w # split_on sep s"
  by (induction w) auto

lemma split_on_last: "sep \<notin> set w \<Longrightarrow> split_on sep w = [w]"
  by (induction w) auto

lemma digit_chars: "c \<in> set (show_nat n) \<Longrightarrow> 48 \<le> (of_char c :: nat) \<and> (of_char c :: nat) \<le> 57"
  using set_show_nat [of n] by (auto simp: digit_char_def)

lemma underscore_digit [simp]: "CHR ''_'' \<notin> set (show_nat n)"
  using digit_chars [of "CHR ''_''" n] by auto

definition version_text :: "nat \<Rightarrow> nat \<Rightarrow> nat \<Rightarrow> string" where
  "version_text a b c = show_nat a @ ''_'' @ show_nat b @ ''_'' @ show_nat c"

lemma parse_version_text:
  "parse_version (version_text a b c) =
     andthen (say (''version: '' @ version_text a b c)) (\<lambda>_.
       if a < 2 ^ 64 \<and> b < 2 ^ 64 \<and> c < 2 ^ 64 then ret (a, b, c) else fail ExpectFailed)"
  by (simp add: parse_version_def version_text_def split_on_plain split_on_last)

lemma dropWhile_hd: "\<lbrakk>w \<noteq> []; \<not> P (hd w)\<rbrakk> \<Longrightarrow> dropWhile P w = w"
  by (cases w) auto

lemma trim_id: "\<lbrakk>w \<noteq> []; \<not> is_whitespace (hd w); \<not> is_whitespace (last w)\<rbrakk> \<Longrightarrow> trim w = w"
  by (simp add: trim_def dropWhile_hd hd_rev)

lemma trim_version: "trim (''RUST_VERSION_'' @ version_text a b c) = ''RUST_VERSION_'' @ version_text a b c"
proof (rule trim_id)
  have "last (''RUST_VERSION_'' @ version_text a b c) \<in> set (show_nat c)"
    by (simp add: version_text_def)
  then show "\<not> is_whitespace (last (''RUST_VERSION_'' @ version_text a b c))"
    using digit_chars [of _ c] by (fastforce simp: is_whitespace_def Let_def)
qed (simp_all add: is_whitespace_def)

lemma find_version_skip:
  "list_all (\<lambda>l. \<not> prefix ''RUST_VERSION_'' (trim l)) ls \<Longrightarrow> find_version v (ls @ ls') = find_version v ls'"
  by (induction ls) (auto simp: strip_prefix_def)

lemma find_version_none:
  "list_all (\<lambda>l. \<not> prefix ''RUST_VERSION_'' (trim l)) ls \<Longrightarrow> find_version v ls = ret v"
  using find_version_skip [of ls v "[]"] by simp

text \<open>A machine whose compiler finds NNG by itself.\<close>

definition sample_machine :: "string \<Rightarrow> machine" where
  "sample_machine cflags = \<lparr>
     env_vars = [(''TARGET'', ''t''), (''OUT_DIR'', ''o''), (''CARGO_MANIFEST_DIR'', ''m''), (''CFLAGS'', cflags)],
     path_exists = (\<lambda>p. False),
     cfg = \<lparr>vendored = False, vendored_stats = False, tls = False, bindgen = False, msvc = False,
            windows = False, unix = True\<rparr>,
     min_version = (\<lambda>e. ([], True)),
     compile_probe = (\<lambda>e. ([], True)),
     pkg_config = (\<lambda>e. ([''cargo:rerun-if-env-changed=NNG_NO_PKG_CONFIG''], None)),
     vcpkg = (\<lambda>e. ([], None)),
     git_submodule = (\<lambda>e. ([], False)),
     cmake_build = (\<lambda>r d e. ([], None)),
     bindgen_ok = (\<lambda>i e. ([], True)),
     copy_ok = True,
     expand_header = (\<lambda>i e. ([''cargo:rerun-if-env-changed=CFLAGS''],
        Some [''RUST_VERSION_'' @ version_text 2 0 1]))\<rparr>"

lemma sample_machine_simps [simp]:
  "env_var (sample_machine c) ''TARGET'' = Some ''t''"
  "vendored (cfg (sample_machine c)) = False" "unix (cfg (sample_machine c)) = True"
  "msvc (cfg (sample_machine c)) = False"
  "answer (sample_machine c) (pkg_config (sample_machine c)) = None"
  "answer (sample_machine c) (compile_probe (sample_machine c)) = True"
  by (simp_all add: sample_machine_def env_var_def answer_def)

lemma sample_lookup [simp]:
  "lookup (sample_machine c) ''CFLAGS'' = Some c" "lookup (sample_machine c) ''NNG_DIR'' = None"
  "lookup (sample_machine c) ''NNG_LIB_DIR'' = None" "lookup (sample_machine c) ''NNG_STATIC'' = None"
  by (simp_all add: sample_machine_def lookup_def get_env_var_def env_var_def target_prefixed_def)

lemma sample_version:
  "find_version None [''RUST_VERSION_'' @ version_text a b c]
     = andthen (parse_version (version_text a b c)) (\<lambda>x. ret (Some x))"
  by (simp only: find_version.simps trim_version) (simp add: strip_prefix_def)

lemma sample_script_succeeds:
  assumes "snd (find_library (sample_machine c)) = Inr (Manual, inc)"
  shows "snd (main_script (sample_machine c)) = Inr ()"
proof -
  let ?B = "sample_machine c"
  have t: "env_var ?B ''TARGET'' = Some ''t''" by simp
  have o: "env_var ?B ''OUT_DIR'' = Some ''o''" by (simp add: sample_machine_def env_var_def)
  define l where "l = ''RUST_VERSION_'' @ version_text 2 0 1"
  have found: "find_version None [l] = andthen (parse_version (version_text 2 0 1)) (\<lambda>x. ret (Some x))"
    unfolding l_def by (rule sample_version)
  have e: "answer ?B (expand_header ?B inc) = Some [l]"
    and b: "answer ?B (bindgen_ok ?B inc) = True"
    by (simp_all add: sample_machine_def answer_def l_def)
  have "snd (emit_cfg_directives ?B) = Inr ()"
    by (simp add: emit_cfg_directives_def) (simp add: say_def)
  moreover have "snd (link_lib ?B Manual) = Inr ()"
    by (simp add: link_lib_eq [OF t] say_def)
  moreover have "snd (link_extras (cfg ?B)) = Inr ()"
    by (simp add: link_extras_def sample_machine_def)
  moreover have "snd (provide_bindings ?B Manual inc) = Inr ()"
    by (simp add: provide_bindings_def generate_bindings_def o b)
  moreover have "snd (rerun_directives ?B Manual) = Inr ()"
    using rerun_env_names [OF t, of ENV_VARS]
    by (simp add: rerun_directives_def del: rerun_env.simps)
  moreover have "snd (export_version ?B Manual inc) = Inr ()"
    by (simp add: export_version_def e found parse_version_text andthen_def say_def ret_def
        expect_def split_beta Let_def del: find_version.simps)
  ultimately show ?thesis using assms by (simp add: main_script_def andthen_Inr_iff)
qed

section \<open>Properties\<close>

text \<open>C28. What the build script itself reads and what it asks cargo to watch.  Apart from the
  programs it calls, which read the environment and print lines of their own, the script depends on
  the environment only through \<^verbatim>\<open>TARGET\<close>, \<^verbatim>\<open>OUT_DIR\<close>, \<^verbatim>\<open>CARGO_MANIFEST_DIR\<close>, the five NNG variables and
  \<^verbatim>\<open>CFLAGS\<close> (each alone or with the target in front) and the \<^verbatim>\<open>NNG_CMAKE_*\<close> variables: where these agree
  and the programs print and answer alike, the output and the outcome are the same.  In a run that
  succeeds, the script's own lines announce exactly the \<^verbatim>\<open>NNG_CMAKE_*\<close> variables that are set, in their
  order, when it built the vendored sources, and the five NNG variables without and with the target in
  front; \<^verbatim>\<open>CFLAGS\<close> and its variants, which decide the include directories when the compiler finds NNG by
  itself, are left to what \<^verbatim>\<open>cc\<close> prints.\<close>

theorem rerun_covers_environment:
  "(env_agree B e \<and> tools_alike B e \<longrightarrow> main_script (B\<lparr>env_vars := e\<rparr>) = main_script B)
   \<and> (snd (main_script B) = Inr () \<longrightarrow>
        (\<exists>src inc. snd (find_library B) = Inr (src, inc)
           \<and> rerun_names (fst (main_script B)) = announced B src))
   \<and> (answer B (compile_probe B) \<and> env_var B ''TARGET'' = Some t \<and> lookup B ''CFLAGS'' = Some v \<longrightarrow>
        snd (try_platform_specific_paths B) = Inr (Some (Manual, include_flags (split_whitespace v))))"
proof (intro conjI impI)
  assume "env_agree B e \<and> tools_alike B e"
  then show "main_script (B\<lparr>env_vars := e\<rparr>) = main_script B" using main_script_agree by blast
next
  assume "snd (main_script B) = Inr ()"
  then show "\<exists>src inc. snd (find_library B) = Inr (src, inc)
      \<and> rerun_names (fst (main_script B)) = announced B src" by (rule main_script_names)
qed (simp add: try_platform_specific_paths_def get_env_var_lookup)

theorem rerun_covers_environment_witness:
  "snd (try_platform_specific_paths (sample_machine ''-Ia -I b''))
     = Inr (Some (Manual, include_flags (split_whitespace ''-Ia -I b'')))
   \<and> rerun_names (fst (main_script (sample_machine ''-Ia -I b'')))
     = announced (sample_machine ''-Ia -I b'') Manual"
proof -
  let ?B = "sample_machine ''-Ia -I b''"
  note T = rerun_covers_environment [where B = ?B and e = "[]" and t = "''t''"
      and v = "''-Ia -I b''"]
  have p: "snd (try_platform_specific_paths ?B)
      = Inr (Some (Manual, include_flags (split_whitespace ''-Ia -I b'')))"
    using T by simp
  have t: "env_var ?B ''TARGET'' = Some ''t''" by simp
  have f: "snd (find_library ?B) = Inr (Manual, include_flags (split_whitespace ''-Ia -I b''))"
    using system_library_eq [OF t] p by (simp add: find_library_eq [OF t] andthen_Inr_iff wants_def)
  have "snd (main_script ?B) = Inr ()"
    using f by (simp add: sample_script_succeeds)
  with T f p show ?thesis by auto
qed



text \<open>C40. The include directories of CFLAGS.  However the directories are written (\<^verbatim>\<open>-Ipath\<close> or
  \<^verbatim>\<open>-I path\<close>) and whatever other flags stand between them, the script finds exactly the directories,
  in order; a last \<^verbatim>\<open>-I\<close> without a path is ignored.\<close>

theorem cflags_roundtrip:
  assumes "list_all flag_ok fs"
  shows "include_flags (split_whitespace (render_flags fs)) = concat (map flag_dirs fs)
     \<and> include_flags (split_whitespace (render_flags fs @ ''-I'')) = concat (map flag_dirs fs)"
proof -
  have "include_flags (words_from [] (render_flags fs @ rest))
      = concat (map flag_dirs fs) @ include_flags (words_from [] rest)" for rest
    using assms include_flags_flag by (induction fs) (simp_all add: render_flags_def)
  from this [of "[]"] this [of "''-I''"] show ?thesis
    by (simp add: split_whitespace_def not_ws strip_prefix_def)
qed

theorem cflags_roundtrip_witness:
  "include_flags (split_whitespace (render_flags [Joined ''a'', OtherFlag ''-O2'', Spaced ''b'']))
     = [''a'', ''b'']"
  using cflags_roundtrip [of "[Joined ''a'', OtherFlag ''-O2'', Spaced ''b'']"]
  by (simp add: plain_word_def is_whitespace_def)

text \<open>The version that is exported.  When one line of the preprocessed header is the marker with
  three numbers, \<^verbatim>\<open>cargo:version\<close> has the three numbers with dots; a number that is not a \<open>u64\<close> stops
  the build, and so does a header without the marker.\<close>

theorem version_exported:
  assumes "answer B (expand_header B inc) = Some (ls @ ls')"
    and "list_all (\<lambda>l. \<not> prefix ''RUST_VERSION_'' (trim l)) (ls @ ls')"
    and "answer B' (expand_header B' inc) = Some (ls @ (''RUST_VERSION_'' @ version_text a b c) # ls')"
  shows "snd (export_version B src inc) = Inl ExpectFailed
     \<and> (if a < 2 ^ 64 \<and> b < 2 ^ 64 \<and> c < 2 ^ 64
        then snd (export_version B' src inc) = Inr ()
          \<and> Script (''cargo:version='' @ show_nat a @ ''.'' @ show_nat b @ ''.'' @ show_nat c)
              \<in> set (fst (export_version B' src inc))
        else snd (export_version B' src inc) = Inl ExpectFailed)"
proof -
  define v where "v = ''RUST_VERSION_'' @ version_text a b c"
  have v: "answer B' (expand_header B' inc) = Some (ls @ v # ls')" using assms(3) by (simp only: v_def)
  have skip: "list_all (\<lambda>l. \<not> prefix ''RUST_VERSION_'' (trim l)) ls"
    and rest: "list_all (\<lambda>l. \<not> prefix ''RUST_VERSION_'' (trim l)) ls'" using assms(2) by simp_all
  have none: "find_version None (ls @ ls') = ret None"
    using assms(2) by (rule find_version_none)
  obtain out where run: "run_tool B' (expand_header B' inc) = (map Tool out, Inr (Some (ls @ v # ls')))"
    using v by (auto simp: run_tool_def answer_def split_beta Let_def)
  have found: "find_version None (ls @ v # ls') = andthen (parse_version (version_text a b c)) (\<lambda>x. ret (Some x))"
    using find_version_none [OF rest] unfolding v_def find_version_skip [OF skip]
    by (simp only: find_version.simps trim_version) (simp add: strip_prefix_def)
  have "snd (export_version B src inc) = Inl ExpectFailed"
    by (simp add: export_version_def assms(1) none)
  moreover have "if a < 2 ^ 64 \<and> b < 2 ^ 64 \<and> c < 2 ^ 64
      then snd (export_version B' src inc) = Inr ()
        \<and> Script (''cargo:version='' @ show_nat a @ ''.'' @ show_nat b @ ''.'' @ show_nat c)
            \<in> set (fst (export_version B' src inc))
      else snd (export_version B' src inc) = Inl ExpectFailed"
    by (cases "src = Vendored")
      (simp_all add: export_version_def run found parse_version_text show_version_def
        andthen_def say_def ret_def fail_def expect_def)
  ultimately show ?thesis by blast
qed

theorem version_exported_witness:
  "snd (export_version (sample_machine ''-Ia'') Manual []) = Inr ()"
proof -
  have "answer (sample_machine ''-Ia''\<lparr>expand_header := \<lambda>_ _. ([], Some [])\<rparr>)
        (expand_header (sample_machine ''-Ia''\<lparr>expand_header := \<lambda>_ _. ([], Some [])\<rparr>) []) = Some ([] @ [])"
    and "answer (sample_machine ''-Ia'') (expand_header (sample_machine ''-Ia'') []) = Some ([] @ (''RUST_VERSION_'' @ version_text 2 0 1) # [])"
    by (simp_all add: sample_machine_def answer_def)
  from version_exported [OF this(1) _ this(2), of Manual] show ?thesis by simp
qed

end
