(* ===== verification/Programs.thy ===== *)
theory Programs
  imports Protocols Endpoint Message Text Addr
begin

text \<open>
  What the example programs of both crates share: a program prints lines, calls the library, and
  ends with a value, with an error of \<^verbatim>\<open>main\<close>, with an exit code, or in a panic.  The endless loops of
  the servers run on the list of what happened in each of their rounds.  What \<^verbatim>\<open>main\<close> drops on its way
  out is left to the process, which ends.  The last sections hold the integer codecs, and the messages
  that the programs build.
\<close>

section \<open>Programs\<close>

text \<open>
  \<open>Warned\<close> is the log entry of a responder that is dropped unused.  What a program prints before a
  panic is kept; what destructors log while it unwinds is not.
\<close>

datatype event = Line string | ErrLine string | Warned

text \<open>The ways a \<^verbatim>\<open>main\<close> ends without \<^verbatim>\<open>Ok\<close>: the boxed errors, and \<^verbatim>\<open>process::exit\<close>.\<close>

datatype ending =
    NulInText | Io io_error | Aio aio_error | Nng error | NotUtf8 | ParseInt parse_int_error
  | ClockBeforeEpoch | Refused string | ExitCode nat

type_synonym 'a prog = "event list \<times> (ending + 'a) run"

definition give :: "'a \<Rightarrow> 'a prog" where
  "give x = ([], Inr (Inr x))"

definition fails :: "ending \<Rightarrow> 'a prog" where
  "fails e = ([], Inr (Inl e))"

definition panics :: "panic \<Rightarrow> 'a prog" where
  "panics p = ([], Inl p)"

definition followed :: "'a prog \<Rightarrow> ('a \<Rightarrow> 'b prog) \<Rightarrow> 'b prog" where
  "followed m f =
     (case m of
        (out, Inl p) \<Rightarrow> (out, Inl p)
      | (out, Inr (Inl e)) \<Rightarrow> (out, Inr (Inl e))
      | (out, Inr (Inr x)) \<Rightarrow> (case f x of (out', r) \<Rightarrow> (out @ out', r)))"

definition print :: "string \<Rightarrow> unit prog" where
  "print s = ([Line s], Inr (Inr ()))"

definition eprint :: "string \<Rightarrow> unit prog" where
  "eprint s = ([ErrLine s], Inr (Inr ()))"

definition call :: "'a run \<Rightarrow> 'a prog" where
  "call r = ([], run_map Inr r)"

text \<open>The operator \<^verbatim>\<open>?\<close> on a result, and \<^verbatim>\<open>unwrap\<close>.\<close>

definition try_or :: "('e \<Rightarrow> ending) \<Rightarrow> 'e + 'a \<Rightarrow> 'a prog" where
  "try_or f r = (case r of Inl e \<Rightarrow> fails (f e) | Inr x \<Rightarrow> give x)"

definition unwrap :: "'e + 'a \<Rightarrow> 'a prog" where
  "unwrap r = (case r of Inl _ \<Rightarrow> panics ExpectFailed | Inr x \<Rightarrow> give x)"

text \<open>An await of a task that nobody drops: it ends with its value.\<close>

definition ended :: "'a option \<Rightarrow> 'a prog" where
  "ended r = (case r of None \<Rightarrow> panics Unreachable | Some x \<Rightarrow> give x)"

named_theorems prog_simps \<open>equations that run a program\<close>

lemma followed_simps [simp, prog_simps]:
  "followed (give x) f = f x"
  "followed (fails e) f = fails e"
  "followed (panics p) f = panics p"
  "followed (call (Inr x)) f = f x"
  "followed (call (Inl p)) f = panics p"
  by (simp_all add: followed_def give_def fails_def panics_def call_def split: prod.splits)

lemma followed_print [prog_simps]:
  "followed (print s) f = (case f () of (out, r) \<Rightarrow> (Line s # out, r))"
  "followed (eprint s) f = (case f () of (out, r) \<Rightarrow> (ErrLine s # out, r))"
  by (simp_all add: followed_def print_def eprint_def)

lemma followed_pair [prog_simps]:
  "followed (out, Inr (Inr x)) f = (case f x of (out', r) \<Rightarrow> (out @ out', r))"
  "followed (out, Inr (Inl e)) f = (out, Inr (Inl e))"
  "followed (out, Inl p) f = (out, Inl p)"
  by (simp_all add: followed_def)

lemma result_simps [simp, prog_simps]:
  "try_or f (Inr x) = give x" "try_or f (Inl e) = fails (f e)"
  "unwrap (Inr x) = give x" "unwrap (Inl e) = panics ExpectFailed"
  "ended (Some x) = give x" "ended None = panics Unreachable"
  by (simp_all add: try_or_def unwrap_def ended_def)

lemma case_give [prog_simps]:
  "(case give x of (out, r) \<Rightarrow> h out r) = h [] (Inr (Inr x))"
  "(case fails e of (out, r) \<Rightarrow> h out r) = h [] (Inr (Inl e))"
  "(case panics p of (out, r) \<Rightarrow> h out r) = h [] (Inl p)"
  "(case call r of (out, r') \<Rightarrow> h out r') = h [] (run_map Inr r)"
  by (simp_all add: give_def fails_def panics_def call_def)

lemma value_iff [simp]:
  "give x = (out, Inr (Inr y)) \<longleftrightarrow> out = [] \<and> y = x"
  "fails e \<noteq> (out, Inr (Inr y))" "panics p \<noteq> (out, Inr (Inr y))"
  by (auto simp: give_def fails_def panics_def)

lemma give_inject [simp]: "give x = give y \<longleftrightarrow> x = y"
  by (simp add: give_def)

lemma call_eq_iff: "call r = (out, Inr (Inr x)) \<longleftrightarrow> out = [] \<and> r = Inr x"
  by (cases r) (auto simp: call_def)

lemma followed_eq_value:
  "followed m f = (out, Inr (Inr y)) \<longleftrightarrow>
     (\<exists>o1 o2 x. m = (o1, Inr (Inr x)) \<and> f x = (o2, Inr (Inr y)) \<and> out = o1 @ o2)"
  by (auto simp: followed_def split: prod.splits sum.splits)

text \<open>
  A \<^verbatim>\<open>loop\<close> without a \<^verbatim>\<open>break\<close>, on what happened in its rounds; and one that a round can leave: the
  Boolean is whether the loop goes on.
\<close>

fun rounds :: "('i \<Rightarrow> 's \<Rightarrow> 's prog) \<Rightarrow> 'i list \<Rightarrow> 's \<Rightarrow> 's prog" where
  "rounds body [] s = give s"
| "rounds body (i # is) s = followed (body i s) (rounds body is)"

fun rounds_until ::
  "('i \<Rightarrow> 's \<Rightarrow> (bool \<times> 's) prog) \<Rightarrow> 'i list \<Rightarrow> 's \<Rightarrow> (bool \<times> 's) prog" where
  "rounds_until body [] s = give (True, s)"
| "rounds_until body (i # is) s =
     followed (body i s) (\<lambda>(goes_on, s).
       if goes_on then rounds_until body is s else give (False, s))"

section \<open>Command lines\<close>

text \<open>
  Too few arguments: the usage on the error stream and exit code 1.  The program's own name is
  \<open>args[0]\<close>, which panics when there is none.
\<close>

definition usage_exit :: "(string \<Rightarrow> string list) \<Rightarrow> string list \<Rightarrow> 'a prog" where
  "usage_exit usage args =
     (case args of
        [] \<Rightarrow> panics SliceIndex
      | me # _ \<Rightarrow> (map ErrLine (usage me), Inr (Inl (ExitCode 1))))"

definition quoted :: "string \<Rightarrow> string" where
  "quoted s = [CHR 0x27] @ s @ [CHR 0x27]"

definition expected :: "string \<Rightarrow> string \<Rightarrow> string \<Rightarrow> string" where
  "expected a b got = ''expected '' @ quoted a @ '' or '' @ quoted b @ '', got '' @ quoted got"

definition is_url :: "string \<Rightarrow> bool" where
  "is_url s \<longleftrightarrow> prefix ''tcp://'' s \<or> prefix ''ipc://'' s"

definition find_url :: "string \<Rightarrow> string list \<Rightarrow> string" where
  "find_url fallback args = (case find is_url (drop 2 args) of Some u \<Rightarrow> u | None \<Rightarrow> fallback)"

text \<open>A sum or product of \<^verbatim>\<open>u32\<close> and \<^verbatim>\<open>u64\<close> values.\<close>

definition u32_fit :: "bool \<Rightarrow> nat \<Rightarrow> nat run" where
  "u32_fit oc n =
     (if n < 2 ^ 32 then Inr n else if oc then Inl Overflow else Inr (n mod 2 ^ 32))"

definition u64_fit :: "bool \<Rightarrow> nat \<Rightarrow> nat run" where
  "u64_fit oc n =
     (if n < 2 ^ 64 then Inr n else if oc then Inl Overflow else Inr (n mod 2 ^ 64))"

text \<open>The next value of a counter that is an \<^verbatim>\<open>i32\<close>, the type of an integer without another.\<close>

definition i32_next :: "bool \<Rightarrow> int \<Rightarrow> int run" where
  "i32_next oc x = (if x < i32_max then Inr (x + 1) else if oc then Inl Overflow else Inr i32_min)"

section \<open>Integers as bytes\<close>

type_synonym u64 = "64 word"

text \<open>\<^verbatim>\<open>to_le_bytes\<close> and \<^verbatim>\<open>to_be_bytes\<close>; the inverse is \<open>load_word\<close>.\<close>

definition store_word :: "bool \<Rightarrow> u64 \<Rightarrow> byte list" where
  "store_word le x =
     (let bs = map (\<lambda>i. word_of_nat (unat x div 256 ^ i mod 256)) [0..<8] in if le then bs else rev bs)"

lemma length_store_word [simp]: "length (store_word le x) = 8"
  by (simp add: store_word_def Let_def)

lemma unat_byte: "unat (word_of_nat (n mod 256) :: byte) = n mod 256"
  using mod_less_divisor [of 256 n] by (simp add: unsigned_of_nat take_bit_nat_eq_self)

text \<open>The value of a byte string, least significant byte first.\<close>

fun le_value :: "byte list \<Rightarrow> nat" where
  "le_value [] = 0"
| "le_value (b # bs) = unat b + 256 * le_value bs"

lemma nat_of_bytes_rev: "nat_of_bytes (rev bs) = le_value bs"
  unfolding nat_of_bytes_def by (induction bs) simp_all

lemma le_value_digits:
  "le_value (map (\<lambda>i. word_of_nat (n div 256 ^ i mod 256)) [k..<k + m])
     = n div 256 ^ k mod 256 ^ m"
proof (induction m arbitrary: k)
  case (Suc m)
  have "[k..<k + Suc m] = k # [Suc k..<Suc k + m]" by (simp add: upt_conv_Cons)
  then have "le_value (map (\<lambda>i. word_of_nat (n div 256 ^ i mod 256)) [k..<k + Suc m])
      = n div 256 ^ k mod 256 + 256 * (n div 256 ^ Suc k mod 256 ^ m)"
    using Suc.IH [of "Suc k"] by (simp only: list.map le_value.simps unat_byte)
  also have "n div 256 ^ Suc k = n div 256 ^ k div 256" by (simp add: div_mult2_eq [symmetric] mult.commute)
  also have "n div 256 ^ k mod 256 + 256 * (n div 256 ^ k div 256 mod 256 ^ m)
      = n div 256 ^ k mod (256 * 256 ^ m)"
    by (simp add: mod_mult2_eq)
  finally show ?case by simp
qed simp

lemma le_value_store: "le_value (store_word True x) = unat x"
proof -
  have "le_value (store_word True x) = unat x mod 256 ^ 8"
    using le_value_digits [of "unat x" 0 8] by (simp add: store_word_def Let_def)
  also have "\<dots> = unat x" using unsigned_less [of x, where ?'a = nat] by simp
  finally show ?thesis .
qed

lemma load_store [simp]: "load_word le (store_word le x) = x"
proof -
  have "store_word False x = rev (store_word True x)" by (simp add: store_word_def Let_def)
  then show ?thesis
    using le_value_store [of x] nat_of_bytes_rev [of "store_word True x"]
    by (cases le) (simp_all add: load_word_def)
qed

lemma store_inject [simp]: "store_word le x = store_word le y \<longleftrightarrow> x = y"
  by (metis load_store)

text \<open>Reading in the other byte order reverses the bytes.\<close>

lemma load_other_order: "load_word le (store_word (\<not> le) x) = load_word (\<not> le) (store_word le x)"
  by (cases le) (simp_all add: load_word_def store_word_def Let_def)

section \<open>Messages\<close>

text \<open>
  What a program of \<^verbatim>\<open>anng\<close> is compiled and linked with: the C message functions, the C error
  functions, whether overflow and debug assertions are checked, and the standard library's text of
  an \<^verbatim>\<open>io::ErrorKind\<close>.
\<close>

record 'i platform =
  p_msgs :: "'i msg_api"
  p_ffi :: ffi_env
  p_oc :: bool
  p_da :: bool
  p_kinds :: "io_error_kind \<Rightarrow> string"

definition aio_text :: "'i platform \<Rightarrow> aio_error \<Rightarrow> string" where
  "aio_text P = aio_error_display (p_ffi P) (p_kinds P)"

definition body :: "'i platform \<Rightarrow> 'i message \<Rightarrow> byte list" where
  "body P = as_slice (p_msgs P)"

text \<open>
  \<^verbatim>\<open>let mut m = Message::with_capacity(n); m.write_all(bytes)?\<close>, with \<open>n\<close> the number of bytes.  Two
  rounds of \<^verbatim>\<open>write_all\<close> are enough for every buffer (\<open>write_all_spec\<close>).
\<close>

definition make_message :: "'i platform \<Rightarrow> byte list \<Rightarrow> 'i message prog" where
  "make_message P bytes =
     followed (call (with_capacity (p_msgs P) (length bytes))) (\<lambda>m.
     followed (ended (write_all (p_msgs P) (p_ffi P) (p_oc P) 2 bytes m)) (\<lambda>r.
     followed (call r) (\<lambda>(m, res).
     followed (try_or Io res) (\<lambda>_. give m))))"

lemma make_message_value:
  assumes "nng_msg (p_msgs P) V" and "make_message P bytes = (out, Inr (Inr m))"
  shows "out = [] \<and> msg_wf (p_msgs P) V m \<and> body P m = bytes
    \<and> Message.len (p_msgs P) m = length bytes \<and> pos m = 0"
proof -
  let ?N = "p_msgs P" and ?E = "p_ffi P" and ?oc = "p_oc P"
  note made = assms(2)
  note laws = nng_msg.with_capacity_spec [OF assms(1)] nng_msg.write_all_spec [OF assms(1)]
    nng_msg.write_meets [OF assms(1)] nng_msg.as_slice_eq [OF assms(1)] nng_msg.len_eq [OF assms(1)]
  obtain m0 where 0: "with_capacity ?N (length bytes) = Inr m0"
    using made by (cases "with_capacity ?N (length bytes)") (simp_all add: make_message_def)
  with laws(1) [of "length bytes"]
  have wf0: "msg_wf ?N V m0" and empty: "m_body ?N (inner m0) = []" "pos m0 = 0"
    by (simp_all add: abs_msg_def)
  note all = laws(2) [OF wf0, of ?E ?oc 0 bytes, folded numeral_2_eq_2]
  show ?thesis
  proof (cases "bytes = []")
    case True
    with all 0 made have "m = m0" "out = []" by (auto simp: make_message_def)
    with wf0 empty True laws(4,5) show ?thesis by (simp add: msg_wf_def body_def)
  next
    case False
    obtain m1 res where w: "write_body ?N ?E ?oc bytes m0 = Inr (m1, res)"
      using all 0 made False by (cases "write_body ?N ?E ?oc bytes m0") (auto simp: make_message_def)
    with all 0 made False have "out = []" "m = m1" "\<not> isl res"
      by (cases res; simp add: make_message_def)+
    with w laws(3) [OF wf0, of ?E ?oc bytes] empty laws(4,5) show ?thesis
      by (auto simp: meets_spec_def abs_msg_def msg_wf_def body_def split: sum.splits)
  qed
qed

text \<open>NNG has the memory for a message of these bytes.\<close>

definition has_room :: "'i platform \<Rightarrow> byte list \<Rightarrow> bool" where
  "has_room P bytes \<longleftrightarrow> (\<exists>m. make_message P bytes = give m)"

lemma has_roomE:
  assumes "nng_msg (p_msgs P) V" "has_room P bytes"
  obtains m where "make_message P bytes = give m" "msg_wf (p_msgs P) V m" "body P m = bytes"
    "Message.len (p_msgs P) m = length bytes"
  using assms make_message_value [OF assms(1), of bytes] unfolding has_room_def give_def by blast

text \<open>\<^verbatim>\<open>CString::new\<close>, and \<^verbatim>\<open>str::from_utf8\<close> on the body of a message.\<close>

definition c_string :: "string \<Rightarrow> string prog" where
  "c_string s = (if CHR 0x00 \<in> set s then fails NulInText else give s)"

definition utf8_text :: "byte list \<Rightarrow> string prog" where
  "utf8_text bs = (if utf8_valid bs then give (chars_of bs) else fails NotUtf8)"

lemma utf8_text_ascii:
  assumes "\<forall>c\<in>set s. (of_char c :: nat) < 128"
  shows "utf8_text (bytes_of s) = give s"
proof -
  have "utf8_valid (bytes_of s)"
    by (rule utf8_valid_ascii) (use assms in \<open>simp add: bytes_of_def unat_of_char\<close>)
  then show ?thesis by (simp add: utf8_text_def)
qed

text \<open>ASCII text, which every check for UTF-8 passes.\<close>

definition plain_text :: "string \<Rightarrow> bool" where
  "plain_text s \<longleftrightarrow> (\<forall>c\<in>set s. (of_char c :: nat) < 128)"

lemma plain_text_utf8 [simp]: "plain_text s \<Longrightarrow> utf8_text (bytes_of s) = give s"
  by (simp add: plain_text_def utf8_text_ascii)

text \<open>
  A channel of \<^verbatim>\<open>anng\<close> between two operations, with nothing left over from a cancelled receive, and
  the two operations that succeed on it.
\<close>

definition ready :: "'m socket \<Rightarrow> bool" where
  "ready s \<longleftrightarrow> socket_idle s \<and> s_recovered_msg s = None"

definition waiting :: "'m contextful \<Rightarrow> bool" where
  "waiting ctx \<longleftrightarrow> contextful_idle ctx \<and> recovered_msg (cs_context ctx) = None"

text \<open>A socket as \<^verbatim>\<open>create_socket\<close> makes it.\<close>

definition socket_new :: "'m socket" where
  "socket_new = \<lparr>s_aio = aio_new, s_recovered_msg = None\<rparr>"

lemma ready_new: "ready socket_new"
  by (simp add: ready_def socket_new_def socket_idle_def aio_new_def at_rest_def)

lemma ready_send:
  assumes "ready s"
  obtains s' where "socket_send_msg E da m (Ran SentOk) s = Inr (Some (Inr ()), s')" "ready s'"
    "given (s_aio s') = given (s_aio s) @ [m]"
  using sock.send_ok [of s E da m] assms unfolding ready_def by fastforce

lemma ready_recv:
  assumes "ready s"
  obtains s' where "socket_recv_msg E da (Ran (ReceivedMsg m)) s = Inr (Some (Inr m), s')" "ready s'"
    "given (s_aio s') = given (s_aio s)"
  using sock.recv_ok [of s E da m] assms unfolding ready_def by fastforce

lemma waiting_send:
  assumes "waiting s"
  obtains s' where "contextful_send_msg E da m (Ran SentOk) s = Inr (Some (Inr ()), s')" "waiting s'"
    "given (cs_aio s') = given (cs_aio s) @ [m]"
  using cs.send_ok [of s E da m] assms unfolding waiting_def by fastforce

lemma waiting_recv:
  assumes "waiting s"
  obtains s' where "contextful_recv_msg E da (Ran (ReceivedMsg m)) s = Inr (Some (Inr m), s')"
    "waiting s'" "given (cs_aio s') = given (cs_aio s)"
  using cs.recv_ok [of s E da m] assms unfolding waiting_def by fastforce

lemma waiting_new: "waiting contextful_new"
  using contextful_new_idle by (simp add: waiting_def contextful_new_def)

lemma waiting_receive:
  assumes "waiting ctx"
  obtains ctx' where
    "rep0_receive E da (Ran (ReceivedMsg m)) ctx = Inr (Some (Inr (m, \<lparr>sent = False\<rparr>)), ctx')"
    "waiting ctx'" "given (cs_aio ctx') = given (cs_aio ctx)"
  by (rule waiting_recv [OF assms, of E da m]) (auto simp: rep0_receive_def)

lemma waiting_reply:
  assumes "waiting ctx"
  obtains ctx' where "reply E da m (Ran SentOk) r ctx = Inr (Some (Inr ()), False, ctx')"
    "waiting ctx'" "given (cs_aio ctx') = given (cs_aio ctx) @ [m]"
  by (rule waiting_send [OF assms, of E da m]) (auto simp: reply_def responder_drop_def)

text \<open>What a reply or a drop does to a responder in a program: the log entries of its drops.\<close>

definition drop_responder :: "responder \<Rightarrow> unit prog" where
  "drop_responder r = (if responder_drop r then ([Warned], Inr (Inr ())) else give ())"

definition holding :: "responder \<Rightarrow> 'a prog \<Rightarrow> 'a prog" where
  "holding r m =
     (case m of
        (out, Inr (Inl e)) \<Rightarrow> (out @ (if responder_drop r then [Warned] else []), Inr (Inl e))
      | _ \<Rightarrow> m)"

definition send_reply ::
  "'i platform \<Rightarrow> 'i message \<Rightarrow> 'i message completion \<Rightarrow> responder \<Rightarrow> 'i message contextful
     \<Rightarrow> ((responder \<times> aio_error \<times> 'i message + unit) \<times> 'i message contextful) prog" where
  "send_reply P msg c responder ctx =
     followed (call (reply (p_ffi P) (p_da P) msg (Ran c) responder ctx)) (\<lambda>(r, logged, ctx).
     followed (if logged then ([Warned], Inr (Inr ())) else give ()) (\<lambda>_.
     followed (ended r) (\<lambda>r. give (r, ctx))))"

lemma holding_give [simp]: "holding r (give x) = give x"
  by (simp add: holding_def give_def)

lemma send_reply_ok:
  assumes "waiting ctx"
  obtains ctx' where "send_reply P m SentOk r ctx = give (Inr (), ctx')" "waiting ctx'"
    "given (cs_aio ctx') = given (cs_aio ctx) @ [m]"
  by (rule waiting_reply [OF assms, of "p_ffi P" "p_da P" m r]) (auto simp: send_reply_def)

section \<open>A sample platform\<close>

definition sample_platform :: "ref_msg platform" where
  "sample_platform = \<lparr>p_msgs = ref_api, p_ffi = sample_env, p_oc = True, p_da = True,
     p_kinds = (\<lambda>_. ''kind'')\<rparr>"

definition blank :: "nat \<Rightarrow> byte list \<Rightarrow> ref_msg message" where
  "blank n bs = \<lparr>inner = \<lparr>r_header = [], r_body = bs, r_cap = n + 32\<rparr>, pos = 0\<rparr>"

lemma sample_with_capacity: "n \<le> 1000 \<Longrightarrow> with_capacity ref_api n = Inr (blank n [])"
  by (simp add: blank_def sample_creation)

lemma sample_write:
  "length bs \<le> 1000 \<Longrightarrow> write_body ref_api sample_env True bs (blank (length bs) [])
     = Inr (blank (length bs) bs, Inr (length bs))"
  by (simp add: blank_def sample_creation)

lemma sample_has_room:
  assumes "length bs \<le> 1000"
  shows "has_room sample_platform bs"
proof -
  have "msg_wf ref_api ref_ok (blank (length bs) [])"
    using assms by (simp add: msg_wf_def blank_def ref_ok_def ref_limit_def ref_api_def)
  from ref.write_all_spec [OF this, of sample_env True 0 bs, folded numeral_2_eq_2]
  show ?thesis
    using sample_with_capacity [OF assms] sample_write [OF assms]
    by (cases "bs = []") (simp_all add: has_room_def make_message_def sample_platform_def)
qed

lemma sample_laws: "nng_msg (p_msgs sample_platform) ref_ok"
  using ref.nng_msg_axioms by (simp add: sample_platform_def)

definition text_msg :: "string \<Rightarrow> ref_msg message" where
  "text_msg s = blank (length s) (bytes_of s)"

lemma body_text_msg [simp]: "body sample_platform (text_msg s) = bytes_of s"
  by (simp add: body_def as_slice_def Message.len_def sample_platform_def text_msg_def blank_def
      ref_api_def)

end
