(* ===== verification/DateService.thy ===== *)
theory DateService
  imports Programs NngMessage NngHandles
begin

text \<open>
  The date services of the two crates: anng/examples/reqrep_date.rs, whose server leaves out every
  sixth reply so that its client asks again, and nng/examples/reqrep.rs.  Both sides of each are
  programs over the protocols and messages of the crate.
\<close>

section \<open>anng: the command line\<close>

datatype date_mode = ModeClient | ModeServer

record date_args =
  d_mode :: date_mode
  d_url :: string

definition date_usage :: "string \<Rightarrow> string list" where
  "date_usage prog_name =
     [''Usage: '' @ prog_name @ '' <client|server> [URL]'', [],
      ''A simple Request/Reply date service demonstrating NNG patterns.'', [], ''Arguments:'',
      ''  <client|server>  Whether to run as client or server'',
      ''  [URL]           URL to connect to (default: tcp://127.0.0.1:5555)'']"

definition date_parse_args :: "string list \<Rightarrow> date_args prog" where
  "date_parse_args args =
     (if length args < 2 then usage_exit date_usage args
      else
        followed
          (if args ! 1 = ''client'' then give ModeClient
           else if args ! 1 = ''server'' then give ModeServer
           else fails (Refused (expected ''client'' ''server'' (args ! 1))))
          (\<lambda>mode. give \<lparr>d_mode = mode,
             d_url = (if 2 < length args then args ! 2 else ''tcp://127.0.0.1:5555'')\<rparr>))"

section \<open>anng: the server\<close>

definition DATE_COMMAND :: u64 where
  "DATE_COMMAND = 1"

text \<open>
  What happens in one round of the server: how the receive ends, the seconds since the epoch (unless
  the clock stands before it), and how the send of the reply ends.
\<close>

record 'm served =
  srv_received :: "'m completion"
  srv_now :: "u64 option"
  srv_sent :: "'m completion"

definition date_server_round ::
  "'i platform \<Rightarrow> 'i message served \<Rightarrow> nat \<times> 'i message contextful
     \<Rightarrow> (nat \<times> 'i message contextful) prog" where
  "date_server_round P i s =
     (case s of (request_count, ctx) \<Rightarrow>
      followed (call (rep0_receive (p_ffi P) (p_da P) (Ran (srv_received i)) ctx)) (\<lambda>(r, ctx).
      followed (ended r) (\<lambda>r.
      followed (try_or Aio r) (\<lambda>(request_msg, responder).
      followed (call (usize_add (p_oc P) request_count 1)) (\<lambda>request_count.
      if Message.len (p_msgs P) request_msg \<noteq> 8 then
        followed (print (''SERVER: Invalid request length: ''
            @ show_nat (Message.len (p_msgs P) request_msg) @ '' bytes'')) (\<lambda>_.
        followed (drop_responder responder) (\<lambda>_. give (request_count, ctx)))
      else
        (let command = load_word False (body P request_msg) :: u64 in
         if command = DATE_COMMAND then
           followed (print (''SERVER: Received DATE request #'' @ show_nat request_count)) (\<lambda>_.
           if request_count mod 6 = 0 then
             followed (print (''SERVER: Intentionally skipping reply #'' @ show_nat request_count
                 @ '' (demonstrating resilience)'')) (\<lambda>_.
             followed (drop_responder responder) (\<lambda>_. give (request_count, ctx)))
           else
             followed (holding responder
                 (case srv_now i of None \<Rightarrow> fails ClockBeforeEpoch | Some t \<Rightarrow> give t)) (\<lambda>timestamp.
             followed (print (''SERVER: Sending timestamp: '' @ show_nat (unat timestamp))) (\<lambda>_.
             followed (holding responder (make_message P (store_word False timestamp))) (\<lambda>reply_msg.
             followed (send_reply P reply_msg (srv_sent i) responder ctx) (\<lambda>(r, ctx).
             case r of
               Inl (responder, error, _) \<Rightarrow>
                 followed (print (''SERVER: Failed to send reply: '' @ aio_text P error)) (\<lambda>_.
                 followed (drop_responder responder) (\<lambda>_. give (request_count, ctx)))
             | Inr _ \<Rightarrow> give (request_count, ctx))))))
         else
           followed (print (''SERVER: Unknown command: 0x'' @ show_hex (unat command))) (\<lambda>_.
           followed (holding responder (make_message P (store_word False 0))) (\<lambda>reply_msg.
           followed (send_reply P reply_msg (srv_sent i) responder ctx) (\<lambda>(r, ctx).
           followed (case r of Inl (responder, _) \<Rightarrow> drop_responder responder | Inr _ \<Rightarrow> give ())
             (\<lambda>_. give (request_count, ctx)))))))))))"

text \<open>\<open>W\<close> are the C functions of sockets, \<open>ctx_open\<close> what \<^verbatim>\<open>nng_ctx_open\<close> returns.\<close>

definition date_run_server ::
  "'i platform \<Rightarrow> 'w ep_api \<Rightarrow> c_int \<Rightarrow> 'i message served list \<Rightarrow> string \<Rightarrow> 'w
     \<Rightarrow> ('w \<times> nat \<times> 'i message contextful) prog" where
  "date_run_server P W ctx_open inputs url w =
     followed (print (''SERVER: Starting date service on '' @ url)) (\<lambda>_.
     followed (c_string url) (\<lambda>c_url.
     followed (call (rep0_listen (p_ffi P) W c_url w)) (\<lambda>(r, w).
     followed (try_or Io r) (\<lambda>(_ :: nat \<times> 'i message socket).
     followed (call (socket_context ctx_open)) (\<lambda>ctx.
     followed (rounds (date_server_round P) inputs (0, ctx)) (\<lambda>s. give (w, s)))))))"

section \<open>anng: the client\<close>

text \<open>How the send of one request and the wait for its reply end.\<close>

record 'm asked =
  ask_sent :: "'m completion"
  ask_reply :: "'m completion"

definition date_client_round ::
  "'i platform \<Rightarrow> nat \<times> 'i message asked \<Rightarrow> 'i message contextful \<Rightarrow> 'i message contextful prog" where
  "date_client_round P i ctx =
     followed (print (''CLIENT: Sending DATE request #'' @ show_nat (fst i))) (\<lambda>_.
     followed (make_message P (store_word False DATE_COMMAND)) (\<lambda>request_msg.
     followed (call (request (p_ffi P) (p_da P) request_msg (Ran (ask_sent (snd i))) ctx)) (\<lambda>(r, ctx).
     followed (ended r) (\<lambda>r.
     case r of
       Inl (error, _) \<Rightarrow>
         followed (print (''CLIENT: Failed to send request: '' @ aio_text P error)) (\<lambda>_. give ctx)
     | Inr _ \<Rightarrow>
         followed (call (reply_future (p_ffi P) (p_da P) (Ran (ask_reply (snd i))) ctx)) (\<lambda>(r, ctx).
         followed (ended r) (\<lambda>r.
         case r of
           Inl error \<Rightarrow>
             followed (print (''CLIENT: Request failed: '' @ aio_text P error
               @ '' (server may have skipped reply)'')) (\<lambda>_. give ctx)
         | Inr reply_msg \<Rightarrow>
             followed
               (if Message.len (p_msgs P) reply_msg = 8 then
                  (let timestamp = load_word False (body P reply_msg) :: u64 in
                   if 0 < timestamp
                   then print (''CLIENT: Received timestamp: '' @ show_nat (unat timestamp))
                   else print ''CLIENT: Server sent error response'')
                else print (''CLIENT: Invalid reply length: ''
                  @ show_nat (Message.len (p_msgs P) reply_msg) @ '' bytes''))
               (\<lambda>_. give ctx)))))))"

text \<open>The client asks twenty times.\<close>

definition date_run_client ::
  "'i platform \<Rightarrow> (panic \<Rightarrow> io_error) \<Rightarrow> 'w ep_api \<Rightarrow> c_int \<Rightarrow> (nat \<Rightarrow> 'i message asked) \<Rightarrow> string \<Rightarrow> 'w
     \<Rightarrow> ('w \<times> 'i message contextful) prog" where
  "date_run_client P joined W ctx_open inputs url w =
     followed (print (''CLIENT: Connecting to date service at '' @ url)) (\<lambda>_.
     followed (c_string url) (\<lambda>c_url.
     followed (call (req0_dial (p_ffi P) joined W False c_url w)) (\<lambda>(r, w).
     followed (ended r) (\<lambda>r.
     followed (try_or Io r) (\<lambda>(_ :: nat \<times> 'i message socket).
     followed (call (socket_context ctx_open)) (\<lambda>ctx.
     followed (rounds (date_client_round P) (map (\<lambda>i. (i, inputs i)) [1..<21]) ctx) (\<lambda>ctx.
     followed (print ''CLIENT: Finished sending requests'') (\<lambda>_. give (w, ctx)))))))))"

definition date_main ::
  "'i platform \<Rightarrow> (panic \<Rightarrow> io_error) \<Rightarrow> 'w ep_api \<Rightarrow> c_int \<Rightarrow> 'i message served list
     \<Rightarrow> (nat \<Rightarrow> 'i message asked) \<Rightarrow> string list \<Rightarrow> 'w \<Rightarrow> 'w prog" where
  "date_main P joined W ctx_open served asks args w =
     followed (date_parse_args args) (\<lambda>a.
     case d_mode a of
       ModeServer \<Rightarrow>
         followed (date_run_server P W ctx_open served (d_url a) w) (\<lambda>(w, _). give w)
     | ModeClient \<Rightarrow>
         followed (date_run_client P joined W ctx_open asks (d_url a) w) (\<lambda>(w, _). give w))"

section \<open>nng\<close>

text \<open>
  The C functions that a program of \<^verbatim>\<open>nng\<close> reaches through a socket, and the two calls whose error it
  hands on with \<^verbatim>\<open>?\<close>.
\<close>

record ('m, 'w) nng_link =
  n_msgs :: "'m msg_api"
  n_fns :: "'w nng_fns"
  n_send :: "u32 \<Rightarrow> 'm \<Rightarrow> u32 \<Rightarrow> 'w \<Rightarrow> c_int \<times> 'w"
  n_recv :: "u32 \<Rightarrow> u32 \<Rightarrow> 'w \<Rightarrow> (c_int \<times> 'm option) \<times> 'w"

definition sock_send ::
  "('m, 'w) nng_link \<Rightarrow> nat \<Rightarrow> 'm \<Rightarrow> ('w, 'cb) session \<Rightarrow> ('w, 'cb) session prog" where
  "sock_send L a msg s =
     (case nsock_send (n_send L) (nsock_handle a s) msg (lib s) of
        (r, w) \<Rightarrow> followed (try_or (\<lambda>(_, e). Nng e) r) (\<lambda>_. give (s\<lparr>lib := w\<rparr>)))"

definition sock_recv ::
  "('m, 'w) nng_link \<Rightarrow> nat \<Rightarrow> ('w, 'cb) session \<Rightarrow> ('m \<times> ('w, 'cb) session) prog" where
  "sock_recv L a s =
     followed (call (nsock_recv (n_recv L) (nsock_handle a s) (lib s))) (\<lambda>(r, w).
     followed (try_or Nng r) (\<lambda>msg. give (msg, s\<lparr>lib := w\<rparr>)))"

text \<open>\<^verbatim>\<open>u64::from_le_bytes(msg[..].try_into().unwrap())\<close>\<close>

definition le_u64 :: "byte list \<Rightarrow> u64 prog" where
  "le_u64 bs = (if length bs = 8 then give (load_word True bs) else panics ExpectFailed)"

definition DATE_REQUEST :: u64 where
  "DATE_REQUEST = 1"

definition nng_date_ask ::
  "('m, 'w) nng_link \<Rightarrow> nat \<Rightarrow> ('w, 'cb) session \<Rightarrow> ('w, 'cb) session prog" where
  "nng_date_ask L a s =
     followed (print ''REQUEST: SENDING DATE REQUEST'') (\<lambda>_.
     followed (call (nm_from_slice (n_msgs L) (store_word True DATE_REQUEST))) (\<lambda>msg.
     followed (sock_send L a msg s) (\<lambda>s.
     followed (print ''REQUEST: WAITING FOR RESPONSE'') (\<lambda>_.
     followed (sock_recv L a s) (\<lambda>(msg, s).
     followed (le_u64 (nm_as_slice (n_msgs L) msg)) (\<lambda>epoch.
     followed (print (''REQUEST: UNIX EPOCH WAS '' @ show_nat (unat epoch) @ '' SECONDS AGO'')) (\<lambda>_.
     give s)))))))"

definition nng_date_request ::
  "('m, 'w) nng_link \<Rightarrow> string \<Rightarrow> ('w, 'cb) session \<Rightarrow> ('w, 'cb) session prog" where
  "nng_date_request L url s =
     (case nsock_new (n_fns L) Req0 s of (r, s) \<Rightarrow>
      followed (try_or Nng r) (\<lambda>a.
      case nsock_dial (n_fns L) a url s of (r, s) \<Rightarrow>
      followed (try_or Nng r) (\<lambda>_. nng_date_ask L a s)))"

text \<open>One round of the replier; \<open>now\<close> are the seconds since the epoch, if the clock is past it.\<close>

definition nng_date_answer ::
  "('m, 'w) nng_link \<Rightarrow> nat \<Rightarrow> u64 option \<Rightarrow> ('w, 'cb) session \<Rightarrow> ('w, 'cb) session prog" where
  "nng_date_answer L a now s =
     followed (print ''REPLY: WAITING FOR COMMAND'') (\<lambda>_.
     followed (sock_recv L a s) (\<lambda>(msg, s).
     followed (le_u64 (nm_as_slice (n_msgs L) msg)) (\<lambda>cmd.
     if cmd \<noteq> DATE_REQUEST then followed (print ''REPLY: UNKNOWN COMMAND'') (\<lambda>_. give s)
     else
       followed (print ''REPLY: RECEIVED DATE REQUEST'') (\<lambda>_.
       followed (case now of None \<Rightarrow> panics ExpectFailed | Some t \<Rightarrow> give t) (\<lambda>rep.
       followed (call (nm_push_back (n_msgs L) (store_word True rep) (nm_clear (n_msgs L) msg))) (\<lambda>msg.
       followed (print (''REPLY: SENDING '' @ show_nat (unat rep))) (\<lambda>_. sock_send L a msg s)))))))"

definition nng_date_reply ::
  "('m, 'w) nng_link \<Rightarrow> u64 option list \<Rightarrow> string \<Rightarrow> ('w, 'cb) session \<Rightarrow> ('w, 'cb) session prog" where
  "nng_date_reply L nows url s =
     (case nsock_new (n_fns L) Rep0 s of (r, s) \<Rightarrow>
      followed (try_or Nng r) (\<lambda>a.
      case nsock_listen (n_fns L) a url s of (r, s) \<Rightarrow>
      followed (try_or Nng r) (\<lambda>_. rounds (nng_date_answer L a) nows s)))"

definition nng_date_main ::
  "('m, 'w) nng_link \<Rightarrow> u64 option list \<Rightarrow> string list \<Rightarrow> ('w, 'cb) session \<Rightarrow> ('w, 'cb) session prog"
where
  "nng_date_main L nows args s =
     (case take 3 args of
        [_, t, url] \<Rightarrow>
          if t = ''req'' then nng_date_request L url s
          else if t = ''rep'' then nng_date_reply L nows url s
          else ([Line ''Usage: reqrep req|rep <URL>''], Inr (Inl (ExitCode 1)))
      | _ \<Rightarrow> ([Line ''Usage: reqrep req|rep <URL>''], Inr (Inl (ExitCode 1))))"

section \<open>One round of each side\<close>

text \<open>A request of the client, well formed in NNG's eyes.\<close>

definition asks_date :: "'i platform \<Rightarrow> ('i \<Rightarrow> bool) \<Rightarrow> 'i message \<Rightarrow> bool" where
  "asks_date P V m \<longleftrightarrow> V (inner m) \<and> body P m = store_word False DATE_COMMAND"

definition served_with :: "'m \<Rightarrow> u64 \<Rightarrow> 'm served" where
  "served_with m t = \<lparr>srv_received = ReceivedMsg m, srv_now = Some t, srv_sent = SentOk\<rparr>"

lemma asks_date_len:
  assumes "nng_msg (p_msgs P) V" "asks_date P V m"
  shows "Message.len (p_msgs P) m = 8"
proof -
  have "V (inner m)" "length (body P m) = 8" using assms(2) by (simp_all add: asks_date_def)
  then show ?thesis
    using nng_msg.len_eq [OF assms(1)] nng_msg.as_slice_eq [OF assms(1)] unfolding body_def by metis
qed

lemma server_skips:
  assumes "nng_msg (p_msgs P) V" "waiting ctx" "asks_date P V m" "Suc n \<le> usize_max"
    and "Suc n mod 6 = 0"
  obtains out ctx' where "date_server_round P (served_with m t) (n, ctx) = (out, Inr (Inr (Suc n, ctx')))"
    "waiting ctx'" "given (cs_aio ctx') = given (cs_aio ctx)" "filter ((=) Warned) out = [Warned]"
proof -
  obtain ctx' where r: "rep0_receive (p_ffi P) (p_da P) (Ran (ReceivedMsg m)) ctx
        = Inr (Some (Inr (m, \<lparr>sent = False\<rparr>)), ctx')"
      "waiting ctx'" "given (cs_aio ctx') = given (cs_aio ctx)"
    using waiting_receive [OF assms(2)] by metis
  have "date_server_round P (served_with m t) (n, ctx) =
      ([Line (''SERVER: Received DATE request #'' @ show_nat (Suc n)),
        Line (''SERVER: Intentionally skipping reply #'' @ show_nat (Suc n)
          @ '' (demonstrating resilience)''), Warned], Inr (Inr (Suc n, ctx')))"
    using assms(3-5) asks_date_len [OF assms(1,3)] r(1)
    by (simp add: date_server_round_def served_with_def asks_date_def prog_simps drop_responder_def
        responder_drop_def)
  with r that show ?thesis by simp
qed

lemma server_answers:
  assumes "nng_msg (p_msgs P) V" "waiting ctx" "asks_date P V m" "Suc n \<le> usize_max"
    and "Suc n mod 6 \<noteq> 0" and "has_room P (store_word False t)"
  obtains out ctx' r where
    "date_server_round P (served_with m t) (n, ctx) = (out, Inr (Inr (Suc n, ctx')))"
    "waiting ctx'" "given (cs_aio ctx') = given (cs_aio ctx) @ [r]" "filter ((=) Warned) out = []"
    "msg_wf (p_msgs P) V r" "body P r = store_word False t"
proof -
  obtain ctx1 where r: "rep0_receive (p_ffi P) (p_da P) (Ran (ReceivedMsg m)) ctx
        = Inr (Some (Inr (m, \<lparr>sent = False\<rparr>)), ctx1)"
      "waiting ctx1" "given (cs_aio ctx1) = given (cs_aio ctx)"
    using waiting_receive [OF assms(2)] by metis
  obtain m' where m': "make_message P (store_word False t) = give m'" "msg_wf (p_msgs P) V m'"
      "body P m' = store_word False t"
    using has_roomE [OF assms(1,6)] by metis
  obtain ctx2 where s: "send_reply P m' SentOk \<lparr>sent = False\<rparr> ctx1 = give (Inr (), ctx2)"
      "waiting ctx2" "given (cs_aio ctx2) = given (cs_aio ctx1) @ [m']"
    using send_reply_ok [OF r(2)] by metis
  have "date_server_round P (served_with m t) (n, ctx) =
      ([Line (''SERVER: Received DATE request #'' @ show_nat (Suc n)),
        Line (''SERVER: Sending timestamp: '' @ show_nat (unat t))], Inr (Inr (Suc n, ctx2)))"
    using assms(3-5) asks_date_len [OF assms(1,3)] r(1) m'(1) s(1)
    by (simp add: date_server_round_def served_with_def asks_date_def prog_simps)
  with r s m' that show ?thesis by simp
qed

section \<open>The whole conversation\<close>

lemma server_run:
  assumes laws: "nng_msg (p_msgs P) V" and room: "\<And>t. has_room P (store_word False t)"
  shows "\<lbrakk>waiting ctx; \<forall>k\<in>{n..<n + l}. asks_date P V (ms k); n + l \<le> usize_max\<rbrakk> \<Longrightarrow>
     \<exists>out ctx' rs.
       rounds (date_server_round P) (map (\<lambda>k. served_with (ms k) (ts k)) [n..<n + l]) (n, ctx)
         = (out, Inr (Inr (n + l, ctx')))
       \<and> waiting ctx' \<and> given (cs_aio ctx') = given (cs_aio ctx) @ rs
       \<and> map (body P) rs
           = map (\<lambda>k. store_word False (ts k)) (filter (\<lambda>k. Suc k mod 6 \<noteq> 0) [n..<n + l])
       \<and> list_all (msg_wf (p_msgs P) V) rs
       \<and> length (filter ((=) Warned) out)
           = length (filter (\<lambda>k. Suc k mod 6 = 0) [n..<n + l])"
proof (induction l arbitrary: n ctx)
  case 0
  then show ?case by (simp add: give_def)
next
  case (Suc l)
  have upt: "[n..<n + Suc l] = n # [Suc n..<Suc n + l]" by (simp add: upt_conv_Cons)
  have asks: "asks_date P V (ms n)" and small: "Suc n \<le> usize_max" using Suc.prems by simp_all
  have rest: "\<forall>k\<in>{Suc n..<Suc n + l}. asks_date P V (ms k)" "Suc n + l \<le> usize_max"
    using Suc.prems by auto
  show ?case
  proof (cases "Suc n mod 6 = 0")
    case True
    obtain o1 ctx1 where 1: "date_server_round P (served_with (ms n) (ts n)) (n, ctx)
        = (o1, Inr (Inr (Suc n, ctx1)))" "waiting ctx1"
        "given (cs_aio ctx1) = given (cs_aio ctx)" "filter ((=) Warned) o1 = [Warned]"
      using server_skips [OF laws Suc.prems(1) asks small True] by metis
    from Suc.IH [OF 1(2) rest] 1 True show ?thesis
      unfolding upt by (fastforce simp: followed_pair)
  next
    case False
    obtain o1 ctx1 r where 1: "date_server_round P (served_with (ms n) (ts n)) (n, ctx)
        = (o1, Inr (Inr (Suc n, ctx1)))" "waiting ctx1"
        "given (cs_aio ctx1) = given (cs_aio ctx) @ [r]" "filter ((=) Warned) o1 = []"
        "msg_wf (p_msgs P) V r" "body P r = store_word False (ts n)"
      using server_answers [OF laws Suc.prems(1) asks small False room] by metis
    from Suc.IH [OF 1(2) rest] obtain o2 ctx2 rs where
      "rounds (date_server_round P) (map (\<lambda>k. served_with (ms k) (ts k)) [Suc n..<Suc n + l])
         (Suc n, ctx1) = (o2, Inr (Inr (Suc n + l, ctx2)))"
      "waiting ctx2" "given (cs_aio ctx2) = given (cs_aio ctx1) @ rs"
      "map (body P) rs = map (\<lambda>k. store_word False (ts k))
         (filter (\<lambda>k. Suc k mod 6 \<noteq> 0) [Suc n..<Suc n + l])"
      "list_all (msg_wf (p_msgs P) V) rs"
      "length (filter ((=) Warned) o2) = length (filter (\<lambda>k. Suc k mod 6 = 0) [Suc n..<Suc n + l])"
      by metis
    then show ?thesis
      unfolding upt using 1 False
      by (intro exI [of _ "o1 @ o2"] exI [of _ ctx2] exI [of _ "r # rs"]) (simp add: followed_pair)
  qed
qed

text \<open>Leaving out every sixth request: the one that the \<open>j\<close>-th reply answers, and how many are left.\<close>

lemma answered_requests:
  "filter (\<lambda>k. Suc k mod 6 \<noteq> 0) [0..<n] = map (\<lambda>j. j + j div 5) [0..<n - n div 6]"
proof (induction n)
  case (Suc n)
  define q r where "q = n div 6" and "r = n mod 6"
  have n: "n = 6 * q + r" by (simp add: q_def r_def)
  have step: "Suc n mod 6 = 0 \<longleftrightarrow> r = 5" "Suc n div 6 = (if r = 5 then Suc q else q)"
    by (auto simp: mod_Suc div_Suc q_def r_def)
  have left: "n - n div 6 = 5 * q + r" using n by (simp add: q_def)
  show ?case
  proof (cases "r = 5")
    case True
    then have "Suc n - Suc n div 6 = n - n div 6" using n step left by simp
    with Suc True step show ?thesis by simp
  next
    case False
    then have "r < 5" using mod_less_divisor [of 6 n] by (simp add: r_def)
    then have "(5 * q + r) div 5 = q" by simp
    moreover have "Suc n - Suc n div 6 = Suc (5 * q + r)" using False n step by simp
    ultimately show ?thesis using Suc False step n by (simp add: left)
  qed
qed simp

lemma skipped_requests: "length (filter (\<lambda>k. Suc k mod 6 = 0) [0..<n]) = n div 6"
proof (induction n)
  case (Suc n)
  then show ?case by (simp add: div_Suc)
qed simp

lemma client_reads:
  assumes "nng_msg (p_msgs P) V" "waiting ctx" "has_room P (store_word False DATE_COMMAND)"
    and "msg_wf (p_msgs P) V r" "body P r = store_word False t" "t \<noteq> 0"
  shows "\<exists>m ctx'. date_client_round P (i, \<lparr>ask_sent = SentOk, ask_reply = ReceivedMsg r\<rparr>) ctx
      = ([Line (''CLIENT: Sending DATE request #'' @ show_nat i),
          Line (''CLIENT: Received timestamp: '' @ show_nat (unat t))], Inr (Inr ctx'))
    \<and> given (cs_aio ctx') = given (cs_aio ctx) @ [m] \<and> asks_date P V m"
proof -
  obtain m where m: "make_message P (store_word False DATE_COMMAND) = give m"
      "msg_wf (p_msgs P) V m" "body P m = store_word False DATE_COMMAND"
    using has_roomE [OF assms(1,3)] by metis
  obtain ctx1 where 1: "request (p_ffi P) (p_da P) m (Ran SentOk) ctx = Inr (Some (Inr ()), ctx1)"
      "waiting ctx1" "given (cs_aio ctx1) = given (cs_aio ctx) @ [m]"
    using waiting_send [OF assms(2)] unfolding request_def by metis
  obtain ctx2 where 2: "reply_future (p_ffi P) (p_da P) (Ran (ReceivedMsg r)) ctx1
        = Inr (Some (Inr r), ctx2)" "given (cs_aio ctx2) = given (cs_aio ctx1)"
    using waiting_recv [OF 1(2)] unfolding reply_future_def by metis
  have "Message.len (p_msgs P) r = 8" "V (inner m)"
    using assms(4,5) m(2) nng_msg.len_eq [OF assms(1)] nng_msg.as_slice_eq [OF assms(1)]
      length_store_word [of False t] unfolding body_def msg_wf_def by metis+
  then show ?thesis
    using m 1 2 assms(5,6)
    by (intro exI [of _ m] exI [of _ ctx2])
      (simp add: date_client_round_def prog_simps print_def asks_date_def word_gt_0)
qed

section \<open>The two crates\<close>

lemma swapped_one:
  "load_word True (store_word False 1) = (0x100000000000000 :: u64)"
  "load_word False (store_word True 1) = (0x100000000000000 :: u64)"
  by (simp_all add: load_word_def store_word_def nat_of_bytes_def upt_rec)

text \<open>
  The two programs do not understand each other: the command that the client of \<^verbatim>\<open>anng\<close> sends is
  unknown to the replier of \<^verbatim>\<open>nng\<close>, which sends nothing back, and the request of \<^verbatim>\<open>nng\<close> is unknown to
  the server of \<^verbatim>\<open>anng\<close>, which answers it with the time 0.
\<close>

lemma nng_ignores_anng:
  assumes "sock_recv L a s = give (m, s1)" "nm_as_slice (n_msgs L) m = store_word False DATE_COMMAND"
  shows "nng_date_answer L a now s
    = ([Line ''REPLY: WAITING FOR COMMAND'', Line ''REPLY: UNKNOWN COMMAND''], Inr (Inr s1))"
proof -
  have "le_u64 (nm_as_slice (n_msgs L) m) = give 0x100000000000000"
    using swapped_one(1) assms(2) by (simp add: le_u64_def DATE_COMMAND_def)
  then show ?thesis
    using assms(1) by (simp add: nng_date_answer_def prog_simps DATE_REQUEST_def)
qed

lemma anng_answers_nng_with_zero:
  assumes "nng_msg (p_msgs P) V" "waiting ctx" "Message.len (p_msgs P) m = 8"
    and "body P m = store_word True DATE_REQUEST" "Suc n \<le> usize_max" "has_room P (store_word False 0)"
  shows "\<exists>ctx' r. date_server_round P (served_with m t) (n, ctx)
      = ([Line (''SERVER: Unknown command: 0x'' @ show_hex 0x100000000000000)],
          Inr (Inr (Suc n, ctx')))
    \<and> given (cs_aio ctx') = given (cs_aio ctx) @ [r] \<and> body P r = store_word False 0"
proof -
  obtain ctx1 where 1: "rep0_receive (p_ffi P) (p_da P) (Ran (ReceivedMsg m)) ctx
        = Inr (Some (Inr (m, \<lparr>sent = False\<rparr>)), ctx1)"
      "waiting ctx1" "given (cs_aio ctx1) = given (cs_aio ctx)"
    using waiting_receive [OF assms(2)] by metis
  obtain r where r: "make_message P (store_word False 0) = give r" "body P r = store_word False 0"
    using has_roomE [OF assms(1,6)] by metis
  obtain ctx2 where 2: "send_reply P r SentOk \<lparr>sent = False\<rparr> ctx1 = give (Inr (), ctx2)"
      "given (cs_aio ctx2) = given (cs_aio ctx1) @ [r]"
    using send_reply_ok [OF 1(2)] by metis
  have "(load_word False (body P m) :: u64) = 0x100000000000000"
    using swapped_one(2) assms(4) by (simp add: DATE_REQUEST_def)
  then show ?thesis
    using assms(3,5) 1 r 2
    by (intro exI [of _ ctx2] exI [of _ r])
      (simp add: date_server_round_def served_with_def prog_simps DATE_COMMAND_def)
qed

section \<open>Properties\<close>

text \<open>
  C31. The date service from end to end.  The server that receives \<open>n\<close> date requests answers all but
  every sixth, with a warning for each responder it drops, and keeps running.  Its \<open>j\<close>-th reply is
  the time at which it saw request number \<open>j + j div 5\<close> (both from 0), so a client that repeats an
  unanswered request needs one repetition for every five replies; a client that gets that reply
  prints that time, and what the client sent is again a request that the server answers.
\<close>

theorem date_service:
  assumes "nng_msg (p_msgs P) V" and "\<And>t. has_room P (store_word False t)"
    and "waiting sctx" "waiting cctx"
    and "\<forall>k<n. asks_date P V (ms k) \<and> ts k \<noteq> 0" "n \<le> usize_max"
  shows "\<exists>out sctx' rs.
      rounds (date_server_round P) (map (\<lambda>k. served_with (ms k) (ts k)) [0..<n]) (0, sctx)
        = (out, Inr (Inr (n, sctx')))
    \<and> given (cs_aio sctx') = given (cs_aio sctx) @ rs
    \<and> length rs = n - n div 6 \<and> length (filter ((=) Warned) out) = n div 6
    \<and> (\<forall>j<length rs. \<exists>m cctx'.
        date_client_round P (i, \<lparr>ask_sent = SentOk, ask_reply = ReceivedMsg (rs ! j)\<rparr>) cctx
          = ([Line (''CLIENT: Sending DATE request #'' @ show_nat i),
              Line (''CLIENT: Received timestamp: '' @ show_nat (unat (ts (j + j div 5))))],
             Inr (Inr cctx'))
        \<and> given (cs_aio cctx') = given (cs_aio cctx) @ [m] \<and> asks_date P V m)"
proof -
  obtain out sctx' rs where run:
      "rounds (date_server_round P) (map (\<lambda>k. served_with (ms k) (ts k)) [0..<n]) (0, sctx)
         = (out, Inr (Inr (n, sctx')))"
      "given (cs_aio sctx') = given (cs_aio sctx) @ rs"
    and bodies: "map (body P) rs = map (\<lambda>j. store_word False (ts (j + j div 5))) [0..<n - n div 6]"
    and wf: "list_all (msg_wf (p_msgs P) V) rs"
    and warned: "length (filter ((=) Warned) out) = n div 6"
    using server_run [OF assms(1,2,3), of 0 n ms ts] assms(5,6)
    by (auto simp: answered_requests skipped_requests o_def simp del: neq0_conv)
  have len: "length rs = n - n div 6" using arg_cong [OF bodies, where f = length] by simp
  have "\<exists>m cctx'. date_client_round P (i, \<lparr>ask_sent = SentOk, ask_reply = ReceivedMsg (rs ! j)\<rparr>) cctx
          = ([Line (''CLIENT: Sending DATE request #'' @ show_nat i),
              Line (''CLIENT: Received timestamp: '' @ show_nat (unat (ts (j + j div 5))))],
             Inr (Inr cctx'))
        \<and> given (cs_aio cctx') = given (cs_aio cctx) @ [m] \<and> asks_date P V m"
    if j: "j < length rs" for j
  proof (rule client_reads [OF assms(1,4,2)])
    show "msg_wf (p_msgs P) V (rs ! j)" using wf j by (simp add: list_all_length)
    have "map (body P) rs ! j = store_word False (ts (j + j div 5))"
      using bodies j len by simp
    then show "body P (rs ! j) = store_word False (ts (j + j div 5))" using j by simp
    have "j + j div 5 \<in> set (map (\<lambda>j. j + j div 5) [0..<n - n div 6])" using j len by simp
    then have "j + j div 5 < n" unfolding answered_requests [symmetric] by simp
    then show "ts (j + j div 5) \<noteq> 0" using assms(5) by blast
  qed
  with run len warned show ?thesis by blast
qed

text \<open>Eight requests: the sixth is not answered, and the sixth reply belongs to the seventh.\<close>

definition date_request_msg :: "ref_msg message" where
  "date_request_msg = \<lparr>inner = \<lparr>r_header = [], r_body = store_word False 1, r_cap = 8\<rparr>, pos = 0\<rparr>"

lemma date_request_asks: "asks_date sample_platform ref_ok date_request_msg"
  by (simp add: asks_date_def body_def sample_platform_def date_request_msg_def as_slice_def
      Message.len_def ref_api_def ref_ok_def ref_limit_def usize_max_def DATE_COMMAND_def)

theorem date_service_witness:
  "\<exists>out sctx' rs.
      rounds (date_server_round sample_platform)
        (map (\<lambda>k. served_with date_request_msg (word_of_nat (k + 100))) [0..<8]) (0, contextful_new)
        = (out, Inr (Inr (8, sctx')))
    \<and> length rs = 7 \<and> length (filter ((=) Warned) out) = 1
    \<and> (\<exists>cctx'. date_client_round sample_platform
          (3, \<lparr>ask_sent = SentOk, ask_reply = ReceivedMsg (rs ! 5)\<rparr>) contextful_new
        = ([Line ''CLIENT: Sending DATE request #3'', Line ''CLIENT: Received timestamp: 106''],
           Inr (Inr cctx')))"
proof -
  have room: "has_room sample_platform (store_word False t)" for t by (rule sample_has_room) simp
  have w: "waiting (contextful_new :: ref_msg message contextful)"
    by (rule waiting_new)
  have ts: "\<forall>k<8. asks_date sample_platform ref_ok date_request_msg
      \<and> (word_of_nat (k + 100) :: u64) \<noteq> 0"
  proof (intro allI impI conjI date_request_asks)
    fix k :: nat
    assume "k < 8"
    then have "unat (word_of_nat (k + 100) :: u64) = k + 100"
      by (simp add: unsigned_of_nat take_bit_nat_eq_self del: of_nat_add)
    then show "(word_of_nat (k + 100) :: u64) \<noteq> 0" by (metis add_eq_0_iff_both_eq_0 unsigned_0 zero_neq_numeral)
  qed
  have n: "(8 :: nat) \<le> usize_max" by (simp add: usize_max_def)
  obtain out sctx' rs where run:
      "rounds (date_server_round sample_platform)
        (map (\<lambda>k. served_with date_request_msg (word_of_nat (k + 100))) [0..<8]) (0, contextful_new)
        = (out, Inr (Inr (8, sctx')))"
    and "given (cs_aio sctx') = given (cs_aio (contextful_new :: ref_msg message contextful)) @ rs"
    and len: "length rs = 8 - 8 div 6" "length (filter ((=) Warned) out) = 8 div 6"
    and client: "\<forall>j<length rs. \<exists>m cctx'. date_client_round sample_platform
          (3, \<lparr>ask_sent = SentOk, ask_reply = ReceivedMsg (rs ! j)\<rparr>) contextful_new
        = ([Line (''CLIENT: Sending DATE request #'' @ show_nat 3),
            Line (''CLIENT: Received timestamp: ''
              @ show_nat (unat (word_of_nat (j + j div 5 + 100) :: u64)))], Inr (Inr cctx'))
        \<and> given (cs_aio cctx') = given (cs_aio (contextful_new :: ref_msg message contextful)) @ [m]
        \<and> asks_date sample_platform ref_ok m"
    using date_service [OF sample_laws room w w ts n, of 3] by (elim exE conjE) (rule that)
  have 7: "length rs = 7" "length (filter ((=) Warned) out) = 1" using len by simp_all
  have shown: "show_nat 3 = ''3''" "show_nat (unat (word_of_nat (5 + 5 div 5 + 100) :: u64)) = ''106''"
    by (simp_all add: show_nat.simps digit_char_def char_of_eq_iff)
  obtain cctx' where "date_client_round sample_platform
        (3, \<lparr>ask_sent = SentOk, ask_reply = ReceivedMsg (rs ! 5)\<rparr>) contextful_new
      = ([Line (''CLIENT: Sending DATE request #'' @ ''3''),
          Line (''CLIENT: Received timestamp: '' @ ''106'')], Inr (Inr cctx'))"
    using client [rule_format, of 5] 7 shown by auto
  with run 7 show ?thesis by auto
qed

end
