(* ===== verification/DelayService.thy ===== *)
theory DelayService
  imports Programs
begin

text \<open>
  The delay service of anng/examples/async_reqrep.rs: a server whose workers each own a context,
  wait as long as a request says, and answer with text; and a client that sends five requests.  The
  argument parser \<^verbatim>\<open>lexopt\<close> is a parameter.  The pauses are not modelled; elapsed times are inputs, and
  their \<^verbatim>\<open>Debug\<close> text is a parameter.
\<close>

section \<open>The command line\<close>

datatype delay_mode = DelayClient nat | DelayServer nat

record delay_args =
  y_mode :: delay_mode
  y_url :: string

text \<open>
  \<^verbatim>\<open>lexopt::Arg\<close> over the operating system's strings \<open>'v\<close>, and the parser's functions on its state
  \<open>'p\<close>; errors are their texts.
\<close>

datatype 'v arg = ArgShort char | ArgLong string | ArgValue 'v

record ('p, 'v) lexopt =
  l_next :: "'p \<Rightarrow> (string + 'v arg option) \<times> 'p"
  l_value :: "'p \<Rightarrow> (string + 'v) \<times> 'p"
  l_string :: "'v \<Rightarrow> string + string"
  l_unexpected :: "'v arg \<Rightarrow> string"

definition delay_usage :: "string list" where
  "delay_usage =
     [''Usage: async_reqrep <client|server> [OPTIONS] [URL]'', [],
      ''Demonstrates asynchronous Request/Reply with configurable concurrency.'', [], ''Arguments:'',
      ''  client <DELAY_MS>   Run as client, send delay requests'',
      ''  server              Run as server, handle delay requests'',
      ''  [URL]              URL to connect to (default: tcp://127.0.0.1:5556)'', [], ''Options:'',
      ''  --parallel <N>     Number of parallel contexts for server (default: 5)'', [], ''Examples:'',
      ''  async_reqrep server tcp://127.0.0.1:5556 --parallel 10'',
      ''  async_reqrep client tcp://127.0.0.1:5556 1500'']"

text \<open>The variables of the loop, with the parser.\<close>

record 'p parsing =
  at_mode :: "delay_mode option"
  at_url :: string
  at_parallel :: nat
  parser :: 'p

definition delay_parse_mode ::
  "('p, 'v) lexopt \<Rightarrow> string \<Rightarrow> 'p parsing \<Rightarrow> 'p parsing prog" where
  "delay_parse_mode L mode_str s =
     (if mode_str = ''client'' then
        (case l_next L (parser s) of (r, p) \<Rightarrow>
         followed (try_or Refused r) (\<lambda>next.
         case next of
           Some (ArgValue v) \<Rightarrow>
             followed (try_or Refused (l_string L v)) (\<lambda>delay_val.
             followed (try_or ParseInt (parse_uint (2 ^ 64 - 1) delay_val)) (\<lambda>delay_ms.
             give (s\<lparr>at_mode := Some (DelayClient delay_ms), parser := p\<rparr>)))
         | _ \<Rightarrow> fails (Refused ''client mode requires delay argument (milliseconds)'')))
      else if mode_str = ''server'' then give (s\<lparr>at_mode := Some (DelayServer (at_parallel s))\<rparr>)
      else fails (Refused (expected ''client'' ''server'' mode_str)))"

definition delay_parse_parallel :: "('p, 'v) lexopt \<Rightarrow> 'p parsing \<Rightarrow> 'p parsing prog" where
  "delay_parse_parallel L s =
     (case l_value L (parser s) of (r, p) \<Rightarrow>
      followed (try_or Refused r) (\<lambda>v.
      followed (try_or Refused (l_string L v)) (\<lambda>txt.
      followed (try_or ParseInt (parse_uint usize_max txt)) (\<lambda>n.
      give (s\<lparr>at_parallel := n, parser := p,
        at_mode := (case at_mode s of Some (DelayServer _) \<Rightarrow> Some (DelayServer n) | m \<Rightarrow> m)\<rparr>)))))"

definition delay_parse_arg ::
  "('p, 'v) lexopt \<Rightarrow> 'v arg \<Rightarrow> 'p parsing \<Rightarrow> 'p parsing prog" where
  "delay_parse_arg L a s =
     (case a of
        ArgValue v \<Rightarrow>
          followed (try_or Refused (l_string L v)) (\<lambda>txt.
          if at_mode s = None then delay_parse_mode L txt s else give (s\<lparr>at_url := txt\<rparr>))
      | ArgLong name \<Rightarrow>
          if name = ''parallel'' then delay_parse_parallel L s
          else if name = ''help'' then (map Line delay_usage, Inr (Inl (ExitCode 0)))
          else fails (Refused (l_unexpected L a))
      | ArgShort _ \<Rightarrow> fails (Refused (l_unexpected L a)))"

text \<open>
  The loop over the arguments, and what follows it.  One unit of fuel for each argument and one for
  the end are enough (\<open>delay_parse_ends\<close>).
\<close>

fun delay_parse :: "('p, 'v) lexopt \<Rightarrow> nat \<Rightarrow> 'p parsing \<Rightarrow> delay_args prog option" where
  "delay_parse L 0 s = None"
| "delay_parse L (Suc fuel) s =
     (case l_next L (parser s) of
        (Inl e, _) \<Rightarrow> Some (fails (Refused e))
      | (Inr None, _) \<Rightarrow>
          Some (case at_mode s of
              None \<Rightarrow> fails (Refused ''missing required argument: <client|server>'')
            | Some mode \<Rightarrow> give \<lparr>y_mode = mode, y_url = at_url s\<rparr>)
      | (Inr (Some a), p) \<Rightarrow>
          (case delay_parse_arg L a (s\<lparr>parser := p\<rparr>) of
             (out, Inl panic) \<Rightarrow> Some (out, Inl panic)
           | (out, Inr (Inl e)) \<Rightarrow> Some (out, Inr (Inl e))
           | (out, Inr (Inr s)) \<Rightarrow> delay_parse L fuel s))"

definition delay_parse_args :: "('p, 'v) lexopt \<Rightarrow> nat \<Rightarrow> 'p \<Rightarrow> delay_args prog option" where
  "delay_parse_args L fuel p =
     delay_parse L fuel
       \<lparr>at_mode = None, at_url = ''tcp://127.0.0.1:5556'', at_parallel = 5, parser = p\<rparr>"

section \<open>The server\<close>

text \<open>One round of a worker: how its receive ends, how long it slept, how its reply ends.\<close>

record 'm delayed =
  y_received :: "'m completion"
  y_elapsed :: nat
  y_sent :: "'m completion"

definition delay_reply_text :: "(nat \<Rightarrow> string) \<Rightarrow> nat \<Rightarrow> nat \<Rightarrow> string" where
  "delay_reply_text dbg delay_ms elapsed =
     ''Delayed for '' @ show_nat delay_ms @ ''ms (actual: '' @ dbg elapsed @ '')''"

definition delay_worker_round ::
  "'i platform \<Rightarrow> (nat \<Rightarrow> string) \<Rightarrow> nat \<Rightarrow> 'i message delayed \<Rightarrow> nat \<times> 'i message contextful
     \<Rightarrow> (nat \<times> 'i message contextful) prog" where
  "delay_worker_round P dbg worker_id i s =
     (case s of (request_count, ctx) \<Rightarrow>
      let me = ''WORKER '' @ show_nat worker_id in
      followed (call (rep0_receive (p_ffi P) (p_da P) (Ran (y_received i)) ctx)) (\<lambda>(r, ctx).
      followed (ended r) (\<lambda>r.
      followed (try_or Aio r) (\<lambda>(request, responder).
      followed (call (u64_fit (p_oc P) (request_count + 1))) (\<lambda>request_count.
      followed (print (me @ '': Handling request #'' @ show_nat request_count)) (\<lambda>_.
      followed (holding responder (utf8_text (body P request))) (\<lambda>delay_str.
      followed (holding responder (try_or
          (\<lambda>_. Refused (''invalid delay value: '' @ quoted delay_str))
          (parse_uint (2 ^ 64 - 1) (trim_utf8 delay_str)))) (\<lambda>delay_ms.
      followed (print (me @ '': Request #'' @ show_nat request_count @ '' asks for ''
        @ show_nat delay_ms @ ''ms delay'')) (\<lambda>_.
      followed (print (me @ '': Completed request #'' @ show_nat request_count @ '' after ''
        @ dbg (y_elapsed i))) (\<lambda>_.
      followed (holding responder
        (make_message P (bytes_of (delay_reply_text dbg delay_ms (y_elapsed i))))) (\<lambda>response.
      followed (send_reply P response (y_sent i) responder ctx) (\<lambda>(r, ctx).
      case r of
        Inl (responder, error, _) \<Rightarrow>
          followed (print (me @ '': Failed to send reply: '' @ aio_text P error)) (\<lambda>_.
          followed (drop_responder responder) (\<lambda>_. give (request_count, ctx)))
      | Inr _ \<Rightarrow> give (request_count, ctx)))))))))))))"

text \<open>A worker task; \<open>ctx_open\<close> is what \<^verbatim>\<open>nng_ctx_open\<close> returns for its context.\<close>

definition delay_worker ::
  "'i platform \<Rightarrow> (nat \<Rightarrow> string) \<Rightarrow> c_int \<Rightarrow> 'i message delayed list \<Rightarrow> nat
     \<Rightarrow> (nat \<times> 'i message contextful) prog" where
  "delay_worker P dbg ctx_open inputs worker_id =
     followed (call (socket_context ctx_open)) (\<lambda>ctx.
     followed (print (''WORKER '' @ show_nat worker_id @ '': Started'')) (\<lambda>_.
     rounds (delay_worker_round P dbg worker_id) inputs (0, ctx)))"

text \<open>
  Awaiting the tasks one after the other.  A task that panicked is reported, with the text of its
  \<^verbatim>\<open>JoinError\<close>; the result of a task that ended is dropped.  A worker that has used up its inputs is
  still running, and then so is the server: the value is \<open>False\<close>.
\<close>

fun join_workers :: "(panic \<Rightarrow> string) \<Rightarrow> 'a prog list \<Rightarrow> bool prog" where
  "join_workers join_text [] = give True"
| "join_workers join_text (t # ts) =
     (case snd t of
        Inl p \<Rightarrow>
          followed (eprint (''Worker task failed: '' @ join_text p)) (\<lambda>_. join_workers join_text ts)
      | Inr (Inl _) \<Rightarrow> join_workers join_text ts
      | Inr (Inr _) \<Rightarrow> give False)"

text \<open>The server: whether it ended, and its workers, each with its own output.\<close>

definition delay_run_server ::
  "'i platform \<Rightarrow> (panic \<Rightarrow> string) \<Rightarrow> (nat \<Rightarrow> string) \<Rightarrow> 'w ep_api \<Rightarrow> (nat \<Rightarrow> c_int)
     \<Rightarrow> (nat \<Rightarrow> 'i message delayed list) \<Rightarrow> string \<Rightarrow> nat \<Rightarrow> 'w
     \<Rightarrow> (bool \<times> 'w \<times> (nat \<times> 'i message contextful) prog list) prog" where
  "delay_run_server P join_text dbg W ctx_open inputs url workers w =
     followed (print (''SERVER: Starting async delay service on '' @ url @ '' with ''
       @ show_nat workers @ '' parallel contexts'')) (\<lambda>_.
     followed (c_string url) (\<lambda>c_url.
     followed (call (rep0_listen (p_ffi P) W c_url w)) (\<lambda>(r, w).
     followed (try_or Io r) (\<lambda>(_ :: nat \<times> 'i message socket).
     let tasks = map (\<lambda>i. delay_worker P dbg (ctx_open i) (inputs i) i) [0..<workers] in
     followed (print (''SERVER: Spawned '' @ show_nat workers @ '' worker tasks'')) (\<lambda>_.
     followed (join_workers join_text tasks) (\<lambda>ended. give (ended, w, tasks)))))))"

section \<open>The client\<close>

text \<open>One request: how its send and the wait for its reply end, and how long both took.\<close>

record 'm delay_asked =
  z_sent :: "'m completion"
  z_reply :: "'m completion"
  z_elapsed :: nat

definition delay_client_round ::
  "'i platform \<Rightarrow> (nat \<Rightarrow> string) \<Rightarrow> nat \<Rightarrow> nat \<times> 'i message delay_asked \<Rightarrow> 'i message contextful
     \<Rightarrow> 'i message contextful prog" where
  "delay_client_round P dbg delay_ms i ctx =
     (let me = ''CLIENT: Request '' @ show_nat (fst i) in
      followed (call (u64_fit (p_oc P) (fst i * 100))) (\<lambda>extra.
      followed (call (u64_fit (p_oc P) (delay_ms + extra))) (\<lambda>request_delay.
      followed (print (''CLIENT: Sending request '' @ show_nat (fst i) @ '' ('' @ show_nat request_delay
        @ ''ms delay)'')) (\<lambda>_.
      followed (make_message P (bytes_of (show_nat request_delay))) (\<lambda>msg.
      followed (call (request (p_ffi P) (p_da P) msg (Ran (z_sent (snd i))) ctx)) (\<lambda>(r, ctx).
      followed (ended r) (\<lambda>r.
      case r of
        Inl (error, _) \<Rightarrow>
          followed (print (me @ '': Failed to send: '' @ aio_text P error)) (\<lambda>_. give ctx)
      | Inr _ \<Rightarrow>
          followed (call (reply_future (p_ffi P) (p_da P) (Ran (z_reply (snd i))) ctx)) (\<lambda>(r, ctx).
          followed (ended r) (\<lambda>r.
          case r of
            Inl error \<Rightarrow>
              followed (print (me @ '': Failed to receive reply: '' @ aio_text P error)) (\<lambda>_. give ctx)
          | Inr reply_msg \<Rightarrow>
              followed (utf8_text (body P reply_msg)) (\<lambda>response_text.
              followed (print (me @ '': Received reply after '' @ dbg (z_elapsed (snd i)) @ '': ''
                @ response_text)) (\<lambda>_. give ctx)))))))))))"

definition delay_run_client ::
  "'i platform \<Rightarrow> (panic \<Rightarrow> io_error) \<Rightarrow> (nat \<Rightarrow> string) \<Rightarrow> 'w ep_api \<Rightarrow> c_int
     \<Rightarrow> (nat \<Rightarrow> 'i message delay_asked) \<Rightarrow> string \<Rightarrow> nat \<Rightarrow> 'w \<Rightarrow> ('w \<times> 'i message contextful) prog" where
  "delay_run_client P joined dbg W ctx_open inputs url delay_ms w =
     followed (print (''CLIENT: Connecting to delay service at '' @ url)) (\<lambda>_.
     followed (print (''CLIENT: Will send requests for '' @ show_nat delay_ms @ ''ms delays'')) (\<lambda>_.
     followed (c_string url) (\<lambda>c_url.
     followed (call (req0_dial (p_ffi P) joined W False c_url w)) (\<lambda>(r, w).
     followed (ended r) (\<lambda>r.
     followed (try_or Io r) (\<lambda>(_ :: nat \<times> 'i message socket).
     followed (call (socket_context ctx_open)) (\<lambda>ctx.
     followed (rounds (delay_client_round P dbg delay_ms) (map (\<lambda>i. (i, inputs i)) [1..<6]) ctx) (\<lambda>ctx.
     followed (print ''CLIENT: All requests completed'') (\<lambda>_. give (w, ctx))))))))))"

text \<open>The program: whether the server or the client ended, which the client always does.\<close>

definition delay_main ::
  "'i platform \<Rightarrow> (panic \<Rightarrow> io_error) \<Rightarrow> (panic \<Rightarrow> string) \<Rightarrow> (nat \<Rightarrow> string) \<Rightarrow> 'w ep_api
     \<Rightarrow> (nat \<Rightarrow> c_int) \<Rightarrow> ('p, 'v) lexopt \<Rightarrow> nat \<Rightarrow> (nat \<Rightarrow> 'i message delayed list)
     \<Rightarrow> (nat \<Rightarrow> 'i message delay_asked) \<Rightarrow> 'p \<Rightarrow> 'w \<Rightarrow> (bool \<times> 'w) prog option" where
  "delay_main P joined join_text dbg W ctx_open L fuel inputs asks p w =
     map_option (\<lambda>args. followed args (\<lambda>a.
       case y_mode a of
         DelayServer n \<Rightarrow>
           followed (delay_run_server P join_text dbg W ctx_open inputs (y_url a) n w)
             (\<lambda>(ended, w, _). give (ended, w))
       | DelayClient delay_ms \<Rightarrow>
           followed (delay_run_client P joined dbg W (ctx_open 0) asks (y_url a) delay_ms w)
             (\<lambda>(w, _). give (True, w))))
       (delay_parse_args L fuel p)"

section \<open>The command line, read\<close>

text \<open>
  The loop over the arguments ends: \<open>left\<close> bounds how many arguments the parser still has.
\<close>

lemma delay_parse_arg_left:
  fixes left :: "'p \<Rightarrow> nat"
  assumes "\<And>p r p'. l_next L p = (r, p') \<Longrightarrow> left p' \<le> left p"
    and "\<And>p r p'. l_value L p = (r, p') \<Longrightarrow> left p' \<le> left p"
    and "delay_parse_arg L a s = (out, Inr (Inr s'))"
  shows "out = [] \<and> left (parser s') \<le> left (parser s)"
  using assms by (auto simp: delay_parse_arg_def delay_parse_mode_def delay_parse_parallel_def
      followed_eq_value try_or_def split: arg.splits sum.splits if_splits prod.splits option.splits)

lemma delay_parse_ends:
  fixes left :: "'p \<Rightarrow> nat"
  assumes "\<And>p r p'. l_next L p = (r, p') \<Longrightarrow> left p' \<le> left p"
    and "\<And>p a p'. l_next L p = (Inr (Some a), p') \<Longrightarrow> left p' < left p"
    and "\<And>p r p'. l_value L p = (r, p') \<Longrightarrow> left p' \<le> left p"
  shows "left (parser s) < fuel \<Longrightarrow> \<exists>m. delay_parse L fuel s = Some m"
proof (induction fuel arbitrary: s)
  case (Suc fuel)
  show ?case
  proof (cases "l_next L (parser s)")
    case (Pair r p)
    show ?thesis
    proof (cases r)
      case (Inr x)
      show ?thesis
      proof (cases x)
        case (Some a)
        then have less: "left p < left (parser s)" using assms(2) Pair Inr by metis
        obtain out v where arg: "delay_parse_arg L a (s\<lparr>parser := p\<rparr>) = (out, v)" by fastforce
        have "\<exists>m. delay_parse L fuel s' = Some m" if "v = Inr (Inr s')" for s'
        proof -
          have "left (parser s') \<le> left p"
            using delay_parse_arg_left [of L left, OF assms(1,3)] arg that by fastforce
          then show ?thesis using less Suc.prems by (intro Suc.IH) simp
        qed
        then show ?thesis using Pair Inr Some arg by (auto split: sum.splits)
      qed (use Pair Inr in \<open>simp split: option.splits\<close>)
    qed (use Pair in simp)
  qed
qed simp

text \<open>
  What \<^verbatim>\<open>lexopt\<close> documents of plain words and long options: \<open>holds p args\<close> means that the arguments
  \<open>args\<close> are still to be read.
\<close>

definition reads_words :: "('p, 'v) lexopt \<Rightarrow> ('p \<Rightarrow> string list \<Rightarrow> bool) \<Rightarrow> bool" where
  "reads_words L holds \<longleftrightarrow>
     (\<forall>p. holds p [] \<longrightarrow> fst (l_next L p) = Inr None)
   \<and> (\<forall>p a args. holds p (a # args) \<and> \<not> prefix ''-'' a \<longrightarrow>
        (\<exists>v p'. l_next L p = (Inr (Some (ArgValue v)), p') \<and> l_string L v = Inr a \<and> holds p' args))
   \<and> (\<forall>p x args. holds p (''--parallel'' # x # args) \<longrightarrow>
        (\<exists>v p1 p2. l_next L p = (Inr (Some (ArgLong ''parallel'')), p1)
           \<and> l_value L p1 = (Inr v, p2) \<and> l_string L v = Inr x \<and> holds p2 args))"

lemma reads_words_end: "reads_words L holds \<Longrightarrow> holds p [] \<Longrightarrow> \<exists>p'. l_next L p = (Inr None, p')"
  unfolding reads_words_def by (metis prod.collapse)

lemma reads_words_word:
  "reads_words L holds \<Longrightarrow> holds p (a # args) \<Longrightarrow> \<not> prefix ''-'' a \<Longrightarrow>
    \<exists>v p'. l_next L p = (Inr (Some (ArgValue v)), p') \<and> l_string L v = Inr a \<and> holds p' args"
  unfolding reads_words_def by blast

lemma reads_words_parallel:
  "reads_words L holds \<Longrightarrow> holds p (''--parallel'' # x # args) \<Longrightarrow>
    \<exists>v p1 p2. l_next L p = (Inr (Some (ArgLong ''parallel'')), p1)
      \<and> l_value L p1 = (Inr v, p2) \<and> l_string L v = Inr x \<and> holds p2 args"
  unfolding reads_words_def by blast

lemma show_nat_plain: "\<not> prefix ''-'' (show_nat n)"
proof
  assume "prefix ''-'' (show_nat n)"
  then have "CHR ''-'' \<in> set (show_nat n)" using set_mono_prefix by fastforce
  then have "CHR ''-'' \<in> digit_char ` {0..<10}" using set_show_nat [of n] by blast
  then obtain d :: nat where d: "d < 10" "digit_char d = CHR ''-''" by auto
  have "(of_char (digit_char d) :: nat) = 48 + d" using d(1) by (simp add: digit_char_def)
  then show False unfolding d(2) by simp
qed

lemma delay_parse_give:
  assumes "l_next L (parser s) = (Inr (Some a), p)"
    and "delay_parse_arg L a (s\<lparr>parser := p\<rparr>) = give s'"
  shows "delay_parse L (Suc fuel) s = delay_parse L fuel s'"
  using assms by (simp add: give_def)

lemma delay_parse_fails:
  assumes "l_next L (parser s) = (Inr (Some a), p)"
    and "delay_parse_arg L a (s\<lparr>parser := p\<rparr>) = fails e"
  shows "delay_parse L (Suc fuel) s = Some (fails e)"
  using assms by (simp add: fails_def)

lemma mode_words: "\<not> prefix ''-'' ''client''" "\<not> prefix ''-'' ''server''"
  by simp_all

text \<open>How the loop reads the words: the mode, the address, and the option.\<close>

lemma delay_reads_url:
  assumes "reads_words L holds" "holds (parser s) (url # args)" "\<not> prefix ''-'' url"
    and "at_mode s \<noteq> None"
  obtains p where "delay_parse L (Suc fuel) s = delay_parse L fuel (s\<lparr>at_url := url, parser := p\<rparr>)"
    "holds p args"
proof -
  obtain v p where "l_next L (parser s) = (Inr (Some (ArgValue v)), p)" "l_string L v = Inr url"
      "holds p args"
    using reads_words_word [OF assms(1), OF assms(2,3)] by (elim exE conjE) (rule that)
  moreover have "delay_parse_arg L (ArgValue v) (s\<lparr>parser := p\<rparr>) = give (s\<lparr>at_url := url, parser := p\<rparr>)"
    using assms(4) calculation(2) by (cases s) (auto simp: delay_parse_arg_def)
  ultimately show ?thesis by (intro that [of p] delay_parse_give)
qed

lemma delay_reads_server:
  assumes "reads_words L holds" "holds (parser s) (''server'' # args)" "at_mode s = None"
  obtains p where "delay_parse L (Suc fuel) s = delay_parse L fuel
      (s\<lparr>at_mode := Some (DelayServer (at_parallel s)), parser := p\<rparr>)" "holds p args"
proof -
  obtain v p where "l_next L (parser s) = (Inr (Some (ArgValue v)), p)"
      "l_string L v = Inr ''server''" "holds p args"
    using reads_words_word [OF assms(1), OF assms(2) mode_words(2)] by (elim exE conjE) (rule that)
  with assms(3) show ?thesis
    by (intro that [of p] delay_parse_give) (cases s; simp add: delay_parse_arg_def delay_parse_mode_def)+
qed

lemma delay_reads_client:
  assumes "reads_words L holds" "holds (parser s) (''client'' # d # args)" "at_mode s = None"
    and "\<not> prefix ''-'' d"
  obtains p where "delay_parse L (Suc fuel) s =
      (case parse_uint (2 ^ 64 - 1) d of
         Inl e \<Rightarrow> Some (fails (ParseInt e))
       | Inr n \<Rightarrow> delay_parse L fuel (s\<lparr>at_mode := Some (DelayClient n), parser := p\<rparr>))"
    "holds p args"
proof -
  obtain v p where 1: "l_next L (parser s) = (Inr (Some (ArgValue v)), p)"
      "l_string L v = Inr ''client''" "holds p (d # args)"
    using reads_words_word [OF assms(1), OF assms(2) mode_words(1)] by (elim exE conjE) (rule that)
  obtain v' p' where 2: "l_next L p = (Inr (Some (ArgValue v')), p')" "l_string L v' = Inr d"
      "holds p' args"
    using reads_words_word [OF assms(1), OF 1(3) assms(4)] by (elim exE conjE) (rule that)
  have arg: "delay_parse_arg L (ArgValue v) (s\<lparr>parser := p\<rparr>) =
      followed (try_or ParseInt (parse_uint (2 ^ 64 - 1) d)) (\<lambda>n.
        give (s\<lparr>at_mode := Some (DelayClient n), parser := p'\<rparr>))"
    using 1 2 assms(3) by (cases s) (simp add: delay_parse_arg_def delay_parse_mode_def)
  show ?thesis
  proof (cases "parse_uint (2 ^ 64 - 1) d")
    case (Inl e)
    with 1 2 arg that [of p'] show ?thesis by (simp add: delay_parse_fails del: delay_parse.simps)
  next
    case (Inr n)
    with 1 2 arg that [of p'] show ?thesis by (simp add: delay_parse_give del: delay_parse.simps)
  qed
qed

lemma delay_reads_parallel:
  assumes "reads_words L holds" "holds (parser s) (''--parallel'' # show_nat n # args)" "n \<le> usize_max"
  obtains p where "delay_parse L (Suc fuel) s = delay_parse L fuel (s\<lparr>at_parallel := n, parser := p,
      at_mode := (case at_mode s of Some (DelayServer _) \<Rightarrow> Some (DelayServer n) | m \<Rightarrow> m)\<rparr>)"
    "holds p args"
proof -
  obtain v p1 p where "l_next L (parser s) = (Inr (Some (ArgLong ''parallel'')), p1)"
      "l_value L p1 = (Inr v, p)" "l_string L v = Inr (show_nat n)" "holds p args"
    using reads_words_parallel [OF assms(1), OF assms(2)] by (elim exE conjE) (rule that)
  with assms(3) show ?thesis
    by (intro that [of p] delay_parse_give) (cases s; simp add: delay_parse_arg_def delay_parse_parallel_def)+
qed

lemma delay_reads_end:
  assumes "reads_words L holds" "holds (parser s) []" "at_mode s = Some mode"
  shows "delay_parse L (Suc fuel) s = Some (give \<lparr>y_mode = mode, y_url = at_url s\<rparr>)"
  using reads_words_end [OF assms(1), OF assms(2)] assms(3) by auto

section \<open>One request\<close>

lemma trim_visible:
  assumes "\<forall>c\<in>set s. 32 < (of_char c :: nat) \<and> (of_char c :: nat) < 128"
  shows "trim_utf8 s = s"
proof -
  have bytes: "(of_char c :: nat) \<le> 32 \<or> 128 \<le> (of_char c :: nat)"
    if "w \<in> set white_space" "c \<in> set w" for w c
    using that unfolding white_space_def by auto
  have none: "\<not> prefix w s" "\<not> suffix w s" if w: "w \<in> set white_space" for w
  proof -
    obtain c where c: "c \<in> set w" using white_space_nonempty [OF w] by (cases w) auto
    then show "\<not> prefix w s" using bytes [OF w c] assms set_mono_prefix [of w s] by fastforce
    show "\<not> suffix w s" using c bytes [OF w c] assms set_mono_suffix [of w s] by fastforce
  qed
  have "find (\<lambda>w. prefix w s) white_space = None" "find (\<lambda>w. suffix w s) white_space = None"
    using none by (auto simp: find_None_iff)
  then show ?thesis by (simp add: trim_utf8_def trim_with.simps [of _ _ s])
qed

lemma digits_visible:
  assumes "c \<in> set (show_nat n)"
  shows "32 < (of_char c :: nat)" "(of_char c :: nat) < 128"
  using set_show_nat [of n] assms by (auto simp: digit_char_def)

lemma trim_show_nat [simp]: "trim_utf8 (show_nat n) = show_nat n"
  by (rule trim_visible) (simp add: digits_visible)

lemma show_nat_text [simp]: "plain_text (show_nat n)"
  by (simp add: plain_text_def digits_visible)

definition asks_delay :: "'i platform \<Rightarrow> ('i \<Rightarrow> bool) \<Rightarrow> 'i message \<Rightarrow> nat \<Rightarrow> bool" where
  "asks_delay P V m n \<longleftrightarrow> V (inner m) \<and> body P m = bytes_of (show_nat n)"

lemma delay_client_asks:
  assumes "nng_msg (p_msgs P) V" "waiting ctx" "d + 100 * i < 2 ^ 64"
    and "has_room P (bytes_of (show_nat (d + 100 * i)))"
    and "body P r = bytes_of t" "utf8_text (bytes_of t) = give t"
  shows "\<exists>m ctx'. delay_client_round P dbg d
        (i, \<lparr>z_sent = SentOk, z_reply = ReceivedMsg r, z_elapsed = e\<rparr>) ctx
      = ([Line (''CLIENT: Sending request '' @ show_nat i @ '' ('' @ show_nat (d + 100 * i)
            @ ''ms delay)''),
          Line (''CLIENT: Request '' @ show_nat i @ '': Received reply after '' @ dbg e @ '': '' @ t)],
         Inr (Inr ctx'))
    \<and> waiting ctx' \<and> given (cs_aio ctx') = given (cs_aio ctx) @ [m] \<and> asks_delay P V m (d + 100 * i)"
proof -
  obtain m where m: "make_message P (bytes_of (show_nat (d + 100 * i))) = give m"
      "msg_wf (p_msgs P) V m" "body P m = bytes_of (show_nat (d + 100 * i))"
    using has_roomE [OF assms(1,4)] by metis
  obtain ctx1 where 1: "request (p_ffi P) (p_da P) m (Ran SentOk) ctx = Inr (Some (Inr ()), ctx1)"
      "waiting ctx1" "given (cs_aio ctx1) = given (cs_aio ctx) @ [m]"
    using waiting_send [OF assms(2)] unfolding request_def by metis
  obtain ctx2 where 2: "reply_future (p_ffi P) (p_da P) (Ran (ReceivedMsg r)) ctx1
        = Inr (Some (Inr r), ctx2)" "waiting ctx2" "given (cs_aio ctx2) = given (cs_aio ctx1)"
    using waiting_recv [OF 1(2)] unfolding reply_future_def by metis
  have "u64_fit (p_oc P) (i * 100) = Inr (100 * i)" "u64_fit (p_oc P) (d + 100 * i) = Inr (d + 100 * i)"
    using assms(3) by (simp_all add: u64_fit_def mult.commute)
  then show ?thesis
    using m 1 2 assms(5,6)
    by (intro exI [of _ m] exI [of _ ctx2])
      (simp add: delay_client_round_def prog_simps asks_delay_def msg_wf_def Let_def)
qed

lemma delay_worker_serves:
  assumes "nng_msg (p_msgs P) V" "waiting ctx" "asks_delay P V m n" "n < 2 ^ 64" "Suc k < 2 ^ 64"
    and "has_room P (bytes_of (delay_reply_text dbg n e))"
  shows "\<exists>out r ctx'. delay_worker_round P dbg wid
        \<lparr>y_received = ReceivedMsg m, y_elapsed = e, y_sent = SentOk\<rparr> (k, ctx)
      = (out, Inr (Inr (Suc k, ctx')))
    \<and> waiting ctx' \<and> given (cs_aio ctx') = given (cs_aio ctx) @ [r]
    \<and> Warned \<notin> set out \<and> body P r = bytes_of (delay_reply_text dbg n e)"
proof -
  obtain ctx1 where 1: "rep0_receive (p_ffi P) (p_da P) (Ran (ReceivedMsg m)) ctx
        = Inr (Some (Inr (m, \<lparr>sent = False\<rparr>)), ctx1)"
      "waiting ctx1" "given (cs_aio ctx1) = given (cs_aio ctx)"
    using waiting_receive [OF assms(2)] by metis
  obtain r where r: "make_message P (bytes_of (delay_reply_text dbg n e)) = give r"
      "body P r = bytes_of (delay_reply_text dbg n e)"
    using has_roomE [OF assms(1,6)] by metis
  obtain ctx2 where 2: "send_reply P r SentOk \<lparr>sent = False\<rparr> ctx1 = give (Inr (), ctx2)"
      "waiting ctx2" "given (cs_aio ctx2) = given (cs_aio ctx1) @ [r]"
    using send_reply_ok [OF 1(2)] by metis
  have "parse_uint (2 ^ 64 - 1) (show_nat n) = Inr n" using assms(4) by simp
  then have "delay_worker_round P dbg wid
        \<lparr>y_received = ReceivedMsg m, y_elapsed = e, y_sent = SentOk\<rparr> (k, ctx)
      = (let me = ''WORKER '' @ show_nat wid in
         [Line (me @ '': Handling request #'' @ show_nat (Suc k)),
          Line (me @ '': Request #'' @ show_nat (Suc k) @ '' asks for '' @ show_nat n @ ''ms delay''),
          Line (me @ '': Completed request #'' @ show_nat (Suc k) @ '' after '' @ dbg e)],
         Inr (Inr (Suc k, ctx2)))"
    using assms(3,5) 1 r 2
    by (simp add: delay_worker_round_def prog_simps asks_delay_def Let_def u64_fit_def)
  then show ?thesis using 1 r 2 by (fastforce simp: Let_def)
qed

lemma delay_worker_stops:
  assumes "nng_msg (p_msgs P) V" "waiting ctx" "body P m = bytes_of t" "utf8_text (bytes_of t) = give t"
    and "parse_uint (2 ^ 64 - 1) (trim_utf8 t) = Inl e" "Suc k < 2 ^ 64"
  shows "delay_worker_round P dbg wid
        \<lparr>y_received = ReceivedMsg m, y_elapsed = el, y_sent = c\<rparr> (k, ctx)
      = ([Line (''WORKER '' @ show_nat wid @ '': Handling request #'' @ show_nat (Suc k)), Warned],
         Inr (Inl (Refused (''invalid delay value: '' @ quoted t))))"
proof -
  obtain ctx1 where "rep0_receive (p_ffi P) (p_da P) (Ran (ReceivedMsg m)) ctx
        = Inr (Some (Inr (m, \<lparr>sent = False\<rparr>)), ctx1)"
    using waiting_receive [OF assms(2)] by metis
  then show ?thesis
    using assms(3-6) by (simp add: delay_worker_round_def prog_simps Let_def u64_fit_def holding_def
        fails_def responder_drop_def)
qed

lemma delay_client_asks_all:
  assumes "nng_msg (p_msgs P) V" "d + 500 < 2 ^ 64"
    and "\<forall>n<2 ^ 64. has_room P (bytes_of (show_nat n))"
    and "\<And>i. body P (rs i) = bytes_of (ts i) \<and> utf8_text (bytes_of (ts i)) = give (ts i)"
  shows "\<lbrakk>waiting ctx; k + l \<le> 6\<rbrakk> \<Longrightarrow> \<exists>out ctx' ms.
      rounds (delay_client_round P dbg d) (map (\<lambda>i. (i,
          \<lparr>z_sent = SentOk, z_reply = ReceivedMsg (rs i), z_elapsed = es i\<rparr>)) [k..<k + l]) ctx
        = (out, Inr (Inr ctx'))
    \<and> given (cs_aio ctx') = given (cs_aio ctx) @ ms
    \<and> list_all2 (\<lambda>m i. asks_delay P V m (d + 100 * i)) ms [k..<k + l]
    \<and> (\<forall>i\<in>{k..<k + l}. Line (''CLIENT: Request '' @ show_nat i @ '': Received reply after ''
          @ dbg (es i) @ '': '' @ ts i) \<in> set out)"
proof (induction l arbitrary: k ctx)
  case 0
  then show ?case by (simp add: give_def)
next
  case (Suc l)
  have upt: "[k..<k + Suc l] = k # [Suc k..<Suc k + l]" by (simp add: upt_conv_Cons)
  have set: "{k..<k + Suc l} = insert k {Suc k..<Suc k + l}" by auto
  have small: "d + 100 * k < 2 ^ 64" using assms(2) Suc.prems by simp
  obtain o1 ctx1 m where 1: "delay_client_round P dbg d
        (k, \<lparr>z_sent = SentOk, z_reply = ReceivedMsg (rs k), z_elapsed = es k\<rparr>) ctx
      = (o1, Inr (Inr ctx1))" "waiting ctx1" "given (cs_aio ctx1) = given (cs_aio ctx) @ [m]"
      "asks_delay P V m (d + 100 * k)"
      "Line (''CLIENT: Request '' @ show_nat k @ '': Received reply after '' @ dbg (es k) @ '': '' @ ts k)
        \<in> set o1"
    using delay_client_asks [OF assms(1) Suc.prems(1) small assms(3) [rule_format, OF small], of "rs k" "ts k"
        dbg "es k"] assms(4) [of k] by (fastforce simp del: append_Cons append_assoc)
  have more: "Suc k + l \<le> 6" using Suc.prems by simp
  obtain o2 ctx2 ms where 2: "rounds (delay_client_round P dbg d) (map (\<lambda>i. (i,
          \<lparr>z_sent = SentOk, z_reply = ReceivedMsg (rs i), z_elapsed = es i\<rparr>)) [Suc k..<Suc k + l]) ctx1
        = (o2, Inr (Inr ctx2))"
      "given (cs_aio ctx2) = given (cs_aio ctx1) @ ms"
      "list_all2 (\<lambda>m i. asks_delay P V m (d + 100 * i)) ms [Suc k..<Suc k + l]"
      "\<forall>i\<in>{Suc k..<Suc k + l}. Line (''CLIENT: Request '' @ show_nat i @ '': Received reply after ''
          @ dbg (es i) @ '': '' @ ts i) \<in> set o2"
    using Suc.IH [OF 1(2) more] by (elim exE conjE) (rule that)
  show ?case
    unfolding upt set using 1 2
    by (intro exI [of _ "o1 @ o2"] exI [of _ ctx2] exI [of _ "m # ms"])
      (simp add: followed_pair del: append_Cons append_assoc)
qed

text \<open>Workers whose first request is not a number: they all end, and nobody is told.\<close>

lemma delay_worker_dies:
  assumes "nng_msg (p_msgs P) V" "body P m = bytes_of t" "utf8_text (bytes_of t) = give t"
    and "parse_uint (2 ^ 64 - 1) (trim_utf8 t) = Inl e" "i = ReceivedMsg m"
  shows "delay_worker P dbg 0
        (\<lparr>y_received = i, y_elapsed = el, y_sent = c\<rparr> # is) wid
      = ([Line (''WORKER '' @ show_nat wid @ '': Started''),
          Line (''WORKER '' @ show_nat wid @ '': Handling request #1''), Warned],
         Inr (Inl (Refused (''invalid delay value: '' @ quoted t))))"
proof -
  have "show_nat (Suc 0) = ''1''" by (simp add: show_nat.simps digit_char_def char_of_eq_iff)
  then show ?thesis
    using delay_worker_stops [OF assms(1) waiting_new assms(2-4), of 0 dbg wid el c] assms(5)
    by (simp add: delay_worker_def socket_context_def errno_u32_def prog_simps)
qed

lemma join_silent:
  "\<forall>t\<in>set ts. \<exists>e. snd t = Inr (Inl e) \<Longrightarrow> join_workers join_text ts = give True"
  by (induction ts) auto

section \<open>Properties\<close>

text \<open>
  The delay service from end to end.  A client started with \<open>d\<close> asks for delays of \<open>d + 100\<close> to
  \<open>d + 500\<close> milliseconds.  A worker that receives the \<open>i\<close>-th of these requests, whatever it served
  before, sends the text for that delay and keeps running; and a client that gets replies with these
  texts prints each of them with the number of its request, and finishes.
\<close>

theorem delay_service:
  assumes "nng_msg (p_msgs P) V" and "waiting cctx" "waiting wctx"
    and "d + 500 < 2 ^ 64" "Suc k < 2 ^ 64"
    and "\<And>n. n < 2 ^ 64 \<Longrightarrow> has_room P (bytes_of (show_nat n))"
    and "\<forall>i\<in>{1..<6}. has_room P (bytes_of (delay_reply_text dbg (d + 100 * i) (es i)))"
    and "\<And>n e. utf8_text (bytes_of (delay_reply_text dbg n e)) = give (delay_reply_text dbg n e)"
    and "\<And>i. body P (rs i) = bytes_of (delay_reply_text dbg (d + 100 * i) (es i))"
  shows "\<exists>out cctx' ms.
      rounds (delay_client_round P dbg d) (map (\<lambda>i. (i,
          \<lparr>z_sent = SentOk, z_reply = ReceivedMsg (rs i), z_elapsed = es i\<rparr>)) [1..<6]) cctx
        = (out, Inr (Inr cctx'))
    \<and> given (cs_aio cctx') = given (cs_aio cctx) @ ms \<and> length ms = 5
    \<and> (\<forall>i\<in>{1..<6}.
        Line (''CLIENT: Request '' @ show_nat i @ '': Received reply after '' @ dbg (es i) @ '': ''
          @ delay_reply_text dbg (d + 100 * i) (es i)) \<in> set out
      \<and> (\<exists>out' r wctx'. delay_worker_round P dbg wid
            \<lparr>y_received = ReceivedMsg (ms ! (i - 1)), y_elapsed = es i, y_sent = SentOk\<rparr> (k, wctx)
          = (out', Inr (Inr (Suc k, wctx')))
        \<and> waiting wctx' \<and> given (cs_aio wctx') = given (cs_aio wctx) @ [r]
        \<and> body P r = body P (rs i)))"
proof -
  have room: "\<forall>n<2 ^ 64. has_room P (bytes_of (show_nat n))" using assms(6) by blast
  have six: "1 + 5 = (6 :: nat)" by simp
  have replies: "body P (rs i) = bytes_of (delay_reply_text dbg (d + 100 * i) (es i))
      \<and> utf8_text (bytes_of (delay_reply_text dbg (d + 100 * i) (es i)))
        = give (delay_reply_text dbg (d + 100 * i) (es i))" for i
    using assms(8,9) by blast
  obtain out cctx' ms where run:
      "rounds (delay_client_round P dbg d) (map (\<lambda>i. (i,
          \<lparr>z_sent = SentOk, z_reply = ReceivedMsg (rs i), z_elapsed = es i\<rparr>)) [1..<6]) cctx
        = (out, Inr (Inr cctx'))"
      "given (cs_aio cctx') = given (cs_aio cctx) @ ms"
    and asks: "list_all2 (\<lambda>m i. asks_delay P V m (d + 100 * i)) ms [1..<6]"
    and lines: "\<forall>i\<in>{1..<6}. Line (''CLIENT: Request '' @ show_nat i @ '': Received reply after ''
          @ dbg (es i) @ '': '' @ delay_reply_text dbg (d + 100 * i) (es i)) \<in> set out"
    using delay_client_asks_all [of P V d rs "\<lambda>i. delay_reply_text dbg (d + 100 * i) (es i)" cctx 1 5
        dbg es, OF assms(1,4) room replies assms(2), unfolded six, OF order_refl]
    by (elim exE conjE) (rule that)
  have "length ms = 5" using list_all2_lengthD [OF asks] by simp
  moreover have "\<exists>out' r wctx'. delay_worker_round P dbg wid
            \<lparr>y_received = ReceivedMsg (ms ! (i - 1)), y_elapsed = es i, y_sent = SentOk\<rparr> (k, wctx)
          = (out', Inr (Inr (Suc k, wctx')))
        \<and> waiting wctx' \<and> given (cs_aio wctx') = given (cs_aio wctx) @ [r]
        \<and> body P r = body P (rs i)" if i: "i \<in> {1..<6}" for i
  proof -
    have "i - 1 < length [1..<6]" "[1..<6] ! (i - 1) = i" using i by auto
    then have m: "asks_delay P V (ms ! (i - 1)) (d + 100 * i)"
      using list_all2_nthD2 [OF asks, of "i - 1"] by simp
    have n: "d + 100 * i < 2 ^ 64" using assms(4) i by simp
    show ?thesis
      using delay_worker_serves [OF assms(1,3) m n assms(5) bspec [OF assms(7) i], of wid] assms(9) [of i]
      by metis
  qed
  ultimately show ?thesis using run lines by blast
qed

definition delay_reply_msg :: "nat \<Rightarrow> ref_msg message" where
  "delay_reply_msg i = text_msg (delay_reply_text show_nat (30 + 100 * i) (2 * i))"

definition delay_request_msg :: "ref_msg message" where
  "delay_request_msg = text_msg ''soon''"

lemma delay_text_plain: "plain_text (delay_reply_text show_nat n e)"
  using show_nat_text [of n] show_nat_text [of e] by (auto simp: plain_text_def delay_reply_text_def)

lemma length_show_u64: "n < 2 ^ 64 \<Longrightarrow> length (show_nat n) \<le> 20"
  using length_show_nat [of n 19] by simp

text \<open>A client started with 30: its second request asks for 230 milliseconds.\<close>

theorem delay_service_witness:
  "\<exists>out cctx' ms.
      rounds (delay_client_round sample_platform show_nat 30) (map (\<lambda>i. (i,
          \<lparr>z_sent = SentOk, z_reply = ReceivedMsg (delay_reply_msg i), z_elapsed = 2 * i\<rparr>)) [1..<6])
        contextful_new = (out, Inr (Inr cctx'))
    \<and> given (cs_aio cctx') = given (cs_aio (contextful_new :: ref_msg message contextful)) @ ms
    \<and> length ms = 5
    \<and> Line (''CLIENT: Request 2: Received reply after 4: Delayed for 230ms (actual: 4)'') \<in> set out"
proof -
  have shown: "show_nat 2 = ''2''" "show_nat 4 = ''4''" "show_nat 230 = ''230''"
    by (simp_all add: show_nat.simps digit_char_def char_of_eq_iff)
  have asks: "has_room sample_platform (bytes_of (show_nat n))" if "n < 2 ^ 64" for n
    by (rule sample_has_room) (use length_show_u64 [OF that] in simp)
  have "length (delay_reply_text show_nat (30 + 100 * i) (2 * i)) \<le> 1000" if "i < 6" for i
    using length_show_u64 [of "30 + 100 * i"] length_show_u64 [of "2 * i"] that
    by (simp add: delay_reply_text_def)
  then have answers: "\<forall>i\<in>{1..<6}. has_room sample_platform
      (bytes_of (delay_reply_text show_nat (30 + 100 * i) (2 * i)))"
    by (auto intro: sample_has_room)
  have reply_text: "delay_reply_text show_nat (30 + 100 * 2) (2 * 2) = ''Delayed for 230ms (actual: 4)''"
    using shown by (simp add: delay_reply_text_def)
  obtain out cctx' ms where run:
      "rounds (delay_client_round sample_platform show_nat 30) (map (\<lambda>i. (i,
          \<lparr>z_sent = SentOk, z_reply = ReceivedMsg (delay_reply_msg i), z_elapsed = 2 * i\<rparr>)) [1..<6])
        contextful_new = (out, Inr (Inr cctx'))"
      "given (cs_aio cctx') = given (cs_aio (contextful_new :: ref_msg message contextful)) @ ms"
    and "length ms = 5" and all: "\<forall>i\<in>{1..<6}.
        Line (''CLIENT: Request '' @ show_nat i @ '': Received reply after '' @ show_nat (2 * i) @ '': ''
          @ delay_reply_text show_nat (30 + 100 * i) (2 * i)) \<in> set out
      \<and> (\<exists>out' r wctx'. delay_worker_round sample_platform show_nat 0
            \<lparr>y_received = ReceivedMsg (ms ! (i - 1)), y_elapsed = 2 * i, y_sent = SentOk\<rparr>
            (0, contextful_new) = (out', Inr (Inr (Suc 0, wctx')))
        \<and> waiting wctx'
        \<and> given (cs_aio wctx') = given (cs_aio (contextful_new :: ref_msg message contextful)) @ [r]
        \<and> body sample_platform r = body sample_platform (delay_reply_msg i))"
    using delay_service [of sample_platform ref_ok contextful_new contextful_new 30 0 show_nat
        "\<lambda>i. 2 * i" delay_reply_msg 0, OF sample_laws waiting_new waiting_new _ _ asks answers]
      delay_text_plain
    by (simp add: delay_reply_msg_def) blast
  have "(2 :: nat) \<in> {1..<6}" by simp
  with all have "Line (''CLIENT: Request '' @ show_nat 2 @ '': Received reply after ''
      @ show_nat (2 * 2) @ '': '' @ delay_reply_text show_nat (30 + 100 * 2) (2 * 2)) \<in> set out"
    by blast
  then have "Line (''CLIENT: Request 2: Received reply after 4: Delayed for 230ms (actual: 4)'') \<in> set out"
    unfolding reply_text using shown by simp
  with run \<open>length ms = 5\<close> show ?thesis by blast
qed

text \<open>
  C32. A request that is not a number is fatal to the worker that gets it, and invisible.  When the
  first request of every worker is such a text, each of the workers ends with an error, unanswered
  requests being logged by their responders; the server prints what it prints on every start, says
  nothing about the workers, and ends with success.
\<close>

theorem worker_errors_are_silent:
  fixes P :: "'i platform"
  assumes "nng_msg (p_msgs P) V" and "CHR 0x00 \<notin> set url"
    and "rep0_listen (p_ffi P) W url w = Inr (Inr (s :: nat \<times> 'i message socket), w')"
    and "\<And>i. i < n \<Longrightarrow> ctx_open i = 0 \<and> inputs i \<noteq> []
        \<and> y_received (hd (inputs i)) = ReceivedMsg (m i)"
    and "\<And>i. i < n \<Longrightarrow> body P (m i) = bytes_of (t i) \<and> utf8_text (bytes_of (t i)) = give (t i)
        \<and> isl (parse_uint (2 ^ 64 - 1) (trim_utf8 (t i)))"
  shows "\<exists>tasks. delay_run_server P join_text dbg W ctx_open inputs url n w
      = ([Line (''SERVER: Starting async delay service on '' @ url @ '' with '' @ show_nat n
            @ '' parallel contexts''),
          Line (''SERVER: Spawned '' @ show_nat n @ '' worker tasks'')],
         Inr (Inr (True, w', tasks)))
    \<and> length tasks = n
    \<and> (\<forall>i<n. snd (tasks ! i) = Inr (Inl (Refused (''invalid delay value: '' @ quoted (t i))))
        \<and> Warned \<in> set (fst (tasks ! i)))"
proof -
  have dies: "delay_worker P dbg (ctx_open i) (inputs i) i
      = ([Line (''WORKER '' @ show_nat i @ '': Started''),
          Line (''WORKER '' @ show_nat i @ '': Handling request #1''), Warned],
         Inr (Inl (Refused (''invalid delay value: '' @ quoted (t i)))))" if i: "i < n" for i
  proof -
    obtain first rest where "inputs i = first # rest" using assms(4) [OF i] by (cases "inputs i") auto
    with assms(4) [OF i] obtain el c where
        first: "inputs i = \<lparr>y_received = ReceivedMsg (m i), y_elapsed = el, y_sent = c\<rparr> # rest"
      by (cases first) simp
    obtain e where e: "parse_uint (2 ^ 64 - 1) (trim_utf8 (t i)) = Inl e"
      using assms(5) [OF i] by (auto simp: isl_def)
    have m: "body P (m i) = bytes_of (t i)" "utf8_text (bytes_of (t i)) = give (t i)" "ctx_open i = 0"
      using assms(4,5) [OF i] by simp_all
    show ?thesis unfolding first m(3) by (rule delay_worker_dies [OF assms(1) m(1,2) e refl])
  qed
  define tasks where "tasks = map (\<lambda>i. delay_worker P dbg (ctx_open i) (inputs i) i) [0..<n]"
  have "\<forall>t\<in>set tasks. \<exists>e. snd t = Inr (Inl e)" using dies by (auto simp: tasks_def)
  then have "join_workers join_text tasks = give True" by (rule join_silent)
  then have "delay_run_server P join_text dbg W ctx_open inputs url n w
      = ([Line (''SERVER: Starting async delay service on '' @ url @ '' with '' @ show_nat n
            @ '' parallel contexts''),
          Line (''SERVER: Spawned '' @ show_nat n @ '' worker tasks'')],
         Inr (Inr (True, w', tasks)))"
    using assms(2,3) by (simp add: delay_run_server_def c_string_def prog_simps Let_def tasks_def)
  moreover have "length tasks = n" by (simp add: tasks_def)
  moreover have "snd (tasks ! i) = Inr (Inl (Refused (''invalid delay value: '' @ quoted (t i))))
      \<and> Warned \<in> set (fst (tasks ! i))" if "i < n" for i
    using dies [OF that] that by (simp add: tasks_def)
  ultimately show ?thesis by blast
qed

theorem worker_errors_are_silent_witness:
  "\<exists>tasks. delay_run_server sample_platform (\<lambda>_. ''panic'') show_nat (sample_ep 0) (\<lambda>_. 0)
        (\<lambda>_. [\<lparr>y_received = ReceivedMsg delay_request_msg, y_elapsed = 0, y_sent = SentOk\<rparr>]) ''u'' 2 ()
      = ([Line ''SERVER: Starting async delay service on u with 2 parallel contexts'',
          Line ''SERVER: Spawned 2 worker tasks''], Inr (Inr (True, (), tasks)))
    \<and> length tasks = 2"
proof -
  have shown: "show_nat 2 = ''2''" by (simp add: show_nat.simps digit_char_def char_of_eq_iff)
  have soon: "plain_text ''soon''" by (simp add: plain_text_def)
  have "trim_utf8 ''soon'' = ''soon''" by (rule trim_visible) simp
  then have bad: "isl (parse_uint (2 ^ 64 - 1) (trim_utf8 ''soon''))"
    by (simp add: parse_uint_def char_digit_def)
  have listening: "rep0_listen (p_ffi sample_platform) (sample_ep 0) ''u'' ()
      = Inr (Inr (7, socket_new :: ref_msg message socket), ())"
    by (simp add: rep0_listen_def proto_listen_def create_socket_def init_nng_def init_result_def
        sample_ep_def new_inner_def socket_listen_def listen_with_opts_def socket_new_def
        add_listener_to_socket_def no_options_def errno_u32_def)
  show ?thesis
    using worker_errors_are_silent [OF sample_laws _ listening, of 2 "\<lambda>_. 0"
        "\<lambda>_. [\<lparr>y_received = ReceivedMsg delay_request_msg, y_elapsed = 0, y_sent = SentOk\<rparr>]"
        "\<lambda>_. delay_request_msg" "\<lambda>_. ''soon''" "\<lambda>_. ''panic''" show_nat] bad soon shown
    by (simp add: delay_request_msg_def) blast
qed

text \<open>
  The documented command lines.  With an argument parser that reads words and options the way
  \<^verbatim>\<open>lexopt\<close> documents, \<open>client <ms> <url>\<close> and \<open>server <url> --parallel <n>\<close>, the option also before
  the other words, give what they say.  The order that the program's own help shows for the
  client, the address before the delay, ends with the error of parsing the address as a number.
\<close>

theorem delay_command_line:
  fixes p :: 'a
  assumes "reads_words L holds" and "n < 2 ^ 64" "k \<le> usize_max"
    and "\<not> prefix ''-'' url" "parse_uint (2 ^ 64 - 1) url = Inl e"
  shows "(holds p [''client'', show_nat n, url] \<longrightarrow>
        delay_parse_args L 4 p = Some (give \<lparr>y_mode = DelayClient n, y_url = url\<rparr>))
    \<and> (holds p [''server'', url, ''--parallel'', show_nat k] \<longrightarrow>
        delay_parse_args L 4 p = Some (give \<lparr>y_mode = DelayServer k, y_url = url\<rparr>))
    \<and> (holds p [''--parallel'', show_nat k, ''server'', url] \<longrightarrow>
        delay_parse_args L 4 p = Some (give \<lparr>y_mode = DelayServer k, y_url = url\<rparr>))
    \<and> (holds p [''client'', url, show_nat n] \<longrightarrow> delay_parse_args L 4 p = Some (fails (ParseInt e)))"
proof (intro conjI impI)
  define st :: "delay_mode option \<Rightarrow> string \<Rightarrow> nat \<Rightarrow> 'a \<Rightarrow> 'a parsing"
    where "st m u j p = \<lparr>at_mode = m, at_url = u, at_parallel = j, parser = p\<rparr>" for m u j p
  note laws = assms(1)
  have start: "delay_parse_args L 4 p = delay_parse L (Suc (Suc (Suc (Suc 0))))
      (st None ''tcp://127.0.0.1:5556'' 5 p)"
    by (simp add: delay_parse_args_def st_def numeral_eq_Suc del: delay_parse.simps)
  have at_url: "\<exists>p'. delay_parse L (Suc f) (st (Some m) u j q) = delay_parse L f (st (Some m) url j p')
      \<and> holds p' args" if "holds q (url # args)" for f m u j q args
    using delay_reads_url [OF laws _ assms(4), of "st (Some m) u j q" args f] that
    by (auto simp: st_def)
  have at_server: "\<exists>p'. delay_parse L (Suc f) (st None u j q)
        = delay_parse L f (st (Some (DelayServer j)) u j p') \<and> holds p' args"
    if "holds q (''server'' # args)" for f u j q args
    using delay_reads_server [OF laws, of "st None u j q" args f] that by (auto simp: st_def)
  have at_client: "\<exists>p'. delay_parse L (Suc f) (st None u j q)
        = delay_parse L f (st (Some (DelayClient n)) u j p') \<and> holds p' args"
    if "holds q (''client'' # show_nat n # args)" for f u j q args
    using delay_reads_client [OF laws _ _ show_nat_plain, of "st None u j q" n args f] that assms(2)
    by (auto simp: st_def simp del: delay_parse.simps)
  have at_option: "\<exists>p'. delay_parse L (Suc f) (st m u j q)
        = delay_parse L f (st (case m of Some (DelayServer _) \<Rightarrow> Some (DelayServer k) | m \<Rightarrow> m) u k p')
      \<and> holds p' args"
    if "holds q (''--parallel'' # show_nat k # args)" for f m u j q args
    using delay_reads_parallel [OF laws, of "st m u j q" k args f] that assms(3) by (auto simp: st_def)
  have at_end: "delay_parse L (Suc f) (st (Some m) u j q) = Some (give \<lparr>y_mode = m, y_url = u\<rparr>)"
    if "holds q []" for f m u j q
    using delay_reads_end [OF laws, of "st (Some m) u j q" m f] that by (simp add: st_def)
  show "delay_parse_args L 4 p = Some (give \<lparr>y_mode = DelayClient n, y_url = url\<rparr>)"
    if client: "holds p [''client'', show_nat n, url]"
  proof -
    obtain p1 where 1: "delay_parse_args L 4 p = delay_parse L (Suc (Suc (Suc 0)))
        (st (Some (DelayClient n)) ''tcp://127.0.0.1:5556'' 5 p1)" "holds p1 [url]"
      unfolding start using at_client [OF client] by metis
    show ?thesis unfolding 1(1) using at_url [OF 1(2)] at_end by metis
  qed
  show "delay_parse_args L 4 p = Some (give \<lparr>y_mode = DelayServer k, y_url = url\<rparr>)"
    if server: "holds p [''server'', url, ''--parallel'', show_nat k]"
  proof -
    obtain p1 where 1: "delay_parse_args L 4 p = delay_parse L (Suc (Suc (Suc 0)))
        (st (Some (DelayServer 5)) ''tcp://127.0.0.1:5556'' 5 p1)"
        "holds p1 [url, ''--parallel'', show_nat k]"
      unfolding start using at_server [OF server] by metis
    obtain p2 where 2: "delay_parse_args L 4 p = delay_parse L (Suc (Suc 0))
        (st (Some (DelayServer 5)) url 5 p2)" "holds p2 [''--parallel'', show_nat k]"
      unfolding 1(1) using at_url [OF 1(2)] by metis
    show ?thesis
      unfolding 2(1) using at_option [OF 2(2), of "Suc 0" "Some (DelayServer 5)" url 5] at_end by auto
  qed
  show "delay_parse_args L 4 p = Some (give \<lparr>y_mode = DelayServer k, y_url = url\<rparr>)"
    if option: "holds p [''--parallel'', show_nat k, ''server'', url]"
  proof -
    obtain p1 where 1: "delay_parse_args L 4 p = delay_parse L (Suc (Suc (Suc 0)))
        (st None ''tcp://127.0.0.1:5556'' k p1)" "holds p1 [''server'', url]"
      unfolding start
      using at_option [OF option, of "Suc (Suc (Suc 0))" None "''tcp://127.0.0.1:5556''" 5] by auto
    obtain p2 where 2: "delay_parse_args L 4 p = delay_parse L (Suc (Suc 0))
        (st (Some (DelayServer k)) ''tcp://127.0.0.1:5556'' k p2)" "holds p2 [url]"
      unfolding 1(1) using at_server [OF 1(2)] by metis
    show ?thesis unfolding 2(1) using at_url [OF 2(2)] at_end by metis
  qed
  show "delay_parse_args L 4 p = Some (fails (ParseInt e))" if "holds p [''client'', url, show_nat n]"
    using delay_reads_client [OF laws _ _ assms(4), of "st None ''tcp://127.0.0.1:5556'' 5 p"
        "[show_nat n]" "Suc (Suc (Suc 0))"] that assms(5) unfolding start
    by (auto simp: st_def simp del: delay_parse.simps)
qed

text \<open>A parser of plain words.\<close>

definition word_reader :: "(string list, string) lexopt" where
  "word_reader = \<lparr>
     l_next = (\<lambda>p. case p of
        [] \<Rightarrow> (Inr None, [])
      | a # p \<Rightarrow> (Inr (Some (if prefix ''--'' a then ArgLong (drop 2 a) else ArgValue a)), p)),
     l_value = (\<lambda>p. case p of [] \<Rightarrow> (Inl ''missing argument'', []) | a # p \<Rightarrow> (Inr a, p)),
     l_string = Inr, l_unexpected = (\<lambda>_. ''unexpected argument'')\<rparr>"

lemma word_reader_reads: "reads_words word_reader (=)"
proof -
  have "\<not> prefix ''--'' a" if "\<not> prefix ''-'' a" for a using that by (cases a) auto
  then show ?thesis by (auto simp: reads_words_def word_reader_def)
qed

theorem delay_command_line_witness:
  "delay_parse_args word_reader 4 [''client'', ''tcp://127.0.0.1:5556'', ''1500'']
      = Some (fails (ParseInt InvalidDigit))
    \<and> delay_parse_args word_reader 4 [''server'', ''tcp://127.0.0.1:5556'', ''--parallel'', ''10'']
      = Some (give \<lparr>y_mode = DelayServer 10, y_url = ''tcp://127.0.0.1:5556''\<rparr>)"
proof -
  have shown: "show_nat 1500 = ''1500''" "show_nat 10 = ''10''"
    by (simp_all add: show_nat.simps digit_char_def char_of_eq_iff)
  have "parse_uint (2 ^ 64 - 1) ''tcp://127.0.0.1:5556'' = Inl InvalidDigit"
    by (simp add: parse_uint_def char_digit_def)
  then show ?thesis
    using delay_command_line [OF word_reader_reads, of 1500 10 "''tcp://127.0.0.1:5556''" InvalidDigit
        "[''client'', ''tcp://127.0.0.1:5556'', ''1500'']"]
      delay_command_line [OF word_reader_reads, of 1500 10 "''tcp://127.0.0.1:5556''" InvalidDigit
        "[''server'', ''tcp://127.0.0.1:5556'', ''--parallel'', ''10'']"] shown
    by (simp add: usize_max_def)
qed

end
