(* ===== verification/TaskPipeline.thy ===== *)
theory TaskPipeline
  imports Programs
begin

text \<open>
  The work distribution of anng/examples/pipeline.rs: a distributor that pushes tasks as text and
  workers that pull them and square the number in the text.  The pauses between the steps are not
  modelled; what the clock says a task took is an input, and its \<^verbatim>\<open>Debug\<close> text a parameter.
\<close>

section \<open>The command line\<close>

datatype pipe_mode = Distributor nat | Worker nat

record pipe_args =
  p_mode :: pipe_mode
  p_url :: string

definition pipe_usage :: "string \<Rightarrow> string list" where
  "pipe_usage me =
     [''Usage: '' @ me @ '' <distributor|worker> [worker_id] [URL]'', [],
      ''Demonstrates Pipeline (Push/Pull) work distribution pattern.'', [], ''Arguments:'',
      ''  distributor         Run as task distributor (sends 20 tasks)'',
      ''  worker [ID]         Run as worker with optional ID (default: 1)'',
      ''  [URL]              URL to connect to (default: tcp://127.0.0.1:7000)'', [],
      ''Examples:'', ''  '' @ me @ '' distributor'', ''  '' @ me @ '' worker 1'',
      ''  '' @ me @ '' worker 2 tcp://127.0.0.1:7000'']"

definition pipe_parse_args :: "string list \<Rightarrow> pipe_args prog" where
  "pipe_parse_args args =
     (if length args < 2 then usage_exit pipe_usage args
      else
        followed
          (if args ! 1 \<in> {''distributor'', ''dist''} then give (Distributor 20)
           else if args ! 1 = ''worker'' then
             give (Worker
               (if 2 < length args \<and> \<not> prefix ''tcp://'' (args ! 2)
                then (case parse_uint (2 ^ 32 - 1) (args ! 2) of Inl _ \<Rightarrow> 1 | Inr n \<Rightarrow> n)
                else 1))
           else fails (Refused (expected ''distributor'' ''worker'' (args ! 1))))
          (\<lambda>mode. give \<lparr>p_mode = mode, p_url = find_url ''tcp://127.0.0.1:7000'' args\<rparr>))"

section \<open>The distributor\<close>

text \<open>\<open>number = task_id * 7 + 13\<close> on \<^verbatim>\<open>u32\<close>.\<close>

definition task_number :: "bool \<Rightarrow> nat \<Rightarrow> nat run" where
  "task_number oc task_id = run_bind (u32_fit oc (task_id * 7)) (\<lambda>n. u32_fit oc (n + 13))"

definition task_text :: "nat \<Rightarrow> string" where
  "task_text number = ''square '' @ show_nat number"

text \<open>One task: how its push ends is \<open>c\<close>; the state is the number of tasks sent and the socket.\<close>

definition send_task ::
  "'i platform \<Rightarrow> nat \<times> 'i message completion \<Rightarrow> nat \<times> 'i message socket
     \<Rightarrow> (nat \<times> 'i message socket) prog" where
  "send_task P i s =
     (case (i, s) of ((task_id, c), (tasks_sent, sock)) \<Rightarrow>
      followed (call (task_number (p_oc P) task_id)) (\<lambda>number.
      followed (make_message P (bytes_of (task_text number))) (\<lambda>message.
      followed (print (''DISTRIBUTOR: Sending task '' @ show_nat task_id @ '': '' @ task_text number)) (\<lambda>_.
      followed (call (push (p_ffi P) (p_da P) message (Ran c) sock)) (\<lambda>(r, sock).
      followed (ended r) (\<lambda>r.
      case r of
        Inr _ \<Rightarrow> followed (call (u32_fit (p_oc P) (tasks_sent + 1))) (\<lambda>n. give (n, sock))
      | Inl (error, _) \<Rightarrow>
          followed (print (''DISTRIBUTOR: Failed to send task '' @ show_nat task_id @ '': ''
            @ aio_text P error)) (\<lambda>_. give (tasks_sent, sock))))))))"

definition run_distributor ::
  "'i platform \<Rightarrow> 'w ep_api \<Rightarrow> 'w set_ms \<Rightarrow> (nat \<Rightarrow> 'i message completion) \<Rightarrow> string \<Rightarrow> nat \<Rightarrow> 'w
     \<Rightarrow> ('w \<times> nat \<times> 'i message socket) prog" where
  "run_distributor P W set_int sends url task_count w =
     followed (print (''DISTRIBUTOR: Starting on '' @ url)) (\<lambda>_.
     followed (print (''DISTRIBUTOR: Will distribute '' @ show_nat task_count @ '' tasks'')) (\<lambda>_.
     followed (c_string url) (\<lambda>c_url.
     followed (call (push0_listen (p_ffi P) W c_url w)) (\<lambda>(r, w).
     followed (try_or Io r) (\<lambda>(_, sock).
     followed (call (set_send_buffer set_int 100 w)) (\<lambda>(r, w).
     followed (try_or Io r) (\<lambda>_.
     followed (print ''DISTRIBUTOR: Waiting for workers to connect...'') (\<lambda>_.
     followed (rounds (send_task P) (map (\<lambda>k. (k, sends k)) [1..<task_count + 1]) (0, sock))
       (\<lambda>(tasks_sent, sock).
     followed (print (''DISTRIBUTOR: Finished distributing '' @ show_nat tasks_sent @ '' tasks'')) (\<lambda>_.
     give (w, tasks_sent, sock)))))))))))"

section \<open>The workers\<close>

text \<open>
  One pull: how it ends, and how long the task took by the clock, in nanoseconds.  The state is the
  number of tasks, their time and the socket.
\<close>

definition work_task ::
  "'i platform \<Rightarrow> (nat \<Rightarrow> string) \<Rightarrow> nat \<Rightarrow> 'i message completion \<times> nat \<Rightarrow> nat \<times> nat \<times> 'i message socket
     \<Rightarrow> (bool \<times> nat \<times> nat \<times> 'i message socket) prog" where
  "work_task P dbg worker_id i s =
     (case (i, s) of ((c, elapsed), (processed, spent, sock)) \<Rightarrow>
      let me = ''WORKER '' @ show_nat worker_id in
      followed (call (pull (p_ffi P) (p_da P) (Ran c) sock)) (\<lambda>(r, sock).
      followed (ended r) (\<lambda>r.
      case r of
        Inl error \<Rightarrow>
          followed (print (me @ '': Error receiving task: '' @ aio_text P error)) (\<lambda>_.
          give (False, processed, spent, sock))
      | Inr message \<Rightarrow>
          followed (utf8_text (body P message)) (\<lambda>txt.
          case strip_prefix ''square '' txt of
            None \<Rightarrow>
              followed (print (me @ '': Unknown task format: '' @ txt @ '' (received ''
                @ show_nat (Message.len (p_msgs P) message) @ '' bytes)'')) (\<lambda>_.
              give (True, processed, spent, sock))
          | Some task_parts \<Rightarrow>
              (case parse_uint (2 ^ 32 - 1) task_parts of
                 Inl e \<Rightarrow>
                   followed (print (me @ '': Failed to parse number: '' @ parse_int_error_display e))
                     (\<lambda>_. give (True, processed, spent, sock))
               | Inr number \<Rightarrow>
                   followed (call (u32_fit (p_oc P) (processed + 1))) (\<lambda>processed.
                   followed (print (me @ '': Processing task - square '' @ show_nat number)) (\<lambda>_.
                   followed (call (u32_fit (p_oc P) (number * number))) (\<lambda>result.
                   followed (print (me @ '': Completed - '' @ show_nat number @ '' squared = ''
                     @ show_nat result @ '' (took '' @ dbg elapsed @ '')'')) (\<lambda>_.
                   give (True, processed, spent + elapsed, sock))))))))))"

definition run_worker ::
  "'i platform \<Rightarrow> (panic \<Rightarrow> io_error) \<Rightarrow> 'w ep_api \<Rightarrow> (nat \<Rightarrow> string) \<Rightarrow> ('i message completion \<times> nat) list
     \<Rightarrow> string \<Rightarrow> nat \<Rightarrow> 'w \<Rightarrow> (bool \<times> 'w) prog" where
  "run_worker P joined W dbg inputs url worker_id w =
     (let me = ''WORKER '' @ show_nat worker_id in
      followed (print (me @ '': Connecting to distributor at '' @ url)) (\<lambda>_.
      followed (c_string url) (\<lambda>c_url.
      followed (call (pull0_dial (p_ffi P) joined W False c_url w)) (\<lambda>(r, w).
      followed (ended r) (\<lambda>r.
      followed (try_or Io r) (\<lambda>(_, sock).
      followed (print (me @ '': Ready to process tasks'')) (\<lambda>_.
      followed (rounds_until (work_task P dbg worker_id) inputs (0, 0, sock))
        (\<lambda>(goes_on, processed, spent, _).
      if goes_on then give (True, w)
      else
        followed (print (me @ '': Processed '' @ show_nat processed @ '' tasks, average time: ''
          @ dbg (if 0 < processed then spent div processed else 0))) (\<lambda>_. give (False, w))))))))))"

definition pipe_main ::
  "'i platform \<Rightarrow> (panic \<Rightarrow> io_error) \<Rightarrow> 'w ep_api \<Rightarrow> 'w set_ms \<Rightarrow> (nat \<Rightarrow> string)
     \<Rightarrow> (nat \<Rightarrow> 'i message completion) \<Rightarrow> ('i message completion \<times> nat) list \<Rightarrow> string list \<Rightarrow> 'w
     \<Rightarrow> (bool \<times> 'w) prog" where
  "pipe_main P joined W set_int dbg sends inputs args w =
     followed (pipe_parse_args args) (\<lambda>a.
     case p_mode a of
       Distributor n \<Rightarrow>
         followed (run_distributor P W set_int sends (p_url a) n w) (\<lambda>(w, _). give (False, w))
     | Worker worker_id \<Rightarrow> run_worker P joined W dbg inputs (p_url a) worker_id w)"

section \<open>One task\<close>

lemma u32_fit_small [simp]: "n < 2 ^ 32 \<Longrightarrow> u32_fit oc n = Inr n"
  by (simp add: u32_fit_def)

lemma task_text_ascii: "utf8_text (bytes_of (task_text n)) = give (task_text n)"
proof (rule utf8_text_ascii)
  show "\<forall>c\<in>set (task_text n). (of_char c :: nat) < 128"
    using set_show_nat [of n] by (auto simp: task_text_def digit_char_def)
qed

lemma send_task_ok:
  assumes "nng_msg (p_msgs P) V" "ready sock" "\<And>bs. length bs \<le> 16 \<Longrightarrow> has_room P bs" "k < 1000" "n < 1000"
  obtains out sock' m where "send_task P (k, SentOk) (n, sock) = (out, Inr (Inr (n + 1, sock')))"
    "ready sock'" "given (s_aio sock') = given (s_aio sock) @ [m]"
    "V (inner m)" "body P m = bytes_of (task_text (7 * k + 13))"
proof -
  have "length (task_text (7 * k + 13)) \<le> 16"
    using length_show_nat [of "7 * k + 13" 3] assms(4) by (simp add: task_text_def)
  then have room: "has_room P (bytes_of (task_text (7 * k + 13)))" by (intro assms(3)) simp
  obtain m where m: "make_message P (bytes_of (task_text (7 * k + 13))) = give m"
      "msg_wf (p_msgs P) V m" "body P m = bytes_of (task_text (7 * k + 13))"
    using has_roomE [OF assms(1) room] by metis
  obtain sock' where "push (p_ffi P) (p_da P) m (Ran SentOk) sock = Inr (Some (Inr ()), sock')"
      "ready sock'" "given (s_aio sock') = given (s_aio sock) @ [m]"
    using ready_send [OF assms(2)] unfolding push_def by metis
  moreover have "task_number (p_oc P) k = Inr (7 * k + 13)"
    using assms(4) by (simp add: task_number_def mult.commute)
  ultimately show ?thesis
    using that m assms(5) by (fastforce simp: send_task_def prog_simps msg_wf_def)
qed

lemma work_task_squares:
  assumes "nng_msg (p_msgs P) V" "ready sock" "body P m = bytes_of (task_text n)"
    and "n < 2 ^ 32" "processed + 1 < 2 ^ 32"
  obtains sock' where "ready sock'"
    "work_task P dbg wid (ReceivedMsg m, t) (processed, spent, sock) =
       (let me = ''WORKER '' @ show_nat wid;
            start = Line (me @ '': Processing task - square '' @ show_nat n) in
        case u32_fit (p_oc P) (n * n) of
          Inl p \<Rightarrow> ([start], Inl p)
        | Inr r \<Rightarrow> ([start, Line (me @ '': Completed - '' @ show_nat n @ '' squared = '' @ show_nat r
            @ '' (took '' @ dbg t @ '')'')], Inr (Inr (True, processed + 1, spent + t, sock'))))"
proof -
  obtain sock' where s: "pull (p_ffi P) (p_da P) (Ran (ReceivedMsg m)) sock = Inr (Some (Inr m), sock')"
      "ready sock'"
    using ready_recv [OF assms(2)] unfolding pull_def by metis
  have "strip_prefix ''square '' (task_text n) = Some (show_nat n)"
    by (simp add: task_text_def strip_prefix_def)
  then have "work_task P dbg wid (ReceivedMsg m, t) (processed, spent, sock) =
       (let me = ''WORKER '' @ show_nat wid;
            start = Line (me @ '': Processing task - square '' @ show_nat n) in
        case u32_fit (p_oc P) (n * n) of
          Inl p \<Rightarrow> ([start], Inl p)
        | Inr r \<Rightarrow> ([start, Line (me @ '': Completed - '' @ show_nat n @ '' squared = '' @ show_nat r
            @ '' (took '' @ dbg t @ '')'')], Inr (Inr (True, processed + 1, spent + t, sock'))))"
    using s assms(3-5) task_text_ascii [of n]
    by (cases "u32_fit (p_oc P) (n * n)") (simp_all add: work_task_def prog_simps Let_def)
  with s that show ?thesis by blast
qed

lemma work_task_fits:
  assumes "nng_msg (p_msgs P) V" "ready sock" "body P m = bytes_of (task_text n)"
    and "n < 2 ^ 32" "processed + 1 < 2 ^ 32" "u32_fit (p_oc P) (n * n) = Inr r"
  shows "\<exists>start s'. work_task P dbg wid (ReceivedMsg m, t) (processed, spent, sock)
    = ([start, Line (''WORKER '' @ show_nat wid @ '': Completed - '' @ show_nat n @ '' squared = ''
        @ show_nat r @ '' (took '' @ dbg t @ '')'')], Inr (Inr (True, processed + 1, spent + t, s')))"
  by (rule work_task_squares [OF assms(1-5), of dbg wid t spent])
    (simp add: assms(6) Let_def del: append_Cons append_assoc)

lemma work_task_overflows:
  assumes "nng_msg (p_msgs P) V" "ready sock" "body P m = bytes_of (task_text n)"
    and "n < 2 ^ 32" "processed + 1 < 2 ^ 32" "u32_fit (p_oc P) (n * n) = Inl p"
  shows "\<exists>start. work_task P dbg wid (ReceivedMsg m, t) (processed, spent, sock) = ([start], Inl p)"
  by (rule work_task_squares [OF assms(1-5), of dbg wid t spent]) (simp add: assms(6) Let_def)

lemma send_tasks:
  assumes "nng_msg (p_msgs P) V" "\<And>bs. length bs \<le> 16 \<Longrightarrow> has_room P bs"
  shows "\<lbrakk>ready sock; k + l \<le> 1000; n + l \<le> 1000\<rbrakk> \<Longrightarrow>
     \<exists>out sock' ms. rounds (send_task P) (map (\<lambda>k. (k, SentOk)) [k..<k + l]) (n, sock)
         = (out, Inr (Inr (n + l, sock')))
       \<and> given (s_aio sock') = given (s_aio sock) @ ms \<and> list_all (V \<circ> inner) ms
       \<and> map (body P) ms = map (\<lambda>k. bytes_of (task_text (7 * k + 13))) [k..<k + l]"
proof (induction l arbitrary: k n sock)
  case 0
  then show ?case by (simp add: give_def)
next
  case (Suc l)
  have upt: "[k..<k + Suc l] = k # [Suc k..<Suc k + l]" by (simp add: upt_conv_Cons)
  obtain out1 sock1 m where 1: "send_task P (k, SentOk) (n, sock) = (out1, Inr (Inr (n + 1, sock1)))"
      "ready sock1" "given (s_aio sock1) = given (s_aio sock) @ [m]"
      "V (inner m)" "body P m = bytes_of (task_text (7 * k + 13))"
    using send_task_ok [OF assms(1) Suc.prems(1) assms(2), of k n] Suc.prems by auto
  have more: "Suc k + l \<le> 1000" "n + 1 + l \<le> 1000" using Suc.prems by simp_all
  obtain out2 sock2 ms where
      "rounds (send_task P) (map (\<lambda>k. (k, SentOk)) [Suc k..<Suc k + l]) (n + 1, sock1)
         = (out2, Inr (Inr (n + 1 + l, sock2)))"
      "given (s_aio sock2) = given (s_aio sock1) @ ms" "list_all (V \<circ> inner) ms"
      "map (body P) ms = map (\<lambda>k. bytes_of (task_text (7 * k + 13))) [Suc k..<Suc k + l]"
    using Suc.IH [OF 1(2) more] by metis
  then show ?case
    unfolding upt using 1
    by (intro exI [of _ "out1 @ out2"] exI [of _ sock2] exI [of _ "m # ms"]) (simp add: followed_pair o_def)
qed

section \<open>Properties\<close>

text \<open>The pipeline from end to end.  The distributor sends its twenty tasks, \<open>square 20\<close> to
  \<open>square 153\<close>, in order; a worker that pulls any of them prints its square, in a build with
  overflow checks or without.  A worker squares in \<^verbatim>\<open>u32\<close>, though: a task \<open>square n\<close> from elsewhere
  with \<open>n\<close> at least 65536 stops it with a panic, or gives the square modulo \<open>2 ^ 32\<close> when
  overflow is not checked.
\<close>

theorem tasks_are_squared:
  assumes "nng_msg (p_msgs P) V" and "\<And>bs. length bs \<le> 16 \<Longrightarrow> has_room P bs"
    and "ready sock" "ready wsock" "processed + 1 < 2 ^ 32"
    and "body P big = bytes_of (task_text n)" "65536 \<le> n" "n < 2 ^ 32"
  shows "(\<exists>out sock' ms.
       rounds (send_task P) (map (\<lambda>k. (k, SentOk)) [1..<21]) (0, sock) = (out, Inr (Inr (20, sock')))
     \<and> given (s_aio sock') = given (s_aio sock) @ ms \<and> length ms = 20
     \<and> (\<forall>k<20. \<exists>start s'. let x = 7 * (k + 1) + 13 in
         work_task P dbg wid (ReceivedMsg (ms ! k), t) (processed, spent, wsock)
           = ([start, Line (''WORKER '' @ show_nat wid @ '': Completed - '' @ show_nat x
                @ '' squared = '' @ show_nat (x * x) @ '' (took '' @ dbg t @ '')'')],
              Inr (Inr (True, processed + 1, spent + t, s')))))
   \<and> (\<exists>start s'. work_task P dbg wid (ReceivedMsg big, t) (processed, spent, wsock) =
        (if p_oc P then ([start], Inl Overflow)
         else ([start, Line (''WORKER '' @ show_nat wid @ '': Completed - '' @ show_nat n
               @ '' squared = '' @ show_nat (n * n mod 2 ^ 32) @ '' (took '' @ dbg t @ '')'')],
             Inr (Inr (True, processed + 1, spent + t, s')))))"
proof (intro conjI)
  obtain out sock' ms where run:
      "rounds (send_task P) (map (\<lambda>k. (k, SentOk)) [1..<21]) (0, sock) = (out, Inr (Inr (20, sock')))"
      "given (s_aio sock') = given (s_aio sock) @ ms"
    and bodies: "map (body P) ms = map (\<lambda>k. bytes_of (task_text (7 * k + 13))) [1..<21]"
    using send_tasks [OF assms(1,2,3), of 1 20 0] by auto
  have len: "length ms = 20" using arg_cong [OF bodies, where f = length] by simp
  have "\<exists>start s'. let x = 7 * (k + 1) + 13 in
         work_task P dbg wid (ReceivedMsg (ms ! k), t) (processed, spent, wsock)
           = ([start, Line (''WORKER '' @ show_nat wid @ '': Completed - '' @ show_nat x
                @ '' squared = '' @ show_nat (x * x) @ '' (took '' @ dbg t @ '')'')],
              Inr (Inr (True, processed + 1, spent + t, s')))"
    if k: "k < 20" for k
  proof -
    define x where "x = 7 * (k + 1) + 13"
    have x: "x \<le> 153" using k by (simp add: x_def)
    then have "x * x \<le> 153 * 153" by (rule mult_le_mono) (rule x)
    then have fits: "x < 2 ^ 32" "u32_fit (p_oc P) (x * x) = Inr (x * x)" using x by simp_all
    have "map (body P) ms ! k = bytes_of (task_text x)" using bodies k by (simp add: x_def)
    then have "body P (ms ! k) = bytes_of (task_text x)" using k len by simp
    from work_task_fits [OF assms(1,4) this fits(1) assms(5) fits(2), of dbg wid t spent]
    show ?thesis unfolding x_def [symmetric] Let_def .
  qed
  with run len show "\<exists>out sock' ms.
       rounds (send_task P) (map (\<lambda>k. (k, SentOk)) [1..<21]) (0, sock) = (out, Inr (Inr (20, sock')))
     \<and> given (s_aio sock') = given (s_aio sock) @ ms \<and> length ms = 20
     \<and> (\<forall>k<20. \<exists>start s'. let x = 7 * (k + 1) + 13 in
         work_task P dbg wid (ReceivedMsg (ms ! k), t) (processed, spent, wsock)
           = ([start, Line (''WORKER '' @ show_nat wid @ '': Completed - '' @ show_nat x
                @ '' squared = '' @ show_nat (x * x) @ '' (took '' @ dbg t @ '')'')],
              Inr (Inr (True, processed + 1, spent + t, s'))))"
    by blast
next
  have "65536 * 65536 \<le> n * n" using assms(7) by (rule mult_le_mono) (rule assms(7))
  then have big: "u32_fit (p_oc P) (n * n)
      = (if p_oc P then Inl Overflow else Inr (n * n mod 2 ^ 32))"
    by (simp add: u32_fit_def)
  show "\<exists>start s'. work_task P dbg wid (ReceivedMsg big, t) (processed, spent, wsock) =
        (if p_oc P then ([start], Inl Overflow)
         else ([start, Line (''WORKER '' @ show_nat wid @ '': Completed - '' @ show_nat n
               @ '' squared = '' @ show_nat (n * n mod 2 ^ 32) @ '' (took '' @ dbg t @ '')'')],
             Inr (Inr (True, processed + 1, spent + t, s'))))"
  proof (cases "p_oc P")
    case True
    with big have "u32_fit (p_oc P) (n * n) = Inl Overflow" by simp
    from work_task_overflows [OF assms(1,4,6,8,5) this, of dbg wid t spent] True
    show ?thesis by simp
  next
    case False
    with big have "u32_fit (p_oc P) (n * n) = Inr (n * n mod 2 ^ 32)" by simp
    from work_task_fits [OF assms(1,4,6,8,5) this, of dbg wid t spent] False
    show ?thesis by (simp del: append_Cons append_assoc)
  qed
qed

definition huge_task :: "ref_msg message" where
  "huge_task = \<lparr>inner = \<lparr>r_header = [], r_body = bytes_of (task_text 65537), r_cap = 64\<rparr>, pos = 0\<rparr>"

theorem tasks_are_squared_witness:
  "\<exists>out sock' ms.
      rounds (send_task sample_platform) (map (\<lambda>k. (k, SentOk)) [1..<21]) (0, socket_new)
        = (out, Inr (Inr (20, sock')))
    \<and> length ms = 20 \<and> given (s_aio sock') = given (s_aio (socket_new :: ref_msg message socket)) @ ms
    \<and> (\<exists>start. work_task sample_platform show_nat 1 (ReceivedMsg huge_task, 9) (0, 0, socket_new)
          = ([start], Inl Overflow))"
proof -
  have big: "body sample_platform huge_task = bytes_of (task_text 65537)"
    by (simp add: body_def as_slice_def Message.len_def sample_platform_def huge_task_def ref_api_def)
  have room: "length bs \<le> 16 \<Longrightarrow> has_room sample_platform bs" for bs
    by (rule sample_has_room) simp
  have oc: "p_oc sample_platform" by (simp add: sample_platform_def)
  from tasks_are_squared [OF sample_laws room ready_new ready_new _ big, where processed = 0
      and wid = 1 and dbg = show_nat and t = 9 and spent = 0] oc
  show ?thesis by simp blast
qed

end
