(* ===== verification/SurveyDemo.thy ===== *)
theory SurveyDemo
  imports Programs "HOL-Library.Multiset"
begin

text \<open>
  The service discovery of anng/examples/survey.rs: a surveyor that asks three questions and collects
  answers until each survey ends, and respondents that answer with their type and name.  Pauses are
  not modelled; elapsed times are inputs, and their \<^verbatim>\<open>Debug\<close> text is a parameter.
\<close>

section \<open>The command line\<close>

datatype survey_mode = SurveyorMode | RespondentMode string string

record survey_args =
  s_mode :: survey_mode
  s_url :: string

definition survey_usage :: "string \<Rightarrow> string list" where
  "survey_usage me =
     [''Usage: '' @ me @ '' <surveyor|respondent> [service_type] [node_id] [URL]'', [],
      ''Demonstrates Survey/Respondent pattern for service discovery.'', [], ''Arguments:'',
      ''  surveyor            Run as service discovery coordinator'',
      ''  respondent          Run as service instance'',
      ''  [service_type]      Type of service (default: service)'',
      ''  [node_id]           Unique node identifier (default: node-1)'',
      ''  [URL]              URL to connect to (default: tcp://127.0.0.1:8000)'', [],
      ''Examples:'', ''  '' @ me @ '' surveyor'', ''  '' @ me @ '' respondent web-server api-1'',
      ''  '' @ me @ '' respondent database db-1 tcp://127.0.0.1:8000'']"

text \<open>\<^verbatim>\<open>args.get(k).filter(..).cloned().unwrap_or_else(..)\<close>\<close>

definition plain_arg :: "nat \<Rightarrow> string \<Rightarrow> string list \<Rightarrow> string" where
  "plain_arg k fallback args =
     (if k < length args \<and> \<not> is_url (args ! k) then args ! k else fallback)"

definition survey_parse_args :: "string list \<Rightarrow> survey_args prog" where
  "survey_parse_args args =
     (if length args < 2 then usage_exit survey_usage args
      else
        followed
          (if args ! 1 \<in> {''surveyor'', ''coordinator''} then give SurveyorMode
           else if args ! 1 \<in> {''respondent'', ''service''} then
             give (RespondentMode (plain_arg 2 ''service'' args) (plain_arg 3 ''node-1'' args))
           else fails (Refused (expected ''surveyor'' ''respondent'' (args ! 1))))
          (\<lambda>mode. give \<lparr>s_mode = mode, s_url = find_url ''tcp://127.0.0.1:8000'' args\<rparr>))"

section \<open>The surveyor\<close>

text \<open>One \<^verbatim>\<open>responses.next().await\<close>: how it ends and the time since the survey began.\<close>

definition collect_round ::
  "'i platform \<Rightarrow> (nat \<Rightarrow> string) \<Rightarrow> 'i message completion \<times> nat \<Rightarrow> int \<times> 'i message contextful
     \<Rightarrow> (bool \<times> int \<times> 'i message contextful) prog" where
  "collect_round P dbg i s =
     (case s of (response_count, ctx) \<Rightarrow>
      followed (call (survey_next (p_ffi P) (p_da P) (Ran (fst i)) ctx)) (\<lambda>(r, ctx).
      followed (ended r) (\<lambda>r.
      case r of
        None \<Rightarrow> give (False, response_count, ctx)
      | Some (Inl error) \<Rightarrow>
          followed (print (''SURVEYOR: Survey error: '' @ aio_text P error)) (\<lambda>_.
          give (False, response_count, ctx))
      | Some (Inr response_msg) \<Rightarrow>
          followed (call (i32_next (p_oc P) response_count)) (\<lambda>response_count.
          followed (utf8_text (body P response_msg)) (\<lambda>response_text.
          followed (print (''SURVEYOR: ['' @ show_int response_count @ ''] '' @ response_text @ '' (''
            @ dbg (snd i) @ '')'')) (\<lambda>_.
          give (True, response_count, ctx)))))))"

text \<open>
  What happens in one survey: how its send ends, what \<open>next\<close> yields, and how long it took.  A round
  whose inputs run out before the survey has ended is still collecting (\<open>False\<close>).
\<close>

record 'm surveyed =
  sv_sent :: "'m completion"
  sv_next :: "('m completion \<times> nat) list"
  sv_time :: nat

definition survey_round ::
  "'i platform \<Rightarrow> 'o set_ms \<Rightarrow> (nat \<Rightarrow> string) \<Rightarrow> string \<times> 'i message surveyed
     \<Rightarrow> 'o \<times> 'i message contextful \<Rightarrow> (bool \<times> 'o \<times> 'i message contextful) prog" where
  "survey_round P ctx_set_ms dbg i s =
     (let (survey_type, inp) = i in
      followed (print []) (\<lambda>_.
      followed (print (''=== '' @ survey_type @ '' survey ==='')) (\<lambda>_.
      followed (make_message P (bytes_of survey_type)) (\<lambda>message.
      followed (print (''SURVEYOR: Broadcasting '' @ survey_type @ '' survey'')) (\<lambda>_.
      let (opts, called) = survey (p_ffi P) (p_da P) ctx_set_ms (\<lambda>_ opts. opts) message
            \<lparr>d_secs = 3, d_nanos = 0\<rparr> (Ran (sv_sent inp)) (fst s) (snd s) in
      followed (call called) (\<lambda>(r, ctx).
      followed (ended r) (\<lambda>r.
      case r of
        Inl (error, _) \<Rightarrow>
          followed (print (''SURVEYOR: Failed to send survey: '' @ aio_text P error)) (\<lambda>_.
          give (True, opts, ctx))
      | Inr _ \<Rightarrow>
          followed (rounds_until (collect_round P dbg) (sv_next inp) (0, ctx))
            (\<lambda>(collecting, response_count, ctx).
          if collecting then give (False, opts, ctx)
          else
            followed (print (''SURVEYOR: Collected '' @ show_int response_count @ '' responses in ''
              @ dbg (sv_time inp))) (\<lambda>_. give (True, opts, ctx))))))))))"

definition run_surveyor ::
  "'i platform \<Rightarrow> 'w ep_api \<Rightarrow> c_int \<Rightarrow> 'o set_ms \<Rightarrow> 'o \<Rightarrow> (nat \<Rightarrow> string) \<Rightarrow> (nat \<Rightarrow> 'i message surveyed)
     \<Rightarrow> string \<Rightarrow> 'w \<Rightarrow> (bool \<times> 'w) prog" where
  "run_surveyor P W ctx_open ctx_set_ms opts dbg inputs url w =
     followed (print (''SURVEYOR: Starting service discovery coordinator on '' @ url)) (\<lambda>_.
     followed (c_string url) (\<lambda>c_url.
     followed (call (surveyor0_listen (p_ffi P) W c_url w)) (\<lambda>(r, w).
     followed (try_or Io r) (\<lambda>(_ :: nat \<times> 'i message socket).
     followed (call (socket_context ctx_open)) (\<lambda>ctx.
     followed (print ''SURVEYOR: Waiting for services to connect...'') (\<lambda>_.
     followed (rounds_until (survey_round P ctx_set_ms dbg)
         [(''ping'', inputs 0), (''status'', inputs 1), (''info'', inputs 2)] (opts, ctx))
       (\<lambda>(finished, _).
     if \<not> finished then give (False, w)
     else
       followed (print []) (\<lambda>_.
       followed (print ''SURVEYOR: Completed all surveys'') (\<lambda>_. give (True, w))))))))))"

section \<open>The respondents\<close>

definition should_respond :: "string \<Rightarrow> string \<Rightarrow> bool" where
  "should_respond service_type survey_text \<longleftrightarrow>
     survey_text = ''ping'' \<or> survey_text = ''status''
     \<or> survey_text = ''info'' \<and> service_type \<noteq> ''cache''"

definition respondent_round ::
  "'i platform \<Rightarrow> string \<Rightarrow> string \<Rightarrow> 'i message completion \<times> 'i message completion
     \<Rightarrow> 'i message contextful \<Rightarrow> (bool \<times> 'i message contextful) prog" where
  "respondent_round P service_type node_id i ctx =
     followed (call (next_survey (p_ffi P) (p_da P) (Ran (fst i)) ctx)) (\<lambda>(r, ctx).
     followed (ended r) (\<lambda>r.
     case r of
       Inl error \<Rightarrow>
         followed (print (''RESPONDENT: Error receiving survey: '' @ aio_text P error)) (\<lambda>_.
         give (False, ctx))
     | Inr survey_msg \<Rightarrow>
         followed (utf8_text (body P survey_msg)) (\<lambda>survey_text.
         followed (print (''RESPONDENT: Received '' @ survey_text @ '' survey'')) (\<lambda>_.
         if should_respond service_type survey_text then
           followed (make_message P (bytes_of (service_type @ ''-'' @ node_id))) (\<lambda>response_msg.
           followed (call (respond (p_ffi P) (p_da P) response_msg (Ran (snd i)) ctx)) (\<lambda>(r, ctx).
           followed (ended r) (\<lambda>r.
           followed
             (case r of
                Inr _ \<Rightarrow> print (''RESPONDENT: Sent '' @ survey_text @ '' response'')
              | Inl (error, _) \<Rightarrow> print (''RESPONDENT: Failed to send response: '' @ aio_text P error))
             (\<lambda>_. give (True, ctx)))))
         else
           followed (print (''RESPONDENT: Ignoring '' @ survey_text @ '' survey (not applicable)'')) (\<lambda>_.
           give (True, ctx))))))"

definition run_respondent ::
  "'i platform \<Rightarrow> (panic \<Rightarrow> io_error) \<Rightarrow> 'w ep_api \<Rightarrow> c_int
     \<Rightarrow> ('i message completion \<times> 'i message completion) list \<Rightarrow> string \<Rightarrow> string \<Rightarrow> string \<Rightarrow> 'w
     \<Rightarrow> (bool \<times> 'w) prog" where
  "run_respondent P joined W ctx_open inputs url service_type node_id w =
     followed (print (''RESPONDENT: Starting '' @ service_type @ '' service '' @ quoted node_id
       @ '' connecting to '' @ url)) (\<lambda>_.
     followed (c_string url) (\<lambda>c_url.
     followed (call (respondent0_dial (p_ffi P) joined W False c_url w)) (\<lambda>(r, w).
     followed (ended r) (\<lambda>r.
     followed (try_or Io r) (\<lambda>(_ :: nat \<times> 'i message socket).
     followed (call (socket_context ctx_open)) (\<lambda>ctx.
     followed (print ''RESPONDENT: Connected and ready to respond to surveys'') (\<lambda>_.
     followed (rounds_until (respondent_round P service_type node_id) inputs ctx) (\<lambda>(goes_on, _).
     give (goes_on, w)))))))))"

definition survey_main ::
  "'i platform \<Rightarrow> (panic \<Rightarrow> io_error) \<Rightarrow> 'w ep_api \<Rightarrow> c_int \<Rightarrow> 'o set_ms \<Rightarrow> 'o \<Rightarrow> (nat \<Rightarrow> string)
     \<Rightarrow> (nat \<Rightarrow> 'i message surveyed) \<Rightarrow> ('i message completion \<times> 'i message completion) list
     \<Rightarrow> string list \<Rightarrow> 'w \<Rightarrow> (bool \<times> 'w) prog" where
  "survey_main P joined W ctx_open ctx_set_ms opts dbg inputs answers args w =
     followed (survey_parse_args args) (\<lambda>a.
     case s_mode a of
       SurveyorMode \<Rightarrow> run_surveyor P W ctx_open ctx_set_ms opts dbg inputs (s_url a) w
     | RespondentMode service_type node_id \<Rightarrow>
         run_respondent P joined W ctx_open answers (s_url a) service_type node_id w)"

section \<open>One answer, and all answers\<close>

lemma respondent_answers:
  assumes "nng_msg (p_msgs P) V" "waiting ctx" "body P m = bytes_of q" "plain_text q"
    and "has_room P (bytes_of (st @ ''-'' @ nid))"
  shows "\<exists>out ctx' xs. respondent_round P st nid (ReceivedMsg m, SentOk) ctx = (out, Inr (Inr (True, ctx')))
    \<and> given (cs_aio ctx') = given (cs_aio ctx) @ xs
    \<and> map (body P) xs = (if should_respond st q then [bytes_of (st @ ''-'' @ nid)] else [])"
proof -
  obtain ctx1 where 1: "next_survey (p_ffi P) (p_da P) (Ran (ReceivedMsg m)) ctx = Inr (Some (Inr m), ctx1)"
      "waiting ctx1" "given (cs_aio ctx1) = given (cs_aio ctx)"
    using waiting_recv [OF assms(2)] unfolding next_survey_def by metis
  show ?thesis
  proof (cases "should_respond st q")
    case True
    obtain r where r: "make_message P (bytes_of (st @ ''-'' @ nid)) = give r"
        "body P r = bytes_of (st @ ''-'' @ nid)"
      using has_roomE [OF assms(1,5)] by metis
    obtain ctx2 where 2: "respond (p_ffi P) (p_da P) r (Ran SentOk) ctx1 = Inr (Some (Inr ()), ctx2)"
        "given (cs_aio ctx2) = given (cs_aio ctx1) @ [r]"
      using waiting_send [OF 1(2)] unfolding respond_def by metis
    show ?thesis
      using 1 r 2 True assms(3,4)
      by (simp add: respondent_round_def prog_simps print_def del: append_Cons append_Nil append_assoc)
  next
    case False
    then show ?thesis
      using 1 assms(3,4) by (simp add: respondent_round_def prog_simps)
  qed
qed

definition response_line :: "(nat \<Rightarrow> string) \<Rightarrow> nat \<Rightarrow> string \<times> nat \<Rightarrow> event" where
  "response_line dbg k r =
     Line (''SURVEYOR: ['' @ show_nat k @ ''] '' @ fst r @ '' ('' @ dbg (snd r) @ '')'')"

lemma collect_end:
  assumes "waiting ctx"
  shows "\<exists>ctx'. collect_round P dbg (Failed (error_code_num ETIMEDOUT), t) (n, ctx)
    = ([], Inr (Inr (False, n, ctx')))"
proof -
  have "error_code_num ETIMEDOUT \<noteq> NNG_OK" by (simp add: NNG_OK_def)
  with cs.recv_err [of ctx "error_code_num ETIMEDOUT" "p_ffi P" "p_da P"] assms
  obtain ctx' where "contextful_recv_msg (p_ffi P) (p_da P) (Ran (Failed (error_code_num ETIMEDOUT))) ctx
      = Inr (Some (Inl (wait_error (p_ffi P) (error_code_num ETIMEDOUT))), ctx')"
    unfolding waiting_def by fastforce
  then show ?thesis
    by (simp add: collect_round_def survey_next_def wait_error_def prog_simps give_def
        nng_err_value_eq_num)
qed

lemma collect_prints:
  assumes "\<forall>(m, x, t)\<in>set rs. body P m = bytes_of x \<and> plain_text x"
  shows "\<lbrakk>waiting ctx; int (n + length rs) \<le> i32_max\<rbrakk> \<Longrightarrow>
    \<exists>ctx'. rounds_until (collect_round P dbg)
        (map (\<lambda>(m, x, t). (ReceivedMsg m, t)) rs @ [(Failed (error_code_num ETIMEDOUT), t0)]) (int n, ctx)
      = (map (\<lambda>(k, r). response_line dbg k r) (enumerate (Suc n) (map snd rs)),
         Inr (Inr (False, int (n + length rs), ctx')))"
  using assms
proof (induction rs arbitrary: n ctx)
  case Nil
  from collect_end [OF Nil.prems(1), of P dbg t0 "int n"] show ?case by (auto simp: prog_simps)
next
  case (Cons r rs)
  obtain m x t where r: "r = (m, x, t)" by (cases r)
  obtain ctx1 where 1: "contextful_recv_msg (p_ffi P) (p_da P) (Ran (ReceivedMsg m)) ctx
        = Inr (Some (Inr m), ctx1)" "waiting ctx1"
    using waiting_recv [OF Cons.prems(1)] by metis
  have n: "i32_next (p_oc P) (int n) = Inr (int (Suc n))"
    using Cons.prems(2) by (simp add: i32_next_def)
  have round: "collect_round P dbg (ReceivedMsg m, t) (int n, ctx)
      = ([response_line dbg (Suc n) (x, t)], Inr (Inr (True, int (Suc n), ctx1)))"
    using 1 n Cons.prems(3) r
    by (simp add: collect_round_def survey_next_def prog_simps response_line_def show_int_def
        del: of_nat_Suc)
  obtain ctx' where "rounds_until (collect_round P dbg)
        (map (\<lambda>(m, x, t). (ReceivedMsg m, t)) rs @ [(Failed (error_code_num ETIMEDOUT), t0)])
        (int (Suc n), ctx1)
      = (map (\<lambda>(k, r). response_line dbg k r) (enumerate (Suc (Suc n)) (map snd rs)),
         Inr (Inr (False, int (Suc n + length rs), ctx')))"
    using Cons.IH [OF 1(2), of "Suc n"] Cons.prems by auto
  with round r show ?case by (simp add: followed_pair del: of_nat_Suc of_nat_add) 
qed

section \<open>Properties\<close>

text \<open>Service discovery from end to end.  A respondent that receives the question \<open>q\<close> sends exactly
  one answer, its type and name, when it is to respond, and none otherwise; a surveyor to which the
  answers of all respondents come back, in any order and each at its own time, prints each of them
  once, numbered from 1, and leaves the collecting loop when the survey times out.
\<close>

theorem survey_discovery:
  assumes "nng_msg (p_msgs P) V" and "waiting rctx" "waiting sctx"
    and "body P m = bytes_of q" "plain_text q"
    and "\<forall>(st, nid)\<in>set services. plain_text (st @ ''-'' @ nid) \<and> has_room P (bytes_of (st @ ''-'' @ nid))"
    and "mset (map (\<lambda>(a, x, t). x) replies)
      = mset (map (\<lambda>(st, nid). st @ ''-'' @ nid) (filter (\<lambda>(st, nid). should_respond st q) services))"
    and "\<forall>(a, x, t)\<in>set replies. body P a = bytes_of x" "int (length replies) \<le> i32_max"
  shows "(\<forall>(st, nid)\<in>set services. \<exists>out ctx' xs.
        respondent_round P st nid (ReceivedMsg m, SentOk) rctx = (out, Inr (Inr (True, ctx')))
      \<and> given (cs_aio ctx') = given (cs_aio rctx) @ xs
      \<and> map (body P) xs = (if should_respond st q then [bytes_of (st @ ''-'' @ nid)] else []))
    \<and> (\<exists>ctx'. rounds_until (collect_round P dbg)
          (map (\<lambda>(a, x, t). (ReceivedMsg a, t)) replies @ [(Failed (error_code_num ETIMEDOUT), t0)])
          (0, sctx)
        = (map (\<lambda>(k, r). response_line dbg k r) (enumerate 1 (map snd replies)),
           Inr (Inr (False, int (length replies), ctx'))))"
proof (intro conjI)
  show "\<forall>(st, nid)\<in>set services. \<exists>out ctx' xs.
        respondent_round P st nid (ReceivedMsg m, SentOk) rctx = (out, Inr (Inr (True, ctx')))
      \<and> given (cs_aio ctx') = given (cs_aio rctx) @ xs
      \<and> map (body P) xs = (if should_respond st q then [bytes_of (st @ ''-'' @ nid)] else [])"
    using respondent_answers [OF assms(1,2,4,5)] assms(6) by fastforce
  have "plain_text x" if "(a, x, t) \<in> set replies" for a x t
  proof -
    have "x \<in> set (map (\<lambda>(a, x, t). x) replies)" using that by force
    then have "x \<in> set (map (\<lambda>(st, nid). st @ ''-'' @ nid)
        (filter (\<lambda>(st, nid). should_respond st q) services))"
      unfolding set_mset_mset [symmetric] assms(7) .
    then show ?thesis using assms(6) by auto
  qed
  with assms(8) have "\<forall>(a, x, t)\<in>set replies. body P a = bytes_of x \<and> plain_text x" by blast
  from collect_prints [OF this assms(3), of 0 dbg t0] assms(9)
  show "\<exists>ctx'. rounds_until (collect_round P dbg)
          (map (\<lambda>(a, x, t). (ReceivedMsg a, t)) replies @ [(Failed (error_code_num ETIMEDOUT), t0)])
          (0, sctx)
        = (map (\<lambda>(k, r). response_line dbg k r) (enumerate 1 (map snd replies)),
           Inr (Inr (False, int (length replies), ctx')))"
    by simp
qed

text \<open>Of a cache and a database, only the database tells about itself.\<close>

theorem survey_discovery_witness:
  "\<exists>ctx'. rounds_until (collect_round sample_platform show_nat)
       [(ReceivedMsg (text_msg ''database-db-1''), 5), (Failed (error_code_num ETIMEDOUT), 9)]
       (0, contextful_new)
     = ([response_line show_nat 1 (''database-db-1'', 5)], Inr (Inr (False, 1, ctx')))"
proof -
  let ?services = "[(''cache'', ''c-1''), (''database'', ''db-1'')]"
  let ?replies = "[(text_msg ''database-db-1'', ''database-db-1'', 5 :: nat)]"
  have plain: "plain_text ''info''" by (simp add: plain_text_def)
  have services: "\<forall>(st, nid)\<in>set ?services. plain_text (st @ ''-'' @ nid)
      \<and> has_room sample_platform (bytes_of (st @ ''-'' @ nid))"
    using sample_has_room [of "bytes_of _"] by (simp add: plain_text_def)
  have answers: "mset (map (\<lambda>(a, x, t). x) ?replies)
      = mset (map (\<lambda>(st, nid). st @ ''-'' @ nid) (filter (\<lambda>(st, nid). should_respond st ''info'') ?services))"
    by (simp add: should_respond_def)
  from survey_discovery [OF sample_laws waiting_new waiting_new body_text_msg plain services answers,
      of show_nat 9]
  show ?thesis by (simp add: i32_max_def)
qed

text \<open>
  The documented command line does not do what it says.  A respondent started as
  \<^verbatim>\<open>respondent URL --service-type T --node-id N\<close>, the form of the example's documentation, takes
  neither \<open>T\<close> nor \<open>N\<close>: its type is \<open>service\<close> and its name \<open>--service-type\<close>, so all four documented
  respondents answer alike, and the cache answers the \<open>info\<close> survey that caches leave out.  The form
  of the usage message does what it says.
\<close>

theorem survey_usage_misread:
  assumes "is_url url" and "\<not> is_url ty" "\<not> is_url nid"
  shows "survey_parse_args [me, ''respondent'', url, ''--service-type'', ty, ''--node-id'', nid]
      = give \<lparr>s_mode = RespondentMode ''service'' ''--service-type'', s_url = url\<rparr>
    \<and> survey_parse_args [me, ''respondent'', ty, nid, url]
      = give \<lparr>s_mode = RespondentMode ty nid, s_url = url\<rparr>
    \<and> should_respond ''service'' ''info'' \<and> \<not> should_respond ''cache'' ''info''"
  using assms
  by (simp add: survey_parse_args_def plain_arg_def find_url_def should_respond_def)
    (simp add: is_url_def)

theorem survey_usage_misread_witness:
  "survey_parse_args [''survey'', ''respondent'', ''tcp://h:1'', ''--service-type'', ''cache'',
     ''--node-id'', ''c-1'']
   = give \<lparr>s_mode = RespondentMode ''service'' ''--service-type'', s_url = ''tcp://h:1''\<rparr>"
  using survey_usage_misread [of "''tcp://h:1''" "''cache''" "''c-1''" "''survey''"]
  by (simp add: is_url_def)

end
