(* ===== verification/PubSubDemo.thy ===== *)
theory PubSubDemo
  imports Programs
begin

text \<open>
  The publisher and the subscriber of anng/examples/pubsub_basic.rs.  Pauses are not modelled; the
  \<^verbatim>\<open>Debug\<close> text of a list of strings is a parameter.
\<close>

section \<open>The command line\<close>

datatype pubsub_mode = PublisherMode | SubscriberMode "string list"

record pubsub_args =
  b_mode :: pubsub_mode
  b_url :: string

definition pubsub_usage :: "string \<Rightarrow> string list" where
  "pubsub_usage me =
     [''Usage: '' @ me @ '' <publisher|subscriber> [URL] [TOPICS...]'', [],
      ''Demonstrates basic Publish/Subscribe with topic filtering.'', [], ''Arguments:'',
      ''  publisher           Run as publisher, send messages with various topics'',
      ''  subscriber          Run as subscriber, receive filtered messages'',
      ''  [URL]              URL to connect to (default: tcp://127.0.0.1:5557)'',
      ''  [TOPICS...]        Topic prefixes to subscribe to (subscriber only)'',
      ''                     Use empty string \"\" to receive all messages'', [], ''Examples:'',
      ''  '' @ me @ '' publisher'', ''  '' @ me @ '' subscriber news'',
      ''  '' @ me @ '' subscriber \"\" # All messages'']"

definition topics_of :: "string list \<Rightarrow> string list" where
  "topics_of args =
     (let topics = filter (\<lambda>a. \<not> is_url a) (drop 2 args) in if topics = [] then [[]] else topics)"

definition pubsub_parse_args :: "string list \<Rightarrow> pubsub_args prog" where
  "pubsub_parse_args args =
     (if length args < 2 then usage_exit pubsub_usage args
      else
        followed
          (if args ! 1 \<in> {''publisher'', ''pub''} then give PublisherMode
           else if args ! 1 \<in> {''subscriber'', ''sub''} then give (SubscriberMode (topics_of args))
           else fails (Refused (expected ''publisher'' ''subscriber'' (args ! 1))))
          (\<lambda>mode. give \<lparr>b_mode = mode, b_url = find_url ''tcp://127.0.0.1:5557'' args\<rparr>))"

section \<open>The publisher\<close>

definition topic_messages :: "(string \<times> string list) list" where
  "topic_messages =
     [(''news'', [''Local team wins championship!'', ''Storm warning issued'',
         ''Election results announced'']),
      (''weather'', [''Sunny skies expected today'', ''Weekend rain expected'',
         ''Temperature dropping tonight'']),
      (''alerts'', [''Emergency broadcast test'', ''Road closure notification'',
         ''System maintenance alert''])]"

definition publications :: "string list" where
  "publications =
     concat (map (\<lambda>(topic, msgs). map (\<lambda>m. topic @ '': '' @ m) msgs) topic_messages)"

text \<open>One message and how its publication ends; the state is the counter and the socket.\<close>

definition publish_one ::
  "'i platform \<Rightarrow> string \<times> 'i message completion \<Rightarrow> int \<times> 'i message socket
     \<Rightarrow> (int \<times> 'i message socket) prog" where
  "publish_one P i s =
     (let (full_message, c) = i; (message_count, sock) = s in
      followed (call (i32_next (p_oc P) message_count)) (\<lambda>message_count.
      followed (make_message P (bytes_of full_message)) (\<lambda>message.
      followed (print (''PUBLISHER: Sending #'' @ show_int message_count @ '': '' @ full_message)) (\<lambda>_.
      followed (call (publish (p_ffi P) (p_da P) message (Ran c) sock)) (\<lambda>(r, sock).
      followed (ended r) (\<lambda>r.
      followed
        (case r of
           Inr _ \<Rightarrow> give ()
         | Inl (error, _) \<Rightarrow> print (''PUBLISHER: Failed to publish message: '' @ aio_text P error))
        (\<lambda>_. give (message_count, sock))))))))"

definition publish_round ::
  "'i platform \<Rightarrow> (nat \<Rightarrow> 'i message completion) \<Rightarrow> int \<times> 'i message socket
     \<Rightarrow> (int \<times> 'i message socket) prog" where
  "publish_round P sends s =
     followed (rounds (publish_one P) (zip publications (map sends [0..<length publications])) s) (\<lambda>s.
     followed (print ''PUBLISHER: Completed round, starting next...'') (\<lambda>_. give s))"

definition run_publisher ::
  "'i platform \<Rightarrow> 'w ep_api \<Rightarrow> (nat \<Rightarrow> 'i message completion) list \<Rightarrow> string \<Rightarrow> 'w
     \<Rightarrow> ('w \<times> int \<times> 'i message socket) prog" where
  "run_publisher P W inputs url w =
     followed (print (''PUBLISHER: Starting on '' @ url)) (\<lambda>_.
     followed (c_string url) (\<lambda>c_url.
     followed (call (pub0_listen (p_ffi P) W c_url w)) (\<lambda>(r, w).
     followed (try_or Io r) (\<lambda>(_, sock).
     followed (print ''PUBLISHER: Waiting for subscribers to connect...'') (\<lambda>_.
     followed (rounds (publish_round P) inputs (0, sock)) (\<lambda>s. give (w, s)))))))"

section \<open>The subscriber\<close>

fun subscribe_each ::
  "(byte list \<Rightarrow> 't \<Rightarrow> c_int \<times> 't) \<Rightarrow> string list \<Rightarrow> 't \<Rightarrow> 't prog" where
  "subscribe_each ctx_subscribe [] t = give t"
| "subscribe_each ctx_subscribe (topic # topics) t =
     followed (call (subscribe_to ctx_subscribe (bytes_of topic) t)) (subscribe_each ctx_subscribe topics)"

definition set_up_topics ::
  "(string list \<Rightarrow> string) \<Rightarrow> (byte list \<Rightarrow> 't \<Rightarrow> c_int \<times> 't) \<Rightarrow> string list \<Rightarrow> 't \<Rightarrow> 't prog" where
  "set_up_topics dbg_list ctx_subscribe topics t =
     (if topics = [[]] then
        followed (print ''SUBSCRIBER: Subscribing to ALL messages (no filtering)'') (\<lambda>_.
        call (disable_filtering ctx_subscribe t))
      else
        followed (print (''SUBSCRIBER: Subscribing to topics: '' @ dbg_list topics)) (\<lambda>_.
        subscribe_each ctx_subscribe topics t))"

definition subscriber_round ::
  "'i platform \<Rightarrow> 'i message completion \<Rightarrow> int \<times> 'i message contextful
     \<Rightarrow> (bool \<times> int \<times> 'i message contextful) prog" where
  "subscriber_round P c s =
     (let (message_count, ctx) = s in
      followed (call (sub0_next (p_ffi P) (p_da P) (Ran c) ctx)) (\<lambda>(r, ctx).
      followed (ended r) (\<lambda>r.
      case r of
        Inl error \<Rightarrow>
          followed (print (''SUBSCRIBER: Error receiving message: '' @ aio_text P error)) (\<lambda>_.
          give (False, message_count, ctx))
      | Inr message \<Rightarrow>
          followed (call (i32_next (p_oc P) message_count)) (\<lambda>message_count.
          followed
            (if utf8_valid (body P message) then
               print (''SUBSCRIBER: ['' @ show_int message_count @ ''] Received: ''
                 @ chars_of (body P message))
             else
               print (''SUBSCRIBER: ['' @ show_int message_count @ ''] Received non-UTF8 message (''
                 @ show_nat (Message.len (p_msgs P) message) @ '' bytes)''))
            (\<lambda>_. give (True, message_count, ctx))))))"

definition run_subscriber ::
  "'i platform \<Rightarrow> (panic \<Rightarrow> io_error) \<Rightarrow> 'w ep_api \<Rightarrow> c_int \<Rightarrow> (string list \<Rightarrow> string)
     \<Rightarrow> (byte list \<Rightarrow> 't \<Rightarrow> c_int \<times> 't) \<Rightarrow> (string \<Rightarrow> bool \<Rightarrow> 't \<Rightarrow> c_int \<times> 't) \<Rightarrow> 't
     \<Rightarrow> 'i message completion list \<Rightarrow> string \<Rightarrow> string list \<Rightarrow> 'w \<Rightarrow> (bool \<times> 't \<times> 'w) prog" where
  "run_subscriber P joined W ctx_open dbg_list ctx_subscribe ctx_set_bool t inputs url topics w =
     followed (print (''SUBSCRIBER: Connecting to '' @ url)) (\<lambda>_.
     followed (c_string url) (\<lambda>c_url.
     followed (call (sub0_dial (p_ffi P) joined W False c_url w)) (\<lambda>(r, w).
     followed (ended r) (\<lambda>r.
     followed (try_or Io r) (\<lambda>(_ :: nat \<times> 'i message socket).
     followed (call (socket_context ctx_open)) (\<lambda>ctx.
     followed (set_up_topics dbg_list ctx_subscribe topics t) (\<lambda>t.
     followed (call (prefer_new ctx_set_bool True t)) (\<lambda>t.
     followed (print ''SUBSCRIBER: Waiting for messages... (Press Ctrl+C to stop)'') (\<lambda>_.
     followed (rounds_until (subscriber_round P) inputs (0, ctx)) (\<lambda>(goes_on, _).
     give (goes_on, t, w)))))))))))"

definition pubsub_main ::
  "'i platform \<Rightarrow> (panic \<Rightarrow> io_error) \<Rightarrow> 'w ep_api \<Rightarrow> c_int \<Rightarrow> (string list \<Rightarrow> string)
     \<Rightarrow> (byte list \<Rightarrow> 't \<Rightarrow> c_int \<times> 't) \<Rightarrow> (string \<Rightarrow> bool \<Rightarrow> 't \<Rightarrow> c_int \<times> 't) \<Rightarrow> 't
     \<Rightarrow> (nat \<Rightarrow> 'i message completion) list \<Rightarrow> 'i message completion list \<Rightarrow> string list \<Rightarrow> 'w
     \<Rightarrow> (bool \<times> 'w) prog" where
  "pubsub_main P joined W ctx_open dbg_list ctx_subscribe ctx_set_bool t sends inputs args w =
     followed (pubsub_parse_args args) (\<lambda>a.
     case b_mode a of
       PublisherMode \<Rightarrow>
         followed (run_publisher P W sends (b_url a) w) (\<lambda>(w, _). give (True, w))
     | SubscriberMode topics \<Rightarrow>
         followed (run_subscriber P joined W ctx_open dbg_list ctx_subscribe ctx_set_bool t inputs
             (b_url a) topics w) (\<lambda>(goes_on, _, w). give (goes_on, w)))"

section \<open>Properties\<close>

text \<open>
  NNG delivers a message to a subscriber when one of its topics is a prefix of the message's body.
\<close>

definition wants :: "byte list list \<Rightarrow> string \<Rightarrow> bool" where
  "wants topics m \<longleftrightarrow> list_ex (\<lambda>t. prefix t (bytes_of m)) topics"

lemma prefix_bytes_of: "prefix (bytes_of s) (bytes_of m) \<longleftrightarrow> prefix s m"
proof
  assume "prefix (bytes_of s) (bytes_of m)"
  then obtain r where "bytes_of m = bytes_of s @ r" by (auto simp: prefix_def)
  then have "chars_of (bytes_of m) = chars_of (bytes_of s @ r)" by simp
  then have "m = s @ chars_of r" unfolding chars_of_def map_append
    using chars_of_bytes_of [of m] chars_of_bytes_of [of s] by (simp add: chars_of_def)
  then show "prefix s m" by simp
qed (auto simp: prefix_def bytes_of_def)

lemma publish_all:
  assumes "nng_msg (p_msgs P) V"
  shows "\<lbrakk>ready sock; int (n + length txts) \<le> i32_max; \<forall>x\<in>set txts. has_room P (bytes_of x)\<rbrakk> \<Longrightarrow>
    \<exists>out sock' ms. rounds (publish_one P) (zip txts (map (\<lambda>_. SentOk) [k..<k + length txts])) (int n, sock)
        = (out, Inr (Inr (int (n + length txts), sock')))
      \<and> ready sock' \<and> given (s_aio sock') = given (s_aio sock) @ ms \<and> map (body P) ms = map bytes_of txts"
proof (induction txts arbitrary: n k sock)
  case Nil
  then show ?case by (simp add: give_def)
next
  case (Cons x txts)
  obtain m where m: "make_message P (bytes_of x) = give m" "body P m = bytes_of x"
    using has_roomE [OF assms, of "bytes_of x"] Cons.prems(3) by (metis list.set_intros(1))
  obtain sock1 where 1: "publish (p_ffi P) (p_da P) m (Ran SentOk) sock = Inr (Some (Inr ()), sock1)"
      "ready sock1" "given (s_aio sock1) = given (s_aio sock) @ [m]"
    using ready_send [OF Cons.prems(1)] unfolding publish_def by metis
  have one: "publish_one P (x, SentOk) (int n, sock)
      = ([Line (''PUBLISHER: Sending #'' @ show_int (int (Suc n)) @ '': '' @ x)],
         Inr (Inr (int (Suc n), sock1)))"
    using m 1 Cons.prems(2) by (simp add: publish_one_def prog_simps i32_next_def add.commute)
  have rest: "int (Suc n + length txts) \<le> i32_max" "\<forall>x\<in>set txts. has_room P (bytes_of x)"
    using Cons.prems by simp_all
  from Cons.IH [OF 1(2) rest, of "Suc k"] obtain out sock' ms where
      "rounds (publish_one P) (zip txts (map (\<lambda>_. SentOk) [Suc k..<Suc k + length txts]))
         (int (Suc n), sock1) = (out, Inr (Inr (int (Suc n + length txts), sock')))"
      "ready sock'" "given (s_aio sock') = given (s_aio sock1) @ ms" "map (body P) ms = map bytes_of txts"
    by blast
  moreover have "[k..<k + length (x # txts)] = k # [Suc k..<Suc k + length txts]"
    using upt_conv_Cons [of k "k + length (x # txts)"] by (simp del: upt_Suc)
  ultimately show ?case
    using one 1(3) m(2)
    by (intro exI [of _ "_ # out"] exI [of _ sock'] exI [of _ "m # ms"])
      (simp add: followed_pair del: of_nat_Suc of_nat_add upt_Suc)
qed

text \<open>What subscribers get of what the publisher sends.  A round sends nine messages, each beginning
  with its topic and a colon.  A subscriber started as the documentation of the example says, with
  the topic \<open>news.\<close>, subscribes to exactly that and is sent none of them; one that names the topics
  without a dot, as the usage message has it, is sent the three of each topic, and one without
  topics, or with the empty one, all nine.
\<close>

theorem published_topics:
  assumes "nng_msg (p_msgs P) V" and "ready sock" "\<forall>x\<in>set publications. has_room P (bytes_of x)"
    and "\<And>topic t. ctx_subscribe topic t = (0, topic # t)" and "is_url url"
  shows "(\<exists>out sock' ms. publish_round P (\<lambda>_. SentOk) (0, sock) = (out, Inr (Inr (9, sock')))
      \<and> given (s_aio sock') = given (s_aio sock) @ ms \<and> map (body P) ms = map bytes_of publications)
    \<and> pubsub_parse_args [me, ''subscriber'', url, ''news.'']
        = give \<lparr>b_mode = SubscriberMode [''news.''], b_url = url\<rparr>
    \<and> (\<exists>out. set_up_topics dbg_list ctx_subscribe [''news.''] [] = (out, Inr (Inr [bytes_of ''news.''])))
    \<and> filter (wants [bytes_of ''news.'']) publications = []
    \<and> (\<forall>(topic, msgs)\<in>set topic_messages.
        filter (wants [bytes_of topic]) publications = map (\<lambda>m. topic @ '': '' @ m) msgs)
    \<and> topics_of [me, ''subscriber'', url] = [[]] \<and> topics_of [me, ''subscriber'', url, []] = [[]]
    \<and> (\<exists>out. set_up_topics dbg_list ctx_subscribe [[]] [] = (out, Inr (Inr [[]])))
    \<and> filter (wants [[]]) publications = publications"
proof (intro conjI)
  have nine: "length publications = 9" by (simp add: publications_def topic_messages_def)
  from publish_all [OF assms(1,2), of 0 publications 0] assms(3)
  show "\<exists>out sock' ms. publish_round P (\<lambda>_. SentOk) (0, sock) = (out, Inr (Inr (9, sock')))
      \<and> given (s_aio sock') = given (s_aio sock) @ ms \<and> map (body P) ms = map bytes_of publications"
    by (fastforce simp: nine publish_round_def followed_pair prog_simps i32_max_def print_def)
  show "pubsub_parse_args [me, ''subscriber'', url, ''news.'']
        = give \<lparr>b_mode = SubscriberMode [''news.''], b_url = url\<rparr>"
    using assms(5) by (simp add: pubsub_parse_args_def topics_of_def find_url_def) (simp add: is_url_def)
  show "\<exists>out. set_up_topics dbg_list ctx_subscribe [''news.''] [] = (out, Inr (Inr [bytes_of ''news.'']))"
    by (simp add: set_up_topics_def subscribe_to_def assms(4) prog_simps)
  show "filter (wants [bytes_of ''news.'']) publications = []"
    by (simp add: wants_def prefix_bytes_of publications_def topic_messages_def)
  show "\<forall>(topic, msgs)\<in>set topic_messages.
        filter (wants [bytes_of topic]) publications = map (\<lambda>m. topic @ '': '' @ m) msgs"
    by (simp add: wants_def prefix_bytes_of publications_def topic_messages_def)
  show "topics_of [me, ''subscriber'', url] = [[]]" "topics_of [me, ''subscriber'', url, []] = [[]]"
    using assms(5) by (simp_all add: topics_of_def is_url_def)
  show "\<exists>out. set_up_topics dbg_list ctx_subscribe [[]] [] = (out, Inr (Inr [[]]))"
    by (simp add: set_up_topics_def disable_filtering_def assms(4) prog_simps)
  show "filter (wants [[]]) publications = publications" by (simp add: wants_def)
qed

theorem published_topics_witness:
  "pubsub_parse_args [''pubsub_basic'', ''subscriber'', ''tcp://127.0.0.1:5557'', ''news.'']
      = give \<lparr>b_mode = SubscriberMode [''news.''], b_url = ''tcp://127.0.0.1:5557''\<rparr>
    \<and> filter (wants [bytes_of ''news.'']) publications = []"
proof -
  have room: "\<forall>x\<in>set publications. has_room sample_platform (bytes_of x)"
    using sample_has_room [of "bytes_of _"] by (simp add: publications_def topic_messages_def)
  have url: "is_url ''tcp://127.0.0.1:5557''" by (simp add: is_url_def)
  show ?thesis
    using published_topics [OF sample_laws ready_new room _ url,
        where ctx_subscribe = "\<lambda>topic t. (0, topic # t)" and me = "''pubsub_basic''"] by blast
qed

end
