(* ===== verification/NngDemos.thy ===== *)
theory NngDemos
  imports DateService
begin

text \<open>
  The small examples of \<^verbatim>\<open>nng\<close>: nng/examples/bus.rs, pipeline.rs, pair.rs, pubsub.rs and survey.rs,
  over the sockets and messages of the crate.  The pauses are not modelled.
\<close>

section \<open>Shared steps\<close>

definition usage_stop :: "string \<Rightarrow> 'a prog" where
  "usage_stop line = ([Line line], Inr (Inl (ExitCode 1)))"

text \<open>\<^verbatim>\<open>Socket::new(t)?\<close> followed by \<^verbatim>\<open>listen(url)?\<close> or \<^verbatim>\<open>dial(url)?\<close>.\<close>

definition listening ::
  "('m, 'w) nng_link \<Rightarrow> protocol \<Rightarrow> string \<Rightarrow> ('w, 'cb) session
     \<Rightarrow> (nat \<Rightarrow> ('w, 'cb) session \<Rightarrow> 'a prog) \<Rightarrow> 'a prog" where
  "listening L t url s f =
     (case nsock_new (n_fns L) t s of (r, s) \<Rightarrow>
      followed (try_or Nng r) (\<lambda>a.
      case nsock_listen (n_fns L) a url s of (r, s) \<Rightarrow>
      followed (try_or Nng r) (\<lambda>_. f a s)))"

definition dialing ::
  "('m, 'w) nng_link \<Rightarrow> protocol \<Rightarrow> string \<Rightarrow> ('w, 'cb) session
     \<Rightarrow> (nat \<Rightarrow> ('w, 'cb) session \<Rightarrow> 'a prog) \<Rightarrow> 'a prog" where
  "dialing L t url s f =
     (case nsock_new (n_fns L) t s of (r, s) \<Rightarrow>
      followed (try_or Nng r) (\<lambda>a.
      case nsock_dial (n_fns L) a url s of (r, s) \<Rightarrow>
      followed (try_or Nng r) (\<lambda>_. f a s)))"

text \<open>\<^verbatim>\<open>str::from_utf8(&msg).expect(..)\<close>, and \<^verbatim>\<open>send\<close> of bytes, which are copied into a message.\<close>

definition expect_utf8 :: "byte list \<Rightarrow> string prog" where
  "expect_utf8 bs = (if utf8_valid bs then give (chars_of bs) else panics ExpectFailed)"

definition send_bytes ::
  "('m, 'w) nng_link \<Rightarrow> nat \<Rightarrow> byte list \<Rightarrow> ('w, 'cb) session \<Rightarrow> ('w, 'cb) session prog" where
  "send_bytes L a bs s =
     followed (call (nm_from_slice (n_msgs L) bs)) (\<lambda>msg. sock_send L a msg s)"

definition in_quotes :: "string \<Rightarrow> string" where
  "in_quotes s = [CHR 0x22] @ s @ [CHR 0x22]"

section \<open>bus.rs\<close>

fun bus_dial ::
  "('m, 'w) nng_link \<Rightarrow> nat \<Rightarrow> string list \<Rightarrow> ('w, 'cb) session \<Rightarrow> ('w, 'cb) session prog" where
  "bus_dial L a [] s = give s"
| "bus_dial L a (peer # peers) s =
     (case nsock_dial (n_fns L) a peer s of (r, s) \<Rightarrow>
      followed (try_or Nng r) (\<lambda>_. bus_dial L a peers s))"

definition bus_round ::
  "('m, 'w) nng_link \<Rightarrow> string \<Rightarrow> nat \<Rightarrow> ('w, 'cb) session \<Rightarrow> ('w, 'cb) session prog" where
  "bus_round L name a s =
     followed (sock_recv L a s) (\<lambda>(msg, s).
     followed (expect_utf8 (nm_as_slice (n_msgs L) msg)) (\<lambda>peer.
     followed (print (name @ '': RECEIVED '' @ in_quotes peer @ '' FROM BUS'')) (\<lambda>_. give s)))"

text \<open>The loops that end only by an error run for \<open>n\<close> rounds.\<close>

definition bus_node ::
  "('m, 'w) nng_link \<Rightarrow> nat \<Rightarrow> string \<Rightarrow> string \<Rightarrow> string list \<Rightarrow> ('w, 'cb) session
     \<Rightarrow> ('w, 'cb) session prog" where
  "bus_node L n name listen dial s =
     listening L Bus0 listen s (\<lambda>a s.
     followed (bus_dial L a dial s) (\<lambda>s.
     followed (print (name @ '': SENDING '' @ in_quotes name @ '' ONTO BUS'')) (\<lambda>_.
     followed (send_bytes L a (bytes_of name) s) (\<lambda>s.
     rounds (\<lambda>_. bus_round L name a) (replicate n ()) s))))"

definition bus_main ::
  "('m, 'w) nng_link \<Rightarrow> nat \<Rightarrow> string list \<Rightarrow> ('w, 'cb) session \<Rightarrow> ('w, 'cb) session prog" where
  "bus_main L n args s =
     (if length args < 3 then usage_stop ''Usage: bus <NODE_NAME> <URL> <URL> ...''
      else bus_node L n (args ! 1) (args ! 2) (drop 2 args) s)"

section \<open>pipeline.rs\<close>

definition pull_round ::
  "('m, 'w) nng_link \<Rightarrow> nat \<Rightarrow> ('w, 'cb) session \<Rightarrow> ('w, 'cb) session prog" where
  "pull_round L a s =
     followed (sock_recv L a s) (\<lambda>(msg, s).
     followed (expect_utf8 (nm_as_slice (n_msgs L) msg)) (\<lambda>arg.
     followed (print (''PULL: RECEIVED '' @ in_quotes arg)) (\<lambda>_. give s)))"

definition nng_pull ::
  "('m, 'w) nng_link \<Rightarrow> nat \<Rightarrow> string \<Rightarrow> ('w, 'cb) session \<Rightarrow> ('w, 'cb) session prog" where
  "nng_pull L n url s =
     listening L Pull0 url s (\<lambda>a s. rounds (\<lambda>_. pull_round L a) (replicate n ()) s)"

definition nng_push ::
  "('m, 'w) nng_link \<Rightarrow> string \<Rightarrow> string \<Rightarrow> ('w, 'cb) session \<Rightarrow> ('w, 'cb) session prog" where
  "nng_push L url arg s =
     dialing L Push0 url s (\<lambda>a s.
     followed (print (''PUSH: SENDING '' @ in_quotes arg)) (\<lambda>_.
     followed (send_bytes L a (bytes_of arg) s) (\<lambda>s. call (nsock_drop (n_fns L) a s))))"

definition nng_pipeline_main ::
  "('m, 'w) nng_link \<Rightarrow> nat \<Rightarrow> string list \<Rightarrow> ('w, 'cb) session \<Rightarrow> ('w, 'cb) session prog" where
  "nng_pipeline_main L n args s =
     (case take 4 args of
        [_, t, url] \<Rightarrow>
          if t = ''pull'' then nng_pull L n url s
          else usage_stop ''Usage: pipeline pull|push <URL> <ARG> ...''
      | [_, t, url, arg] \<Rightarrow>
          if t = ''push'' then nng_push L url arg s
          else usage_stop ''Usage: pipeline pull|push <URL> <ARG> ...''
      | _ \<Rightarrow> usage_stop ''Usage: pipeline pull|push <URL> <ARG> ...'')"

section \<open>pair.rs\<close>

text \<open>One round of \<^verbatim>\<open>send_recv\<close>: a message to use again, or a new one when the receive timed out.\<close>

definition pair_round ::
  "('m, 'w) nng_link \<Rightarrow> string \<Rightarrow> nat \<Rightarrow> ('w, 'cb) session \<Rightarrow> ('w, 'cb) session prog" where
  "pair_round L name a s =
     followed (call (nsock_recv (n_recv L) (nsock_handle a s) (lib s))) (\<lambda>(r, w).
     let s = s\<lparr>lib := w\<rparr> in
     followed
       (case r of
          Inr m \<Rightarrow>
            followed (expect_utf8 (nm_as_slice (n_msgs L) m)) (\<lambda>partner.
            followed (print (name @ '': RECEIVED '' @ in_quotes partner)) (\<lambda>_. give m))
        | Inl e \<Rightarrow> if e = error.TimedOut then call (nm_new (n_msgs L)) else fails (Nng e))
       (\<lambda>msg.
     followed (call (nm_write_all (n_msgs L) (bytes_of name) (nm_clear (n_msgs L) msg))) (\<lambda>(msg, r).
     followed (unwrap r) (\<lambda>_.
     followed (print (name @ '': SENDING '' @ in_quotes name)) (\<lambda>_. sock_send L a msg s)))))"

definition pair_node0 ::
  "('m, 'w) nng_link \<Rightarrow> nat \<Rightarrow> string \<Rightarrow> ('w, 'cb) session \<Rightarrow> ('w, 'cb) session prog" where
  "pair_node0 L n url s =
     listening L Pair0 url s (\<lambda>a s. rounds (\<lambda>_. pair_round L ''NODE0'' a) (replicate n ()) s)"

definition pair_node1 ::
  "('m, 'w) nng_link \<Rightarrow> nat \<Rightarrow> string \<Rightarrow> ('w, 'cb) session \<Rightarrow> ('w, 'cb) session prog" where
  "pair_node1 L n url s =
     dialing L Pair0 url s (\<lambda>a s. rounds (\<lambda>_. pair_round L ''NODE1'' a) (replicate n ()) s)"

definition pair_main ::
  "('m, 'w) nng_link \<Rightarrow> nat \<Rightarrow> string list \<Rightarrow> ('w, 'cb) session \<Rightarrow> ('w, 'cb) session prog" where
  "pair_main L n args s =
     (case take 3 args of
        [_, t, url] \<Rightarrow>
          if t = ''node0'' then pair_node0 L n url s
          else if t = ''node1'' then pair_node1 L n url s
          else usage_stop ''Usage: pipeline node0|node1 <URL> <ARG> ...''
      | _ \<Rightarrow> usage_stop ''Usage: pipeline node0|node1 <URL> <ARG> ...'')"

section \<open>pubsub.rs\<close>

text \<open>The closure given to \<^verbatim>\<open>pipe_notify\<close>, on the \<^verbatim>\<open>AtomicUsize\<close>, whose arithmetic wraps.\<close>

fun count_event :: "pipe_event \<Rightarrow> u64 \<Rightarrow> u64" where
  "count_event AddPost n = n + 1"
| "count_event RemovePost n = n - 1"
| "count_event _ n = n"

text \<open>One round of the publisher, after the events \<open>evs\<close>.\<close>

definition publisher_round ::
  "('m, 'w) nng_link \<Rightarrow> nat \<Rightarrow> pipe_event list \<Rightarrow> u64 \<times> ('w, 'cb) session
     \<Rightarrow> (u64 \<times> ('w, 'cb) session) prog" where
  "publisher_round L a evs s =
     (case s of (subs, s) \<Rightarrow>
      let data = fold count_event evs subs in
      followed (print (''PUBLISHER: SENDING '' @ show_nat (unat data))) (\<lambda>_.
      followed (send_bytes L a (store_word True data) s) (\<lambda>s. give (data, s))))"

definition nng_publisher ::
  "('m, 'w) nng_link \<Rightarrow> 'cb \<Rightarrow> pipe_event list list \<Rightarrow> string \<Rightarrow> ('w, 'cb) session
     \<Rightarrow> (u64 \<times> ('w, 'cb) session) prog" where
  "nng_publisher L counter evss url s =
     (case nsock_new (n_fns L) Pub0 s of (r, s) \<Rightarrow>
      followed (try_or Nng r) (\<lambda>a.
      case nsock_pipe_notify (n_fns L) a counter s of (r, s) \<Rightarrow>
      followed (try_or Nng r) (\<lambda>_.
      case nsock_listen (n_fns L) a url s of (r, s) \<Rightarrow>
      followed (try_or Nng r) (\<lambda>_. rounds (publisher_round L a) evss (0, s)))))"

definition nng_subscriber_round ::
  "('m, 'w) nng_link \<Rightarrow> nat \<Rightarrow> ('w, 'cb) session \<Rightarrow> ('w, 'cb) session prog" where
  "nng_subscriber_round L a s =
     followed (sock_recv L a s) (\<lambda>(msg, s).
     followed (le_u64 (nm_as_slice (n_msgs L) msg)) (\<lambda>subs.
     followed (print (''SUBSCRIBER: THERE ARE '' @ show_nat (unat subs) @ '' SUBSCRIBERS'')) (\<lambda>_.
     give s)))"

definition nng_subscriber ::
  "('m, 'w) nng_link \<Rightarrow> nat \<Rightarrow> string \<Rightarrow> ('w, 'cb) session \<Rightarrow> ('w, 'cb) session prog" where
  "nng_subscriber L n url s =
     dialing L Sub0 url s (\<lambda>a s.
     followed (print ''SUBSCRIBER: SUBSCRIBING TO ALL TOPICS'') (\<lambda>_.
     rounds (\<lambda>_. nng_subscriber_round L a) (replicate n ()) s))"

definition nng_pubsub_main ::
  "('m, 'w) nng_link \<Rightarrow> 'cb \<Rightarrow> pipe_event list list \<Rightarrow> nat \<Rightarrow> string list \<Rightarrow> ('w, 'cb) session
     \<Rightarrow> ('w, 'cb) session prog" where
  "nng_pubsub_main L counter evss n args s =
     (case take 3 args of
        [_, t, url] \<Rightarrow>
          if t = ''publisher'' then
            followed (nng_publisher L counter evss url s) (\<lambda>(_, s). give s)
          else if t = ''subscriber'' then nng_subscriber L n url s
          else usage_stop ''Usage: pubsub publisher|subscriber <url>''
      | _ \<Rightarrow> usage_stop ''Usage: pubsub publisher|subscriber <url>'')"

section \<open>survey.rs\<close>

text \<open>
  One receive of the surveyor: whether it goes on; a survey ends with the error \<^verbatim>\<open>TimedOut\<close>.
\<close>

definition response_round ::
  "('m, 'w) nng_link \<Rightarrow> nat \<Rightarrow> ('w, 'cb) session \<Rightarrow> (bool \<times> ('w, 'cb) session) prog" where
  "response_round L a s =
     followed (call (nsock_recv (n_recv L) (nsock_handle a s) (lib s))) (\<lambda>(r, w).
     let s = s\<lparr>lib := w\<rparr> in
     case r of
       Inl e \<Rightarrow> if e = error.TimedOut then give (False, s) else fails (Nng e)
     | Inr msg \<Rightarrow>
         followed (le_u64 (nm_as_slice (n_msgs L) msg)) (\<lambda>date.
         followed (print (''SURVEYOR: RECEIVED '' @ in_quotes (show_nat (unat date))
           @ '' SURVEY RESPONSE'')) (\<lambda>_. give (True, s))))"

text \<open>
  One survey, with \<open>fuel\<close> for its receives: it goes on to the next one when it has ended, and the
  value \<open>False\<close> is a survey that is still collecting.
\<close>

definition nng_survey_round ::
  "('m, 'w) nng_link \<Rightarrow> nat \<Rightarrow> nat \<Rightarrow> ('w, 'cb) session \<Rightarrow> (bool \<times> ('w, 'cb) session) prog" where
  "nng_survey_round L a fuel s =
     followed (print ''SURVEYOR: SENDING DATE SURVEY REQUEST'') (\<lambda>_.
     followed (send_bytes L a (bytes_of ''DATE'') s) (\<lambda>s.
     followed (rounds_until (\<lambda>_. response_round L a) (replicate fuel ()) s) (\<lambda>(collecting, s).
     if collecting then give (False, s)
     else followed (print ''SURVEYOR SURVEY COMPLETE'') (\<lambda>_. give (True, s)))))"

definition nng_surveyor ::
  "('m, 'w) nng_link \<Rightarrow> nat list \<Rightarrow> string \<Rightarrow> ('w, 'cb) session \<Rightarrow> (bool \<times> ('w, 'cb) session) prog" where
  "nng_surveyor L fuels url s =
     listening L Surveyor0 url s (\<lambda>a s. rounds_until (nng_survey_round L a) fuels s)"

definition nng_respondent_round ::
  "('m, 'w) nng_link \<Rightarrow> string \<Rightarrow> nat \<Rightarrow> u64 option \<Rightarrow> ('w, 'cb) session \<Rightarrow> ('w, 'cb) session prog" where
  "nng_respondent_round L name a now s =
     (let me = ''RESPONDENT ('' @ name @ ''): '' in
      followed (sock_recv L a s) (\<lambda>(msg, s).
      followed (expect_utf8 (nm_as_slice (n_msgs L) msg)) (\<lambda>survey.
      followed (print (me @ ''RECEIVED '' @ in_quotes survey @ '' SURVEY REQUEST'')) (\<lambda>_.
      followed (case now of None \<Rightarrow> panics ExpectFailed | Some t \<Rightarrow> give t) (\<lambda>date.
      followed (call (nm_push_back (n_msgs L) (store_word True date) (nm_clear (n_msgs L) msg))) (\<lambda>msg.
      followed (print (me @ ''SENDING '' @ in_quotes (show_nat (unat date)))) (\<lambda>_.
      sock_send L a msg s)))))))"

definition nng_respondent ::
  "('m, 'w) nng_link \<Rightarrow> u64 option list \<Rightarrow> string \<Rightarrow> string \<Rightarrow> ('w, 'cb) session
     \<Rightarrow> ('w, 'cb) session prog" where
  "nng_respondent L nows url name s =
     dialing L Respondent0 url s (\<lambda>a s. rounds (nng_respondent_round L name a) nows s)"

definition nng_survey_main ::
  "('m, 'w) nng_link \<Rightarrow> nat list \<Rightarrow> u64 option list \<Rightarrow> string list \<Rightarrow> ('w, 'cb) session
     \<Rightarrow> ('w, 'cb) session prog" where
  "nng_survey_main L fuels nows args s =
     (case take 4 args of
        [_, t, url] \<Rightarrow>
          if t = ''surveyor'' then followed (nng_surveyor L fuels url s) (\<lambda>(_, s). give s)
          else usage_stop ''Usage: pipeline surveyor|respondent <URL> <NAME> ...''
      | [_, t, url, name] \<Rightarrow>
          if t = ''respondent'' then nng_respondent L nows url name s
          else usage_stop ''Usage: pipeline surveyor|respondent <URL> <NAME> ...''
      | _ \<Rightarrow> usage_stop ''Usage: pipeline surveyor|respondent <URL> <NAME> ...'')"

section \<open>What the programs say to each other\<close>

text \<open>
  The node of bus.rs dials the address that it listens on before the addresses of its peers.
\<close>

lemma bus_dials_itself:
  "2 < length args \<Longrightarrow>
    bus_main L n args s = bus_node L n (args ! 1) (args ! 2) (args ! 2 # drop 3 args) s"
  by (simp add: bus_main_def Cons_nth_drop_Suc numeral_3_eq_3 numeral_2_eq_2)

text \<open>The subscribers after some events: joined minus gone.\<close>

definition net_joined :: "pipe_event list \<Rightarrow> int" where
  "net_joined evs = int (length (filter ((=) AddPost) evs)) - int (length (filter ((=) RemovePost) evs))"

lemma count_events: "fold count_event evs n = n + word_of_int (net_joined evs)"
proof (induction evs arbitrary: n)
  case (Cons ev evs)
  then show ?case by (cases ev) (simp_all add: net_joined_def algebra_simps)
qed (simp add: net_joined_def)

text \<open>Sends that succeed, on a library with the memory for messages of eight bytes.\<close>

definition sends_words :: "('m, 'w) nng_link \<Rightarrow> bool" where
  "sends_words L \<longleftrightarrow>
     (\<forall>h m w. fst (n_send L h m 0 w) = 0)
   \<and> (\<forall>bs. length bs = 8 \<longrightarrow> (\<exists>m. nm_from_slice (n_msgs L) bs = Inr m))"

lemma send_word:
  assumes "nng_msg (n_msgs L) V" "sends_words L"
  obtains m where "nm_from_slice (n_msgs L) (store_word True x) = Inr m"
    "nm_as_slice (n_msgs L) m = store_word True x"
    "send_bytes L a (store_word True x) s
       = give (s\<lparr>lib := snd (n_send L (nsock_handle a s) m 0 (lib s))\<rparr>)"
proof -
  obtain m where m: "nm_from_slice (n_msgs L) (store_word True x) = Inr m"
    using assms(2) length_store_word [of True x] unfolding sends_words_def by blast
  have "nm_as_slice (n_msgs L) m = store_word True x"
    using nng_msg.nm_from_slice_spec [OF assms(1), of "store_word True x"] m
      nng_msg.nm_as_slice_eq [OF assms(1)] by (auto simp: nm_contents_def)
  moreover have "fst (n_send L (nsock_handle a s) m 0 (lib s)) = 0"
    using assms(2) by (simp add: sends_words_def)
  then have "sock_send L a m s = give (s\<lparr>lib := snd (n_send L (nsock_handle a s) m 0 (lib s))\<rparr>)"
    by (cases "n_send L (nsock_handle a s) m 0 (lib s)")
      (simp add: sock_send_def nsock_send_def nsock_send_flags_def)
  ultimately show ?thesis using that m by (simp add: send_bytes_def)
qed

lemma recv_word:
  assumes "n_recv L (nsock_handle a s) 0 (lib s) = ((0, Some m), w)"
  shows "sock_recv L a s = give (m, s\<lparr>lib := w\<rparr>)"
  using assms
  by (simp add: sock_recv_def nsock_recv_def nsock_recv_flags_def validate_ptr_def rv2res_def)

section \<open>Properties\<close>

text \<open>
  The publisher of pubsub.rs tells every subscriber how many there are.  From a count that is
  right, after any events of pipes, it prints and sends the number of subscribers there are then,
  where pipes that are only about to be added do not count, and goes on with that count; a
  subscriber that receives this message prints the same number.
\<close>

theorem subscribers_are_counted:
  assumes "nng_msg (n_msgs L) V" "sends_words L"
    and "int n + net_joined evs = int k" "k < 2 ^ 64"
  shows "\<exists>m. publisher_round L a evs (word_of_nat n, s)
      = ([Line (''PUBLISHER: SENDING '' @ show_nat k)],
         Inr (Inr (word_of_nat k, s\<lparr>lib := snd (n_send L (nsock_handle a s) m 0 (lib s))\<rparr>)))
    \<and> (\<forall>b t w. n_recv L (nsock_handle b t) 0 (lib t) = ((0, Some m), w) \<longrightarrow>
        nng_subscriber_round L b t
          = ([Line (''SUBSCRIBER: THERE ARE '' @ show_nat k @ '' SUBSCRIBERS'')], Inr (Inr (t\<lparr>lib := w\<rparr>))))"
proof -
  let ?k = "word_of_nat k :: u64"
  have "word_of_nat n + word_of_int (net_joined evs) = (word_of_int (int k) :: u64)"
    unfolding assms(3) [symmetric] by simp
  then have new: "fold count_event evs (word_of_nat n) = ?k" by (simp add: count_events)
  have k: "unat ?k = k" using assms(4) by (simp add: unsigned_of_nat take_bit_nat_eq_self)
  obtain m where m: "nm_as_slice (n_msgs L) m = store_word True ?k"
      "send_bytes L a (store_word True ?k) s
         = give (s\<lparr>lib := snd (n_send L (nsock_handle a s) m 0 (lib s))\<rparr>)"
    using send_word [OF assms(1,2)] by metis
  have "publisher_round L a evs (word_of_nat n, s)
      = ([Line (''PUBLISHER: SENDING '' @ show_nat k)],
         Inr (Inr (?k, s\<lparr>lib := snd (n_send L (nsock_handle a s) m 0 (lib s))\<rparr>)))"
    using new m(2) k by (simp add: publisher_round_def Let_def prog_simps)
  moreover have "nng_subscriber_round L b t
      = ([Line (''SUBSCRIBER: THERE ARE '' @ show_nat k @ '' SUBSCRIBERS'')], Inr (Inr (t\<lparr>lib := w\<rparr>)))"
    if "n_recv L (nsock_handle b t) 0 (lib t) = ((0, Some m), w)" for b t w
    using recv_word [OF that] m(1) k by (simp add: nng_subscriber_round_def le_u64_def prog_simps)
  ultimately show ?thesis by blast
qed

text \<open>A network that is a queue of messages, seen by the sockets of two programs in turn.\<close>

definition queue_link :: "(ref_msg, ref_msg list) nng_link" where
  "queue_link = \<lparr>
     n_msgs = ref_api,
     n_fns = \<lparr>
       f_init = (\<lambda>w. w), f_fini = (\<lambda>w. w), f_open = (\<lambda>f w. ((0, 1), w)),
       f_socket_close = (\<lambda>h w. (0, w)), f_socket_raw = (\<lambda>h w. (False, w)),
       f_pipe_notify = (\<lambda>h ev a w. (0, w)), f_device = (\<lambda>h k w. (7, w)),
       f_ctx_open = (\<lambda>h w. ((0, 1), w)), f_ctx_close = (\<lambda>c w. (0, w)),
       f_dial = (\<lambda>h u fl w. ((0, 1), w)), f_dialer_create = (\<lambda>h u w. ((0, 1), w)),
       f_dialer_start = (\<lambda>d fl w. (0, w)), f_dialer_close = (\<lambda>d w. (0, w)),
       f_listen = (\<lambda>h u fl w. ((0, 1), w)), f_listener_create = (\<lambda>h u w. ((0, 1), w)),
       f_listener_start = (\<lambda>d fl w. (0, w)), f_listener_close = (\<lambda>d w. (0, w))\<rparr>,
     n_send = (\<lambda>h m fl w. (0, w @ [m])),
     n_recv = (\<lambda>h fl w. case w of [] \<Rightarrow> ((5, None), []) | m # w \<Rightarrow> ((0, Some m), w))\<rparr>"

definition queue_session :: "ref_msg list \<Rightarrow> (ref_msg list, nat) session" where
  "queue_session w = \<lparr>lib = w, socks = [(\<lparr>handle = 1, pipe_notify = None\<rparr>, 1)], ctxs = [],
     d_builders = [], l_builders = []\<rparr>"

lemma queue_sends: "sends_words queue_link"
proof -
  obtain m where m: "m_alloc ref_api 8 = (0, Some m)"
    by (simp add: ref_api_def ref_alloc_def ref_limit_def ref_alloc_cap_def)
  have "nm_from_slice ref_api bs = Inr (copy_to_body ref_api 0 bs m)" if "length bs = 8" for bs
    using m that by (simp add: nm_from_slice_def expect_ptr_def validate_ptr_def)
  then show ?thesis by (simp add: sends_words_def queue_link_def)
qed

text \<open>Of one subscriber and three more that join while it goes, three are left.\<close>

theorem subscribers_are_counted_witness:
  "\<exists>m. publisher_round queue_link 0 [AddPre, AddPost, AddPost, RemovePost, AddPost] (1, queue_session [])
      = ([Line ''PUBLISHER: SENDING 3''], Inr (Inr (3, queue_session [m])))
    \<and> nng_subscriber_round queue_link 0 (queue_session [m])
      = ([Line ''SUBSCRIBER: THERE ARE 3 SUBSCRIBERS''], Inr (Inr (queue_session [])))"
proof -
  have shown: "show_nat 3 = ''3''" by (simp add: show_nat.simps digit_char_def char_of_eq_iff)
  have laws: "nng_msg (n_msgs queue_link) ref_ok"
    using ref.nng_msg_axioms by (simp add: queue_link_def)
  have three: "int 1 + net_joined [AddPre, AddPost, AddPost, RemovePost, AddPost] = int 3"
    by (simp add: net_joined_def)
  obtain m where m: "publisher_round queue_link 0 [AddPre, AddPost, AddPost, RemovePost, AddPost]
        (1, queue_session []) = ([Line (''PUBLISHER: SENDING '' @ show_nat 3)], Inr (Inr (3,
          (queue_session [])\<lparr>lib := snd (n_send queue_link (nsock_handle 0 (queue_session [])) m 0
            (lib (queue_session [])))\<rparr>)))"
    and sub: "\<forall>b (t :: (ref_msg list, nat) session) w.
        n_recv queue_link (nsock_handle b t) 0 (lib t) = ((0, Some m), w) \<longrightarrow>
        nng_subscriber_round queue_link b t
          = ([Line (''SUBSCRIBER: THERE ARE '' @ show_nat 3 @ '' SUBSCRIBERS'')], Inr (Inr (t\<lparr>lib := w\<rparr>)))"
    using subscribers_are_counted [OF laws queue_sends three, of 0 "queue_session []"] by auto
  have "n_recv queue_link (nsock_handle 0 (queue_session [m])) 0 (lib (queue_session [m])) = ((0, Some m), [])"
    by (simp add: queue_link_def queue_session_def)
  with sub have "nng_subscriber_round queue_link 0 (queue_session [m])
      = ([Line (''SUBSCRIBER: THERE ARE '' @ show_nat 3 @ '' SUBSCRIBERS'')],
         Inr (Inr ((queue_session [m])\<lparr>lib := []\<rparr>)))"
    by blast
  with m shown show ?thesis by (auto simp: queue_link_def queue_session_def)
qed

end
