(* ===== verification/NngServer.thy ===== *)
theory NngServer
  imports NngDemos NngAio
begin

text \<open>
  The asynchronous server of nng/examples/async.rs and its client.  Each worker of the server is a
  handle whose closure starts the next operation when one has ended; the runs of a worker are those
  of the step relation of \<open>NngAio\<close> in which only the closure uses the handle.
\<close>

section \<open>The client\<close>

text \<open>\<open>took\<close> is the time between the two readings of the clock.\<close>

definition async_client ::
  "('m, 'w) nng_link \<Rightarrow> bool \<Rightarrow> duration \<Rightarrow> string \<Rightarrow> u64 \<Rightarrow> ('w, 'cb) session \<Rightarrow> ('w, 'cb) session prog" where
  "async_client L oc took url ms s =
     dialing L Req0 url s (\<lambda>a s.
     followed (send_bytes L a (store_word True ms) s) (\<lambda>s.
     followed (sock_recv L a s) (\<lambda>(_, s).
     followed (call (u64_fit oc (d_secs took * 1000))) (\<lambda>secs.
     followed (call (u64_fit oc (secs + d_nanos took div 1000000))) (\<lambda>millis.
     followed (print (''Request took '' @ show_nat millis @ '' milliseconds'')) (\<lambda>_.
     call (nsock_drop (n_fns L) a s)))))))"

section \<open>The workers\<close>

definition PARALLEL :: nat where
  "PARALLEL = 128"

text \<open>
  \<open>ctx.recv(&aio).unwrap()\<close>, \<open>aio.sleep(..).unwrap()\<close> and \<open>ctx.send(&aio, ..).unwrap()\<close> on the thread
  \<open>t\<close>, each with its entry in the books.
\<close>

definition worker_recv :: "nat \<Rightarrow> 'm shared \<Rightarrow> 'm shared run" where
  "worker_recv t w =
     (case recv_begin t w of
        (Inl _, _) \<Rightarrow> Inl ExpectFailed
      | (Inr _, w) \<Rightarrow> Inr (recv_start t (record_in (\<lambda>l. l\<lparr>begun := begun l + 1\<rparr>) w)))"

definition worker_sleep :: "nat \<Rightarrow> 'm shared \<Rightarrow> 'm shared run" where
  "worker_sleep t w =
     (case sleep_begin t w of
        (Inl _, _) \<Rightarrow> Inl ExpectFailed
      | (Inr _, w) \<Rightarrow> Inr (sleep_start t (record_in (\<lambda>l. l\<lparr>begun := begun l + 1\<rparr>) w)))"

definition worker_send :: "nat \<Rightarrow> 'm \<Rightarrow> 'm shared \<Rightarrow> 'm shared run" where
  "worker_send t m w =
     (case send_begin t m w of
        (Inl _, _) \<Rightarrow> Inl ExpectFailed
      | (Inr _, w) \<Rightarrow>
          Inr (send_start t (send_set_msg t m
            (record_in (\<lambda>l. l\<lparr>offered := offered l @ [m], begun := begun l + 1\<rparr>) w))))"

text \<open>The closure, with the delay when it starts a sleep.\<close>

definition worker_callback ::
  "'m msg_api \<Rightarrow> nat \<Rightarrow> 'm aio_result \<Rightarrow> 'm shared \<Rightarrow> (u64 option \<times> 'm shared) run" where
  "worker_callback N t res w =
     (case res of
        SendRes (Inr _) \<Rightarrow> run_map (Pair None) (worker_recv t w)
      | RecvRes (Inr m) \<Rightarrow>
          if length (nm_as_slice N m) = 8
          then run_map (Pair (Some (load_word True (nm_as_slice N m)))) (worker_sleep t w)
          else Inl ExpectFailed
      | SleepRes (Inr _) \<Rightarrow>
          run_bind (nm_new N) (\<lambda>m. run_map (Pair None) (worker_send t m w))
      | _ \<Rightarrow> Inl Explicit)"

text \<open>
  The server: the workers, each a context and a handle, then the address, then the first receive of
  every worker.  \<open>alloc\<close> is what \<^verbatim>\<open>nng_aio_alloc\<close> returns for each worker; the closure holds a clone
  of the context.  The value is the session with the handles of the workers; the main thread, number
  0, then sleeps.
\<close>

fun async_workers ::
  "('m, 'w) nng_link \<Rightarrow> (nat \<Rightarrow> u32 \<times> unit option) \<Rightarrow> nat \<Rightarrow> nat list \<Rightarrow> ('w, 'cb) session
     \<Rightarrow> ((nat \<times> 'm shared) list \<times> ('w, 'cb) session) prog" where
  "async_workers L alloc a [] s = give ([], s)"
| "async_workers L alloc a (k # ks) s =
     (case nctx_new (n_fns L) a s of (r, s) \<Rightarrow>
      followed (try_or ending.Nng r) (\<lambda>ctx.
      let s = nctx_clone ctx s in
      followed (call (fst (nng_aio_new (fst (alloc k)) (snd (alloc k))))) (\<lambda>r.
      followed (try_or ending.Nng r) (\<lambda>_.
      followed (async_workers L alloc a ks s) (\<lambda>(workers, s). give ((ctx, fresh_aio 0) # workers, s))))))"

fun start_workers :: "(nat \<times> 'm shared) list \<Rightarrow> 'm shared list prog" where
  "start_workers [] = give []"
| "start_workers ((c, w) # ws) =
     (case recv_begin 0 w of
        (Inl e, _) \<Rightarrow> fails (ending.Nng e)
      | (Inr _, w) \<Rightarrow>
          followed (start_workers ws) (\<lambda>ws.
          give (recv_start 0 (record_in (\<lambda>l. l\<lparr>begun := begun l + 1\<rparr>) w) # ws)))"

definition async_server ::
  "('m, 'w) nng_link \<Rightarrow> (nat \<Rightarrow> u32 \<times> unit option) \<Rightarrow> string \<Rightarrow> ('w, 'cb) session
     \<Rightarrow> ('m shared list \<times> ('w, 'cb) session) prog" where
  "async_server L alloc url s =
     (case nsock_new (n_fns L) Rep0 s of (r, s) \<Rightarrow>
      followed (try_or ending.Nng r) (\<lambda>a.
      followed (async_workers L alloc a [0..<PARALLEL] s) (\<lambda>(workers, s).
      case nsock_listen (n_fns L) a url s of (r, s) \<Rightarrow>
      followed (try_or ending.Nng r) (\<lambda>_.
      followed (start_workers workers) (\<lambda>ws. give (ws, s))))))"

definition async_main ::
  "('m, 'w) nng_link \<Rightarrow> bool \<Rightarrow> (nat \<Rightarrow> u32 \<times> unit option) \<Rightarrow> duration \<Rightarrow> string list
     \<Rightarrow> ('w, 'cb) session \<Rightarrow> ('w, 'cb) session prog" where
  "async_main L oc alloc took args s =
     (case args of
        [_, t, url] \<Rightarrow>
          if t = ''server'' then followed (async_server L alloc url s) (\<lambda>(_, s). give s)
          else ([Line ''Usage:'', Line ''async server <url>'', Line ''  or'',
                 Line ''async client <url> <ms>''], Inr (Inl (ExitCode 1)))
      | [_, t, url, n] \<Rightarrow>
          if t = ''client'' then
            followed (unwrap (parse_uint (2 ^ 64 - 1) n)) (\<lambda>ms.
            async_client L oc took url (word_of_nat ms) s)
          else ([Line ''Usage:'', Line ''async server <url>'', Line ''  or'',
                 Line ''async client <url> <ms>''], Inr (Inl (ExitCode 1)))
      | _ \<Rightarrow> ([Line ''Usage:'', Line ''async server <url>'', Line ''  or'',
              Line ''async client <url> <ms>''], Inr (Inl (ExitCode 1))))"

section \<open>The runs of a worker\<close>

text \<open>
  A step of NNG, or of the callback up to the closure; or the closure, run to its end on a thread of
  NNG, which then drops its clone of the handle.  The closure is one step: that NNG may finish the new
  operation while the closure has still to return is not among these runs.  It is among those of
  \<open>nstep\<close>, of which these are some, and for which the theorems of \<open>NngAio\<close> hold.
\<close>

inductive wstep :: "'m msg_api \<Rightarrow> 'm shared \<Rightarrow> 'm shared \<Rightarrow> bool" for N where
  below: "\<lbrakk>nstep w w'; clients w' = clients w; holders w' = holders w;
      offered (books w') = offered (books w)\<rbrakk> \<Longrightarrow> wstep N w w'"
| closure: "\<lbrakk>cbs w i = Stored r; t \<notin> holders w; worker_callback N t r (cb_call i t w) = Inr (d, w')\<rbrakk> \<Longrightarrow>
    wstep N w (drop_handle t (at_cb i NoCb w'))"

inductive_cases wstepE: "wstep N w w'"

text \<open>A worker after the first receive of the server.\<close>

definition worker_started :: "'m shared" where
  "worker_started = recv_start 0 (record_in (\<lambda>l. l\<lparr>begun := begun l + 1\<rparr>)
     (at_pc 0 HasRecv ((fresh_aio 0)\<lparr>n_state := Receiving\<rparr>)))"

lemma worker_op_Inr:
  "worker_recv t w = Inr w' \<longleftrightarrow> n_state w = Inactive \<and>
     w' = recv_start t (record_in (\<lambda>l. l\<lparr>begun := begun l + 1\<rparr>) (at_pc t HasRecv (w\<lparr>n_state := Receiving\<rparr>)))"
  "worker_sleep t w = Inr w' \<longleftrightarrow> n_state w = Inactive \<and>
     w' = sleep_start t (record_in (\<lambda>l. l\<lparr>begun := begun l + 1\<rparr>) (at_pc t HasSleep (w\<lparr>n_state := Sleeping\<rparr>)))"
  "worker_send t m w = Inr w' \<longleftrightarrow> n_state w = Inactive \<and>
     w' = send_start t (send_set_msg t m (record_in (\<lambda>l. l\<lparr>offered := offered l @ [m], begun := begun l + 1\<rparr>)
       (at_pc t (HasSend m) (w\<lparr>n_state := Sending\<rparr>))))"
  by (auto simp: worker_recv_def worker_sleep_def worker_send_def recv_begin_def sleep_begin_def
      send_begin_def compare_exchange_def)

text \<open>Every run of a worker is a run of the handle.\<close>

lemma worker_ops_are_steps:
  assumes "t \<in> holders w" "clients w t = Ready"
  shows "worker_recv t w = Inr w' \<Longrightarrow> nstep\<^sup>*\<^sup>* w w'"
    and "worker_sleep t w = Inr w' \<Longrightarrow> nstep\<^sup>*\<^sup>* w w'"
    and "worker_send t m w = Inr w' \<Longrightarrow> nstep\<^sup>*\<^sup>* w w'"
proof -
  show "nstep\<^sup>*\<^sup>* w w'" if "worker_recv t w = Inr w'"
  proof -
    let ?w1 = "record_in (\<lambda>l. l\<lparr>begun := begun l + 1\<rparr>) (at_pc t HasRecv (w\<lparr>n_state := Receiving\<rparr>))"
    from that have w: "n_state w = Inactive" "w' = recv_start t ?w1" by (simp_all add: worker_op_Inr)
    have "nstep w ?w1" by (rule recv_ok [OF assms]) (simp add: begin_Inr w)
    moreover have "nstep ?w1 w'" unfolding w(2) by (rule recv_go) (simp add: at_defs)
    ultimately show ?thesis by (meson r_into_rtranclp rtranclp_step)
  qed
  show "nstep\<^sup>*\<^sup>* w w'" if "worker_sleep t w = Inr w'"
  proof -
    let ?w1 = "record_in (\<lambda>l. l\<lparr>begun := begun l + 1\<rparr>) (at_pc t HasSleep (w\<lparr>n_state := Sleeping\<rparr>))"
    from that have w: "n_state w = Inactive" "w' = sleep_start t ?w1" by (simp_all add: worker_op_Inr)
    have "nstep w ?w1" by (rule sleep_ok [OF assms]) (simp add: begin_Inr w)
    moreover have "nstep ?w1 w'" unfolding w(2) by (rule sleep_go) (simp add: at_defs)
    ultimately show ?thesis by (meson r_into_rtranclp rtranclp_step)
  qed
  show "nstep\<^sup>*\<^sup>* w w'" if "worker_send t m w = Inr w'"
  proof -
    let ?w1 = "record_in (\<lambda>l. l\<lparr>offered := offered l @ [m], begun := begun l + 1\<rparr>)
      (at_pc t (HasSend m) (w\<lparr>n_state := Sending\<rparr>))"
    from that have w: "n_state w = Inactive" "w' = send_start t (send_set_msg t m ?w1)"
      by (simp_all add: worker_op_Inr)
    have "nstep w ?w1" by (rule send_ok [OF assms]) (simp add: begin_Inr w)
    moreover have "nstep ?w1 (send_set_msg t m ?w1)" by (rule send_msg) (simp add: at_defs)
    moreover have "nstep (send_set_msg t m ?w1) w'"
      unfolding w(2) by (rule send_go) (simp add: send_set_msg_def at_defs)
    ultimately show ?thesis by (meson r_into_rtranclp rtranclp_step)
  qed
qed

section \<open>The invariant\<close>

text \<open>
  The operation that a worker runs when it has reported \<open>n\<close> results, and the one a result belongs
  to.
\<close>

definition worker_op :: "nat \<Rightarrow> aio_state" where
  "worker_op n = (if n mod 3 = 0 then Receiving else if n mod 3 = 1 then Sleeping else Sending)"

fun result_op :: "'m aio_result \<Rightarrow> aio_state" where
  "result_op (SendRes _) = Sending"
| "result_op (RecvRes _) = Receiving"
| "result_op (SleepRes _) = Sleeping"

text \<open>
  Where a worker is: its operation with NNG, a callback on the way to the closure, or at it.  \<open>u\<close> is
  the operation that it runs, or the last.
\<close>

definition below_closure :: "aio_state \<Rightarrow> 'm callback \<Rightarrow> bool" where
  "below_closure u c \<longleftrightarrow> c = Entered \<or> c = Upgraded \<or> c = Loaded u \<or> (\<exists>r. c = Computed r \<and> result_op r = u)"

definition worker_inv :: "'m \<Rightarrow> 'm shared \<Rightarrow> bool" where
  "worker_inv e w \<longleftrightarrow>
     stopping w = None \<and> holders w = {0} \<and> clients w = (\<lambda>_. Ready)
   \<and> (\<forall>k<length (results (books w)). result_op (results (books w) ! k) = worker_op k)
   \<and> (let n = length (results (books w)); u = worker_op n in
       n_state w = u \<and> offered (books w) = replicate (Suc n div 3) e
         \<and> (n_phase w = Running u \<and> cbs w = (\<lambda>_. NoCb)
          \<or> n_phase w = Completed \<and> cbs w = (\<lambda>_. NoCb)
          \<or> n_phase w = NIdle \<and> (\<exists>i c. cbs w = (\<lambda>_. NoCb)(i := c) \<and> below_closure u c))
     \<or> n_state w = Inactive \<and> offered (books w) = replicate (n div 3) e \<and> n_phase w = NIdle \<and> 0 < n
         \<and> (\<exists>i. cbs w = (\<lambda>_. NoCb)(i := Stored (last (results (books w))))))"

lemma callback_result_op: "callback_result u rv p = Inr r \<Longrightarrow> result_op r = u"
  by (auto simp: callback_result_def run_bind_def run_map_def split: aio_state.splits if_splits sum.splits)

lemma worker_inv_started: "worker_inv e worker_started"
  by (simp add: worker_inv_def worker_started_def fresh_aio_def recv_start_def at_defs worker_op_def
      fun_eq_iff)

text \<open>The steps below the closure, one at a time.\<close>

lemma below_cases:
  assumes "nstep w w'" "clients w' = clients w" "holders w' = holders w"
    "offered (books w') = offered (books w)" "worker_inv e w"
  obtains (finished) op where "n_phase w = Running op" "cbs w' = cbs w" "n_state w' = n_state w"
      "n_phase w' = Completed" "results (books w') = results (books w)" "stopping w' = stopping w"
  | (enter) i where "n_phase w = Completed" "w' = at_cb i Entered (w\<lparr>n_phase := NIdle\<rparr>)"
  | (up) i where "cbs w i = Entered" "w' = at_cb i Upgraded w"
  | (load) i where "cbs w i = Upgraded" "w' = at_cb i (Loaded (n_state w)) w"
  | (panic) i u p where "cbs w i = Loaded u" "w' = w\<lparr>aborted := Some p\<rparr>"
  | (compute) i u r where "cbs w i = Loaded u" "result_op r = u" "w' = at_cb i (Computed r) w"
  | (store) i r where "cbs w i = Computed r"
      "w' = record_in (\<lambda>l. l\<lparr>results := results l @ [r]\<rparr>) (cb_store i r w)"
proof -
  have idle: "clients w t = Ready" "clients w' t = Ready" for t
    using assms(2,5) by (simp_all add: worker_inv_def)
  have alive: "stopping w = None" using assms(5) by (simp add: worker_inv_def)
  have user: "cbs w i \<noteq> InUser t" for i t
    using assms(5) by (auto simp: worker_inv_def Let_def below_closure_def split: if_splits)
  show thesis
    using assms(1)
  proof cases
    case (send_ok t m w1)
    then show thesis using idle(2) [of t] by (simp add: begin_Inr at_defs)
  next
    case (send_busy t m m' er w1)
    then show thesis using assms(4) by (simp add: send_begin_Inl record_in_def)
  next
    case (recv_ok t w1)
    then show thesis using idle(2) [of t] by (simp add: begin_Inr at_defs)
  next
    case (sleep_ok t w1)
    then show thesis using idle(2) [of t] by (simp add: begin_Inr at_defs)
  next
    case (timeout_ok t)
    then show thesis using idle(2) [of t] by (simp add: begin_Inr at_defs)
  next
    case (compute i u)
    then show thesis
    proof (cases "callback_result u (n_result w) (n_slot w)")
      case (Inl p)
      then show thesis using compute that(5) by (simp add: cb_compute_def)
    next
      case (Inr r)
      then show thesis using compute that(6) callback_result_op [OF Inr] by (simp add: cb_compute_def)
    qed
  next
    case (clone t u)
    then show thesis using assms(3) by auto
  next
    case (drop t)
    then show thesis using assms(3) by (auto simp: drop_handle_def Let_def split: if_splits)
  next
    case (call i r t)
    then show thesis using assms(3) by (auto simp: cb_call_def at_cb_def)
  next
    case (send_msg t m)
    then show thesis using idle(1) [of t] by simp
  next
    case (send_go t)
    then show thesis using idle(1) [of t] by simp
  next
    case (recv_go t)
    then show thesis using idle(1) [of t] by simp
  next
    case (sleep_go t)
    then show thesis using idle(1) [of t] by simp
  next
    case (timeout_go t)
    then show thesis using idle(1) [of t] by simp
  next
    case (timeout_end t)
    then show thesis using idle(1) [of t] by simp
  next
    case (nng_sent m x)
    then show thesis by (intro that(1)) (simp_all add: record_in_def)
  next
    case (nng_received m)
    then show thesis by (intro that(1)) (simp_all add: record_in_def)
  next
    case nng_slept
    then show thesis by (intro that(1)) (simp_all add: record_in_def)
  next
    case (nng_failed k er)
    then show thesis by (intro that(1)) (simp_all add: record_in_def)
  next
    case (enter i)
    then show thesis by (intro that(2))
  next
    case (upgrade i)
    then show thesis by (intro that(3)) (simp_all add: cb_upgrade_def)
  next
    case (upgrade_fails i t)
    then show thesis using alive by simp
  next
    case (load i)
    then show thesis by (intro that(4)) (simp_all add: cb_load_def)
  next
    case (store_state i r)
    then show thesis by (intro that(7))
  next
    case (return i t)
    then show thesis using user by blast
  next
    case (free t)
    then show thesis using alive by simp
  qed
qed

lemma worker_opD:
  "worker_op n = Receiving \<Longrightarrow> n mod 3 = 0" "worker_op n = Sleeping \<Longrightarrow> n mod 3 = 1"
  "worker_op n = Sending \<Longrightarrow> n mod 3 = 2" "worker_op n \<noteq> Inactive"
  by (auto simp: worker_op_def split: if_splits)

lemma worker_inv_below:
  assumes "nstep w w'" "clients w' = clients w" "holders w' = holders w"
    "offered (books w') = offered (books w)" "worker_inv e w"
  shows "worker_inv e w'"
  using assms
proof (cases rule: below_cases)
  case (finished op)
  then have "cbs w = (\<lambda>_. NoCb)" using assms(5) by (auto simp: worker_inv_def Let_def)
  with finished assms show ?thesis by (auto simp: worker_inv_def Let_def worker_opD)
next
  case (enter i)
  then have "cbs w = (\<lambda>_. NoCb)" using assms(5) by (auto simp: worker_inv_def Let_def)
  with enter assms(5) show ?thesis
    by (auto simp: worker_inv_def Let_def at_cb_def below_closure_def)
next
  case (up i)
  then have "cbs w = (\<lambda>_. NoCb)(i := Entered)"
    using assms(5) by (auto simp: worker_inv_def Let_def split: if_splits)
  with up assms(5) show ?thesis
    by (auto simp: worker_inv_def Let_def at_cb_def below_closure_def fun_eq_iff split: if_splits)
next
  case (load i)
  then have "cbs w = (\<lambda>_. NoCb)(i := Upgraded)"
    using assms(5) by (auto simp: worker_inv_def Let_def split: if_splits)
  with load assms(5) show ?thesis
    by (auto simp: worker_inv_def Let_def at_cb_def below_closure_def fun_eq_iff split: if_splits)
next
  case (panic i u p)
  then show ?thesis using assms(5) by (simp add: worker_inv_def)
next
  case (compute i u r)
  then have "cbs w = (\<lambda>_. NoCb)(i := Loaded u)"
    using assms(5) by (auto simp: worker_inv_def Let_def split: if_splits)
  with compute assms(5) show ?thesis
    by (auto simp: worker_inv_def Let_def at_cb_def below_closure_def fun_eq_iff split: if_splits)
next
  case (store i r)
  then have "cbs w = (\<lambda>_. NoCb)(i := Computed r)"
    using assms(5) by (auto simp: worker_inv_def Let_def split: if_splits)
  with store assms(5) show ?thesis
    by (auto simp: worker_inv_def Let_def record_in_def cb_store_def at_cb_def below_closure_def
        fun_eq_iff nth_append less_Suc_eq split: if_splits)
qed

section \<open>The closure\<close>

text \<open>The results that the closure can go on from, and the delay that it then waits for.\<close>

fun serves :: "'m msg_api \<Rightarrow> 'm aio_result \<Rightarrow> bool" where
  "serves N (RecvRes (Inr m)) \<longleftrightarrow> length (nm_as_slice N m) = 8"
| "serves N (SendRes r) \<longleftrightarrow> \<not> isl r"
| "serves N (SleepRes r) \<longleftrightarrow> \<not> isl r"
| "serves N _ \<longleftrightarrow> False"

fun delay_of :: "'m msg_api \<Rightarrow> 'm aio_result \<Rightarrow> u64 option" where
  "delay_of N (RecvRes (Inr m)) = Some (load_word True (nm_as_slice N m))"
| "delay_of N _ = None"

lemma at_closure:
  assumes "worker_inv e w" "cbs w i = Stored r"
  shows "cbs w = (\<lambda>_. NoCb)(i := Stored r)" "n_state w = Inactive" "n_phase w = NIdle"
    "result_op r = worker_op (length (results (books w)) - 1)" "results (books w) \<noteq> []"
    "offered (books w) = replicate (length (results (books w)) div 3) e"
proof -
  show c: "cbs w = (\<lambda>_. NoCb)(i := Stored r)" "n_state w = Inactive" "n_phase w = NIdle"
      "results (books w) \<noteq> []" "offered (books w) = replicate (length (results (books w)) div 3) e"
    using assms by (auto simp: worker_inv_def Let_def below_closure_def split: if_splits)
  have "r = last (results (books w))"
    using assms by (auto simp: worker_inv_def Let_def below_closure_def split: if_splits)
  then have "r = results (books w) ! (length (results (books w)) - 1)" using c(4) by (simp add: last_conv_nth)
  then show "result_op r = worker_op (length (results (books w)) - 1)"
    using assms(1) c(4) by (simp add: worker_inv_def)
qed

text \<open>The operation after the one whose result came in.\<close>

lemma worker_op_next:
  assumes "0 < n"
  shows "worker_op n = (case worker_op (n - 1) of
      Receiving \<Rightarrow> Sleeping | Sleeping \<Rightarrow> Sending | _ \<Rightarrow> Receiving)"
    and "worker_op (n - 1) = Sleeping \<Longrightarrow> Suc n div 3 = Suc (n div 3)"
    and "worker_op (n - 1) \<noteq> Sleeping \<Longrightarrow> Suc n div 3 = n div 3"
proof -
  obtain k where n: "n = Suc k" using assms by (cases n) auto
  define q x where "q = k div 3" and "x = k mod 3"
  have k: "k = 3 * q + x" "x < 3" by (simp_all add: q_def x_def)
  then consider "x = 0" | "x = 1" | "x = 2" by linarith
  then show "worker_op n = (case worker_op (n - 1) of
      Receiving \<Rightarrow> Sleeping | Sleeping \<Rightarrow> Sending | _ \<Rightarrow> Receiving)"
    and "worker_op (n - 1) = Sleeping \<Longrightarrow> Suc n div 3 = Suc (n div 3)"
    and "worker_op (n - 1) \<noteq> Sleeping \<Longrightarrow> Suc n div 3 = n div 3"
    by (cases; simp add: n k(1) worker_op_def mod_Suc div_Suc)+
qed

lemma closure_outcome:
  assumes "worker_inv e w" "cbs w i = Stored r" "t \<notin> holders w" "nm_new N = Inr e"
  shows "if serves N r
    then \<exists>w'. worker_callback N t r (cb_call i t w) = Inr (delay_of N r, w')
      \<and> n_state w' = worker_op (length (results (books w))) \<and> n_phase w' = Running (n_state w')
      \<and> offered (books w') = replicate (Suc (length (results (books w))) div 3) e
      \<and> results (books w') = results (books w) \<and> stopping w' = None
      \<and> clients w' = (\<lambda>_. Ready) \<and> cbs w' = (\<lambda>_. NoCb)(i := InUser t) \<and> holders w' = {0, t}
    else \<exists>p. worker_callback N t r (cb_call i t w) = Inl p"
proof -
  note at = at_closure [OF assms(1,2)]
  have free: "n_state (cb_call i t w) = Inactive" using at(2) by (simp add: cb_call_def at_cb_def)
  have len: "0 < length (results (books w))" using at(5) by simp
  note after = worker_op_next [OF len, folded at(4)]
  have inv: "holders w = {0}" "clients w = (\<lambda>_. Ready)" "stopping w = None"
    using assms(1) by (simp_all add: worker_inv_def)
  note eval = worker_callback_def worker_op_Inr worker_recv_def worker_sleep_def worker_send_def
    recv_begin_def sleep_begin_def send_begin_def compare_exchange_def
  show ?thesis
  proof (cases r)
    case (SendRes x)
    then show ?thesis using after at(1,2,6) inv
      by (cases x) (auto simp: eval nstep_defs at_defs cb_call_def fun_eq_iff)
  next
    case (RecvRes x)
    then show ?thesis using after at(1,2,6) inv
      by (cases x) (auto simp: eval nstep_defs at_defs cb_call_def fun_eq_iff)
  next
    case (SleepRes x)
    then show ?thesis using after at(1,2,6) inv assms(4)
      by (cases x) (auto simp: eval nstep_defs at_defs cb_call_def fun_eq_iff replicate_append_same)
  qed
qed

lemma worker_inv_closure:
  assumes "worker_inv e w" "cbs w i = Stored r" "t \<notin> holders w" "nm_new N = Inr e"
    and "worker_callback N t r (cb_call i t w) = Inr (d, w')"
  shows "worker_inv e (drop_handle t (at_cb i NoCb w'))"
proof -
  have t: "t \<noteq> 0" using assms(1,3) by (auto simp: worker_inv_def)
  have ok: "serves N r" using closure_outcome [OF assms(1-4)] assms(5) by (auto split: if_splits)
  have seq: "\<forall>k<length (results (books w)). result_op (results (books w) ! k) = worker_op k"
    using assms(1) by (simp add: worker_inv_def)
  from closure_outcome [OF assms(1-4)] ok assms(5)
  have "n_state w' = worker_op (length (results (books w)))" "n_phase w' = Running (n_state w')"
    "offered (books w') = replicate (Suc (length (results (books w))) div 3) e"
    "results (books w') = results (books w)" "stopping w' = None"
    "clients w' = (\<lambda>_. Ready)" "cbs w' = (\<lambda>_. NoCb)(i := InUser t)" "holders w' = {0, t}"
    by simp_all
  with t seq show ?thesis
    by (simp add: worker_inv_def drop_handle_def at_cb_def Let_def insert_Diff_if doubleton_eq_iff
        fun_eq_iff)
qed

lemma worker_inv_reachable:
  assumes "nm_new N = Inr e" "(wstep N)\<^sup>*\<^sup>* worker_started w"
  shows "worker_inv e w"
  using assms(2)
proof (induction rule: rtranclp_induct)
  case (step w w')
  from step(2,3) show ?case
    by (elim wstepE) (auto intro: worker_inv_below worker_inv_closure [OF _ _ _ assms(1)])
qed (rule worker_inv_started)

lemma wstep_is_run:
  assumes "wstep N w w'" "worker_inv e w" "nm_new N = Inr e"
  shows "nstep\<^sup>*\<^sup>* w w'"
  using assms(1)
proof cases
  case below
  then show ?thesis by blast
next
  case (closure i r t d w1)
  have ready: "clients w = (\<lambda>_. Ready)" "holders w = {0}" using assms(2) by (simp_all add: worker_inv_def)
  have cb: "cbs w = (\<lambda>_. NoCb)(i := Stored r)" using at_closure [OF assms(2) closure(2)] by blast
  let ?w = "cb_call i t w"
  have "nstep w ?w"
    by (rule call [OF closure(2) _ closure(3)]) (use ready cb in \<open>auto split: if_splits\<close>)
  also have "nstep\<^sup>*\<^sup>* ?w w1"
  proof -
    have held: "t \<in> holders ?w" "clients ?w t = Ready" using ready by (simp_all add: cb_call_def at_cb_def)
    show ?thesis
      using closure(4) worker_ops_are_steps [OF held]
      by (auto simp: worker_callback_def run_bind_def run_map_def
          split: aio_result.splits sum.splits if_splits)
  qed
  also have "nstep\<^sup>*\<^sup>* w1 (drop_handle t (at_cb i NoCb w1))"
  proof -
    have "clients w1 = (\<lambda>_. Ready)" "cbs w1 = (\<lambda>_. NoCb)(i := InUser t)" "holders w1 = {0, t}"
        "stopping w1 = None"
      using closure_outcome [OF assms(2) closure(2,3) assms(3)] closure(4) by (auto split: if_splits)
    then have "cbs w1 i = InUser t" "clients w1 t = Ready" "stopping w1 \<noteq> Some t"
        "t \<in> holders (at_cb i NoCb w1)" "clients (at_cb i NoCb w1) t = Ready"
      by (simp_all add: at_cb_def)
    then have "nstep w1 (at_cb i NoCb w1)" "nstep (at_cb i NoCb w1) (drop_handle t (at_cb i NoCb w1))"
      by (auto intro: return nstep.drop)
    then show ?thesis by (meson r_into_rtranclp rtranclp_step)
  qed
  finally show ?thesis using closure(1) by simp
qed

lemma worker_started_reachable: "nstep\<^sup>*\<^sup>* (fresh_aio 0) worker_started"
proof -
  have "worker_recv 0 (fresh_aio 0) = Inr worker_started"
    by (simp add: worker_op_Inr worker_started_def fresh_aio_def)
  then show ?thesis by (rule worker_ops_are_steps(1) [rotated 2]) (simp_all add: fresh_aio_def)
qed

lemma worker_runs:
  assumes "nm_new N = Inr e" "(wstep N)\<^sup>*\<^sup>* worker_started w"
  shows "nstep\<^sup>*\<^sup>* (fresh_aio 0) w"
  using assms(2)
proof (induction rule: rtranclp_induct)
  case (step w w')
  then show ?case
    using wstep_is_run [OF step(2) worker_inv_reachable [OF assms(1) step(1)] assms(1)] by simp
qed (rule worker_started_reachable)

section \<open>Properties\<close>

text \<open>
  C20. A worker of the asynchronous server, in every order of the steps of NNG, of the callback and of
  its closure, which runs as one step.  Its runs are runs of the handle; the results it is given are
  those of a receive, a sleep and a send, in turn for ever; it has sent one empty reply for each
  request that it slept for, and no other message.  When its closure is called, the handle is free:
  it starts the next operation, and after a request sleeps for as long as its eight bytes say, unless
  the result is an error or the request has another length; then it panics, and with it, as this is a
  callback of NNG, the whole server aborts.
\<close>

theorem async_worker_cycle:
  assumes "nm_new N = Inr e" "(wstep N)\<^sup>*\<^sup>* worker_started w"
  shows "nstep\<^sup>*\<^sup>* (fresh_aio 0) w
    \<and> (\<forall>k<length (results (books w)). result_op (results (books w) ! k) =
        (if k mod 3 = 0 then Receiving else if k mod 3 = 1 then Sleeping else Sending))
    \<and> offered (books w) = replicate ((if n_state w = Inactive then length (results (books w))
        else Suc (length (results (books w)))) div 3) e
    \<and> (\<forall>i r t. cbs w i = Stored r \<and> t \<notin> holders w \<longrightarrow>
        (if serves N r
         then \<exists>w'. worker_callback N t r (cb_call i t w) = Inr (delay_of N r, w')
           \<and> n_phase w' = Running (case result_op r of
               Receiving \<Rightarrow> Sleeping | Sleeping \<Rightarrow> Sending | _ \<Rightarrow> Receiving)
         else \<exists>p. worker_callback N t r (cb_call i t w) = Inl p))"
proof (intro conjI allI impI)
  note inv = worker_inv_reachable [OF assms]
  show "nstep\<^sup>*\<^sup>* (fresh_aio 0) w" by (rule worker_runs [OF assms])
  show "result_op (results (books w) ! k) =
        (if k mod 3 = 0 then Receiving else if k mod 3 = 1 then Sleeping else Sending)"
    if "k < length (results (books w))" for k
    using inv that by (simp add: worker_inv_def worker_op_def)
  show "offered (books w) = replicate ((if n_state w = Inactive then length (results (books w))
        else Suc (length (results (books w)))) div 3) e"
    using inv worker_opD(4) [THEN not_sym] by (auto simp: worker_inv_def Let_def)
  show "if serves N r
         then \<exists>w'. worker_callback N t r (cb_call i t w) = Inr (delay_of N r, w')
           \<and> n_phase w' = Running (case result_op r of
               Receiving \<Rightarrow> Sleeping | Sleeping \<Rightarrow> Sending | _ \<Rightarrow> Receiving)
         else \<exists>p. worker_callback N t r (cb_call i t w) = Inl p"
    if at: "cbs w i = Stored r \<and> t \<notin> holders w" for i r t
  proof -
    note here = at_closure [OF inv, of i r] 
    have "worker_op (length (results (books w))) = (case result_op r of
               Receiving \<Rightarrow> Sleeping | Sleeping \<Rightarrow> Sending | _ \<Rightarrow> Receiving)"
      using worker_op_next(1) [of "length (results (books w))"] here at by simp
    then show ?thesis
      using closure_outcome [OF inv _ _ assms(1), of i r t] at by (auto split: if_splits)
  qed
qed

text \<open>A worker that has received a request for three milliseconds and is about to be told.\<close>

definition short_request :: "ref_msg" where
  "short_request = \<lparr>r_header = [], r_body = store_word True 3, r_cap = 8\<rparr>"

definition told_worker :: "ref_msg shared" where
  "told_worker = worker_started\<lparr>n_state := Inactive, n_phase := NIdle, n_slot := Some short_request,
     cbs := (\<lambda>_. NoCb)(0 := Stored (RecvRes (Inr short_request))),
     books := (books worker_started)\<lparr>arrived := [short_request],
       results := [RecvRes (Inr short_request)]\<rparr>\<rparr>"

lemma told_worker_reachable: "(wstep N)\<^sup>*\<^sup>* worker_started told_worker"
proof -
  let ?w1 = "record_in (\<lambda>l. l\<lparr>arrived := arrived l @ [short_request]\<rparr>)
      (worker_started\<lparr>n_phase := Completed, n_result := 0, n_slot := Some short_request\<rparr>)"
  let ?w2 = "at_cb 0 Entered (?w1\<lparr>n_phase := NIdle\<rparr>)"
  let ?w3 = "cb_upgrade 0 ?w2"
  let ?w4 = "cb_load 0 ?w3"
  let ?w5 = "cb_compute 0 Receiving ?w4"
  let ?r = "RecvRes (Inr short_request)"
  let ?w6 = "record_in (\<lambda>l. l\<lparr>results := results l @ [?r]\<rparr>) (cb_store 0 ?r ?w5)"
  note eval = worker_started_def fresh_aio_def recv_start_def at_defs cb_upgrade_def cb_load_def
    cb_compute_def callback_result_def unwrap_msg_def cb_store_def
  have "wstep N worker_started ?w1"
    by (rule below, rule nng_received) (simp_all add: eval)
  moreover have "wstep N ?w1 ?w2" by (rule below, rule enter) (simp_all add: eval)
  moreover have "wstep N ?w2 ?w3" by (rule below, rule upgrade) (simp_all add: eval)
  moreover have "wstep N ?w3 ?w4" by (rule below, rule load) (simp_all add: eval)
  moreover have "wstep N ?w4 ?w5" by (rule below, rule compute) (simp_all add: eval)
  moreover have "wstep N ?w5 ?w6" by (rule below, rule store_state) (simp_all add: eval)
  ultimately have "(wstep N)\<^sup>*\<^sup>* worker_started ?w6" by (meson r_into_rtranclp rtranclp_step)
  moreover have "?w6 = told_worker" by (simp add: told_worker_def eval fun_eq_iff)
  ultimately show ?thesis by simp
qed

theorem async_worker_cycle_witness:
  "\<exists>w'. worker_callback ref_api 7 (RecvRes (Inr short_request)) (cb_call 0 7 told_worker)
      = Inr (Some 3, w') \<and> n_phase w' = Running Sleeping"
proof -
  obtain e where e: "nm_new ref_api = Inr e"
    by (simp add: nm_new_def expect_ptr_def validate_ptr_def ref_api_def ref_alloc_def ref_limit_def
        ref_alloc_cap_def)
  have slice: "nm_as_slice ref_api short_request = store_word True 3"
    by (simp add: nm_as_slice_def ref_api_def short_request_def)
  have at: "cbs told_worker 0 = Stored (RecvRes (Inr short_request))" "7 \<notin> holders told_worker"
    by (simp_all add: told_worker_def worker_started_def fresh_aio_def recv_start_def at_defs)
  from async_worker_cycle [OF e told_worker_reachable] at slice show ?thesis by fastforce
qed

end
