(* ===== verification/Lifecycle.thy ===== *)
theory Lifecycle
  imports Aio "HOL-Library.Multiset"
begin

text \<open>
  Who owns what: the resources that \<^verbatim>\<open>anng\<close> takes from NNG and from the allocator, and the order
  in which Rust's drops give them back.  The constructors (\<^verbatim>\<open>create_socket\<close>, \<^verbatim>\<open>Socket::context\<close>,
  \<^verbatim>\<open>Aio::new\<close>), the \<^verbatim>\<open>Drop\<close> implementations and the moves of messages write every such call down in
  a ledger; what NNG and the allocator answer is an argument.  A panic unwinds: what the code has
  already wrapped in an owning type is dropped, what it still holds as a bare handle is not.
\<close>

section \<open>The ledger\<close>

datatype resource = NngSocket nat | NngCtx nat | NngAio nat | NotifyBox nat | NngMsg nat

text \<open>
  \<open>Gain r p\<close>: \<open>r\<close> is allocated and holds on to \<open>p\<close> (a context to its socket, an AIO to the
  \<^verbatim>\<open>Notify\<close> that its callback is given).  \<open>Release\<close> frees or closes, \<open>Give\<close> hands over to NNG.
  The newest entry comes first.
\<close>

datatype act = Gain resource "resource option" | Release resource | Give resource

fun live :: "act list \<Rightarrow> (resource \<times> resource option) multiset" where
  "live [] = {#}"
| "live (Gain r p # l) = add_mset (r, p) (live l)"
| "live (Release r # l) = filter_mset (\<lambda>x. fst x \<noteq> r) (live l)"
| "live (Give r # l) = filter_mset (\<lambda>x. fst x \<noteq> r) (live l)"

definition is_live :: "resource \<Rightarrow> act list \<Rightarrow> bool" where
  "is_live r l \<longleftrightarrow> r \<in># image_mset fst (live l)"

definition is_held :: "resource \<Rightarrow> act list \<Rightarrow> bool" where
  "is_held r l \<longleftrightarrow> Some r \<in># image_mset snd (live l)"

text \<open>
  A ledger in order: nothing is allocated twice, nothing is given back that is not live, and
  nothing is given back while another resource holds on to it.
\<close>

fun in_order :: "act list \<Rightarrow> bool" where
  "in_order [] \<longleftrightarrow> True"
| "in_order (Gain r p # l) \<longleftrightarrow>
     in_order l \<and> \<not> is_live r l \<and> (case p of None \<Rightarrow> True | Some q \<Rightarrow> q \<noteq> r \<and> is_live q l)"
| "in_order (Release r # l) \<longleftrightarrow> in_order l \<and> is_live r l \<and> \<not> is_held r l"
| "in_order (Give r # l) \<longleftrightarrow> in_order l \<and> is_live r l \<and> \<not> is_held r l"

definition gains :: "resource \<Rightarrow> act list \<Rightarrow> nat" where
  "gains r l = length (filter (\<lambda>a. \<exists>p. a = Gain r p) l)"

definition returns_of :: "resource \<Rightarrow> act list \<Rightarrow> nat" where
  "returns_of r l = length (filter (\<lambda>a. a = Release r \<or> a = Give r) l)"

section \<open>Owners\<close>

text \<open>\<^verbatim>\<open>Aio\<close>, \<^verbatim>\<open>Socket\<close> and \<^verbatim>\<open>ContextfulSocket\<close> (with the \<^verbatim>\<open>Context\<close> in it), as what they own\<close>

record aio_owner =
  ao_aio :: nat
  ao_notify :: nat

record socket_owner =
  so_socket :: nat
  so_aio :: aio_owner
  so_recovered :: "nat option"

record ctx_owner =
  co_aio :: aio_owner
  co_context :: nat
  co_recovered :: "nat option"
  co_socket :: nat

text \<open>The ledger, and the values the program holds.\<close>

record life =
  l_acts :: "act list"
  l_sockets :: "socket_owner multiset"
  l_contexts :: "ctx_owner multiset"
  l_messages :: "nat multiset"

definition life_start :: life where
  "life_start = \<lparr>l_acts = [], l_sockets = {#}, l_contexts = {#}, l_messages = {#}\<rparr>"

definition enter :: "act \<Rightarrow> life \<Rightarrow> life" where
  "enter a L = L\<lparr>l_acts := a # l_acts L\<rparr>"

section \<open>Blocking calls\<close>

text \<open>
  \<^verbatim>\<open>block_in_place\<close>: the \<^verbatim>\<open>tokio\<close> feature, the flavour of the current runtime if there is one, and
  tokio's own function, which panics on a runtime of one thread.
\<close>

datatype runtime_flavor = CurrentThread | MultiThread

record runtime =
  tokio_feature :: bool
  try_current :: "runtime_flavor option"
  tokio_block_in_place :: "(life \<Rightarrow> life) \<Rightarrow> life \<Rightarrow> unit run \<times> life"

definition block_in_place :: "runtime \<Rightarrow> (life \<Rightarrow> life) \<Rightarrow> life \<Rightarrow> unit run \<times> life" where
  "block_in_place rt f L =
     (if tokio_feature rt
      then (case try_current rt of
              Some rt_flavor \<Rightarrow>
                if rt_flavor = MultiThread then tokio_block_in_place rt f L else (Inr (), f L)
            | None \<Rightarrow> (Inr (), f L))
      else (Inr (), f L))"

text \<open>
  Drop glue: after the body of \<^verbatim>\<open>drop\<close>, also when it unwinds, the fields are dropped in the order
  of their declaration.  (A second panic while unwinding would abort; the first is reported.)
\<close>

definition then_drop ::
  "(life \<Rightarrow> unit run \<times> life) \<Rightarrow> (life \<Rightarrow> unit run \<times> life) \<Rightarrow> life \<Rightarrow> unit run \<times> life" where
  "then_drop body fields_drop L =
     (case body L of (r, L') \<Rightarrow>
       case fields_drop L' of (r', L'') \<Rightarrow> (case r of Inl p \<Rightarrow> Inl p | Inr _ \<Rightarrow> r', L''))"

section \<open>Messages\<close>

definition message_drop :: "nat \<Rightarrow> life \<Rightarrow> unit run \<times> life" where
  "message_drop m L = (Inr (), enter (Release (NngMsg m)) L)"

definition option_drop :: "nat option \<Rightarrow> life \<Rightarrow> unit run \<times> life" where
  "option_drop msg L = (case msg of None \<Rightarrow> (Inr (), L) | Some m \<Rightarrow> message_drop m L)"

text \<open>A message from NNG (allocated, copied or received) becomes a \<^verbatim>\<open>Message\<close>; \<^verbatim>\<open>into_ptr\<close> gives
  one away.\<close>

definition message_from_raw :: "nat \<Rightarrow> life \<Rightarrow> life" where
  "message_from_raw m L = enter (Gain (NngMsg m) None) (L\<lparr>l_messages := add_mset m (l_messages L)\<rparr>)"

definition message_into_ptr :: "nat \<Rightarrow> life \<Rightarrow> life" where
  "message_into_ptr m L = enter (Give (NngMsg m)) (L\<lparr>l_messages := l_messages L - {#m#}\<rparr>)"

section \<open>\<^verbatim>\<open>Aio\<close>\<close>

text \<open>\<open>n\<close> is the address of the boxed \<^verbatim>\<open>Notify\<close>, \<open>rv\<close> and \<open>ptr\<close> the answer of \<^verbatim>\<open>nng_aio_alloc\<close>.\<close>

definition aio_alloc :: "nat \<Rightarrow> u32 \<Rightarrow> nat option \<Rightarrow> life \<Rightarrow> nat run \<times> life" where
  "aio_alloc notify rv ptr L =
     (new_inner rv ptr,
      case new_inner rv ptr of
        Inr a \<Rightarrow> enter (Gain (NngAio a) (Some (NotifyBox notify))) L | Inl _ \<Rightarrow> L)"

definition aio_create :: "nat \<Rightarrow> u32 \<Rightarrow> nat option \<Rightarrow> life \<Rightarrow> aio_owner run \<times> life" where
  "aio_create notify rv ptr L =
     (case aio_alloc notify rv ptr (enter (Gain (NotifyBox notify) None) L) of
        (r, L') \<Rightarrow> (run_map (\<lambda>a. \<lparr>ao_aio = a, ao_notify = notify\<rparr>) r, L'))"

definition aio_drop :: "runtime \<Rightarrow> aio_owner \<Rightarrow> life \<Rightarrow> unit run \<times> life" where
  "aio_drop rt a L =
     (case block_in_place rt (enter (Release (NngAio (ao_aio a)))) L of
        (Inl p, L') \<Rightarrow> (Inl p, L')
      | (Inr _, L') \<Rightarrow> (Inr (), enter (Release (NotifyBox (ao_notify a))) L'))"

section \<open>Sockets\<close>

text \<open>\<open>errno\<close> and \<open>s\<close>: the answer of \<^verbatim>\<open>nng_<protocol>_open\<close>.  Until the \<^verbatim>\<open>Socket\<close> is built, \<open>s\<close> is a
  bare handle.\<close>

definition socket_create ::
  "c_int \<Rightarrow> nat \<Rightarrow> nat \<Rightarrow> u32 \<Rightarrow> nat option \<Rightarrow> life \<Rightarrow> socket_owner run \<times> life" where
  "socket_create errno s notify rv ptr L =
     (case errno_u32 errno of
        Inl p \<Rightarrow> (Inl p, L)
      | Inr err \<Rightarrow>
          if err = 0 then
            (case aio_create notify rv ptr (enter (Gain (NngSocket s) None) L) of
               (Inl p, L') \<Rightarrow> (Inl p, L')
             | (Inr a, L') \<Rightarrow>
                 (let S = \<lparr>so_socket = s, so_aio = a, so_recovered = None\<rparr>
                  in (Inr S, L'\<lparr>l_sockets := add_mset S (l_sockets L')\<rparr>)))
          else if err = error_code_num ENOMEM then (Inl Oom, L)
          else (Inl Unreachable, L))"

definition socket_dropped :: "runtime \<Rightarrow> socket_owner \<Rightarrow> life \<Rightarrow> unit run \<times> life" where
  "socket_dropped rt S L =
     then_drop (block_in_place rt (enter (Release (NngSocket (so_socket S)))))
       (then_drop (aio_drop rt (so_aio S)) (option_drop (so_recovered S)))
       (L\<lparr>l_sockets := l_sockets L - {#S#}\<rparr>)"

section \<open>Contexts\<close>

definition context_dropped :: "runtime \<Rightarrow> nat \<Rightarrow> nat option \<Rightarrow> life \<Rightarrow> unit run \<times> life" where
  "context_dropped rt c recovered =
     then_drop (block_in_place rt (enter (Release (NngCtx c)))) (option_drop recovered)"

text \<open>
  \<^verbatim>\<open>Socket::context\<close>: the handle is wrapped in a \<^verbatim>\<open>Context\<close> before \<^verbatim>\<open>Aio::new\<close>, so a panic there
  drops, and closes, it.
\<close>

definition socket_context_open ::
  "runtime \<Rightarrow> nat \<Rightarrow> c_int \<Rightarrow> nat \<Rightarrow> nat \<Rightarrow> u32 \<Rightarrow> nat option \<Rightarrow> life \<Rightarrow> ctx_owner run \<times> life" where
  "socket_context_open rt s errno c notify rv ptr L =
     (case errno_u32 errno of
        Inl p \<Rightarrow> (Inl p, L)
      | Inr err \<Rightarrow>
          if err = 0 then
            (case aio_create notify rv ptr (enter (Gain (NngCtx c) (Some (NngSocket s))) L) of
               (Inl p, L') \<Rightarrow> (Inl p, snd (context_dropped rt c None L'))
             | (Inr a, L') \<Rightarrow>
                 (let C = \<lparr>co_aio = a, co_context = c, co_recovered = None, co_socket = s\<rparr>
                  in (Inr C, L'\<lparr>l_contexts := add_mset C (l_contexts L')\<rparr>)))
          else if err = error_code_num ENOMEM then (Inl Oom, L)
          else (Inl Unreachable, L))"

text \<open>\<^verbatim>\<open>ContextfulSocket\<close> has no \<^verbatim>\<open>drop\<close> of its own: its fields are \<^verbatim>\<open>aio\<close>, then \<^verbatim>\<open>context\<close>.\<close>

definition contextful_dropped :: "runtime \<Rightarrow> ctx_owner \<Rightarrow> life \<Rightarrow> unit run \<times> life" where
  "contextful_dropped rt C L =
     then_drop (aio_drop rt (co_aio C)) (context_dropped rt (co_context C) (co_recovered C))
       (L\<lparr>l_contexts := l_contexts L - {#C#}\<rparr>)"

section \<open>Recovered messages\<close>

text \<open>
  A receive that was cancelled too late leaves its message to the socket or the context (the
  \<^verbatim>\<open>CancellationGuard\<close>); the assignment drops the message that was there.  The next receive
  takes it.
\<close>

definition socket_recovers :: "socket_owner \<Rightarrow> nat \<Rightarrow> life \<Rightarrow> life" where
  "socket_recovers S m L =
     snd (option_drop (so_recovered S)
       (enter (Gain (NngMsg m) None)
         (L\<lparr>l_sockets := add_mset (S\<lparr>so_recovered := Some m\<rparr>) (l_sockets L - {#S#})\<rparr>)))"

definition ctx_recovers :: "ctx_owner \<Rightarrow> nat \<Rightarrow> life \<Rightarrow> life" where
  "ctx_recovers C m L =
     snd (option_drop (co_recovered C)
       (enter (Gain (NngMsg m) None)
         (L\<lparr>l_contexts := add_mset (C\<lparr>co_recovered := Some m\<rparr>) (l_contexts L - {#C#})\<rparr>)))"

definition socket_takes :: "socket_owner \<Rightarrow> life \<Rightarrow> life" where
  "socket_takes S L =
     (case so_recovered S of
        None \<Rightarrow> L
      | Some m \<Rightarrow>
          L\<lparr>l_sockets := add_mset (S\<lparr>so_recovered := None\<rparr>) (l_sockets L - {#S#}),
            l_messages := add_mset m (l_messages L)\<rparr>)"

definition ctx_takes :: "ctx_owner \<Rightarrow> life \<Rightarrow> life" where
  "ctx_takes C L =
     (case co_recovered C of
        None \<Rightarrow> L
      | Some m \<Rightarrow>
          L\<lparr>l_contexts := add_mset (C\<lparr>co_recovered := None\<rparr>) (l_contexts L - {#C#}),
            l_messages := add_mset m (l_messages L)\<rparr>)"

section \<open>Programs\<close>

definition fresh :: "resource \<Rightarrow> life \<Rightarrow> bool" where
  "fresh r L \<longleftrightarrow> \<not> is_live r (l_acts L)"

text \<open>
  What a program of safe Rust can do, one step at a time; \<open>lives rt n L\<close>: \<open>L\<close> is reachable and
  \<open>n\<close> of the constructor calls panicked.  What NNG and the allocator hand out is not in use.  The
  borrow checker keeps the socket alive while a context borrows it.
\<close>

inductive lives :: "runtime \<Rightarrow> nat \<Rightarrow> life \<Rightarrow> bool" for rt where
  start: "lives rt 0 life_start"
| create: "\<lbrakk>lives rt n L; fresh (NngSocket s) L; fresh (NotifyBox b) L;
     case ptr of None \<Rightarrow> True | Some a \<Rightarrow> fresh (NngAio a) L;
     socket_create errno s b rv ptr L = (r, L')\<rbrakk>
     \<Longrightarrow> lives rt (if returns r then n else Suc n) L'"
| open_context: "\<lbrakk>lives rt n L; S \<in># l_sockets L; fresh (NngCtx c) L; fresh (NotifyBox b) L;
     case ptr of None \<Rightarrow> True | Some a \<Rightarrow> fresh (NngAio a) L;
     socket_context_open rt (so_socket S) errno c b rv ptr L = (r, L')\<rbrakk>
     \<Longrightarrow> lives rt (if returns r then n else Suc n) L'"
| drop_context: "\<lbrakk>lives rt n L; C \<in># l_contexts L\<rbrakk> \<Longrightarrow> lives rt n (snd (contextful_dropped rt C L))"
| drop_socket: "\<lbrakk>lives rt n L; S \<in># l_sockets L; so_socket S \<notin># image_mset co_socket (l_contexts L)\<rbrakk>
     \<Longrightarrow> lives rt n (snd (socket_dropped rt S L))"
| message: "\<lbrakk>lives rt n L; fresh (NngMsg m) L\<rbrakk> \<Longrightarrow> lives rt n (message_from_raw m L)"
| send: "\<lbrakk>lives rt n L; m \<in># l_messages L\<rbrakk> \<Longrightarrow> lives rt n (message_into_ptr m L)"
| drop_message: "\<lbrakk>lives rt n L; m \<in># l_messages L\<rbrakk>
     \<Longrightarrow> lives rt n (snd (message_drop m (L\<lparr>l_messages := l_messages L - {#m#}\<rparr>)))"
| socket_recover: "\<lbrakk>lives rt n L; S \<in># l_sockets L; fresh (NngMsg m) L\<rbrakk>
     \<Longrightarrow> lives rt n (socket_recovers S m L)"
| ctx_recover: "\<lbrakk>lives rt n L; C \<in># l_contexts L; fresh (NngMsg m) L\<rbrakk>
     \<Longrightarrow> lives rt n (ctx_recovers C m L)"
| socket_take: "\<lbrakk>lives rt n L; S \<in># l_sockets L\<rbrakk> \<Longrightarrow> lives rt n (socket_takes S L)"
| ctx_take: "\<lbrakk>lives rt n L; C \<in># l_contexts L\<rbrakk> \<Longrightarrow> lives rt n (ctx_takes C L)"

text \<open>tokio's function runs its closure on a runtime of many threads; it may panic elsewhere.\<close>

definition blocks_in_place :: "runtime \<Rightarrow> bool" where
  "blocks_in_place rt \<longleftrightarrow>
     (try_current rt = Some MultiThread \<longrightarrow> (\<forall>f L. tokio_block_in_place rt f L = (Inr (), f L)))"

section \<open>Ledgers in order\<close>

lemma is_live_simps [simp]:
  "\<not> is_live r []"
  "is_live r (Gain q p # l) \<longleftrightarrow> r = q \<or> is_live r l"
  "is_live r (Release q # l) \<longleftrightarrow> r \<noteq> q \<and> is_live r l"
  "is_live r (Give q # l) \<longleftrightarrow> r \<noteq> q \<and> is_live r l"
  by (auto simp: is_live_def)

lemma filter_kept:
  "filter_mset (\<lambda>x. fst x = r) (filter_mset (\<lambda>x. fst x \<noteq> q) X)
     = (if r = q then {#} else filter_mset (\<lambda>x. fst x = r) X)"
  by (induction X) auto

lemma live_once:
  "in_order l \<Longrightarrow> size (filter_mset (\<lambda>x. fst x = r) (live l)) = (if is_live r l then 1 else 0)"
proof (induction l)
  case (Cons a l)
  then show ?case by (cases a) (auto simp: filter_kept split: if_splits)
qed simp

lemma live_distinct:
  assumes "in_order l" and "live l = add_mset (r, p) X"
  shows "is_live r l" and "r \<notin># image_mset fst X"
proof -
  show live: "is_live r l" using assms(2) by (simp add: is_live_def)
  have "size (filter_mset (\<lambda>x. fst x = r) X) = 0"
    using live_once [OF assms(1), of r] live assms(2) by simp
  then have "x \<in># X \<Longrightarrow> fst x \<noteq> r" for x
    by (metis (mono_tags, lifting) size_eq_0_iff_empty filter_mset_eq_conv empty_iff set_mset_empty mem_Collect_eq set_mset_filter)
  then show "r \<notin># image_mset fst X" by auto
qed

lemma filter_others: "r \<notin># image_mset fst X \<Longrightarrow> filter_mset (\<lambda>x. fst x \<noteq> r) X = X"
  by (induction X) auto

text \<open>Giving back a resource that nothing holds on to: the one step every drop consists of.\<close>

lemma given_back:
  assumes "in_order l" and "live l = add_mset (r, p) X" and "Some r \<notin># image_mset snd X"
    and "p \<noteq> Some r" and "a = Release r \<or> a = Give r"
  shows "in_order (a # l)" and "live (a # l) = X"
proof -
  have "is_live r l" "\<not> is_held r l" "filter_mset (\<lambda>x. fst x \<noteq> r) (live l) = X"
    using live_distinct [OF assms(1,2)] assms(2-4) by (auto simp: is_held_def filter_others)
  then show "in_order (a # l)" "live (a # l) = X" using assms(1,5) by auto
qed

lemma counts:
  "in_order l \<Longrightarrow> gains r l = returns_of r l + (if is_live r l then 1 else 0)"
proof (induction l)
  case (Cons a l)
  then show ?case by (cases a) (auto simp: gains_def returns_of_def)
qed (simp add: gains_def returns_of_def)

section \<open>What the owners own\<close>

definition aio_owns :: "aio_owner \<Rightarrow> (resource \<times> resource option) multiset" where
  "aio_owns a = {#(NngAio (ao_aio a), Some (NotifyBox (ao_notify a))), (NotifyBox (ao_notify a), None)#}"

definition message_owns :: "nat \<Rightarrow> (resource \<times> resource option)" where
  "message_owns m = (NngMsg m, None)"

definition option_owns :: "nat option \<Rightarrow> (resource \<times> resource option) multiset" where
  "option_owns msg = (case msg of None \<Rightarrow> {#} | Some m \<Rightarrow> {#message_owns m#})"

definition socket_owns :: "socket_owner \<Rightarrow> (resource \<times> resource option) multiset" where
  "socket_owns S = add_mset (NngSocket (so_socket S), None) (aio_owns (so_aio S) + option_owns (so_recovered S))"

definition ctx_owns :: "ctx_owner \<Rightarrow> (resource \<times> resource option) multiset" where
  "ctx_owns C = aio_owns (co_aio C)
     + add_mset (NngCtx (co_context C), Some (NngSocket (co_socket C))) (option_owns (co_recovered C))"

definition owned :: "life \<Rightarrow> (resource \<times> resource option) multiset" where
  "owned L = sum_mset (image_mset socket_owns (l_sockets L))
     + sum_mset (image_mset ctx_owns (l_contexts L)) + image_mset message_owns (l_messages L)"

text \<open>What a panic of a constructor leaves behind: boxes and bare sockets.\<close>

definition leakable :: "resource \<times> resource option \<Rightarrow> bool" where
  "leakable x \<longleftrightarrow> snd x = None \<and> (\<exists>k. fst x = NotifyBox k \<or> fst x = NngSocket k)"

text \<open>Only AIOs hold on to boxes, and they come with them; only contexts hold on to sockets.\<close>

definition tidy :: "(resource \<times> resource option) multiset \<Rightarrow> bool" where
  "tidy X \<longleftrightarrow> (\<forall>x \<in># X. case snd x of
       None \<Rightarrow> True
     | Some (NotifyBox b) \<Rightarrow> (NotifyBox b, None) \<in># X
     | Some (NngSocket s) \<Rightarrow> (\<exists>c. fst x = NngCtx c)
     | _ \<Rightarrow> False)"

lemma tidyD:
  assumes "tidy X" and "(r, Some q) \<in># X"
  shows "(\<exists>b. q = NotifyBox b \<and> (NotifyBox b, None) \<in># X) \<or> (\<exists>s c. q = NngSocket s \<and> r = NngCtx c)"
  using bspec [OF assms(1) [unfolded tidy_def] assms(2)] by (cases q) auto

lemma tidy_add: "\<lbrakk>tidy X; tidy Y\<rbrakk> \<Longrightarrow> tidy (X + Y)"
  unfolding tidy_def by (fastforce split: option.splits resource.splits)

lemma tidy_sum: "(\<And>x. x \<in># M \<Longrightarrow> tidy (f x)) \<Longrightarrow> tidy (sum_mset (image_mset f M))"
  by (induction M) (auto simp: tidy_add, simp add: tidy_def)

lemma tidy_parts [simp]:
  "tidy (aio_owns a)" "tidy (option_owns msg)" "tidy (socket_owns S)" "tidy (ctx_owns C)"
  "tidy (image_mset message_owns M)"
  by (auto simp: tidy_def aio_owns_def option_owns_def socket_owns_def ctx_owns_def message_owns_def
      split: option.splits)

lemma tidy_add_ctx: "tidy X \<Longrightarrow> tidy (add_mset (NngCtx c, Some (NngSocket s)) X)"
  using tidy_add [of "{#(NngCtx c, Some (NngSocket s))#}" X] by (simp add: tidy_def)

lemma tidy_add_root: "tidy X \<Longrightarrow> tidy (add_mset (r, None) X)"
  using tidy_add [of "{#(r, None)#}" X] by (simp add: tidy_def)

lemma tidy_leak: "\<forall>x \<in># X. leakable x \<Longrightarrow> tidy X"
  by (auto simp: tidy_def leakable_def)

lemma tidy_owned: "tidy (owned L)"
  unfolding owned_def by (intro tidy_add tidy_sum tidy_parts)

text \<open>The invariant: the ledger is in order, and what is live is owned or leaked.\<close>

definition life_inv :: "(resource \<times> resource option) multiset \<Rightarrow> life \<Rightarrow> bool" where
  "life_inv lk L \<longleftrightarrow> in_order (l_acts L) \<and> live (l_acts L) = owned L + lk \<and> (\<forall>x \<in># lk. leakable x)"

text \<open>A list of things to give back, checked against what stays: the drops, as data.\<close>

lemma drop_aio:
  assumes "in_order l" and "live l = aio_owns a + X" and "tidy X"
  shows "in_order (Release (NotifyBox (ao_notify a)) # Release (NngAio (ao_aio a)) # l)"
    and "live (Release (NotifyBox (ao_notify a)) # Release (NngAio (ao_aio a)) # l) = X"
proof -
  let ?box = "NotifyBox (ao_notify a)" and ?aio = "NngAio (ao_aio a)"
  have l: "live l = add_mset (?aio, Some ?box) (add_mset (?box, None) X)"
    using assms(2) by (simp add: aio_owns_def)
  have "Some ?aio \<notin># image_mset snd (add_mset (?box, None) X)"
    using tidyD [OF assms(3)] by fastforce
  note 1 = given_back [OF assms(1) l this, of "Release ?aio"]
  have in1: "in_order (Release ?aio # l)" and l1: "live (Release ?aio # l) = add_mset (?box, None) X"
    using 1 by simp_all
  have "(?box, None) \<notin># X" using live_distinct(2) [OF in1 l1] by force
  then have "Some ?box \<notin># image_mset snd X"
    using tidyD [OF assms(3)] by fastforce
  from given_back [OF in1 l1 this, of "Release ?box"]
  show "in_order (Release ?box # Release ?aio # l)" "live (Release ?box # Release ?aio # l) = X"
    by simp_all
qed

lemma drop_one:
  assumes "in_order l" and "live l = add_mset (r, p) X" and "tidy X" and "p \<noteq> Some r"
    and "\<And>b. r \<noteq> NotifyBox b" and "\<And>s. r = NngSocket s \<Longrightarrow> Some r \<notin># image_mset snd X"
    and "a = Release r \<or> a = Give r"
  shows "in_order (a # l)" and "live (a # l) = X"
proof -
  have "Some r \<notin># image_mset snd X"
    using tidyD [OF assms(3)] assms(5,6) by (cases r) fastforce+
  from given_back [OF assms(1,2) this assms(4,7)] show "in_order (a # l)" "live (a # l) = X" .
qed

lemma drop_option:
  assumes "in_order l" and "live l = option_owns msg + X" and "tidy X"
  shows "in_order (map (Release \<circ> NngMsg) (opt_list msg) @ l)"
    and "live (map (Release \<circ> NngMsg) (opt_list msg) @ l) = X"
  using assms drop_one [of l "NngMsg (the msg)" None X "Release (NngMsg (the msg))"]
  by (cases msg; simp add: option_owns_def message_owns_def)+

section \<open>The drops, as entries of the ledger\<close>

lemma enter_simps [simp]:
  "l_acts (enter a L) = a # l_acts L" "l_sockets (enter a L) = l_sockets L"
  "l_contexts (enter a L) = l_contexts L" "l_messages (enter a L) = l_messages L"
  by (simp_all add: enter_def)

lemma owned_enter [simp]: "owned (enter a L) = owned L"
  by (simp add: owned_def)

lemma owned_acts [simp]: "owned (l_acts_update f L) = owned L"
  by (simp add: owned_def)

lemma owned_enter_update [simp]:
  "owned (enter a L\<lparr>l_sockets := M\<rparr>) = owned (L\<lparr>l_sockets := M\<rparr>)"
  "owned (enter a L\<lparr>l_contexts := N\<rparr>) = owned (L\<lparr>l_contexts := N\<rparr>)"
  "owned (enter a L\<lparr>l_messages := K\<rparr>) = owned (L\<lparr>l_messages := K\<rparr>)"
  by (simp_all add: owned_def)

lemma owned_same [simp]:
  "owned (L\<lparr>l_sockets := l_sockets L\<rparr>) = owned L"
  "owned (L\<lparr>l_contexts := l_contexts L\<rparr>) = owned L"
  "owned (L\<lparr>l_messages := l_messages L\<rparr>) = owned L"
  by simp_all

lemma block_in_place_runs:
  "blocks_in_place rt \<Longrightarrow> block_in_place rt f L = (Inr (), f L)"
  by (auto simp: block_in_place_def blocks_in_place_def split: option.split)

lemma option_drop_acts:
  "option_drop msg L = (Inr (), l_acts_update (\<lambda>l. map (Release \<circ> NngMsg) (opt_list msg) @ l) L)"
  by (cases msg) (simp_all add: option_drop_def message_drop_def enter_def)

lemma aio_drop_acts:
  "blocks_in_place rt \<Longrightarrow> aio_drop rt a L
     = (Inr (), l_acts_update (\<lambda>l. Release (NotifyBox (ao_notify a)) # Release (NngAio (ao_aio a)) # l) L)"
  by (simp add: aio_drop_def block_in_place_runs enter_def)

lemma context_dropped_acts:
  "blocks_in_place rt \<Longrightarrow> context_dropped rt c msg L
     = (Inr (), l_acts_update (\<lambda>l. map (Release \<circ> NngMsg) (opt_list msg) @ Release (NngCtx c) # l) L)"
  by (simp add: context_dropped_def then_drop_def block_in_place_runs option_drop_acts enter_def)

lemma contextful_dropped_acts:
  "blocks_in_place rt \<Longrightarrow> contextful_dropped rt C L
     = (Inr (), L\<lparr>l_contexts := l_contexts L - {#C#},
          l_acts := map (Release \<circ> NngMsg) (opt_list (co_recovered C)) @ Release (NngCtx (co_context C))
            # Release (NotifyBox (ao_notify (co_aio C))) # Release (NngAio (ao_aio (co_aio C))) # l_acts L\<rparr>)"
  by (simp add: contextful_dropped_def then_drop_def aio_drop_acts context_dropped_acts)

lemma socket_dropped_acts:
  "blocks_in_place rt \<Longrightarrow> socket_dropped rt S L
     = (Inr (), L\<lparr>l_sockets := l_sockets L - {#S#},
          l_acts := map (Release \<circ> NngMsg) (opt_list (so_recovered S))
            @ Release (NotifyBox (ao_notify (so_aio S))) # Release (NngAio (ao_aio (so_aio S)))
            # Release (NngSocket (so_socket S)) # l_acts L\<rparr>)"
  by (simp add: socket_dropped_def then_drop_def aio_drop_acts block_in_place_runs option_drop_acts
      enter_def)

section \<open>Every step keeps the books\<close>

lemma owned_without:
  "S \<in># l_sockets L \<Longrightarrow> owned L = socket_owns S + owned (L\<lparr>l_sockets := l_sockets L - {#S#}\<rparr>)"
  "C \<in># l_contexts L \<Longrightarrow> owned L = ctx_owns C + owned (L\<lparr>l_contexts := l_contexts L - {#C#}\<rparr>)"
  "m \<in># l_messages L \<Longrightarrow> owned L = add_mset (message_owns m) (owned (L\<lparr>l_messages := l_messages L - {#m#}\<rparr>))"
  by (auto simp: owned_def dest!: multi_member_split)

lemma owned_with:
  "owned (L\<lparr>l_sockets := add_mset S M\<rparr>) = socket_owns S + owned (L\<lparr>l_sockets := M\<rparr>)"
  "owned (L\<lparr>l_contexts := add_mset C N\<rparr>) = ctx_owns C + owned (L\<lparr>l_contexts := N\<rparr>)"
  "owned (L\<lparr>l_messages := add_mset m K\<rparr>) = add_mset (message_owns m) (owned (L\<lparr>l_messages := K\<rparr>))"
  by (simp_all add: owned_def ac_simps)

lemma held_by_context:
  assumes "(r, Some (NngSocket s)) \<in># owned L"
  shows "s \<in># image_mset co_socket (l_contexts L)"
  using assms
  by (fastforce simp: owned_def socket_owns_def ctx_owns_def aio_owns_def option_owns_def
      message_owns_def split: option.splits)

lemma inv_tidy: "life_inv lk L \<Longrightarrow> tidy (owned L' + lk)"
  by (simp add: life_inv_def tidy_add tidy_owned tidy_leak)

lemma inv_drop_context:
  assumes rt: "blocks_in_place rt" and inv: "life_inv lk L" and C: "C \<in># l_contexts L"
  shows "life_inv lk (snd (contextful_dropped rt C L))"
proof -
  let ?R = "owned (L\<lparr>l_contexts := l_contexts L - {#C#}\<rparr>) + lk"
    and ?l1 = "Release (NotifyBox (ao_notify (co_aio C))) # Release (NngAio (ao_aio (co_aio C))) # l_acts L"
    and ?ctx = "(NngCtx (co_context C), Some (NngSocket (co_socket C)))"
  have t: "tidy ?R" by (rule inv_tidy [OF inv])
  have t2: "tidy (option_owns (co_recovered C) + ?R)" by (simp add: t tidy_add)
  have t3: "tidy (add_mset ?ctx (option_owns (co_recovered C) + ?R))"
    using t2 by (rule tidy_add_ctx)
  have l: "live (l_acts L) = aio_owns (co_aio C) + add_mset ?ctx (option_owns (co_recovered C) + ?R)"
    using inv by (simp add: life_inv_def owned_without(2) [OF C] ctx_owns_def)
  have i: "in_order (l_acts L)" using inv by (simp add: life_inv_def)
  note 1 = drop_aio [OF i l t3]
  have 2: "in_order (Release (NngCtx (co_context C)) # ?l1)"
    "live (Release (NngCtx (co_context C)) # ?l1) = option_owns (co_recovered C) + ?R"
    using drop_one [OF 1 t2, of "Release (NngCtx (co_context C))"] by simp_all
  show ?thesis
    using drop_option [OF 2 t] inv by (simp add: life_inv_def contextful_dropped_acts [OF rt])
qed

lemma inv_drop_socket:
  assumes rt: "blocks_in_place rt" and inv: "life_inv lk L" and S: "S \<in># l_sockets L"
    and free: "so_socket S \<notin># image_mset co_socket (l_contexts L)"
  shows "life_inv lk (snd (socket_dropped rt S L))"
proof -
  let ?L = "L\<lparr>l_sockets := l_sockets L - {#S#}\<rparr>"
  let ?R = "owned ?L + lk" and ?sock = "NngSocket (so_socket S)"
  let ?X = "aio_owns (so_aio S) + (option_owns (so_recovered S) + ?R)"
    and ?l1 = "Release ?sock # l_acts L"
  have t: "tidy ?R" by (rule inv_tidy [OF inv])
  have t2: "tidy (option_owns (so_recovered S) + ?R)" by (simp add: t tidy_add)
  have t3: "tidy ?X" by (simp only: t2 tidy_add tidy_parts)
  have l: "live (l_acts L) = add_mset (?sock, None) ?X"
    using inv by (simp add: life_inv_def owned_without(1) [OF S] socket_owns_def)
  have "(r, Some ?sock) \<notin># ?X" for r
    using held_by_context [of r "so_socket S" ?L] free inv
    by (auto simp: aio_owns_def option_owns_def message_owns_def life_inv_def leakable_def
        split: option.splits)
  then have "Some ?sock \<notin># image_mset snd ?X" by auto
  then have 1: "in_order ?l1" "live ?l1 = ?X"
    using drop_one [OF _ l t3, of "Release ?sock"] inv by (simp_all add: life_inv_def)
  show ?thesis
    using drop_option [OF drop_aio [OF 1 t2] t] inv
    by (simp add: life_inv_def socket_dropped_acts [OF rt])
qed

text \<open>The constructors: on success the new owner owns what was gained, on a panic it is leaked.\<close>

lemma gain_live:
  "\<lbrakk>in_order l; \<not> is_live r l; case p of None \<Rightarrow> True | Some q \<Rightarrow> q \<noteq> r \<and> is_live q l\<rbrakk>
     \<Longrightarrow> in_order (Gain r p # l) \<and> live (Gain r p # l) = add_mset (r, p) (live l)"
  by simp

lemma aio_create_cases:
  assumes "aio_create b rv ptr L = (r, L')"
  obtains (made) a where "ptr = Some a" and "r = Inr \<lparr>ao_aio = a, ao_notify = b\<rparr>"
      and "L' = enter (Gain (NngAio a) (Some (NotifyBox b))) (enter (Gain (NotifyBox b) None) L)"
    | (panicked) p where "r = Inl p" and "L' = enter (Gain (NotifyBox b) None) L"
  using assms
  by (auto simp: aio_create_def aio_alloc_def new_inner_def split: if_splits option.splits)

lemma inv_create:
  assumes inv: "life_inv lk L" and new: "fresh (NngSocket s) L" "fresh (NotifyBox b) L"
    "case ptr of None \<Rightarrow> True | Some a \<Rightarrow> fresh (NngAio a) L"
    and run: "socket_create errno s b rv ptr L = (r, L')"
  shows "\<exists>lk'. life_inv (lk + lk') L' \<and> size lk' \<le> (if returns r then 0 else 2)"
proof -
  let ?L = "enter (Gain (NngSocket s) None) L"
  consider (same) "L' = L" "\<not> returns r"
    | (opened) ra La where "aio_create b rv ptr ?L = (ra, La)"
        and "(r, L') = (case ra of Inl p \<Rightarrow> (Inl p, La) | Inr a \<Rightarrow>
              (Inr \<lparr>so_socket = s, so_aio = a, so_recovered = None\<rparr>,
               La\<lparr>l_sockets := add_mset \<lparr>so_socket = s, so_aio = a, so_recovered = None\<rparr> (l_sockets La)\<rparr>))"
    using run unfolding socket_create_def
    by (auto simp: Let_def split: sum.splits if_splits prod.splits)
  then show ?thesis
  proof cases
    case same
    then show ?thesis using inv by (intro exI [of _ "{#}"]) simp
  next
    case opened
    from opened(1) show ?thesis
    proof (cases rule: aio_create_cases)
      case (made a)
      then show ?thesis using inv new opened(2)
        by (intro exI [of _ "{#}"])
          (simp add: life_inv_def fresh_def owned_with socket_owns_def aio_owns_def option_owns_def)
    next
      case (panicked p)
      then show ?thesis using inv new opened(2)
        by (intro exI [of _ "{#(NotifyBox b, None), (NngSocket s, None)#}"])
          (auto simp: life_inv_def fresh_def leakable_def)
    qed
  qed
qed

lemma inv_live_socket: "\<lbrakk>life_inv lk L; S \<in># l_sockets L\<rbrakk> \<Longrightarrow> is_live (NngSocket (so_socket S)) (l_acts L)"
  by (auto simp: life_inv_def is_live_def owned_without(1) socket_owns_def)

lemma inv_context:
  assumes rt: "blocks_in_place rt" and inv: "life_inv lk L" and S: "S \<in># l_sockets L"
    and new: "fresh (NngCtx c) L" "fresh (NotifyBox b) L"
    "case ptr of None \<Rightarrow> True | Some a \<Rightarrow> fresh (NngAio a) L"
    and run: "socket_context_open rt (so_socket S) errno c b rv ptr L = (r, L')"
  shows "\<exists>lk'. life_inv (lk + lk') L' \<and> size lk' \<le> (if returns r then 0 else 2)"
proof -
  let ?s = "so_socket S"
  let ?L = "enter (Gain (NngCtx c) (Some (NngSocket ?s))) L"
  have s: "is_live (NngSocket ?s) (l_acts L)" by (rule inv_live_socket [OF inv S])
  consider (same) "L' = L" "\<not> returns r"
    | (opened) ra La where "aio_create b rv ptr ?L = (ra, La)"
        and "(r, L') = (case ra of Inl p \<Rightarrow> (Inl p, snd (context_dropped rt c None La)) | Inr a \<Rightarrow>
              (Inr \<lparr>co_aio = a, co_context = c, co_recovered = None, co_socket = ?s\<rparr>,
               La\<lparr>l_contexts := add_mset \<lparr>co_aio = a, co_context = c, co_recovered = None, co_socket = ?s\<rparr>
                    (l_contexts La)\<rparr>))"
    using run unfolding socket_context_open_def
    by (auto simp: Let_def split: sum.splits if_splits prod.splits)
  then show ?thesis
  proof cases
    case same
    then show ?thesis using inv by (intro exI [of _ "{#}"]) simp
  next
    case opened
    from opened(1) show ?thesis
    proof (cases rule: aio_create_cases)
      case (made a)
      then show ?thesis using inv new s opened(2)
        by (intro exI [of _ "{#}"])
          (simp add: life_inv_def fresh_def owned_with ctx_owns_def aio_owns_def option_owns_def)
    next
      case (panicked p)
      let ?l = "Gain (NotifyBox b) None # Gain (NngCtx c) (Some (NngSocket ?s)) # l_acts L"
      let ?X = "add_mset (NotifyBox b, None) (owned L + lk)"
      have l: "in_order ?l" "live ?l = add_mset (NngCtx c, Some (NngSocket ?s)) ?X"
        using inv new s by (simp_all add: life_inv_def fresh_def)
      have "tidy ?X" by (intro tidy_add_root inv_tidy [OF inv])
      from drop_one [OF l this, of "Release (NngCtx c)"]
      show ?thesis using panicked inv opened(2) context_dropped_acts [OF rt]
        by (intro exI [of _ "{#(NotifyBox b, None)#}"]) (auto simp: life_inv_def leakable_def)
    qed
  qed
qed

text \<open>Messages.\<close>

lemma inv_message:
  "\<lbrakk>life_inv lk L; fresh (NngMsg m) L\<rbrakk> \<Longrightarrow> life_inv lk (message_from_raw m L)"
  by (simp add: life_inv_def message_from_raw_def fresh_def owned_with message_owns_def)

lemma inv_message_gone:
  assumes "life_inv lk L" and "m \<in># l_messages L"
    and "L' = enter a (L\<lparr>l_messages := l_messages L - {#m#}\<rparr>)"
    and "a = Release (NngMsg m) \<or> a = Give (NngMsg m)"
  shows "life_inv lk L'"
proof -
  let ?R = "owned (L\<lparr>l_messages := l_messages L - {#m#}\<rparr>) + lk"
  have i: "in_order (l_acts L)" and l: "live (l_acts L) = add_mset (NngMsg m, None) ?R"
    using assms(1) by (simp_all add: life_inv_def owned_without(3) [OF assms(2)] message_owns_def)
  show ?thesis
    using drop_one [OF i l inv_tidy [OF assms(1)], of a] assms by (auto simp: life_inv_def)
qed

text \<open>A recovered message replaces the one before.\<close>

lemma inv_replace:
  assumes "in_order l" and "live l = option_owns old + X" and "tidy X" and "\<not> is_live (NngMsg m) l"
  shows "in_order (map (Release \<circ> NngMsg) (opt_list old) @ Gain (NngMsg m) None # l)"
    and "live (map (Release \<circ> NngMsg) (opt_list old) @ Gain (NngMsg m) None # l)
      = add_mset (NngMsg m, None) X"
proof -
  have "in_order (Gain (NngMsg m) None # l)"
    "live (Gain (NngMsg m) None # l) = option_owns old + add_mset (NngMsg m, None) X"
    using assms by simp_all
  moreover have "tidy (add_mset (NngMsg m, None) X)" using assms(3) by (rule tidy_add_root)
  ultimately show "in_order (map (Release \<circ> NngMsg) (opt_list old) @ Gain (NngMsg m) None # l)"
    "live (map (Release \<circ> NngMsg) (opt_list old) @ Gain (NngMsg m) None # l)
      = add_mset (NngMsg m, None) X"
    by (rule drop_option)+
qed

lemma inv_socket_recovers:
  assumes inv: "life_inv lk L" and S: "S \<in># l_sockets L" and new: "fresh (NngMsg m) L"
  shows "life_inv lk (socket_recovers S m L)"
proof -
  let ?X = "add_mset (NngSocket (so_socket S), None)
    (aio_owns (so_aio S) + (owned (L\<lparr>l_sockets := l_sockets L - {#S#}\<rparr>) + lk))"
  have "live (l_acts L) = option_owns (so_recovered S) + ?X"
    using inv by (simp add: life_inv_def owned_without(1) [OF S] socket_owns_def)
  moreover have "tidy ?X"
    by (intro tidy_add_root tidy_add tidy_parts inv_tidy [OF inv])
  ultimately show ?thesis
    using inv_replace [of "l_acts L" "so_recovered S" ?X m] inv new
    by (simp add: life_inv_def socket_recovers_def option_drop_acts fresh_def owned_with
        socket_owns_def option_owns_def message_owns_def)
qed

lemma inv_ctx_recovers:
  assumes inv: "life_inv lk L" and C: "C \<in># l_contexts L" and new: "fresh (NngMsg m) L"
  shows "life_inv lk (ctx_recovers C m L)"
proof -
  let ?X = "add_mset (NngCtx (co_context C), Some (NngSocket (co_socket C)))
    (aio_owns (co_aio C) + (owned (L\<lparr>l_contexts := l_contexts L - {#C#}\<rparr>) + lk))"
  have "live (l_acts L) = option_owns (co_recovered C) + ?X"
    using inv by (simp add: life_inv_def owned_without(2) [OF C] ctx_owns_def)
  moreover have "tidy ?X"
    by (intro tidy_add_ctx tidy_add tidy_parts inv_tidy [OF inv])
  ultimately show ?thesis
    using inv_replace [of "l_acts L" "co_recovered C" ?X m] inv new
    by (simp add: life_inv_def ctx_recovers_def option_drop_acts fresh_def owned_with
        ctx_owns_def option_owns_def message_owns_def)
qed

lemma inv_takes:
  assumes "life_inv lk L"
  shows "S \<in># l_sockets L \<Longrightarrow> life_inv lk (socket_takes S L)"
    and "C \<in># l_contexts L \<Longrightarrow> life_inv lk (ctx_takes C L)"
  using assms
  by (auto simp: life_inv_def socket_takes_def ctx_takes_def owned_def socket_owns_def ctx_owns_def
      option_owns_def split: option.split dest!: multi_member_split)

lemma inv_start: "life_inv {#} life_start"
  by (simp add: life_inv_def life_start_def owned_def)

lemma lives_inv:
  assumes "blocks_in_place rt" and "lives rt n L"
  shows "\<exists>lk. life_inv lk L \<and> size lk \<le> 2 * n"
  using assms(2)
proof (induction rule: lives.induct)
  case start
  then show ?case using inv_start by force
next
  case (create n L s b ptr errno rv r L')
  then obtain lk lk' where "life_inv (lk + lk') L'" "size lk \<le> 2 * n"
    "size lk' \<le> (if returns r then 0 else 2)"
    using inv_create by metis
  then show ?case by (intro exI [of _ "lk + lk'"]) auto
next
  case (open_context n L S c b ptr errno rv r L')
  then obtain lk lk' where "life_inv (lk + lk') L'" "size lk \<le> 2 * n"
    "size lk' \<le> (if returns r then 0 else 2)"
    using inv_context [OF assms(1)] by metis
  then show ?case by (intro exI [of _ "lk + lk'"]) auto
next
  case (send n L m)
  then show ?case using inv_message_gone [of _ L m "message_into_ptr m L" "Give (NngMsg m)"]
    by (auto simp: message_into_ptr_def)
next
  case (drop_message n L m)
  then show ?case
    using inv_message_gone [of _ L m "snd (message_drop m (L\<lparr>l_messages := l_messages L - {#m#}\<rparr>))"
        "Release (NngMsg m)"]
    by (auto simp: message_drop_def)
next
  case (drop_context n L C)
  then show ?case using inv_drop_context [OF assms(1)] by metis
next
  case (drop_socket n L S)
  then show ?case using inv_drop_socket [OF assms(1)] by metis
next
  case (message n L m)
  then show ?case using inv_message by metis
next
  case (socket_recover n L S m)
  then show ?case using inv_socket_recovers by metis
next
  case (ctx_recover n L C m)
  then show ?case using inv_ctx_recovers by metis
next
  case (socket_take n L S)
  then show ?case using inv_takes(1) by metis
next
  case (ctx_take n L C)
  then show ?case using inv_takes(2) by metis
qed

section \<open>The property\<close>

text \<open>C7.  Whatever a program does with sockets, contexts and messages, nothing NNG or the allocator
  hands out is used up twice, freed before what holds on to it, or lost: the calls are in order, each
  resource was given back as often as it was allocated (once less while it is live), and what is live
  is exactly what the program's values own, plus at most two resources for every constructor call that
  panicked.  A program without such panics that has dropped everything has freed everything.\<close>

theorem resources_freed_once:
  assumes "blocks_in_place rt" and "lives rt n L"
  shows "in_order (l_acts L)
    \<and> (\<forall>r. gains r (l_acts L) = returns_of r (l_acts L) + (if is_live r (l_acts L) then 1 else 0))
    \<and> (\<exists>lk. live (l_acts L) = owned L + lk \<and> size lk \<le> 2 * n \<and> (\<forall>x \<in># lk. leakable x))"
  using lives_inv [OF assms] counts by (auto simp: life_inv_def)

text \<open>A socket and a context on it, dropped in the order the borrow checker asks for, on a runtime
  of many threads.\<close>

definition sample_runtime :: runtime where
  "sample_runtime = \<lparr>tokio_feature = True, try_current = Some MultiThread,
     tokio_block_in_place = (\<lambda>f L. (Inr (), f L))\<rparr>"

definition sample_end :: life where
  "sample_end =
     (let rt = sample_runtime;
          L1 = snd (socket_create 0 5 1 NNG_OK (Some 2) life_start);
          L2 = snd (socket_context_open rt 5 0 6 3 NNG_OK (Some 4) L1);
          L3 = snd (contextful_dropped rt \<lparr>co_aio = \<lparr>ao_aio = 4, ao_notify = 3\<rparr>, co_context = 6,
                      co_recovered = None, co_socket = 5\<rparr> L2)
      in snd (socket_dropped rt \<lparr>so_socket = 5, so_aio = \<lparr>ao_aio = 2, ao_notify = 1\<rparr>,
                so_recovered = None\<rparr> L3))"

lemma sample_blocks: "blocks_in_place sample_runtime"
  by (simp add: blocks_in_place_def sample_runtime_def)

lemma new_inner_ok: "new_inner NNG_OK (Some a) = Inr a"
  by (simp add: new_inner_def)

lemma sample_acts:
  "l_acts sample_end = [Release (NotifyBox 1), Release (NngAio 2), Release (NngSocket 5),
     Release (NngCtx 6), Release (NotifyBox 3), Release (NngAio 4), Gain (NngAio 4) (Some (NotifyBox 3)),
     Gain (NotifyBox 3) None, Gain (NngCtx 6) (Some (NngSocket 5)), Gain (NngAio 2) (Some (NotifyBox 1)),
     Gain (NotifyBox 1) None, Gain (NngSocket 5) None]"
  by (simp add: sample_end_def socket_create_def socket_context_open_def errno_u32_def aio_create_def
      aio_alloc_def new_inner_ok contextful_dropped_acts [OF sample_blocks] enter_def Let_def
      socket_dropped_acts [OF sample_blocks] life_start_def)

lemma sample_lives: "lives sample_runtime 0 sample_end"
proof -
  let ?rt = sample_runtime
  note eval = socket_create_def socket_context_open_def errno_u32_def aio_create_def
    aio_alloc_def new_inner_ok enter_def life_start_def fresh_def Let_def
  let ?S = "\<lparr>so_socket = 5, so_aio = \<lparr>ao_aio = 2, ao_notify = 1\<rparr>, so_recovered = None\<rparr>"
  let ?C = "\<lparr>co_aio = \<lparr>ao_aio = 4, ao_notify = 3\<rparr>, co_context = 6, co_recovered = None, co_socket = 5\<rparr>"
  let ?L1 = "snd (socket_create 0 5 1 NNG_OK (Some 2) life_start)"
  let ?L2 = "snd (socket_context_open ?rt 5 0 6 3 NNG_OK (Some 4) ?L1)"
  have 1: "lives ?rt 0 ?L1"
    using lives.create [OF lives.start, where s = 5 and b = 1 and ptr = "Some 2" and errno = 0
        and rv = NNG_OK, OF _ _ _ surjective_pairing]
    by (simp add: eval)
  have 2: "lives ?rt 0 ?L2"
    using lives.open_context [OF 1, where S = ?S and c = 6 and b = 3 and ptr = "Some 4" and errno = 0
        and rv = NNG_OK, OF _ _ _ _ surjective_pairing]
    by (simp add: eval)
  have 3: "lives ?rt 0 (snd (contextful_dropped ?rt ?C ?L2))"
    by (rule lives.drop_context [OF 2]) (simp add: eval)
  show ?thesis
    unfolding sample_end_def Let_def
    by (rule lives.drop_socket [OF 3])
      (simp_all add: eval contextful_dropped_acts [OF sample_blocks])
qed

theorem resources_freed_once_witness:
  "in_order (l_acts sample_end) \<and> live (l_acts sample_end) = {#}
   \<and> gains (NngSocket 5) (l_acts sample_end) = 1 \<and> returns_of (NngSocket 5) (l_acts sample_end) = 1"
  using resources_freed_once [OF sample_blocks sample_lives]
  by (auto simp: sample_acts gains_def returns_of_def)

text \<open>The panic that leaks: NNG opened the socket and then has no memory for its AIO.\<close>

lemma oom_leaks_the_socket:
  "socket_create 0 s b (nng_err_value ENOMEM) ptr life_start
     = (Inl Oom, life_start\<lparr>l_acts := [Gain (NotifyBox b) None, Gain (NngSocket s) None]\<rparr>)"
  by (simp add: socket_create_def errno_u32_def aio_create_def aio_alloc_def new_inner_def enter_def
      life_start_def NNG_OK_def)

end
