(* ===== verification/NngGlue.thy ===== *)
theory NngGlue
  imports NngMessage NngAio NngHandles Lifecycle Options
begin

text \<open>
  The rest of \<^verbatim>\<open>nng\<close>: conversions into messages, the traits that let a message be used as a slice
  (nng/src/message.rs), the comparison traits of the handles (nng/src/ctx.rs, dialer.rs, listener.rs,
  pipe.rs, aio.rs), the asynchronous methods of sockets and contexts, and the functions that C calls,
  which abort the process instead of unwinding into it (nng/src/util.rs).
\<close>

section \<open>Messages from bytes\<close>

text \<open>\<open>From<&Vec<u8>>\<close>, and \<open>From<[u8; n]>\<close>, which a macro writes out for \<open>n\<close> up to 32; a longer array
  has no conversion.\<close>

definition nm_from_vec :: "'m msg_api \<Rightarrow> byte list \<Rightarrow> 'm run" where
  "nm_from_vec N s = nm_from_slice N s"

definition array_impls :: "nat list" where
  "array_impls = [0..<33]"

definition nm_from_array :: "'m msg_api \<Rightarrow> byte list \<Rightarrow> 'm run option" where
  "nm_from_array N s = (if length s \<in> set array_impls then Some (nm_from_slice N s) else None)"

text \<open>\<open>Extend<&u8>\<close> and \<open>FromIterator<&u8>\<close>; \<open>deref\<close> reads the byte behind a reference.\<close>

fun nm_extend_refs :: "'m msg_api \<Rightarrow> ('r \<Rightarrow> byte) \<Rightarrow> 'r list \<Rightarrow> 'm \<Rightarrow> 'm run" where
  "nm_extend_refs N deref [] m = Inr m"
| "nm_extend_refs N deref (r # rs) m = run_bind (nm_push_back N [deref r] m) (nm_extend_refs N deref rs)"

definition nm_from_refs :: "'m msg_api \<Rightarrow> ('r \<Rightarrow> byte) \<Rightarrow> nat \<Rightarrow> 'r list \<Rightarrow> 'm run" where
  "nm_from_refs N deref lower iter =
     run_bind (nm_with_capacity N lower) (nm_extend_refs N deref iter)"

fun nh_extend_refs :: "'m msg_api \<Rightarrow> ('r \<Rightarrow> byte) \<Rightarrow> 'r list \<Rightarrow> 'm \<Rightarrow> 'm run" where
  "nh_extend_refs N deref [] m = Inr m"
| "nh_extend_refs N deref (r # rs) m = run_bind (nh_push_back N [deref r] m) (nh_extend_refs N deref rs)"

lemma extend_refs:
  "nm_extend_refs N deref rs m = nm_extend N (map deref rs) m"
  "nh_extend_refs N deref rs m = nh_extend N (map deref rs) m"
  by (induction rs arbitrary: m; simp add: run_bind_def split: sum.split)+

lemma from_refs: "nm_from_refs N deref lower rs = nm_from_iter N lower (map deref rs)"
  by (simp add: nm_from_refs_def nm_from_iter_def extend_refs [abs_def])

text \<open>\<open>Deref\<close>, \<open>DerefMut\<close> (a store through the slice) and \<open>flush\<close>\<close>

definition nm_deref :: "'m msg_api \<Rightarrow> 'm \<Rightarrow> byte list" where
  "nm_deref N m = nm_as_slice N m"

definition nh_deref :: "'m msg_api \<Rightarrow> 'm \<Rightarrow> byte list" where
  "nh_deref N m = nh_as_slice N m"

definition nm_deref_mut :: "'m msg_api \<Rightarrow> nat \<Rightarrow> byte \<Rightarrow> 'm \<Rightarrow> 'm run" where
  "nm_deref_mut N i b m = nm_index_mut N i b m"

definition nh_deref_mut :: "'m msg_api \<Rightarrow> nat \<Rightarrow> byte \<Rightarrow> 'm \<Rightarrow> 'm run" where
  "nh_deref_mut N i b m = nh_index_mut N i b m"

definition nm_flush :: "'m \<Rightarrow> 'm \<times> (io_error + unit)" where
  "nm_flush m = (m, Inr ())"

definition nh_flush :: "'m \<Rightarrow> 'm \<times> (io_error + unit)" where
  "nh_flush m = (m, Inr ())"

text \<open>
  Ownership: \<open>from_ptr\<close> takes a message over from C, \<open>into_ptr\<close> forgets the wrapper, its drop frees.
\<close>

definition nm_from_ptr :: "nat \<Rightarrow> life \<Rightarrow> life" where
  "nm_from_ptr msgp L = enter (Gain (NngMsg msgp) None) (L\<lparr>l_messages := add_mset msgp (l_messages L)\<rparr>)"

definition nm_into_ptr :: "nat \<Rightarrow> life \<Rightarrow> nat \<times> life" where
  "nm_into_ptr msgp L =
     (msgp, enter (Give (NngMsg msgp)) (L\<lparr>l_messages := l_messages L - {#msgp#}\<rparr>))"

definition nm_dropped :: "nat \<Rightarrow> life \<Rightarrow> life" where
  "nm_dropped msgp L = enter (Release (NngMsg msgp)) (L\<lparr>l_messages := l_messages L - {#msgp#}\<rparr>)"

lemma nm_ownership:
  assumes "life_inv lk L"
  shows "fresh (NngMsg m) L \<Longrightarrow> life_inv lk (nm_from_ptr m L)"
    and "m \<in># l_messages L \<Longrightarrow> life_inv lk (snd (nm_into_ptr m L))"
    and "m \<in># l_messages L \<Longrightarrow> life_inv lk (nm_dropped m L)"
  using inv_message [OF assms, of m] inv_message_gone [OF assms, of m _ "Give (NngMsg m)"]
    inv_message_gone [OF assms, of m _ "Release (NngMsg m)"]
  by (simp_all add: nm_from_ptr_def nm_into_ptr_def nm_dropped_def message_from_raw_def)

text \<open>
  Every way to make a message from bytes makes the same one: an empty header and these bytes as the
  body, or the panic of \<open>expect\<close> when NNG has no memory.
\<close>

definition makes :: "'m msg_api \<Rightarrow> ('m \<Rightarrow> bool) \<Rightarrow> byte list \<Rightarrow> 'm run \<Rightarrow> bool" where
  "makes N V s r \<longleftrightarrow>
     r = Inl ExpectFailed \<or> (\<exists>m. r = Inr m \<and> V m \<and> nm_contents N m = ([], s))"

lemma conversions_agree:
  assumes "nng_msg N V"
  shows "makes N V s (nm_from_slice N s)" and "makes N V s (nm_from_vec N s)"
    and "length s \<le> 32 \<Longrightarrow> \<exists>r. nm_from_array N s = Some r \<and> makes N V s r"
    and "makes N V s (nm_from_iter N lower s)"
    and "map deref rs = s \<Longrightarrow> makes N V s (nm_from_refs N deref lower rs)"
  using nng_msg.nm_from_slice_spec [OF assms, of s] nng_msg.nm_from_iter_spec [OF assms, of _ s]
  by (auto simp: makes_def nm_from_vec_def nm_from_array_def array_impls_def from_refs)

section \<open>Comparing handles\<close>

text \<open>
  \<open>PartialEq\<close>, \<open>Ord\<close> (with \<open>partial_cmp = Some(cmp)\<close>) and \<open>Hash\<close> of contexts, dialers, listeners and
  pipes: each reads its own number function of NNG.
\<close>

definition ctx_eq :: "(u32 \<Rightarrow> c_int) \<Rightarrow> u32 \<Rightarrow> u32 \<Rightarrow> bool" where
  "ctx_eq ctx_id a b \<longleftrightarrow> ctx_id a = ctx_id b"

definition ctx_cmp :: "(u32 \<Rightarrow> c_int) \<Rightarrow> u32 \<Rightarrow> u32 \<Rightarrow> ordering" where
  "ctx_cmp ctx_id a b = (let us = ctx_id a; them = ctx_id b in int_cmp (sint us) (sint them))"

definition ctx_partial_cmp :: "(u32 \<Rightarrow> c_int) \<Rightarrow> u32 \<Rightarrow> u32 \<Rightarrow> ordering option" where
  "ctx_partial_cmp ctx_id a b = Some (ctx_cmp ctx_id a b)"

definition ctx_hash :: "(u32 \<Rightarrow> c_int) \<Rightarrow> (c_int \<Rightarrow> 'h \<Rightarrow> 'h) \<Rightarrow> u32 \<Rightarrow> 'h \<Rightarrow> 'h" where
  "ctx_hash ctx_id hash_int a st = hash_int (ctx_id a) st"

definition dialer_cmp :: "(u32 \<Rightarrow> c_int) \<Rightarrow> u32 \<Rightarrow> u32 \<Rightarrow> ordering" where
  "dialer_cmp dialer_id a b =
     (let us = dialer_id a; them = dialer_id b in int_cmp (sint us) (sint them))"

definition dialer_partial_cmp :: "(u32 \<Rightarrow> c_int) \<Rightarrow> u32 \<Rightarrow> u32 \<Rightarrow> ordering option" where
  "dialer_partial_cmp dialer_id a b = Some (dialer_cmp dialer_id a b)"

definition dialer_hash :: "(u32 \<Rightarrow> c_int) \<Rightarrow> (c_int \<Rightarrow> 'h \<Rightarrow> 'h) \<Rightarrow> u32 \<Rightarrow> 'h \<Rightarrow> 'h" where
  "dialer_hash dialer_id hash_int a st = hash_int (dialer_id a) st"

definition listener_eq :: "(u32 \<Rightarrow> c_int) \<Rightarrow> u32 \<Rightarrow> u32 \<Rightarrow> bool" where
  "listener_eq listener_id a b \<longleftrightarrow> listener_id a = listener_id b"

definition listener_cmp :: "(u32 \<Rightarrow> c_int) \<Rightarrow> u32 \<Rightarrow> u32 \<Rightarrow> ordering" where
  "listener_cmp listener_id a b =
     (let us = listener_id a; them = listener_id b in int_cmp (sint us) (sint them))"

definition listener_partial_cmp :: "(u32 \<Rightarrow> c_int) \<Rightarrow> u32 \<Rightarrow> u32 \<Rightarrow> ordering option" where
  "listener_partial_cmp listener_id a b = Some (listener_cmp listener_id a b)"

definition pipe_eq :: "(u32 \<Rightarrow> c_int) \<Rightarrow> u32 \<Rightarrow> u32 \<Rightarrow> bool" where
  "pipe_eq pipe_id a b \<longleftrightarrow> pipe_id a = pipe_id b"

definition pipe_partial_cmp :: "(u32 \<Rightarrow> c_int) \<Rightarrow> u32 \<Rightarrow> u32 \<Rightarrow> ordering option" where
  "pipe_partial_cmp pipe_id a b = Some (id_cmp pipe_id a b)"

definition pipe_hash :: "(u32 \<Rightarrow> c_int) \<Rightarrow> (c_int \<Rightarrow> 'h \<Rightarrow> 'h) \<Rightarrow> u32 \<Rightarrow> 'h \<Rightarrow> 'h" where
  "pipe_hash pipe_id hash_int a st = hash_int (pipe_id a) st"

definition sock_partial_cmp :: "(u32 \<Rightarrow> c_int) \<Rightarrow> 'cb inner \<Rightarrow> 'cb inner \<Rightarrow> ordering option" where
  "sock_partial_cmp socket_id a b = Some (sock_cmp socket_id a b)"

text \<open>An \<^verbatim>\<open>Aio\<close> is compared and hashed by its pointer.\<close>

definition naio_eq :: "nat \<Rightarrow> nat \<Rightarrow> bool" where
  "naio_eq us other \<longleftrightarrow> us = other"

definition naio_hash :: "(nat \<Rightarrow> 'h \<Rightarrow> 'h) \<Rightarrow> nat \<Rightarrow> 'h \<Rightarrow> 'h" where
  "naio_hash hash_ptr us st = hash_ptr us st"

interpretation ctx_key: keyed ctx_id "ctx_eq ctx_id" "ctx_cmp ctx_id" "ctx_hash ctx_id hash_int"
  for ctx_id hash_int
  by unfold_locales (auto simp: ctx_eq_def ctx_cmp_def ctx_hash_def)

interpretation dialer_key: keyed dialer_id "id_eq dialer_id" "dialer_cmp dialer_id"
    "dialer_hash dialer_id hash_int"
  for dialer_id hash_int
  by unfold_locales (auto simp: id_eq_def dialer_cmp_def dialer_hash_def)

interpretation listener_key: keyed listener_id "listener_eq listener_id" "listener_cmp listener_id"
    "id_hash listener_id hash_int"
  for listener_id hash_int
  by unfold_locales (auto simp: listener_eq_def listener_cmp_def id_hash_def)

interpretation pipe_key: keyed pipe_id "pipe_eq pipe_id" "id_cmp pipe_id" "pipe_hash pipe_id hash_int"
  for pipe_id hash_int
  by unfold_locales (auto simp: pipe_eq_def id_cmp_def pipe_hash_def)

text \<open>Equality is equality of order and of hash, for every kind of handle.\<close>

lemma handles_compare:
  "ctx_cmp ctx_id a b = Equal \<longleftrightarrow> ctx_eq ctx_id a b"
  "dialer_cmp dialer_id a b = Equal \<longleftrightarrow> id_eq dialer_id a b"
  "listener_cmp listener_id a b = Equal \<longleftrightarrow> listener_eq listener_id a b"
  "pipe_partial_cmp pipe_id a b = Some Equal \<longleftrightarrow> pipe_eq pipe_id a b"
  "ctx_eq ctx_id a b \<Longrightarrow> ctx_hash ctx_id h a = ctx_hash ctx_id h b"
  "pipe_eq pipe_id a b \<Longrightarrow> pipe_hash pipe_id h a = pipe_hash pipe_id h b"
  by (simp_all add: ctx_key.cmp_Equal dialer_key.cmp_Equal listener_key.cmp_Equal pipe_key.cmp_Equal
      pipe_partial_cmp_def ctx_eq_def ctx_hash_def pipe_eq_def pipe_hash_def fun_eq_iff)

section \<open>Asynchronous methods\<close>

text \<open>
  \<open>Context::send\<close>, \<open>Context::recv\<close>, \<open>Socket::send_async\<close> and \<open>Socket::recv_async\<close> hand the handle on;
  \<open>into\<close> is the conversion into a message.
\<close>

definition nctx_send ::
  "('s \<Rightarrow> 'm) \<Rightarrow> nat \<Rightarrow> 's \<Rightarrow> 'm shared \<Rightarrow> ('m \<times> error + unit) \<times> 'm shared" where
  "nctx_send into t msg w = send_begin t (into msg) w"

definition nctx_recv :: "nat \<Rightarrow> 'm shared \<Rightarrow> (error + unit) \<times> 'm shared" where
  "nctx_recv t w = recv_begin t w"

definition nsock_send_async ::
  "('s \<Rightarrow> 'm) \<Rightarrow> nat \<Rightarrow> 's \<Rightarrow> 'm shared \<Rightarrow> ('m \<times> error + unit) \<times> 'm shared" where
  "nsock_send_async into t msg w = send_begin t (into msg) w"

definition nsock_recv_async :: "nat \<Rightarrow> 'm shared \<Rightarrow> (error + unit) \<times> 'm shared" where
  "nsock_recv_async t w = recv_begin t w"

text \<open>A busy handle gives the converted message back and is left as it was.\<close>

lemma busy_handles_refuse:
  assumes "n_state w \<noteq> Inactive"
  shows "nctx_send into t x w = (Inl (into x, error.IncorrectState), w)"
    and "nsock_send_async into t x w = (Inl (into x, error.IncorrectState), w)"
    and "nctx_recv t w = (Inl error.IncorrectState, w)"
    and "nsock_recv_async t w = (Inl error.IncorrectState, w)"
  using assms
  by (simp_all add: nctx_send_def nsock_send_async_def nctx_recv_def nsock_recv_async_def
      send_begin_def recv_begin_def compare_exchange_def)

text \<open>
  \<open>state\<close> and the unsafe \<open>set_state\<close> of the \<^verbatim>\<open>ffi-module\<close> feature.  \<open>set_state\<close> is outside of the step
  relation of theory \<open>NngAio\<close>: setting a busy handle back to \<open>Inactive\<close> lets a second send in.
\<close>

definition naio_state :: "'m shared \<Rightarrow> aio_state" where
  "naio_state w = n_state w"

definition naio_set_state :: "aio_state \<Rightarrow> 'm shared \<Rightarrow> 'm shared" where
  "naio_set_state st w = w\<lparr>n_state := st\<rparr>"

lemma set_state_lets_in:
  "fst (nctx_send into t x (naio_set_state Inactive w)) = Inr ()"
  by (simp add: nctx_send_def naio_set_state_def send_begin_def compare_exchange_def)

text \<open>
  \<open>cancel\<close> and \<open>wait\<close> are one call of NNG each, a parameter.  NNG documents that \<^verbatim>\<open>nng_aio_cancel\<close>
  completes a running operation with an error and does nothing otherwise, so that it is one of the
  steps of NNG in theory \<open>NngAio\<close> and keeps whatever those steps keep; \<^verbatim>\<open>nng_aio_wait\<close> blocks (\<open>None\<close>)
  or returns and changes nothing.
\<close>

definition naio_cancel :: "('m shared \<Rightarrow> 'm shared) \<Rightarrow> 'm shared \<Rightarrow> 'm shared" where
  "naio_cancel nng_aio_cancel w = nng_aio_cancel w"

definition naio_wait :: "('m shared \<Rightarrow> 'm shared option) \<Rightarrow> 'm shared \<Rightarrow> 'm shared option" where
  "naio_wait nng_aio_wait w = nng_aio_wait w"

definition cancels :: "('m shared \<Rightarrow> 'm shared) \<Rightarrow> bool" where
  "cancels nng_aio_cancel \<longleftrightarrow>
     (\<forall>w. nng_aio_cancel w = w
        \<or> (\<exists>k e. n_phase w = Running k \<and> e \<noteq> 0
             \<and> nng_aio_cancel w = w\<lparr>n_phase := Completed, n_result := e\<rparr>))"

lemma cancel_is_a_step:
  assumes "cancels nng_aio_cancel"
  shows "nstep\<^sup>*\<^sup>* w (naio_cancel nng_aio_cancel w)"
proof -
  consider "nng_aio_cancel w = w"
    | k e where "n_phase w = Running k" "e \<noteq> 0" "nng_aio_cancel w = w\<lparr>n_phase := Completed, n_result := e\<rparr>"
    using assms unfolding cancels_def by blast
  then show ?thesis
  proof cases
    case 2
    then have "nstep w (nng_aio_cancel w)" using nstep.nng_failed by metis
    then show ?thesis by (simp add: naio_cancel_def)
  qed (simp add: naio_cancel_def)
qed

text \<open>\<open>Socket::listen_async\<close> and \<open>Socket::into_raw\<close>, both deprecated.\<close>

definition nsock_listen_async ::
  "'w nng_fns \<Rightarrow> nat \<Rightarrow> string \<Rightarrow> ('w, 'cb) session \<Rightarrow> (error + unit) \<times> ('w, 'cb) session" where
  "nsock_listen_async F = nsock_listen F"

definition nsock_into_raw ::
  "'w nng_fns \<Rightarrow> nat \<Rightarrow> ('w, 'cb) session \<Rightarrow> (nat option \<times> ('w, 'cb) session) run" where
  "nsock_into_raw F a s =
     run_map (\<lambda>(r, s). (case r of Inl _ \<Rightarrow> None | Inr raw \<Rightarrow> Some raw, s)) (nraw_try_from F a s)"

definition cooked_socket_display :: string where
  "cooked_socket_display = ''Socket is in \"cooked\" (not \"raw\") mode''"

section \<open>Called from C\<close>

text \<open>
  \<open>abort_unwind\<close>.  A function that C called may return, may unwind into the C frames, or may end the
  process.  The guard is dropped when the closure has returned and when a panic unwinds through its
  frame; only then is the thread panicking, and the drop aborts instead of going on unwinding.
\<close>

datatype 'a c_call = ReturnsToC 'a | UnwindsIntoC panic | ProcessAborts

definition guard_drop :: "bool \<Rightarrow> 'a c_call \<Rightarrow> 'a c_call" where
  "guard_drop panicking k = (if panicking then ProcessAborts else k)"

definition abort_unwind :: "'a run \<Rightarrow> 'a c_call" where
  "abort_unwind f =
     (case f of Inl p \<Rightarrow> guard_drop True (UnwindsIntoC p) | Inr x \<Rightarrow> guard_drop False (ReturnsToC x))"

text \<open>The callback of an \<^verbatim>\<open>Aio\<close>: \<open>arg\<close> is the address of the boxed closure, null or not.\<close>

definition aio_trampoline :: "('p \<Rightarrow> unit run) \<Rightarrow> 'p option \<Rightarrow> unit c_call" where
  "aio_trampoline call arg =
     abort_unwind (case arg of None \<Rightarrow> Inl AssertFailed | Some callback_ptr \<Rightarrow> call callback_ptr)"

text \<open>The callback of a socket's pipes: it runs the closure that \<open>pipe_trampoline\<close> finds.\<close>

definition socket_trampoline ::
  "('cb \<Rightarrow> u32 \<Rightarrow> pipe_event \<Rightarrow> unit run) \<Rightarrow> (u32 \<Rightarrow> c_int) \<Rightarrow> u32 \<Rightarrow> u32 \<Rightarrow> nat option \<Rightarrow>
     ('w, 'cb) session \<Rightarrow> unit c_call" where
  "socket_trampoline call pipe_id p ev arg s =
     abort_unwind
       (run_bind (pipe_trampoline pipe_id p ev arg s) (\<lambda>found.
          case found of None \<Rightarrow> Inr () | Some (cb, pipe, ev) \<Rightarrow> call cb pipe ev))"

lemma abort_unwind_returns: "abort_unwind r = (case r of Inl _ \<Rightarrow> ProcessAborts | Inr x \<Rightarrow> ReturnsToC x)"
  by (simp add: abort_unwind_def guard_drop_def split: sum.split)

text \<open>C19.  No panic crosses into C: the function NNG calls for an \<^verbatim>\<open>Aio\<close> or for a pipe event returns
  exactly when the closure of the user returned, and otherwise the process is aborted; a pipe event
  on a socket without a closure does nothing, and a null argument or a pipe without a number aborts.\<close>

theorem callbacks_never_unwind:
  "(aio_trampoline call arg = ReturnsToC () \<longleftrightarrow> (\<exists>p. arg = Some p \<and> call p = Inr ()))
   \<and> (aio_trampoline call arg = ProcessAborts \<longleftrightarrow> (\<forall>p. arg = Some p \<longrightarrow> \<not> returns (call p)))
   \<and> (socket_trampoline on_event pipe_id p ev pa s = ReturnsToC () \<longleftrightarrow>
        0 < sint (pipe_id p) \<and> (\<exists>a. pa = Some a \<and>
          (case pipe_notify (arc_get a (socks s)) of
             None \<Rightarrow> True | Some cb \<Rightarrow> on_event cb p (event_from_code ev) = Inr ())))
   \<and> (\<forall>q. aio_trampoline call arg \<noteq> UnwindsIntoC q
        \<and> socket_trampoline on_event pipe_id p ev pa s \<noteq> UnwindsIntoC q)"
proof -
  have u: "(x :: unit) = ()" for x by simp
  have "(aio_trampoline call arg = ReturnsToC () \<longleftrightarrow> (\<exists>p. arg = Some p \<and> call p = Inr ()))"
    by (auto simp: aio_trampoline_def abort_unwind_returns split: option.split sum.split)
  moreover have "(aio_trampoline call arg = ProcessAborts \<longleftrightarrow> (\<forall>p. arg = Some p \<longrightarrow> \<not> returns (call p)))"
    by (auto simp: aio_trampoline_def abort_unwind_returns split: option.split sum.split)
  moreover have "socket_trampoline on_event pipe_id p ev pa s = ReturnsToC () \<longleftrightarrow>
        0 < sint (pipe_id p) \<and> (\<exists>a. pa = Some a \<and>
          (case pipe_notify (arc_get a (socks s)) of
             None \<Rightarrow> True | Some cb \<Rightarrow> on_event cb p (event_from_code ev) = Inr ()))"
    by (cases pa; cases "pipe_notify (arc_get (the pa) (socks s))")
      (auto simp: socket_trampoline_def abort_unwind_returns pipe_trampoline_def from_nng_sys_def
        split: sum.split)
  moreover have "aio_trampoline call arg \<noteq> UnwindsIntoC q
      \<and> socket_trampoline on_event pipe_id p ev pa s \<noteq> UnwindsIntoC q" for q
    by (simp add: aio_trampoline_def socket_trampoline_def abort_unwind_returns split: sum.split)
  ultimately show ?thesis by blast
qed

theorem callbacks_never_unwind_witness:
  "aio_trampoline (\<lambda>p. if p = 0 then Inl Explicit else Inr ()) (Some (0 :: nat)) = ProcessAborts"
  using callbacks_never_unwind [of "\<lambda>p :: nat. if p = 0 then Inl Explicit else Inr ()" "Some 0"
      "\<lambda>_ _ _. Inr ()" "\<lambda>p. p" 0 0 None sample_session]
  by simp

end
