(* ===== verification/Bindings.thy ===== *)
theory Bindings
  imports Options Tcp
begin

text \<open>
  The option names of the generated bindings (nng-sys/src/bindings.rs) and the two ways in which
  \<^verbatim>\<open>anng\<close> hands them to C: as a \<^verbatim>\<open>CStr\<close> made by \<^verbatim>\<open>opt\<close> (anng/src/options.rs), which panics when the
  bytes are no C string, and as a bare pointer to the first byte, where C reads up to a zero.
\<close>

text \<open>\<^verbatim>\<open>CStr::from_bytes_with_nul\<close>: the only zero byte is the last one.\<close>

definition from_bytes_with_nul :: "string \<Rightarrow> string option" where
  "from_bytes_with_nul bs =
     (let s = takeWhile (\<lambda>c. c \<noteq> CHR 0x00) bs in if Suc (length s) = length bs then Some s else None)"

definition opt :: "string \<Rightarrow> string run" where
  "opt name = (case from_bytes_with_nul name of Some c \<Rightarrow> Inr c | None \<Rightarrow> Inl Explicit)"

text \<open>What a C function reads at a pointer to the bytes; it runs past their end when none is zero.\<close>

definition c_reads :: "string \<Rightarrow> string option" where
  "c_reads bs = (if CHR 0x00 \<in> set bs then Some (takeWhile (\<lambda>c. c \<noteq> CHR 0x00) bs) else None)"

text \<open>\<^verbatim>\<open>pub const NAME: &[u8; n] = b"..\0"\<close>: the name, \<open>n\<close>, and the bytes before the zero.\<close>

definition option_constants :: "(string \<times> nat \<times> string) list" where
  "option_constants =
     [(''NNG_OPT_RECVBUF'', 12, ''recv-buffer''),
      (''NNG_OPT_SENDBUF'', 12, ''send-buffer''),
      (''NNG_OPT_RECVTIMEO'', 13, ''recv-timeout''),
      (''NNG_OPT_SENDTIMEO'', 13, ''send-timeout''),
      (''NNG_OPT_MAXTTL'', 8, ''ttl-max''),
      (''NNG_OPT_RECVMAXSZ'', 14, ''recv-size-max''),
      (''NNG_OPT_RECONNMINT'', 19, ''reconnect-time-min''),
      (''NNG_OPT_RECONNMAXT'', 19, ''reconnect-time-max''),
      (''NNG_OPT_TLS_VERIFIED'', 13, ''tls-verified''),
      (''NNG_OPT_TLS_PEER_CN'', 12, ''tls-peer-cn''),
      (''NNG_OPT_TCP_NODELAY'', 12, ''tcp-nodelay''),
      (''NNG_OPT_TCP_KEEPALIVE'', 14, ''tcp-keepalive''),
      (''NNG_OPT_BOUND_PORT'', 11, ''bound-port''),
      (''NNG_OPT_UDP_COPY_MAX'', 13, ''udp:copy-max''),
      (''NNG_OPT_UDP_CONN_RETRY'', 15, ''udp:conn-retry''),
      (''NNG_OPT_UDP_CONN_EXPIRE'', 16, ''udp:conn-expire''),
      (''NNG_OPT_UDP_MAX_PEERS'', 14, ''udp:max-peers''),
      (''NNG_OPT_DTLS_CONN_RATE'', 15, ''dtls:conn-rate''),
      (''NNG_OPT_IPC_PERMISSIONS'', 16, ''ipc:permissions''),
      (''NNG_OPT_IPC_OWNER'', 10, ''ipc:owner''),
      (''NNG_OPT_IPC_GROUP'', 10, ''ipc:group''),
      (''NNG_OPT_PEER_UID'', 13, ''ipc:peer-uid''),
      (''NNG_OPT_IPC_PEER_UID'', 13, ''ipc:peer-uid''),
      (''NNG_OPT_PEER_GID'', 13, ''ipc:peer-gid''),
      (''NNG_OPT_IPC_PEER_GID'', 13, ''ipc:peer-gid''),
      (''NNG_OPT_PEER_PID'', 13, ''ipc:peer-pid''),
      (''NNG_OPT_IPC_PEER_PID'', 13, ''ipc:peer-pid''),
      (''NNG_OPT_PEER_ZONEID'', 16, ''ipc:peer-zoneid''),
      (''NNG_OPT_IPC_PEER_ZONEID'', 16, ''ipc:peer-zoneid''),
      (''NNG_OPT_WS_HEADER'', 11, ''ws:header:''),
      (''NNG_OPT_WS_HEADER_NEXT'', 12, ''ws:hdr-next''),
      (''NNG_OPT_WS_HEADER_RESET'', 13, ''ws:hdr-reset''),
      (''NNG_OPT_WS_HEADER_KEY'', 11, ''ws:hdr-key''),
      (''NNG_OPT_WS_HEADER_VALUE'', 11, ''ws:hdr-val''),
      (''NNG_OPT_WS_REQUEST_URI'', 15, ''ws:request-uri''),
      (''NNG_OPT_WS_TREE'', 8, ''ws:tree''),
      (''NNG_OPT_WS_SENDMAXFRAME'', 15, ''ws:txframe-max''),
      (''NNG_OPT_WS_RECVMAXFRAME'', 15, ''ws:rxframe-max''),
      (''NNG_OPT_WS_PROTOCOL'', 12, ''ws:protocol''),
      (''NNG_OPT_WS_FOLLOW_REDIRECTS'', 20, ''ws:follow-redirects''),
      (''NNG_OPT_WS_SEND_TEXT'', 13, ''ws:send-text''),
      (''NNG_OPT_WS_RECV_TEXT'', 13, ''ws:recv-text''),
      (''NNG_OPT_SOCKET_FD'', 10, ''socket:fd''),
      (''NNG_OPT_LISTEN_FD'', 10, ''listen-fd''),
      (''NNG_OPT_PAIR1_POLY'', 18, ''pair1:polyamorous''),
      (''NNG_OPT_SUB_PREFNEW'', 12, ''sub:prefnew''),
      (''NNG_OPT_REQ_RESENDTIME'', 16, ''req:resend-time''),
      (''NNG_OPT_REQ_RESENDTICK'', 16, ''req:resend-tick''),
      (''NNG_OPT_SURVEYOR_SURVEYTIME'', 21, ''surveyor:survey-time'')]"

definition const_bytes :: "string \<Rightarrow> string" where
  "const_bytes s = s @ [CHR 0x00]"

text \<open>The setters of \<^verbatim>\<open>anng\<close>: the constant each one names, and the option the model of it sets.\<close>

definition used_options :: "(string \<times> string) list" where
  "used_options =
     [(''NNG_OPT_REQ_RESENDTIME'', ''req:resend-time''), (''NNG_OPT_REQ_RESENDTICK'', ''req:resend-tick''),
      (''NNG_OPT_SURVEYOR_SURVEYTIME'', ''surveyor:survey-time''), (''NNG_OPT_SENDBUF'', ''send-buffer''),
      (''NNG_OPT_MAXTTL'', ''ttl-max''), (''NNG_OPT_TCP_NODELAY'', NNG_OPT_TCP_NODELAY),
      (''NNG_OPT_TCP_KEEPALIVE'', NNG_OPT_TCP_KEEPALIVE)]"

section \<open>Handles and errors of nng-sys\<close>

text \<open>The initial values of the handles (nng-sys/src/lib.rs): their opaque word is zero.\<close>

definition NNG_PIPE_INITIALIZER :: u32 where "NNG_PIPE_INITIALIZER = 0"
definition NNG_SOCKET_INITIALIZER :: u32 where "NNG_SOCKET_INITIALIZER = 0"
definition NNG_DIALER_INITIALIZER :: u32 where "NNG_DIALER_INITIALIZER = 0"
definition NNG_LISTENER_INITIALIZER :: u32 where "NNG_LISTENER_INITIALIZER = 0"
definition NNG_CTX_INITIALIZER :: u32 where "NNG_CTX_INITIALIZER = 0"

text \<open>\<open>ErrorKind::from_nz_u32\<close> takes a number that is not zero; \<open>nng_err::as_cstr\<close> and its \<open>Display\<close>.\<close>

definition from_nz_u32 :: "ffi_env \<Rightarrow> u32 \<Rightarrow> error_kind run" where
  "from_nz_u32 E err = from_nng_err E err"

definition as_cstr :: "ffi_env \<Rightarrow> u32 \<Rightarrow> string" where
  "as_cstr E err = strerror E err"

definition nng_err_display :: "ffi_env \<Rightarrow> u32 \<Rightarrow> string" where
  "nng_err_display E err = as_cstr E err"

text \<open>An initial pipe is no pipe of a message, and an error code is shown as its number is.\<close>

lemma initial_pipe: "msg_pipe NNG_PIPE_INITIALIZER = None"
  by (simp add: msg_pipe_def NNG_PIPE_INITIALIZER_def)

lemma error_texts_agree: "error_code_display E c = nng_err_display E (error_code_num c)"
  by (simp add: error_code_display_def nng_err_display_def as_cstr_def)

section \<open>The option names are C strings\<close>

lemma takeWhile_nul: "CHR 0x00 \<notin> set s \<Longrightarrow> takeWhile (\<lambda>c. c \<noteq> CHR 0x00) (s @ [CHR 0x00]) = s"
  by (induction s) auto

lemma c_string:
  assumes "CHR 0x00 \<notin> set s"
  shows "opt (const_bytes s) = Inr s" and "c_reads (const_bytes s) = Some s"
  using takeWhile_nul [OF assms]
  by (simp_all add: opt_def from_bytes_with_nul_def c_reads_def const_bytes_def)

lemma takeWhile_length: "CHR 0x00 \<in> set s \<Longrightarrow> length (takeWhile (\<lambda>c. c \<noteq> CHR 0x00) s) < length s"
  by (induction s) auto

lemma not_c_string:
  "CHR 0x00 \<in> set s \<Longrightarrow> opt (const_bytes s) = Inl Explicit"
  "CHR 0x00 \<notin> set bs \<Longrightarrow> opt bs = Inl Explicit"
proof -
  assume "CHR 0x00 \<in> set s"
  then show "opt (const_bytes s) = Inl Explicit"
    using takeWhile_length [of s] by (simp add: opt_def from_bytes_with_nul_def const_bytes_def Let_def)
next
  assume "CHR 0x00 \<notin> set bs"
  then have "length (takeWhile (\<lambda>c. c \<noteq> CHR 0x00) bs) = length bs" by (induction bs) auto
  then show "opt bs = Inl Explicit" by (simp add: opt_def from_bytes_with_nul_def Let_def del: takeWhile_eq_all_conv)
qed

lemma option_texts:
  "list_all (\<lambda>(_, n, s). CHR 0x00 \<notin> set s \<and> Suc (length s) = n) option_constants"
  unfolding option_constants_def by simp

lemma option_used:
  "list_all (\<lambda>(name, s). map_option snd (map_of option_constants name) = Some s) used_options"
  by (simp add: used_options_def option_constants_def NNG_OPT_TCP_NODELAY_def NNG_OPT_TCP_KEEPALIVE_def)

text \<open>
  Every option name of the bindings is a C string of its declared size: \<^verbatim>\<open>opt\<close> never panics on one
  and gives the text that C reads at its address.  The options that the setters of \<^verbatim>\<open>anng\<close> set are the
  values of the constants they name (\<^verbatim>\<open>set_max_ttl\<close> writes the text of its constant out).
\<close>

theorem option_names_are_c_strings:
  "(\<forall>(name, n, s) \<in> set option_constants.
      length (const_bytes s) = n \<and> opt (const_bytes s) = Inr s \<and> c_reads (const_bytes s) = Some s)
   \<and> (\<forall>(name, s) \<in> set used_options. \<exists>n. map_of option_constants name = Some (n, s))"
proof (intro conjI)
  show "\<forall>(name, n, s) \<in> set option_constants.
      length (const_bytes s) = n \<and> opt (const_bytes s) = Inr s \<and> c_reads (const_bytes s) = Some s"
  proof clarify
    fix name n s assume "(name, n, s) \<in> set option_constants"
    then have "CHR 0x00 \<notin> set s" "Suc (length s) = n"
      using option_texts by (auto simp: list_all_iff)
    then show "length (const_bytes s) = n \<and> opt (const_bytes s) = Inr s \<and> c_reads (const_bytes s) = Some s"
      by (simp add: c_string) (simp add: const_bytes_def)
  qed
  show "\<forall>(name, s) \<in> set used_options. \<exists>n. map_of option_constants name = Some (n, s)"
    using option_used by (auto simp: list_all_iff)
qed

end
