(* ===== verification/TestKit.thy ===== *)
theory TestKit
  imports Prelude "HOL-Library.Sublist"
begin

text \<open>
  The unit tests in the source files as programs: a test that returns has passed, and a failed
  \<^verbatim>\<open>assert!\<close>, \<^verbatim>\<open>assert_eq!\<close> or \<^verbatim>\<open>assert_ne!\<close> is the panic \<open>AssertFailed\<close>.
\<close>

definition assert_that :: "bool \<Rightarrow> 'a run \<Rightarrow> 'a run" where
  "assert_that c k = (if c then k else Inl AssertFailed)"

text \<open>\<^verbatim>\<open>#[should_panic]\<close>: the test passes when the code panics with that panic.\<close>

definition should_panic :: "panic \<Rightarrow> 'a run \<Rightarrow> unit run" where
  "should_panic p r = (if r = Inl p then Inr () else Inl AssertFailed)"

text \<open>\<^verbatim>\<open>Result::unwrap\<close>, \<^verbatim>\<open>Result::unwrap_err\<close> and \<^verbatim>\<open>Option::unwrap\<close>\<close>

definition unwrap_ok :: "'e + 'a \<Rightarrow> 'a run" where
  "unwrap_ok r = (case r of Inl _ \<Rightarrow> Inl ExpectFailed | Inr x \<Rightarrow> Inr x)"

definition unwrap_err :: "'e + 'a \<Rightarrow> 'e run" where
  "unwrap_err r = (case r of Inl e \<Rightarrow> Inr e | Inr _ \<Rightarrow> Inl ExpectFailed)"

definition unwrap_some :: "'a option \<Rightarrow> 'a run" where
  "unwrap_some r = (case r of None \<Rightarrow> Inl ExpectFailed | Some x \<Rightarrow> Inr x)"

definition yields :: "('a \<Rightarrow> bool) \<Rightarrow> 'a run \<Rightarrow> bool" where
  "yields Q r \<longleftrightarrow> (\<exists>x. r = Inr x \<and> Q x)"

text \<open>\<^verbatim>\<open>Result::is_ok\<close> and \<^verbatim>\<open>str::contains\<close>\<close>

definition is_ok :: "'e + 'a \<Rightarrow> bool" where
  "is_ok r = (case r of Inl _ \<Rightarrow> False | Inr _ \<Rightarrow> True)"

definition contains :: "string \<Rightarrow> string \<Rightarrow> bool" where
  "contains s t \<longleftrightarrow> sublist t s"

text \<open>A \<^verbatim>\<open>for\<close> loop whose body may panic.\<close>

fun for_each :: "('a \<Rightarrow> 'w \<Rightarrow> 'w run) \<Rightarrow> 'a list \<Rightarrow> 'w \<Rightarrow> 'w run" where
  "for_each f [] w = Inr w"
| "for_each f (x # xs) w = run_bind (f x w) (for_each f xs)"

text \<open>The outcome of a list of tests.\<close>

definition all_pass :: "unit run list \<Rightarrow> bool" where
  "all_pass ts \<longleftrightarrow> list_all (\<lambda>t. t = Inr ()) ts"

lemma all_pass_simps [simp]: "all_pass []" "all_pass (t # ts) \<longleftrightarrow> t = Inr () \<and> all_pass ts"
  by (simp_all add: all_pass_def)

lemma contains_append: "contains (u @ t @ v) t"
  by (simp add: contains_def sublist_appendI)

lemma contains_at: "take (length t) (drop n s) = t \<Longrightarrow> contains s t"
  by (metis append_take_drop_id contains_append)

lemma contains_set: "contains s t \<Longrightarrow> set t \<subseteq> set s"
  by (simp add: contains_def set_mono_sublist)

lemma is_ok_simps [simp]: "is_ok (Inr x)" "\<not> is_ok (Inl e)"
  by (simp_all add: is_ok_def)

lemma unwrap_simps [simp]:
  "unwrap_ok (Inr x) = Inr x" "unwrap_ok (Inl e) = Inl ExpectFailed"
  "unwrap_err (Inl e) = Inr e" "unwrap_err (Inr x) = Inl ExpectFailed"
  "unwrap_some (Some y) = Inr y" "unwrap_some None = Inl ExpectFailed"
  by (simp_all add: unwrap_ok_def unwrap_err_def unwrap_some_def)

lemma assert_that_simps [simp]:
  "assert_that True k = k" "assert_that False k = Inl AssertFailed"
  by (simp_all add: assert_that_def)

lemma assert_passes: "assert_that c k = Inr x \<longleftrightarrow> c \<and> k = Inr x"
  by (simp add: assert_that_def)

lemma yields_Inr [simp]: "yields Q (Inr x) \<longleftrightarrow> Q x" by (simp add: yields_def)
lemma yields_Inl [simp]: "\<not> yields Q (Inl p)" by (simp add: yields_def)

lemma yields_bind: "yields P r \<Longrightarrow> (\<And>x. P x \<Longrightarrow> yields Q (f x)) \<Longrightarrow> yields Q (run_bind r f)"
  by (auto simp: yields_def)

lemma assert_then: "c \<Longrightarrow> yields Q k \<Longrightarrow> yields Q (assert_that c k)"
  by (simp add: assert_that_def)

lemma yields_unit: "yields (\<lambda>_. True) (t :: unit run) \<longleftrightarrow> t = Inr ()"
  by (cases t) auto

end
