(* ===== verification/MessageTests.thy ===== *)
theory MessageTests
  imports Message Addr TestKit
begin

text \<open>
  The unit tests at the end of anng/src/message.rs, as programs over the modelled operations, and
  the \<^verbatim>\<open>Debug\<close>, \<^verbatim>\<open>Deref\<close> and \<^verbatim>\<open>Default\<close> code only they use.  The tests run on every NNG that meets the documented laws
  and has memory for them: the locales say how much, and which buffer sizes the tests of the growth
  strategy take for granted.  Two tests read bytes behind the end of a body after writing them
  there (\<^verbatim>\<open>test_unsafe_set_len\<close>, \<^verbatim>\<open>test_bufmut_chunk_mut_advance_mut\<close>); no documented law says what
  they find, and they are left out.
\<close>

section \<open>Writing to a message\<close>

text \<open>The loop of \<open>write_all\<close> with its two rounds; one that did not end would fail the test.\<close>

definition completed :: "'a run option \<Rightarrow> 'a run" where
  "completed r = (case r of None \<Rightarrow> Inl AssertFailed | Some x \<Rightarrow> x)"

definition put ::
  "'m msg_api \<Rightarrow> ffi_env \<Rightarrow> bool \<Rightarrow> byte list \<Rightarrow> 'm message \<Rightarrow> 'm message run" where
  "put N E oc src m = completed (put_slice N E oc 2 src m)"

definition write_all_unwrap ::
  "'m msg_api \<Rightarrow> ffi_env \<Rightarrow> bool \<Rightarrow> byte list \<Rightarrow> 'm message \<Rightarrow> 'm message run" where
  "write_all_unwrap N E oc src m =
     run_bind (completed (write_all N E oc 2 src m)) (\<lambda>(m', res).
       case res of Inl _ \<Rightarrow> Inl ExpectFailed | Inr _ \<Rightarrow> Inr m')"

section \<open>Deref, Default and Debug\<close>

definition msg_default :: "'m msg_api \<Rightarrow> 'm message run" where
  "msg_default N = new N"

definition deref :: "'m msg_api \<Rightarrow> 'm message \<Rightarrow> byte list" where
  "deref N m = as_slice N m"

definition as_ref :: "'m msg_api \<Rightarrow> 'm message \<Rightarrow> byte list" where
  "as_ref N m = as_slice N m"

text \<open>
  \<^verbatim>\<open>impl fmt::Debug for Message\<close>: \<^verbatim>\<open>debug_struct\<close> prints the name and the fields it is given, a slice
  of bytes prints as a list of decimal numbers.
\<close>

definition debug_bytes :: "byte list \<Rightarrow> string" where
  "debug_bytes bs = ''['' @ join '', '' (map (\<lambda>b. show_nat (unat b)) bs) @ '']''"

definition debug_struct :: "string \<Rightarrow> (string \<times> string) list \<Rightarrow> string" where
  "debug_struct name fs =
     name @ '' { '' @ join '', '' (map (\<lambda>(f, v). f @ '': '' @ v) fs) @ '' }''"

definition message_debug :: "'m msg_api \<Rightarrow> 'm message \<Rightarrow> string" where
  "message_debug N m =
     debug_struct ''Message''
       ([(''header'', debug_bytes (header N m)), (''body'', debug_bytes (as_slice N m))]
        @ (if pos m \<noteq> 0 then [(''pos'', show_nat (pos m))] else []))"

section \<open>The tests\<close>

definition hello :: "byte list" where "hello = bytes_of ''hello''"
definition hello_world :: "byte list" where "hello_world = bytes_of ''hello world''"

definition test_from_slice :: "'m msg_api \<Rightarrow> ffi_env \<Rightarrow> bool \<Rightarrow> unit run" where
  "test_from_slice N E oc =
     (let data = hello_world in
      run_bind (from_slice N E oc data) (\<lambda>msg.
      assert_that (as_slice N msg = data) (
      assert_that (len N msg = length data) (
      assert_that (pos msg = 0) (Inr ())))))"

definition test_deref :: "'m msg_api \<Rightarrow> ffi_env \<Rightarrow> bool \<Rightarrow> unit run" where
  "test_deref N E oc =
     (let data = hello_world in
      run_bind (from_slice N E oc data) (\<lambda>msg.
      assert_that (deref N msg = data) (
      assert_that (as_ref N msg = data) (Inr ()))))"

definition test_deref_mut :: "'m msg_api \<Rightarrow> ffi_env \<Rightarrow> bool \<Rightarrow> unit run" where
  "test_deref_mut N E oc =
     run_bind (from_slice N E oc hello_world) (\<lambda>msg.
     run_bind (store N 0 72 msg) (\<lambda>msg.
     assert_that (deref N msg = bytes_of ''Hello world'') (
     run_bind (store N 6 87 msg) (\<lambda>msg.
     assert_that (deref N msg = bytes_of ''Hello World'') (Inr ())))))"

definition test_clear :: "'m msg_api \<Rightarrow> ffi_env \<Rightarrow> bool \<Rightarrow> unit run" where
  "test_clear N E oc =
     run_bind (from_slice N E oc hello_world) (\<lambda>msg.
     run_bind (expect_ok (write_header N E (bytes_of ''header'') msg)) (\<lambda>msg.
     let msg = msg\<lparr>pos := 5\<rparr> in
     assert_that (len N msg = 11) (
     assert_that (header_len N msg = 6) (
     assert_that (pos msg = 5) (
     run_bind (Message.clear N msg) (\<lambda>msg.
     assert_that (len N msg = 0) (
     assert_that (header_len N msg = 0) (
     assert_that (pos msg = 0) (
     assert_that (is_empty N msg) (Inr ()))))))))))"

definition test_as_slice_as_mut_slice :: "'m msg_api \<Rightarrow> ffi_env \<Rightarrow> bool \<Rightarrow> unit run" where
  "test_as_slice_as_mut_slice N E oc =
     run_bind (with_capacity N 20) (\<lambda>msg.
     run_bind (write_all_unwrap N E oc hello msg) (\<lambda>msg.
     assert_that (as_slice N msg = hello) (
     run_bind (store N 0 72 msg) (\<lambda>msg.
     assert_that (as_slice N msg = bytes_of ''Hello'') (Inr ())))))"

definition chunk_is :: "'m msg_api \<Rightarrow> byte list \<Rightarrow> 'm message \<Rightarrow> 'a run \<Rightarrow> 'a run" where
  "chunk_is N bs msg k = run_bind (chunk N msg) (\<lambda>c. assert_that (c = bs) k)"

definition test_buf_trait :: "'m msg_api \<Rightarrow> ffi_env \<Rightarrow> bool \<Rightarrow> unit run" where
  "test_buf_trait N E oc =
     run_bind (from_slice N E oc hello_world) (\<lambda>msg.
     assert_that (remaining N msg = 11) (
     chunk_is N hello_world msg (
     run_bind (advance N 6 msg) (\<lambda>msg.
     assert_that (remaining N msg = 5) (
     chunk_is N (bytes_of ''world'') msg (
     assert_that (pos msg = 6) (
     run_bind (advance N 5 msg) (\<lambda>msg.
     assert_that (remaining N msg = 0) (
     chunk_is N [] msg (
     assert_that (pos msg = 11) (Inr ())))))))))))"

definition test_buf_advance_panic :: "'m msg_api \<Rightarrow> ffi_env \<Rightarrow> bool \<Rightarrow> unit run" where
  "test_buf_advance_panic N E oc =
     should_panic Explicit
       (run_bind (from_slice N E oc hello) (\<lambda>msg. advance N 10 msg))"

definition test_bufmut_put_slice :: "'m msg_api \<Rightarrow> ffi_env \<Rightarrow> bool \<Rightarrow> unit run" where
  "test_bufmut_put_slice N E oc =
     run_bind (with_capacity N 10) (\<lambda>msg.
     assert_that (0 < remaining_mut N msg) (
     run_bind (put N E oc hello msg) (\<lambda>msg.
     assert_that (as_slice N msg = hello) (
     assert_that (len N msg = 5) (
     run_bind (put N E oc (bytes_of '' world'') msg) (\<lambda>msg.
     assert_that (as_slice N msg = hello_world) (
     assert_that (len N msg = 11) (Inr ()))))))))"

definition test_position_handling_with_truncate ::
  "'m msg_api \<Rightarrow> ffi_env \<Rightarrow> bool \<Rightarrow> unit run" where
  "test_position_handling_with_truncate N E oc =
     run_bind (from_slice N E oc hello_world) (\<lambda>msg.
     run_bind (advance N 6 msg) (\<lambda>msg.
     run_bind (msg_truncate N 8 msg) (\<lambda>msg.
     assert_that (len N msg = 8) (
     assert_that (pos msg = 6) (
     chunk_is N (bytes_of ''wo'') msg (
     run_bind (msg_truncate N 4 msg) (\<lambda>msg.
     assert_that (len N msg = 4) (
     assert_that (pos msg = 4) (
     assert_that (remaining N msg = 0) (Inr ()))))))))))"

definition test_position_handling_with_truncate_front ::
  "'m msg_api \<Rightarrow> ffi_env \<Rightarrow> bool \<Rightarrow> unit run" where
  "test_position_handling_with_truncate_front N E oc =
     run_bind (from_slice N E oc hello_world) (\<lambda>msg.
     run_bind (advance N 6 msg) (\<lambda>msg.
     run_bind (truncate_front N 8 msg) (\<lambda>msg.
     assert_that (len N msg = 8) (
     assert_that (as_slice N msg = bytes_of ''lo world'') (
     assert_that (pos msg = 3) (
     chunk_is N (bytes_of ''world'') msg (
     run_bind (truncate_front N 2 msg) (\<lambda>msg.
     assert_that (len N msg = 2) (
     assert_that (as_slice N msg = bytes_of ''ld'') (
     assert_that (pos msg = 0) (
     chunk_is N (bytes_of ''ld'') msg (Inr ()))))))))))))"

text \<open>
  \<^verbatim>\<open>copy_to_slice\<close> is the default method of the \<^verbatim>\<open>bytes\<close> crate; \<open>cts n\<close> is what it does with a slice
  of \<open>n\<close> bytes.
\<close>

definition test_buf_bufmut_integration ::
  "'m msg_api \<Rightarrow> ffi_env \<Rightarrow> bool \<Rightarrow> (nat \<Rightarrow> 'm message \<Rightarrow> (byte list \<times> 'm message) run)
     \<Rightarrow> unit run" where
  "test_buf_bufmut_integration N E oc cts =
     run_bind (new N) (\<lambda>msg.
     run_bind (put N E oc (bytes_of ''hello '') msg) (\<lambda>msg.
     run_bind (put N E oc (bytes_of ''world'') msg) (\<lambda>msg.
     assert_that (as_slice N msg = hello_world) (
     assert_that (remaining N msg = 11) (
     run_bind (cts 5 msg) (\<lambda>(read_data, msg).
     assert_that (read_data = hello) (
     assert_that (remaining N msg = 6) (
     chunk_is N (bytes_of '' world'') msg (Inr ())))))))))"

definition test_debug_with_position :: "'m msg_api \<Rightarrow> ffi_env \<Rightarrow> bool \<Rightarrow> unit run" where
  "test_debug_with_position N E oc =
     run_bind (from_slice N E oc hello_world) (\<lambda>msg.
     assert_that (\<not> contains (message_debug N msg) ''pos'') (
     run_bind (advance N 5 msg) (\<lambda>msg.
     assert_that (contains (message_debug N msg) ''pos'') (Inr ()))))"

definition test_clone_preserves_position :: "'m msg_api \<Rightarrow> ffi_env \<Rightarrow> bool \<Rightarrow> unit run" where
  "test_clone_preserves_position N E oc =
     run_bind (from_slice N E oc hello_world) (\<lambda>msg.
     run_bind (advance N 6 msg) (\<lambda>msg.
     run_bind (clone N msg) (\<lambda>cloned.
     assert_that (pos cloned = 6) (
     chunk_is N (bytes_of ''world'') cloned (
     assert_that (as_slice N cloned = hello_world) (
     run_bind (new N) (\<lambda>msg2.
     run_bind (clone_from N E oc msg msg2) (\<lambda>msg2.
     assert_that (pos msg2 = 6) (
     assert_that (as_slice N msg2 = hello_world) (Inr ()))))))))))"

text \<open>The tests of the growth strategy.  \<open>after_write\<close> writes and checks the capacity.\<close>

definition capacity_is :: "'m msg_api \<Rightarrow> nat \<Rightarrow> 'm message \<Rightarrow> 'a run \<Rightarrow> 'a run" where
  "capacity_is N c msg k = assert_that (capacity N msg = c) k"

definition test_reserve_exponential_growth :: "'m msg_api \<Rightarrow> ffi_env \<Rightarrow> bool \<Rightarrow> unit run" where
  "test_reserve_exponential_growth N E oc =
     run_bind (with_capacity N 0) (\<lambda>msg.
     capacity_is N 32 msg (
     run_bind (write_all_unwrap N E oc (replicate 32 0) msg) (\<lambda>msg.
     capacity_is N 32 msg (
     run_bind (write_all_unwrap N E oc [1] msg) (\<lambda>msg.
     assert_that (33 \<le> capacity N msg) (
     run_bind (with_capacity N 1024) (\<lambda>msg.
     capacity_is N 1024 msg (
     run_bind (write_all_unwrap N E oc (replicate 1024 0) msg) (\<lambda>msg.
     capacity_is N 1024 msg (
     run_bind (write_all_unwrap N E oc [1] msg) (\<lambda>msg.
     capacity_is N 1025 msg (
     run_bind (write_all_unwrap N E oc (replicate 1023 2) msg) (\<lambda>msg.
     assert_that (len N msg = 2048) (
     capacity_is N 2048 msg (
     run_bind (write_all_unwrap N E oc [3] msg) (\<lambda>msg.
     capacity_is N 2049 msg (Inr ())))))))))))))))))"

definition test_reserve_exact_amount_for_large_amounts ::
  "'m msg_api \<Rightarrow> ffi_env \<Rightarrow> bool \<Rightarrow> unit run" where
  "test_reserve_exact_amount_for_large_amounts N E oc =
     run_bind (new N) (\<lambda>msg.
     run_bind (Message.reserve N oc 1024 msg) (\<lambda>msg.
     capacity_is N 1024 msg (
     run_bind (Message.reserve N oc (64 * 1024) msg) (\<lambda>msg.
     capacity_is N (64 * 1024) msg (Inr ())))))"

definition test_reserve_exact :: "'m msg_api \<Rightarrow> ffi_env \<Rightarrow> bool \<Rightarrow> unit run" where
  "test_reserve_exact N E oc =
     run_bind (new N) (\<lambda>msg.
     assert_that (len N msg = 0) (
     run_bind (reserve_exact N oc 100 msg) (\<lambda>msg.
     capacity_is N 100 msg (
     assert_that (len N msg = 0) (
     let current_capacity = capacity N msg in
     run_bind (reserve_exact N oc 50 msg) (\<lambda>msg.
     capacity_is N current_capacity msg (
     run_bind (new N) (\<lambda>msg.
     run_bind (write_all_unwrap N E oc hello msg) (\<lambda>msg.
     assert_that (len N msg = 5) (
     run_bind (reserve_exact N oc 50 msg) (\<lambda>msg.
     capacity_is N 55 msg (
     assert_that (len N msg = 5) (
     assert_that (as_slice N msg = hello) (
     run_bind (new N) (\<lambda>msg.
     run_bind (write_all_unwrap N E oc (bytes_of ''test'') msg) (\<lambda>msg.
     assert_that (len N msg = 4) (
     run_bind (reserve_exact N oc 10 msg) (\<lambda>msg.
     capacity_is N 32 msg (
     run_bind (reserve_exact N oc 100 msg) (\<lambda>msg.
     capacity_is N 104 msg (
     run_bind (new N) (\<lambda>msg.
     run_bind (write_all_unwrap N E oc (bytes_of ''content'') msg) (\<lambda>msg.
     let capacity_before = capacity N msg in
     run_bind (reserve_exact N oc 0 msg) (\<lambda>msg.
     capacity_is N capacity_before msg (
     run_bind (new N) (\<lambda>msg.
     run_bind (reserve_exact N oc 4096 msg) (\<lambda>msg.
     capacity_is N 4096 msg (
     run_bind (write_all_unwrap N E oc (replicate 2048 120) msg) (\<lambda>msg.
     assert_that (len N msg = 2048) (
     capacity_is N 4096 msg (Inr ())))))))))))))))))))))))))))))))"

section \<open>The conditions on NNG\<close>

text \<open>
  \<open>roomy_msg\<close>: for messages of up to \<open>L\<close> bytes memory does not run out.  \<open>sized_msg\<close> adds the buffer
  sizes that the tests of the growth strategy quote: 32 bytes of headroom unless the size is a power
  of two of at least 1024, growth to exactly what was asked for, and none when the buffer suffices.
\<close>

locale roomy_msg = nng_msg N V for N :: "'m msg_api" and V :: "'m \<Rightarrow> bool" +
  fixes L :: nat
  assumes room_usize: "2 * L < usize_max"
    and alloc_room: "n \<le> L \<Longrightarrow> fst (m_alloc N n) = 0"
    and dup_room: "V m \<Longrightarrow> length (m_body N m) \<le> L \<Longrightarrow> length (m_header N m) \<le> L
      \<Longrightarrow> fst (m_dup N m) = 0"
    and append_room: "V m \<Longrightarrow> length (m_body N m) + length bs \<le> L \<Longrightarrow> fst (m_append N bs m) = 0"
    and header_room: "V m \<Longrightarrow> length (m_header N m) + length bs \<le> L
      \<Longrightarrow> fst (m_header_append N bs m) = 0"
    and reserve_room: "V m \<Longrightarrow> n \<le> 2 * L \<Longrightarrow> fst (m_reserve N n m) = 0"

locale sized_msg = roomy_msg +
  assumes alloc_size: "m_alloc N n = (0, Some m) \<Longrightarrow> m_capacity N m = ref_alloc_cap n"
    and chop_size: "V m \<Longrightarrow> m_capacity N (snd (m_chop N n m)) = m_capacity N m"
    and append_size: "V m \<Longrightarrow> length (m_body N m) + length bs \<le> m_capacity N m
      \<Longrightarrow> m_capacity N (snd (m_append N bs m)) = m_capacity N m"
    and reserve_size: "V m \<Longrightarrow> fst (m_reserve N n m) = 0
      \<Longrightarrow> m_capacity N (snd (m_reserve N n m)) = max n (m_capacity N m)"

interpretation ref_room: roomy_msg ref_api ref_ok 100000
  by unfold_locales
    (auto simp: ref_api_def ref_ok_def ref_alloc_def ref_alloc_cap_def ref_limit_def usize_max_def
      ref_set_body_def ref_set_header_def)

interpretation ref_size: sized_msg ref_api ref_ok 100000
  by unfold_locales
    (auto simp: ref_api_def ref_alloc_def ref_set_body_def max_def split: if_splits)

section \<open>Reasoning about tests\<close>

definition shows_as :: "'m msg_api \<Rightarrow> ('m \<Rightarrow> bool) \<Rightarrow> 'm message \<Rightarrow> amsg \<Rightarrow> bool" where
  "shows_as N V m a \<longleftrightarrow> msg_wf N V m \<and> abs_msg N m = a"

abbreviation fresh_msg :: "byte list \<Rightarrow> amsg" where
  "fresh_msg bs \<equiv> \<lparr>a_header = [], a_body = bs, a_pos = 0\<rparr>"

lemma shows_as_iff:
  "shows_as N V m a \<longleftrightarrow> V (inner m) \<and> a_header a = m_header N (inner m)
     \<and> a_body a = m_body N (inner m) \<and> a_pos a = pos m \<and> pos m \<le> length (m_body N (inner m))"
  by (cases a) (auto simp: shows_as_def msg_wf_def abs_msg_def)

context nng_msg
begin

lemma truncate_then:
  assumes "shows_as N V m a"
    and "\<And>m'. shows_as N V m' (spec_step (Truncate n) a) \<Longrightarrow> yields Q (f m')"
  shows "yields Q (run_bind (msg_truncate N n m) f)"
  using msg_truncate_spec [of m n] assms by (auto simp: shows_as_def)

lemma truncate_front_then:
  assumes "shows_as N V m a"
    and "\<And>m'. shows_as N V m' (spec_step (TruncateFront n) a) \<Longrightarrow> yields Q (f m')"
  shows "yields Q (run_bind (truncate_front N n m) f)"
  using truncate_front_spec [of m n] assms by (auto simp: shows_as_def)

lemma clear_then:
  assumes "shows_as N V m a" and "\<And>m'. shows_as N V m' (fresh_msg []) \<Longrightarrow> yields Q (f m')"
  shows "yields Q (run_bind (Message.clear N m) f)"
  using clear_spec [of m] assms by (auto simp: shows_as_def)

lemma advance_then:
  assumes "shows_as N V m a" and "a_pos a + n \<le> length (a_body a)"
    and "\<And>m'. shows_as N V m' (spec_step (Advance n) a) \<Longrightarrow> yields Q (f m')"
  shows "yields Q (run_bind (advance N n m) f)"
proof -
  have "V (inner m)" using assms(1) by (simp add: shows_as_iff)
  then have "length (m_body N (inner m)) < usize_max" by (rule usize_body)
  with assms(1,2) have "advance N n m = Inr (m\<lparr>pos := pos m + n\<rparr>)"
    by (simp add: advance_def saturating_add_def shows_as_iff Let_def)
  moreover have "shows_as N V (m\<lparr>pos := pos m + n\<rparr>) (spec_step (Advance n) a)"
    using assms(1,2) by (simp add: shows_as_iff)
  ultimately show ?thesis using assms(3) by simp
qed

lemma store_then:
  assumes "shows_as N V m a" and "i < length (a_body a)"
    and "\<And>m'. shows_as N V m' (spec_step (Store i b) a) \<Longrightarrow> yields Q (f m')"
  shows "yields Q (run_bind (store N i b m) f)"
proof -
  from assms(1,2) poke [of "inner m" i b] have "store N i b m = Inr (m\<lparr>inner := m_poke N i b (inner m)\<rparr>)"
      "shows_as N V (m\<lparr>inner := m_poke N i b (inner m)\<rparr>) (spec_step (Store i b) a)"
    by (auto simp: store_def shows_as_iff)
  with assms(3) show ?thesis by simp
qed

lemma chunk_then:
  assumes "shows_as N V m a" and "bs = drop (a_pos a) (a_body a)" and "yields Q k"
  shows "yields Q (chunk_is N bs m k)"
  using assms by (simp add: chunk_is_def chunk_def shows_as_iff assert_that_def)

end

lemma next_pow2_lt:
  assumes "0 < n"
  shows "next_pow2 n < 2 * n"
proof -
  obtain k where k: "next_pow2 n = 2 ^ k" using next_pow2_power by blast
  show ?thesis
  proof (cases k)
    case 0
    with k assms show ?thesis by simp
  next
    case (Suc j)
    with k next_pow2_least [of n j] show ?thesis by (cases "n \<le> 2 ^ j") auto
  qed
qed

context roomy_msg
begin

lemma alloc_ok:
  assumes "n \<le> L"
  obtains i where "m_alloc N n = (0, Some i)" "V i" "length (m_body N i) = n" "m_header N i = []"
  using alloc [of n] alloc_room [OF assms] by (cases "m_alloc N n") auto

lemma with_capacity_then:
  assumes "n \<le> L" and "\<And>m. shows_as N V m (fresh_msg []) \<Longrightarrow> yields Q (f m)"
  shows "yields Q (run_bind (with_capacity N n) f)"
proof -
  obtain i where i: "m_alloc N n = (0, Some i)" "V i" "length (m_body N i) = n" "m_header N i = []"
    using alloc_ok [OF assms(1)] .
  then have "shows_as N V \<lparr>inner = i, pos = 0\<rparr> \<lparr>a_header = [], a_body = m_body N i, a_pos = 0\<rparr>"
    by (simp add: shows_as_iff)
  from truncate_then [OF this, of 0 Q f] i assms(2) show ?thesis
    by (simp add: with_capacity_def nonnull_def)
qed

lemma next_capacity_room:
  assumes "c < r" and "r \<le> L"
  shows "r \<le> next_capacity r c" and "next_capacity r c \<le> 2 * L"
proof -
  have "next_pow2 c \<le> 2 * L"
    using next_pow2_lt [of c] assms by (cases "c = 0") (auto simp: next_pow2.simps [of 0])
  with assms show "next_capacity r c \<le> 2 * L"
    using room_usize by (auto simp: next_capacity_def checked_next_power_of_two_def)
qed (simp add: next_capacity_ge)

lemma reserve_exact_ok:
  assumes "shows_as N V m a" and "length (a_body a) + n \<le> 2 * L"
  shows "yields (\<lambda>m'. shows_as N V m' a
     \<and> m_reserve N (length (a_body a) + n) (inner m) = (0, inner m')) (reserve_exact N oc n m)"
proof -
  have V: "V (inner m)" using assms(1) by (simp add: shows_as_iff)
  from reserve [OF V, of "length (a_body a) + n"] reserve_room [OF V assms(2)] obtain i where
    "m_reserve N (length (a_body a) + n) (inner m) = (0, i)" "V i"
      "m_header N i = m_header N (inner m)" "m_body N i = m_body N (inner m)"
    by (cases "m_reserve N (length (a_body a) + n) (inner m)") (auto simp: outcome_iffs)
  with assms V room_usize show ?thesis by (auto simp: yields_def reserve_exact_def shows_as_iff)
qed

lemma reserve_ok:
  assumes "shows_as N V m a" and "length (a_body a) + n \<le> L"
  shows "yields (\<lambda>m'. shows_as N V m' a
     \<and> (if capacity N m < length (a_body a) + n
        then m_reserve N (next_capacity (length (a_body a) + n) (capacity N m)) (inner m)
               = (0, inner m')
        else m' = m)) (Message.reserve N oc n m)"
proof -
  let ?b = "length (a_body a)" and ?c = "capacity N m"
  have l: "len N m = ?b" using assms(1) by (simp add: shows_as_iff)
  show ?thesis
  proof (cases "?c < ?b + n")
    case True
    note k = next_capacity_room [OF True assms(2)]
    with reserve_exact_ok [OF assms(1), of "next_capacity (?b + n) ?c - ?b" oc] l assms room_usize True
    show ?thesis by (simp add: Message.reserve_def)
  next
    case False
    with l assms room_usize show ?thesis by (simp add: Message.reserve_def)
  qed
qed

lemma append_ok:
  assumes "shows_as N V m a" and "length (a_body a) + length bs \<le> L"
  obtains i where "m_append N bs (inner m) = (0, i)"
    "shows_as N V (m\<lparr>inner := i\<rparr>) (spec_step (Write bs) a)"
proof -
  have V: "V (inner m)" using assms(1) by (simp add: shows_as_iff)
  have "fst (m_append N bs (inner m)) = 0"
    using append_room [OF V, of bs] assms by (simp add: shows_as_iff)
  with append [OF V, of bs] obtain i where "m_append N bs (inner m) = (0, i)" "V i"
      "m_header N i = m_header N (inner m)" "m_body N i = m_body N (inner m) @ bs"
    by (cases "m_append N bs (inner m)") (auto simp: outcome_iffs)
  with assms that [of i] show thesis by (simp add: shows_as_iff)
qed

lemma write_body_ok:
  assumes "shows_as N V m a" and "length (a_body a) + length bs \<le> L"
  shows "yields (\<lambda>(m', res). res = Inr (length bs) \<and> shows_as N V m' (spec_step (Write bs) a)
     \<and> (\<exists>m1. Message.reserve N oc (length bs) m = Inr m1 \<and> shows_as N V m1 a
          \<and> m_append N bs (inner m1) = (0, inner m'))) (write_body N E oc bs m)"
proof -
  obtain m1 where 1: "Message.reserve N oc (length bs) m = Inr m1" "shows_as N V m1 a"
    using reserve_ok [OF assms, of oc] by (auto simp: yields_def)
  obtain i where "m_append N bs (inner m1) = (0, i)"
      "shows_as N V (m1\<lparr>inner := i\<rparr>) (spec_step (Write bs) a)"
    using append_ok [OF 1(2) assms(2)] .
  with 1 show ?thesis by (auto simp: yields_def write_body_def write_with_def)
qed

lemma expect_ok_yields:
  "yields (\<lambda>(m', res). res = Inr k \<and> P m') r \<Longrightarrow> yields P (expect_ok r)"
  by (auto simp: yields_def expect_ok_def)

lemma from_slice_then:
  assumes "length bs \<le> L" and "\<And>m. shows_as N V m (fresh_msg bs) \<Longrightarrow> yields Q (f m)"
  shows "yields Q (run_bind (from_slice N E oc bs) f)"
proof -
  have "yields (\<lambda>m. shows_as N V m (fresh_msg bs)) (from_slice N E oc bs)"
    unfolding from_slice_def
  proof (rule with_capacity_then [OF assms(1)])
    fix m assume "shows_as N V m (fresh_msg [])"
    from write_body_ok [OF this, of bs oc E] assms(1)
    show "yields (\<lambda>m. shows_as N V m (fresh_msg bs)) (expect_ok (write_body N E oc bs m))"
      by (auto simp: yields_def expect_ok_def)
  qed
  then show ?thesis using assms(2) by (rule yields_bind)
qed

lemma write_header_then:
  assumes "shows_as N V m a" and "length (a_header a) + length bs \<le> L"
    and "\<And>m'. shows_as N V m' (spec_step (WriteHeader bs) a) \<Longrightarrow> yields Q (f m')"
  shows "yields Q (run_bind (expect_ok (write_header N E bs m)) f)"
proof -
  have V: "V (inner m)" using assms(1) by (simp add: shows_as_iff)
  have "fst (m_header_append N bs (inner m)) = 0"
    using header_room [OF V, of bs] assms(1,2) by (simp add: shows_as_iff)
  with header_append [OF V, of bs] obtain i where "m_header_append N bs (inner m) = (0, i)" "V i"
      "m_header N i = m_header N (inner m) @ bs" "m_body N i = m_body N (inner m)"
    by (cases "m_header_append N bs (inner m)") (auto simp: outcome_iffs)
  with assms(1,3) show ?thesis
    by (simp add: write_header_def write_with_def expect_ok_def shows_as_iff)
qed

lemma write_all_ok:
  assumes "shows_as N V m a" and "length (a_body a) + length bs \<le> L" and "bs \<noteq> []"
  shows "yields (\<lambda>m'. shows_as N V m' (spec_step (Write bs) a)
     \<and> (\<exists>m1. Message.reserve N oc (length bs) m = Inr m1 \<and> shows_as N V m1 a
          \<and> m_append N bs (inner m1) = (0, inner m'))) (write_all_unwrap N E oc bs m)"
proof -
  have "msg_wf N V m" using assms(1) by (simp add: shows_as_def)
  from write_all_spec [OF this, of E oc 0 bs] assms(3)
  have "write_all N E oc 2 bs m =
      Some (run_map (\<lambda>(m', res). (m', map_sum id (\<lambda>_. ()) res)) (write_body N E oc bs m))"
    by (simp add: numeral_2_eq_2 del: write_all.simps)
  with write_body_ok [OF assms(1,2), of oc E] show ?thesis
    by (auto simp: yields_def write_all_unwrap_def completed_def)
qed

lemma put_is_write_all: "put N E oc bs m = write_all_unwrap N E oc bs m"
  by (simp add: put_def put_slice_def write_all_unwrap_def completed_def
      split: option.split)

lemma write_all_then:
  assumes "shows_as N V m a" and "length (a_body a) + length bs \<le> L" and "bs \<noteq> []"
    and "\<And>m'. shows_as N V m' (spec_step (Write bs) a) \<Longrightarrow> yields Q (f m')"
  shows "yields Q (run_bind (write_all_unwrap N E oc bs m) f)"
  by (rule yields_bind [OF write_all_ok [OF assms(1-3)]]) (blast intro: assms(4))

lemmas put_then = write_all_then [folded put_is_write_all]

lemma clone_then:
  assumes "shows_as N V m a" and "length (a_body a) \<le> L" and "length (a_header a) \<le> L"
    and "\<And>m'. shows_as N V m' a \<Longrightarrow> yields Q (f m')"
  shows "yields Q (run_bind (clone N m) f)"
proof -
  have V: "V (inner m)" using assms(1) by (simp add: shows_as_iff)
  have "fst (m_dup N (inner m)) = 0"
    using dup_room [OF V] assms(1-3) by (simp add: shows_as_iff)
  with dup [OF V] obtain i where "m_dup N (inner m) = (0, Some i)" "V i"
      "m_body N i = m_body N (inner m)" "m_header N i = m_header N (inner m)"
    by (cases "m_dup N (inner m)") auto
  with assms(1,4) show ?thesis by (simp add: clone_def nonnull_def shows_as_iff)
qed

lemma clone_from_then:
  assumes "shows_as N V src a" and "shows_as N V m b" and "length (a_body a) \<le> L"
    and "length (a_header a) \<le> L" and "\<And>m'. shows_as N V m' a \<Longrightarrow> yields Q (f m')"
  shows "yields Q (run_bind (clone_from N E oc src m) f)"
proof -
  let ?h = "a_header a"
  have s: "as_slice N src = a_body a" "header N src = ?h" "pos src = a_pos a"
      "a_pos a \<le> length (a_body a)"
    using assms(1) by (simp_all add: shows_as_iff)
  have "yields (\<lambda>m'. shows_as N V m' a) (clone_from N E oc src m)"
    unfolding clone_from_def
  proof (rule truncate_then [OF assms(2)])
    fix m1 assume 1: "shows_as N V m1 (spec_step (Truncate 0) b)"
    show "yields (\<lambda>m'. shows_as N V m' a)
      (run_bind (expect_ok (write_body N E oc (as_slice N src) m1)) (\<lambda>m.
       run_bind (header_truncate N 0 m) (\<lambda>m.
       run_bind (expect_ok (write_header N E (header N src) m)) (\<lambda>m.
       Inr (m\<lparr>pos := pos src\<rparr>)))))"
    proof (rule yields_bind)
      show "yields (\<lambda>m'. shows_as N V m' \<lparr>a_header = a_header b, a_body = a_body a, a_pos = 0\<rparr>)
          (expect_ok (write_body N E oc (as_slice N src) m1))"
        using write_body_ok [OF 1, of "a_body a" oc E] assms(3) s
        by (cases b) (auto simp: yields_def expect_ok_def)
    next
      fix m2 assume 2: "shows_as N V m2 \<lparr>a_header = a_header b, a_body = a_body a, a_pos = 0\<rparr>"
      obtain m3 where 3: "header_truncate N 0 m2 = Inr m3"
          "shows_as N V m3 (fresh_msg (a_body a))"
        using header_truncate_spec [of m2 0] 2 by (auto simp: shows_as_def)
      show "yields (\<lambda>m'. shows_as N V m' a)
        (run_bind (header_truncate N 0 m2) (\<lambda>m.
         run_bind (expect_ok (write_header N E (header N src) m)) (\<lambda>m.
         Inr (m\<lparr>pos := pos src\<rparr>))))"
        unfolding 3(1) run_bind_simps
        by (rule write_header_then [OF 3(2)])
          (use assms(4) s in \<open>auto simp: shows_as_iff\<close>)
    qed
  qed
  then show ?thesis using assms(5) by (rule yields_bind)
qed

end

section \<open>The tests pass\<close>

text \<open>The texts of the tests as bytes.\<close>

lemma test_texts:
  "hello = [104, 101, 108, 108, 111]"
  "hello_world = [104, 101, 108, 108, 111, 32, 119, 111, 114, 108, 100]"
  "bytes_of ''Hello'' = [72, 101, 108, 108, 111]"
  "bytes_of ''Hello world'' = [72, 101, 108, 108, 111, 32, 119, 111, 114, 108, 100]"
  "bytes_of ''Hello World'' = [72, 101, 108, 108, 111, 32, 87, 111, 114, 108, 100]"
  "bytes_of ''header'' = [104, 101, 97, 100, 101, 114]"
  "bytes_of ''world'' = [119, 111, 114, 108, 100]"
  "bytes_of '' world'' = [32, 119, 111, 114, 108, 100]"
  "bytes_of ''hello '' = [104, 101, 108, 108, 111, 32]"
  "bytes_of ''wo'' = [119, 111]"
  "bytes_of ''lo world'' = [108, 111, 32, 119, 111, 114, 108, 100]"
  "bytes_of ''ld'' = [108, 100]"
  "bytes_of ''test'' = [116, 101, 115, 116]"
  "bytes_of ''content'' = [99, 111, 110, 116, 101, 110, 116]"
  by (simp_all add: hello_def hello_world_def bytes_of_def)

locale test_memory = roomy_msg +
  assumes enough: "64 * 1024 < L"
begin

lemma small [simp]: "n \<le> 65536 \<Longrightarrow> n \<le> L"
  using enough by linarith

text \<open>What the assertions of the tests look at.\<close>

lemma seen_as:
  assumes "shows_as N V m a" and "yields Q k"
  shows "length (a_body a) = n \<Longrightarrow> yields Q (assert_that (len N m = n) k)"
    and "length (a_header a) = n \<Longrightarrow> yields Q (assert_that (header_len N m = n) k)"
    and "a_pos a = n \<Longrightarrow> yields Q (assert_that (pos m = n) k)"
    and "length (a_body a) - a_pos a = n \<Longrightarrow> yields Q (assert_that (remaining N m = n) k)"
    and "a_body a = bs \<Longrightarrow> yields Q (assert_that (as_slice N m = bs) k)"
    and "a_body a = bs \<Longrightarrow> yields Q (assert_that (deref N m = bs) k)"
    and "a_body a = bs \<Longrightarrow> yields Q (assert_that (as_ref N m = bs) k)"
    and "a_body a = [] \<Longrightarrow> yields Q (assert_that (is_empty N m) k)"
    and "length (a_body a) \<le> L \<Longrightarrow> yields Q (assert_that (0 < remaining_mut N m) k)"
  using assms room_usize
  by (auto simp: assert_that_def shows_as_iff deref_def as_ref_def is_empty_def remaining_def
      remaining_mut_def)

lemma moved_to:
  assumes "shows_as N V m a" and "n \<le> length (a_body a)"
    and "shows_as N V (m\<lparr>pos := n\<rparr>) (a\<lparr>a_pos := n\<rparr>) \<Longrightarrow> yields Q (f (m\<lparr>pos := n\<rparr>))"
  shows "yields Q (let m = m\<lparr>pos := n\<rparr> in f m)"
  using assms by (simp add: shows_as_iff Let_def)

lemmas test_steps = truncate_then truncate_front_then clear_then advance_then store_then chunk_then
  write_header_then put_then write_all_then clone_then moved_to seen_as
  from_slice_then with_capacity_then

lemma reading_tests_pass:
  "test_from_slice N E oc = Inr ()"
  "test_deref N E oc = Inr ()"
  "test_deref_mut N E oc = Inr ()"
  "test_clear N E oc = Inr ()"
  "test_as_slice_as_mut_slice N E oc = Inr ()"
  "test_buf_trait N E oc = Inr ()"
  unfolding yields_unit [symmetric] test_from_slice_def test_deref_def test_deref_mut_def
    test_clear_def test_as_slice_as_mut_slice_def test_buf_trait_def
  by (rule test_steps | assumption | simp add: test_texts Let_def)+

lemma position_tests_pass:
  "test_bufmut_put_slice N E oc = Inr ()"
  "test_position_handling_with_truncate N E oc = Inr ()"
  "test_position_handling_with_truncate_front N E oc = Inr ()"
  unfolding yields_unit [symmetric] test_bufmut_put_slice_def
    test_position_handling_with_truncate_def test_position_handling_with_truncate_front_def
  by (rule test_steps | assumption | simp add: test_texts Let_def)+

lemma clone_test_passes: "test_clone_preserves_position N E oc = Inr ()"
  unfolding yields_unit [symmetric] test_clone_preserves_position_def new_def
  by (rule test_steps | rule clone_from_then, assumption | assumption | simp add: test_texts)+

lemma advance_panic_passes: "test_buf_advance_panic N E oc = Inr ()"
proof -
  have "yields (\<lambda>m. shows_as N V m (fresh_msg hello)) (run_bind (from_slice N E oc hello) Inr)"
    by (rule from_slice_then) (simp_all add: test_texts)
  then obtain m where "from_slice N E oc hello = Inr m" "shows_as N V m (fresh_msg hello)"
    by (auto simp: yields_def run_simps)
  moreover have "advance N 10 m = Inl Explicit"
  proof -
    have "pos m = 0" "m_body N (inner m) = hello" "V (inner m)"
      using \<open>shows_as N V m (fresh_msg hello)\<close> by (simp_all add: shows_as_iff)
    then show ?thesis by (simp add: advance_def saturating_add_def test_texts usize_max_def)
  qed
  ultimately have "run_bind (from_slice N E oc hello) (advance N 10) = Inl Explicit" by simp
  then show ?thesis by (simp add: test_buf_advance_panic_def should_panic_def)
qed

lemma integration_test_passes:
  assumes cts: "\<And>n m. msg_wf N V m \<Longrightarrow> n \<le> remaining N m
    \<Longrightarrow> cts n m = Inr (take n (drop (pos m) (as_slice N m)), m\<lparr>pos := pos m + n\<rparr>)"
  shows "test_buf_bufmut_integration N E oc cts = Inr ()"
proof -
  have c: "yields Q (run_bind (cts n m) f)"
    if "shows_as N V m a" and "a_pos a + n \<le> length (a_body a)"
      and "\<And>m'. shows_as N V m' (spec_step (Advance n) a) \<Longrightarrow>
        yields Q (f (take n (drop (a_pos a) (a_body a)), m'))" for Q n m f a
  proof -
    have "msg_wf N V m" "n \<le> remaining N m"
      using that(1,2) by (auto simp: shows_as_def shows_as_iff remaining_def msg_wf_def abs_msg_def)
    moreover have "shows_as N V (m\<lparr>pos := pos m + n\<rparr>) (spec_step (Advance n) a)"
      using that(1,2) by (simp add: shows_as_iff)
    note that(3) [OF this]
    moreover have "drop (pos m) (as_slice N m) = drop (a_pos a) (a_body a)"
      using that(1) by (simp add: shows_as_iff)
    ultimately show ?thesis using cts [of m n] by simp
  qed
  show ?thesis
    unfolding yields_unit [symmetric] test_buf_bufmut_integration_def new_def
    by (rule test_steps | rule c, assumption | assumption | simp add: test_texts | rule assert_then)+
qed

end

text \<open>The text of a message's \<^verbatim>\<open>Debug\<close> has a \<open>p\<close> only where a field \<open>pos\<close> is.\<close>

lemma set_join: "set (join sep xs) \<subseteq> set sep \<union> \<Union> (set ` set xs)"
  by (induction sep xs rule: join.induct) auto

lemma no_p_in_digits: "CHR ''p'' \<notin> set (show_nat n)"
proof
  assume "CHR ''p'' \<in> set (show_nat n)"
  then obtain d where "CHR ''p'' = digit_char d" "d < 10" using set_show_nat [of n] by auto
  then have "(of_char CHR ''p'' :: nat) = of_char (digit_char d)" by simp
  with \<open>d < 10\<close> show False by (simp add: digit_char_def take_bit_nat_eq_self)
qed

lemma no_p_in_bytes: "CHR ''p'' \<notin> set (debug_bytes bs)"
  using set_join [of "'', ''" "map (\<lambda>b. show_nat (unat b)) bs"] no_p_in_digits
  by (auto simp: debug_bytes_def)

lemma debug_shows_pos: "contains (message_debug N m) ''pos'' \<longleftrightarrow> pos m \<noteq> 0"
proof (cases "pos m = 0")
  case True
  then have "CHR ''p'' \<notin> set (message_debug N m)"
    using no_p_in_bytes by (auto simp: message_debug_def debug_struct_def)
  with True contains_set [of "message_debug N m" "''pos''"] show ?thesis by auto
next
  case False
  let ?h = "''header: '' @ debug_bytes (header N m)" and ?b = "''body: '' @ debug_bytes (as_slice N m)"
  have "message_debug N m = (''Message { '' @ ?h @ '', '' @ ?b @ '', '') @ ''pos''
      @ ('': '' @ show_nat (pos m) @ '' }'')"
    using False by (simp add: message_debug_def debug_struct_def)
  with False show ?thesis by (simp only: contains_append) simp
qed

context test_memory
begin

lemma debug_test_passes: "test_debug_with_position N E oc = Inr ()"
proof -
  have d: "yields Q (assert_that (\<not> pos m \<noteq> 0) k)" if "shows_as N V m a" "yields Q k" "a_pos a = 0"
    for Q k m a using that by (simp add: assert_that_def shows_as_iff)
  have e: "yields Q (assert_that (pos m \<noteq> 0) k)" if "shows_as N V m a" "yields Q k" "a_pos a \<noteq> 0"
    for Q k m a using that by (simp add: assert_that_def shows_as_iff)
  show ?thesis
    unfolding yields_unit [symmetric] test_debug_with_position_def debug_shows_pos
    by (rule test_steps d e | assumption | simp add: test_texts)+
qed

end

section \<open>The growth tests pass\<close>

definition sized_as :: "'m msg_api \<Rightarrow> ('m \<Rightarrow> bool) \<Rightarrow> 'm message \<Rightarrow> amsg \<Rightarrow> nat \<Rightarrow> bool" where
  "sized_as N V m a c \<longleftrightarrow> shows_as N V m a \<and> capacity N m = c"

text \<open>The capacity after \<open>reserve\<close> for \<open>r\<close> bytes in a buffer of \<open>c\<close>.\<close>

definition grown_to :: "nat \<Rightarrow> nat \<Rightarrow> nat" where
  "grown_to r c = (if c < r then next_capacity r c else c)"

lemma growth_values:
  "ref_alloc_cap 0 = 32"
  "ref_alloc_cap 1024 = 1024"
  "next_capacity 33 32 = 33"
  "next_capacity 1025 1024 = 1025"
  "next_capacity 2048 1025 = 2048"
  "next_capacity 2049 2048 = 2049"
  "next_capacity 1024 32 = 1024"
  "next_capacity 65536 1024 = 65536"
  by (simp_all add: ref_alloc_cap_def is_pow2_def next_capacity_def checked_next_power_of_two_def
      next_pow2.simps usize_max_def upt_conv_Cons)

locale growth_tests = sized_msg + test_memory
begin

lemma with_capacity_sized:
  assumes "n \<le> L"
    and "\<And>m. sized_as N V m (fresh_msg []) (ref_alloc_cap n) \<Longrightarrow> yields Q (f m)"
  shows "yields Q (run_bind (with_capacity N n) f)"
proof -
  obtain i where i: "m_alloc N n = (0, Some i)" "V i" "length (m_body N i) = n" "m_header N i = []"
    using alloc_ok [OF assms(1)] .
  obtain j where j: "m_chop N n i = (0, j)" "V j" "m_header N j = []" "m_body N j = []"
    using chopE [OF i(2), of n] i by auto
  with chop_size [OF i(2), of n] alloc_size [OF i(1)]
  have "sized_as N V \<lparr>inner = j, pos = 0\<rparr> (fresh_msg []) (ref_alloc_cap n)"
    by (simp add: sized_as_def shows_as_iff capacity_def)
  moreover have "with_capacity N n = Inr \<lparr>inner = j, pos = 0\<rparr>"
    using i j by (simp add: with_capacity_def nonnull_def msg_truncate_def checked_sub_def)
  ultimately show ?thesis using assms(2) by simp
qed

lemma reserve_exact_sized:
  assumes "sized_as N V m a c" and "length (a_body a) + n \<le> 2 * L"
    and "\<And>m'. sized_as N V m' a (max (length (a_body a) + n) c) \<Longrightarrow> yields Q (f m')"
  shows "yields Q (run_bind (reserve_exact N oc n m) f)"
proof -
  have m: "shows_as N V m a" "V (inner m)" "capacity N m = c"
    using assms(1) by (simp_all add: sized_as_def shows_as_iff)
  show ?thesis
  proof (rule yields_bind [OF reserve_exact_ok [OF m(1) assms(2), of oc]], elim conjE)
    fix m' assume "shows_as N V m' a"
      "m_reserve N (length (a_body a) + n) (inner m) = (0, inner m')"
    with m reserve_size [OF m(2), of "length (a_body a) + n"]
    have "sized_as N V m' a (max (length (a_body a) + n) c)"
      by (simp add: sized_as_def capacity_def)
    then show "yields Q (f m')" by (rule assms(3))
  qed
qed

lemma reserve_size_ok:
  assumes "sized_as N V m a c" and "length (a_body a) + n \<le> L"
  shows "yields (\<lambda>m'. sized_as N V m' a (grown_to (length (a_body a) + n) c))
    (Message.reserve N oc n m)"
proof -
  let ?k = "next_capacity (length (a_body a) + n) c"
  have m: "shows_as N V m a" "V (inner m)" "capacity N m = c"
    using assms(1) by (simp_all add: sized_as_def shows_as_iff)
  obtain m' where r: "Message.reserve N oc n m = Inr m'" "shows_as N V m' a"
      "if c < length (a_body a) + n then m_reserve N ?k (inner m) = (0, inner m') else m' = m"
    using reserve_ok [OF m(1) assms(2), of oc] m(3) by (auto simp: yields_def)
  have "capacity N m' = grown_to (length (a_body a) + n) c"
    using r(3) m reserve_size [OF m(2), of ?k] next_capacity_ge [of "length (a_body a) + n" c]
    by (auto simp: grown_to_def capacity_def split: if_splits)
  with r(1,2) show ?thesis by (simp add: sized_as_def)
qed

lemmas reserve_sized = yields_bind [OF reserve_size_ok]

lemma write_all_sized:
  assumes "sized_as N V m a c" and "length (a_body a) + length bs \<le> L" and "bs \<noteq> []"
    and "\<And>m'. sized_as N V m' (spec_step (Write bs) a) (grown_to (length (a_body a) + length bs) c)
      \<Longrightarrow> yields Q (f m')"
  shows "yields Q (run_bind (write_all_unwrap N E oc bs m) f)"
proof -
  let ?r = "length (a_body a) + length bs"
  have "shows_as N V m a" using assms(1) by (simp add: sized_as_def)
  from write_all_ok [OF this assms(2,3), of oc E] obtain m' m1
    where w: "write_all_unwrap N E oc bs m = Inr m'" "shows_as N V m' (spec_step (Write bs) a)"
      "Message.reserve N oc (length bs) m = Inr m1" "m_append N bs (inner m1) = (0, inner m')"
    by (auto simp: yields_def)
  from reserve_size_ok [OF assms(1,2), of oc] w(3)
  have 1: "sized_as N V m1 a (grown_to ?r c)" by (simp add: yields_def)
  have "?r \<le> grown_to ?r c" using next_capacity_ge [of ?r c] by (simp add: grown_to_def)
  with 1 append_size [of "inner m1" bs] w(4)
  have "capacity N m' = grown_to ?r c"
    by (simp add: sized_as_def shows_as_iff capacity_def)
  with w(1,2) assms(4) show ?thesis by (simp add: sized_as_def)
qed

lemma sized_seen:
  assumes "sized_as N V m a c" and "yields Q k"
  shows "c = d \<Longrightarrow> yields Q (capacity_is N d m k)"
    and "d \<le> c \<Longrightarrow> yields Q (assert_that (d \<le> capacity N m) k)"
    and "length (a_body a) = n \<Longrightarrow> yields Q (assert_that (len N m = n) k)"
    and "a_body a = bs \<Longrightarrow> yields Q (assert_that (as_slice N m = bs) k)"
  using assms by (simp_all add: capacity_is_def assert_that_def sized_as_def shows_as_iff)

lemma capacity_kept:
  assumes "sized_as N V m a c" and "yields Q (f c)"
  shows "yields Q (let d = capacity N m in f d)"
  using assms by (simp add: sized_as_def)

lemmas growth_steps = with_capacity_sized reserve_exact_sized reserve_sized write_all_sized
  sized_seen capacity_kept

lemma small_twice [simp]: "n \<le> 65536 \<Longrightarrow> n \<le> 2 * L"
  using enough by simp

lemma growth_tests_pass:
  "test_reserve_exponential_growth N E oc = Inr ()"
  "test_reserve_exact_amount_for_large_amounts N E oc = Inr ()"
  "test_reserve_exact N E oc = Inr ()"
  unfolding yields_unit [symmetric] test_reserve_exponential_growth_def new_def
    test_reserve_exact_amount_for_large_amounts_def test_reserve_exact_def
  by (rule growth_steps | assumption
      | (simp add: test_texts grown_to_def growth_values; fail))+

end

interpretation ref_tests: growth_tests ref_api ref_ok 100000
  by unfold_locales simp

section \<open>The property\<close>

definition message_test_runs ::
  "'m msg_api \<Rightarrow> ffi_env \<Rightarrow> bool \<Rightarrow> (nat \<Rightarrow> 'm message \<Rightarrow> (byte list \<times> 'm message) run)
     \<Rightarrow> unit run list" where
  "message_test_runs N E oc cts =
     map (\<lambda>t. t N E oc)
       [test_from_slice, test_deref, test_deref_mut, test_clear, test_as_slice_as_mut_slice,
        test_buf_trait, test_buf_advance_panic, test_bufmut_put_slice,
        test_position_handling_with_truncate, test_position_handling_with_truncate_front,
        test_debug_with_position, test_clone_preserves_position]
     @ [test_buf_bufmut_integration N E oc cts]"

definition growth_test_runs :: "'m msg_api \<Rightarrow> ffi_env \<Rightarrow> bool \<Rightarrow> unit run list" where
  "growth_test_runs N E oc =
     map (\<lambda>t. t N E oc)
       [test_reserve_exponential_growth, test_reserve_exact_amount_for_large_amounts,
        test_reserve_exact]"

text \<open>What the \<^verbatim>\<open>bytes\<close> crate documents of \<^verbatim>\<open>copy_to_slice\<close>.\<close>

definition copies_and_advances ::
  "'m msg_api \<Rightarrow> ('m \<Rightarrow> bool) \<Rightarrow> (nat \<Rightarrow> 'm message \<Rightarrow> (byte list \<times> 'm message) run) \<Rightarrow> bool" where
  "copies_and_advances N V cts \<longleftrightarrow>
     (\<forall>n m. msg_wf N V m \<and> n \<le> remaining N m \<longrightarrow>
        cts n m = Inr (take n (drop (pos m) (as_slice N m)), m\<lparr>pos := pos m + n\<rparr>))"

text \<open>On every NNG that meets the documented laws of \<open>nng_msg\<close> and has memory for some 100
  KiB, whatever it leaves in the spare bytes of its buffers and in either build profile, thirteen
  unit tests of \<^verbatim>\<open>Message\<close> pass: no assertion fails, nothing panics but the code of the
  \<open>should_panic\<close> test, in the expected way.  With the buffer sizes that the comments of the tests
  quote, the three tests of the growth strategy pass as well.\<close>

theorem message_tests_pass:
  assumes "test_memory N V L" and "copies_and_advances N V cts"
  shows "all_pass (message_test_runs N E oc cts)
     \<and> (sized_msg N V L \<longrightarrow> all_pass (growth_test_runs N E oc))"
proof (intro conjI impI)
  have "test_buf_bufmut_integration N E oc cts = Inr ()"
    using assms(2) by (intro test_memory.integration_test_passes [OF assms(1)])
      (simp add: copies_and_advances_def)
  then show "all_pass (message_test_runs N E oc cts)"
    by (simp add: message_test_runs_def test_memory.reading_tests_pass [OF assms(1)]
        test_memory.position_tests_pass [OF assms(1)] test_memory.clone_test_passes [OF assms(1)]
        test_memory.advance_panic_passes [OF assms(1)] test_memory.debug_test_passes [OF assms(1)])
next
  assume "sized_msg N V L"
  with assms(1) have g: "growth_tests N V L" by (simp add: growth_tests_def)
  show "all_pass (growth_test_runs N E oc)"
    by (simp add: growth_test_runs_def growth_tests.growth_tests_pass [OF g])
qed

definition sample_copy :: "nat \<Rightarrow> ref_msg message \<Rightarrow> (byte list \<times> ref_msg message) run" where
  "sample_copy n m =
     (if n \<le> remaining ref_api m
      then Inr (take n (drop (pos m) (as_slice ref_api m)), m\<lparr>pos := pos m + n\<rparr>)
      else Inl Explicit)"

theorem message_tests_pass_witness:
  "all_pass (message_test_runs ref_api sample_env True sample_copy)
   \<and> all_pass (growth_test_runs ref_api sample_env True)"
  using message_tests_pass [OF ref_tests.test_memory_axioms, of sample_copy sample_env True]
    ref_size.sized_msg_axioms
  by (simp add: copies_and_advances_def sample_copy_def)

end
