(* ===== verification/UrlTests.thy ===== *)
theory UrlTests
  imports Tcp Text TestKit
begin

text \<open>
  The unit tests at the end of anng/src/pipes.rs, as programs over the modelled URLs, addresses and
  listeners.  A \<^verbatim>\<open>nng_sockaddr\<close> that a test builds through one member of the union keeps whatever the
  rest of its memory was (\<open>u\<close>), and the tests run on either byte order (\<open>le\<close>).
\<close>

section \<open>Building addresses\<close>

text \<open>\<^verbatim>\<open>to_be\<close> is \<^verbatim>\<open>from_be\<close> on every target.\<close>

definition u16_to_be :: "bool \<Rightarrow> u16 \<Rightarrow> u16" where
  "u16_to_be le x = u16_from_be le x"

definition u32_to_be :: "bool \<Rightarrow> u32 \<Rightarrow> u32" where
  "u32_to_be le x = u32_from_be le x"

definition inet_addr :: "bool \<Rightarrow> nng_sockaddr \<Rightarrow> u16 \<Rightarrow> u32 \<Rightarrow> nng_sockaddr" where
  "inet_addr le u port addr =
     u\<lparr>s_family := family_value NNG_AF_INET, in_port := u16_to_be le port,
       in_addr := u32_to_be le addr\<rparr>"

definition inet6_addr :: "bool \<Rightarrow> nng_sockaddr \<Rightarrow> u16 \<Rightarrow> byte list \<Rightarrow> u32 \<Rightarrow> nng_sockaddr" where
  "inet6_addr le u port addr scope =
     u\<lparr>s_family := family_value NNG_AF_INET6, in6_port := u16_to_be le port, in6_addr := addr,
       in6_scope := scope\<rparr>"

text \<open>A field of \<open>n\<close> zero bytes whose first bytes are overwritten.\<close>

definition zeroed :: "nat \<Rightarrow> byte list \<Rightarrow> byte list" where
  "zeroed n bs = bs @ replicate (n - length bs) 0"

text \<open>\<^verbatim>\<open>CStr::to_bytes_with_nul\<close>\<close>

definition with_nul :: "string \<Rightarrow> byte list" where
  "with_nul s = bytes_of s @ [0]"

definition ipc_addr :: "nng_sockaddr \<Rightarrow> byte list \<Rightarrow> nng_sockaddr" where
  "ipc_addr u p = u\<lparr>s_family := family_value NNG_AF_IPC, ipc_path := zeroed 128 p\<rparr>"

definition inproc_addr :: "nng_sockaddr \<Rightarrow> byte list \<Rightarrow> nng_sockaddr" where
  "inproc_addr u p = u\<lparr>s_family := family_value NNG_AF_INPROC, inproc_name := zeroed 128 p\<rparr>"

definition abstract_addr :: "nng_sockaddr \<Rightarrow> byte list \<Rightarrow> nng_sockaddr" where
  "abstract_addr u p =
     u\<lparr>s_family := family_value NNG_AF_ABSTRACT, abs_len := word_of_nat (length p),
       abs_name := zeroed 107 p\<rparr>"

text \<open>\<^verbatim>\<open>assert_eq!(Url::from_nng(..).unwrap().as_str(), text)\<close>\<close>

definition url_is :: "bool \<Rightarrow> nng_sockaddr \<Rightarrow> string \<Rightarrow> string \<Rightarrow> unit run \<Rightarrow> unit run" where
  "url_is le a scheme text k =
     run_bind (from_nng le a (bytes_of scheme)) (\<lambda>r.
     run_bind (unwrap_some r) (\<lambda>url. assert_that (url = text) k))"

section \<open>The tests of \<open>Url\<close>\<close>

definition test_from_nng_unspec :: "bool \<Rightarrow> nng_sockaddr \<Rightarrow> unit run" where
  "test_from_nng_unspec le u =
     run_bind (from_nng le (u\<lparr>s_family := family_value NNG_AF_UNSPEC\<rparr>) (bytes_of ''tcp''))
       (\<lambda>r. assert_that (r = None) (Inr ()))"

definition test_from_nng_inet :: "bool \<Rightarrow> nng_sockaddr \<Rightarrow> unit run" where
  "test_from_nng_inet le u =
     url_is le (inet_addr le u 8080 0x7F000001) ''tcp'' ''tcp://127.0.0.1:8080'' (Inr ())"

definition test_from_nng_inet6 :: "bool \<Rightarrow> nng_sockaddr \<Rightarrow> unit run" where
  "test_from_nng_inet6 le u =
     url_is le (inet6_addr le u 9090 [0, 0, 0, 0, 0, 0, 0, 0, 0, 0, 0, 0, 0, 0, 0, 1] 0)
       ''tcp'' ''tcp://[::1]:9090''
     (url_is le (inet6_addr le u 9090 [0xfe, 0x80, 0, 0, 0, 0, 0, 0, 0, 0, 0, 0, 0, 0, 0, 1] 42)
       ''tcp'' ''tcp://[fe80::1%42]:9090'' (Inr ()))"

definition test_from_nng_ipc :: "bool \<Rightarrow> nng_sockaddr \<Rightarrow> unit run" where
  "test_from_nng_ipc le u =
     url_is le (ipc_addr u (with_nul ''/tmp/test.sock'')) ''ipc'' ''ipc:///tmp/test.sock'' (Inr ())"

definition test_from_nng_inproc :: "bool \<Rightarrow> nng_sockaddr \<Rightarrow> unit run" where
  "test_from_nng_inproc le u =
     url_is le (inproc_addr u (with_nul ''test-inproc'')) ''inproc'' ''inproc://test-inproc''
       (Inr ())"

definition test_from_nng_abstract :: "bool \<Rightarrow> nng_sockaddr \<Rightarrow> unit run" where
  "test_from_nng_abstract le u =
     url_is le (abstract_addr u (bytes_of ''test'' @ [0] @ bytes_of ''sock'' @ [1]))
       ''abstract'' ''abstract://test%00sock%01'' (Inr ())"

definition test_from_nng_inet_edge_cases :: "bool \<Rightarrow> nng_sockaddr \<Rightarrow> unit run" where
  "test_from_nng_inet_edge_cases le u =
     url_is le (inet_addr le u 0 0) ''tcp'' ''tcp://0.0.0.0:0'' (Inr ())"

definition test_from_nng_empty_ipc_path :: "bool \<Rightarrow> nng_sockaddr \<Rightarrow> unit run" where
  "test_from_nng_empty_ipc_path le u = url_is le (ipc_addr u [0]) ''ipc'' ''ipc://'' (Inr ())"

definition test_from_nng_zero_length_abstract :: "bool \<Rightarrow> nng_sockaddr \<Rightarrow> unit run" where
  "test_from_nng_zero_length_abstract le u =
     url_is le (abstract_addr u []) ''abstract'' ''abstract://'' (Inr ())"

definition test_from_nng_abstract_edge_cases :: "bool \<Rightarrow> nng_sockaddr \<Rightarrow> unit run" where
  "test_from_nng_abstract_edge_cases le u =
     url_is le (abstract_addr u (bytes_of ''hello world'')) ''abstract'' ''abstract://hello%20world''
     (url_is le (abstract_addr u (bytes_of ''test'' @ [0xff])) ''abstract'' ''abstract://test%ff''
       (Inr ()))"

text \<open>\<^verbatim>\<open>From<Url> for String\<close>, used both ways.\<close>

definition url_into_string :: "string \<Rightarrow> string" where
  "url_into_string url = url"

text \<open>\<open>Url::as_str\<close> and \<open>Display\<close>\<close>

definition url_as_str :: "string \<Rightarrow> string" where
  "url_as_str url = url"

definition url_display :: "string \<Rightarrow> string" where
  "url_display url = url"

definition test_url_into_string :: "unit run" where
  "test_url_into_string =
     assert_that (url_into_string ''tcp://127.0.0.1:8080'' = ''tcp://127.0.0.1:8080'') (Inr ())"

definition test_url_from_for_string :: "unit run" where
  "test_url_from_for_string =
     assert_that (url_into_string ''ipc:///tmp/test.sock'' = ''ipc:///tmp/test.sock'') (Inr ())"

definition scheme_is :: "string \<Rightarrow> string \<Rightarrow> unit run \<Rightarrow> unit run" where
  "scheme_is url s k = run_bind (url_scheme url) (\<lambda>x. assert_that (x = s) k)"

definition test_url_scheme :: "unit run" where
  "test_url_scheme =
     scheme_is ''tcp://127.0.0.1:8080'' ''tcp''
     (scheme_is ''tcp4://127.0.0.1:8080'' ''tcp4''
     (scheme_is ''tcp6://[::1]:8080'' ''tcp6''
     (scheme_is ''tls+tcp://127.0.0.1:8080'' ''tls+tcp''
     (scheme_is ''ipc:///tmp/test.sock'' ''ipc''
     (scheme_is ''inproc://test'' ''inproc''
     (scheme_is ''abstract://test'' ''abstract'' (Inr ())))))))"

section \<open>The tests of \<open>parse_tcp_url\<close>\<close>

text \<open>\<^verbatim>\<open>assert_eq!(parse_tcp_url(url).unwrap(), addr.parse::<SocketAddr>().unwrap())\<close>\<close>

definition parses_as :: "string \<Rightarrow> string \<Rightarrow> unit run \<Rightarrow> unit run" where
  "parses_as url addr k =
     run_bind (unwrap_ok (parse_tcp_url url)) (\<lambda>a.
     run_bind (unwrap_some (parse_socket_addr addr)) (\<lambda>b. assert_that (a = b) k))"

definition test_parse_tcp_url_schemes :: "unit run" where
  "test_parse_tcp_url_schemes =
     parses_as ''tcp://127.0.0.1:8080'' ''127.0.0.1:8080''
     (parses_as ''tcp4://192.168.1.1:9090'' ''192.168.1.1:9090''
     (parses_as ''tcp6://[::1]:8080'' ''[::1]:8080''
     (parses_as ''tls+tcp://10.0.0.1:443'' ''10.0.0.1:443''
     (parses_as ''tls+tcp4://10.0.0.2:443'' ''10.0.0.2:443''
     (parses_as ''tls+tcp6://[fe80::1]:443'' ''[fe80::1]:443'' (Inr ()))))))"

definition test_parse_tcp_url_scope_id_preservation :: "unit run" where
  "test_parse_tcp_url_scope_id_preservation =
     run_bind (unwrap_ok (parse_tcp_url ''tcp://[fe80::1%42]:9090'')) (\<lambda>addr.
     assert_that (show_socket_addr addr = ''[fe80::1%42]:9090'')
       (case addr of
          V6 _ _ scope_id \<Rightarrow>
            assert_that (scope_id = 42)
              (assert_that (\<not> is_ok (parse_tcp_url ''tcp6://[fe80::1%eth0]:8080'')) (Inr ()))
        | V4 _ _ \<Rightarrow> Inl Explicit))"

definition error_kind_is :: "ffi_env \<Rightarrow> string \<Rightarrow> io_error_kind \<Rightarrow> unit run \<Rightarrow> unit run" where
  "error_kind_is E url kind k =
     run_bind (unwrap_err (parse_tcp_url url)) (\<lambda>err. assert_that (io_kind E err = kind) k)"

definition test_parse_tcp_url_errors :: "ffi_env \<Rightarrow> unit run" where
  "test_parse_tcp_url_errors E =
     error_kind_is E ''ipc:///tmp/socket'' io_error_kind.InvalidData
     (error_kind_is E ''tcp://not-an-address'' io_error_kind.InvalidData
     (error_kind_is E ''tcp://'' io_error_kind.InvalidData (Inr ())))"

section \<open>Evaluating addresses\<close>

lemma read_groups_numeral:
  "read_groups (numeral k) i s =
     (case (if 0 < (pred_numeral k :: nat) then read_separator CHR '':'' i read_ipv4 s else None) of
        Some (v4, s) \<Rightarrow> ([unat v4 div 65536, unat v4 mod 65536], True, s)
      | None \<Rightarrow>
          (case read_separator CHR '':'' i read_group s of
             Some (g, s) \<Rightarrow>
               (let (gs, v4, s) = read_groups (pred_numeral k) (i + 1) s in (g # gs, v4, s))
           | None \<Rightarrow> ([], False, s)))"
  by (simp only: numeral_eq_Suc read_groups.simps)

lemmas read_eval = parse_socket_addr_def read_socket_addr_v4_def read_socket_addr_v6_def
  read_ipv4_def read_ipv6_def read_separator_def read_octet_def read_number_def to_digit_def
  read_group_def read_port_def read_scope_id_def digits_value_def Let_def read_groups_numeral

lemmas show_eval = show_ipv4_def octets_def show_ipv6_def show_nat.simps show_hex.simps
  digit_char_def hex_char_def char_of_eq_iff

lemma shown_addresses:
  "show_socket_addr (V4 0x7F000001 8080) = ''127.0.0.1:8080''"
  "show_socket_addr (V4 0xC0A80101 9090) = ''192.168.1.1:9090''"
  "show_socket_addr (V6 [0, 0, 0, 0, 0, 0, 0, 1] 8080 0) = ''[::1]:8080''"
  "show_socket_addr (V4 0x0A000001 443) = ''10.0.0.1:443''"
  "show_socket_addr (V4 0x0A000002 443) = ''10.0.0.2:443''"
  "show_socket_addr (V6 [0xfe80, 0, 0, 0, 0, 0, 0, 1] 443 0) = ''[fe80::1]:443''"
  "show_socket_addr (V6 [0xfe80, 0, 0, 0, 0, 0, 0, 1] 9090 42) = ''[fe80::1%42]:9090''"
  "show_socket_addr (V6 [0, 0, 0, 0, 0, 0, 0, 1] 9090 0) = ''[::1]:9090''"
  by (simp_all add: show_eval)

lemma parsed_addresses:
  "parse_socket_addr ''127.0.0.1:8080'' = Some (V4 0x7F000001 8080)"
  "parse_socket_addr ''192.168.1.1:9090'' = Some (V4 0xC0A80101 9090)"
  "parse_socket_addr ''[::1]:8080'' = Some (V6 [0, 0, 0, 0, 0, 0, 0, 1] 8080 0)"
  "parse_socket_addr ''10.0.0.1:443'' = Some (V4 0x0A000001 443)"
  "parse_socket_addr ''10.0.0.2:443'' = Some (V4 0x0A000002 443)"
  "parse_socket_addr ''[fe80::1]:443'' = Some (V6 [0xfe80, 0, 0, 0, 0, 0, 0, 1] 443 0)"
  "parse_socket_addr ''[fe80::1%42]:9090'' = Some (V6 [0xfe80, 0, 0, 0, 0, 0, 0, 1] 9090 42)"
  unfolding shown_addresses [symmetric] by (rule parse_show_socket_addr, simp)+

lemma unparsed_addresses:
  "parse_socket_addr [] = None"
  "parse_socket_addr ''not-an-address'' = None"
  "parse_socket_addr ''[fe80::1%eth0]:8080'' = None"
  by (simp_all add: read_eval)

section \<open>They pass\<close>

lemma parse_tests_pass:
  "test_parse_tcp_url_schemes = Inr ()"
  "test_parse_tcp_url_scope_id_preservation = Inr ()"
  "test_parse_tcp_url_errors E = Inr ()"
  by (simp_all add: test_parse_tcp_url_schemes_def test_parse_tcp_url_scope_id_preservation_def
      test_parse_tcp_url_errors_def parses_as_def error_kind_is_def io_kind_def
      parse_tcp_url_def split_once.simps tcp_schemes_def parsed_addresses unparsed_addresses
      shown_addresses del: show_socket_addr.simps One_nat_def)

lemma scheme_tests_pass:
  "test_url_scheme = Inr ()"
  "test_url_into_string = Inr ()"
  "test_url_from_for_string = Inr ()"
  by (simp_all add: test_url_scheme_def scheme_is_def url_scheme_def split_once.simps
      test_url_into_string_def test_url_from_for_string_def url_into_string_def)

lemmas family_eval = url_is_def from_nng_def inet_addr_def inet6_addr_def ipc_addr_def
  inproc_addr_def abstract_addr_def u16_to_be_def u32_to_be_def u16_from_be_def u32_from_be_def

lemma swapped_address: "swap32 (swap32 0x7F000001) = 0x7F000001" "swap32 0 = 0"
  by (simp_all add: swap32_def)

lemma shown_parts:
  "show_ipv4 0x7F000001 = ''127.0.0.1''" "show_ipv4 0 = ''0.0.0.0''"
  "show_nat 8080 = ''8080''" "show_nat 0 = ''0''"
  by (simp_all add: show_eval)

lemma segment_values:
  "segments [0, 0, 0, 0, 0, 0, 0, 0, 0, 0, 0, 0, 0, 0, 0, 1] = [0, 0, 0, 0, 0, 0, 0, 1]"
  "segments [0xfe, 0x80, 0, 0, 0, 0, 0, 0, 0, 0, 0, 0, 0, 0, 0, 1] = [0xfe80, 0, 0, 0, 0, 0, 0, 1]"
  by simp_all

text \<open>The URLs of the three families that carry text.\<close>

lemma cstr_zeroed:
  assumes "ascii t"
  shows "cstr (zeroed n (with_nul t)) = bytes_of t"
proof -
  have "\<forall>b\<in>set (bytes_of t). b \<noteq> 0"
    using assms by (auto simp: bytes_of_def ascii_def word_of_nat_eq_0_iff dest!: dvd_imp_le)
  then show ?thesis by (simp add: cstr_def zeroed_def with_nul_def takeWhile_append2)
qed

lemma path_urls:
  assumes "ascii s" and "ascii t"
  shows "from_nng le (ipc_addr u (with_nul t)) (bytes_of s) = Inr (Some (s @ ''://'' @ t))"
    and "from_nng le (inproc_addr u (with_nul t)) (bytes_of s) = Inr (Some (s @ ''://'' @ t))"
  using assms
  by (simp_all add: from_nng_def ipc_addr_def inproc_addr_def utf8_valid_bytes_of cstr_zeroed
      utf8_lossy_valid)

lemma abstract_url:
  assumes "ascii s" and "length p \<le> 107"
  shows "from_nng le (abstract_addr u p) (bytes_of s) = Inr (Some (s @ ''://'' @ percent_encode p))"
  using assms
  by (simp add: from_nng_def abstract_addr_def utf8_valid_bytes_of zeroed_def unsigned_of_nat
      take_bit_nat_eq_self)

lemma encoded_names:
  "percent_encode (bytes_of ''test'' @ [0] @ bytes_of ''sock'' @ [1]) = ''test%00sock%01''"
  "percent_encode (bytes_of ''hello world'') = ''hello%20world''"
  "percent_encode (bytes_of ''test'' @ [0xff]) = ''test%ff''"
  "percent_encode [] = []"
  by (simp_all add: percent_encode_def is_ascii_graphic_def bytes_of_def hex2_def hex_char_def
      char_of_eq_iff)

lemma inet_tests_pass:
  "test_from_nng_unspec le u = Inr ()"
  "test_from_nng_inet le u = Inr ()"
  "test_from_nng_inet_edge_cases le u = Inr ()"
  "test_from_nng_inet6 le u = Inr ()"
  by (simp_all add: test_from_nng_unspec_def test_from_nng_inet_def test_from_nng_inet6_def
      test_from_nng_inet_edge_cases_def family_eval utf8_valid_bytes_of swapped_address shown_parts
      shown_addresses segment_values del: show_socket_addr.simps One_nat_def segments.simps)

lemma with_nul_empty: "[0] = with_nul []"
  by (simp add: with_nul_def bytes_of_def)

lemma path_tests_pass:
  "test_from_nng_ipc le u = Inr ()"
  "test_from_nng_inproc le u = Inr ()"
  "test_from_nng_empty_ipc_path le u = Inr ()"
  by (simp_all add: test_from_nng_ipc_def test_from_nng_inproc_def test_from_nng_empty_ipc_path_def
      url_is_def path_urls with_nul_empty)

lemma abstract_tests_pass:
  "test_from_nng_abstract le u = Inr ()"
  "test_from_nng_zero_length_abstract le u = Inr ()"
  "test_from_nng_abstract_edge_cases le u = Inr ()"
  by (simp_all add: test_from_nng_abstract_def test_from_nng_zero_length_abstract_def
      test_from_nng_abstract_edge_cases_def url_is_def abstract_url encoded_names
      del: append_Cons append_assoc)

section \<open>The tests that listen\<close>

text \<open>\<open>url_of\<close> is what \<^verbatim>\<open>nng_listener_get_url\<close> and \<^verbatim>\<open>nng_url_sprintf\<close> say of a listener.\<close>

definition is_loopback :: "socket_addr \<Rightarrow> bool" where
  "is_loopback a =
     (case a of V4 ip _ \<Rightarrow> unat ip div 16777216 = 127 | V6 ip _ _ \<Rightarrow> ip = [0, 0, 0, 0, 0, 0, 0, 1])"

definition is_ipv4 :: "socket_addr \<Rightarrow> bool" where
  "is_ipv4 a = (case a of V4 _ _ \<Rightarrow> True | V6 _ _ _ \<Rightarrow> False)"

definition addr_port :: "socket_addr \<Rightarrow> nat" where
  "addr_port a = (case a of V4 _ p \<Rightarrow> p | V6 _ p _ \<Rightarrow> p)"

definition bind_rep0 ::
  "ffi_env \<Rightarrow> 'w ep_api \<Rightarrow> (nat \<Rightarrow> string \<Rightarrow> bool \<Rightarrow> 'w \<Rightarrow> c_int \<times> 'w) \<Rightarrow> socket_addr \<Rightarrow> 'w
     \<Rightarrow> (nat \<times> 'w) run" where
  "bind_rep0 E W set_bool addr w =
     run_bind (rep0_socket W w) (\<lambda>(r, w).
     run_bind (unwrap_ok r) (\<lambda>(sock, chan :: unit socket).
     run_bind (listen_tcp E W set_bool sock addr tcp_options_default w) (\<lambda>(r, w).
     run_bind (unwrap_ok r) (\<lambda>listener. Inr (listener, w)))))"

definition test_listen_tcp_local_addr ::
  "ffi_env \<Rightarrow> 'w ep_api \<Rightarrow> (nat \<Rightarrow> string \<Rightarrow> bool \<Rightarrow> 'w \<Rightarrow> c_int \<times> 'w)
     \<Rightarrow> (nat \<Rightarrow> 'w \<Rightarrow> c_int \<times> int \<times> byte list) \<Rightarrow> 'w \<Rightarrow> unit run" where
  "test_listen_tcp_local_addr E W set_bool url_of w =
     run_bind (bind_rep0 E W set_bool (V4 0x7F000001 0) w) (\<lambda>(listener, w).
     case url_of listener w of (errno, written, buf) \<Rightarrow>
     run_bind (tcp_listener_local_addr errno written buf) (\<lambda>r.
     run_bind (unwrap_ok r) (\<lambda>addr.
     assert_that (is_ipv4 addr \<and> is_loopback addr) (
     assert_that (addr_port addr \<noteq> 0) (Inr ())))))"

definition test_listen_tcp_local_addr_ipv6 ::
  "ffi_env \<Rightarrow> 'w ep_api \<Rightarrow> (nat \<Rightarrow> string \<Rightarrow> bool \<Rightarrow> 'w \<Rightarrow> c_int \<times> 'w)
     \<Rightarrow> (nat \<Rightarrow> 'w \<Rightarrow> c_int \<times> int \<times> byte list) \<Rightarrow> 'w \<Rightarrow> unit run" where
  "test_listen_tcp_local_addr_ipv6 E W set_bool url_of w =
     run_bind (bind_rep0 E W set_bool (V6 [0, 0, 0, 0, 0, 0, 0, 1] 0 0) w) (\<lambda>(listener, w).
     case url_of listener w of (errno, written, buf) \<Rightarrow>
     run_bind (tcp_listener_local_addr errno written buf) (\<lambda>r.
     run_bind (unwrap_ok r) (\<lambda>addr.
     assert_that (\<not> is_ipv4 addr \<and> is_loopback addr) (
     assert_that (addr_port addr \<noteq> 0) (Inr ())))))"

definition test_listener_local_addr_url ::
  "ffi_env \<Rightarrow> 'w ep_api \<Rightarrow> (nat \<Rightarrow> string \<Rightarrow> bool \<Rightarrow> 'w \<Rightarrow> c_int \<times> 'w)
     \<Rightarrow> (nat \<Rightarrow> 'w \<Rightarrow> c_int \<times> int \<times> byte list) \<Rightarrow> 'w \<Rightarrow> unit run" where
  "test_listener_local_addr_url E W set_bool url_of w =
     run_bind (bind_rep0 E W set_bool (V4 0x7F000001 0) w) (\<lambda>(listener, w).
     case url_of listener w of (errno, written, buf) \<Rightarrow>
     run_bind (listener_local_addr errno written buf) (\<lambda>r.
     run_bind (unwrap_ok r) (\<lambda>url.
     assert_that (strip_prefix ''tcp://127.0.0.1:'' url \<noteq> None) (
     run_bind (unwrap_some (strip_prefix ''tcp://127.0.0.1:'' url)) (\<lambda>port_str.
     run_bind (unwrap_ok (parse_uint 65535 port_str)) (\<lambda>port.
     assert_that (port \<noteq> 0) (
     let url_string = url_into_string url in
     assert_that (strip_prefix ''tcp://'' url_string \<noteq> None) (Inr ()))))))))"

text \<open>
  What the tests take for granted of the machine: NNG opens a socket and a handle, listens on the
  address, whatever it says to the options, and then names the address it is \<open>bound\<close> to.
\<close>

definition listens_at ::
  "'w ep_api \<Rightarrow> (nat \<Rightarrow> string \<Rightarrow> bool \<Rightarrow> 'w \<Rightarrow> c_int \<times> 'w) \<Rightarrow> (nat \<Rightarrow> 'w \<Rightarrow> c_int \<times> int \<times> byte list)
     \<Rightarrow> 'w \<Rightarrow> socket_addr \<Rightarrow> socket_addr \<Rightarrow> bool" where
  "listens_at W set_bool url_of w addr bound \<longleftrightarrow>
     (\<exists>w0 w1 w2 w3 w4 w5 w6 c c' sock l n buf.
        e_init W None w = (NNG_OK, w0) \<and> e_open W ''nng_rep0_open'' w0 = ((0, sock), w1)
      \<and> e_aio_alloc W w1 = ((NNG_OK, Some ()), w2)
      \<and> e_listener_create W sock (''tcp://'' @ show_socket_addr addr) w2 = ((0, l), w3)
      \<and> set_bool l NNG_OPT_TCP_NODELAY True w3 = (c, w4)
      \<and> set_bool l NNG_OPT_TCP_KEEPALIVE False w4 = (c', w5)
      \<and> e_listener_start W l w5 = (0, w6)
      \<and> url_of l w6 = (0, int n, buf) \<and> length buf = 144 \<and> n \<le> 144
      \<and> take n buf = bytes_of (''tcp://'' @ show_socket_addr bound))"

lemma bind_rep0_binds:
  assumes "listens_at W set_bool url_of w addr bound" and "valid_addr addr" and "valid_addr bound"
  obtains l w' n buf where "bind_rep0 E W set_bool addr w = Inr (l, w')"
    "url_of l w' = (0, int n, buf)"
    "listener_local_addr 0 (int n) buf = Inr (Inr (''tcp://'' @ show_socket_addr bound))"
proof -
  obtain w0 w1 w2 w3 w4 w5 w6 c c' sock l n buf where
    1: "e_init W None w = (NNG_OK, w0)" "e_open W ''nng_rep0_open'' w0 = ((0, sock), w1)"
      "e_aio_alloc W w1 = ((NNG_OK, Some ()), w2)"
    and 2: "e_listener_create W sock (''tcp://'' @ show_socket_addr addr) w2 = ((0, l), w3)"
      "set_bool l NNG_OPT_TCP_NODELAY True w3 = (c, w4)"
      "set_bool l NNG_OPT_TCP_KEEPALIVE False w4 = (c', w5)" "e_listener_start W l w5 = (0, w6)"
    and 3: "url_of l w6 = (0, int n, buf)" "length buf = 144" "n \<le> 144"
      "take n buf = bytes_of (''tcp://'' @ show_socket_addr bound)"
    using assms(1) unfolding listens_at_def by blast
  have nul: "CHR 0x00 \<notin> set (''tcp://'' @ show_socket_addr addr)"
    using ascii_show_socket_addr [of addr] by (auto simp: ascii_def simp del: ascii_show_socket_addr)
  have "set_tcp_options set_bool tcp_options_default l w3 = (Inr (), w5)"
    using 2 by (simp add: set_tcp_options_def tcp_options_default_def)
  from added_listener_outcome [where pre = "set_tcp_options set_bool tcp_options_default", OF 2(1) this 2(4), of E]
  have "listen_tcp E W set_bool sock addr tcp_options_default w2 = Inr (Inr l, w6)"
    using nul by (simp add: listen_tcp_def)
  then have "bind_rep0 E W set_bool addr w = Inr (l, w6)"
    using 1 by (simp add: bind_rep0_def rep0_socket_def create_socket_def init_nng_def init_result_def
        new_inner_def)
  moreover have "listener_local_addr 0 (int n) buf = Inr (Inr (''tcp://'' @ show_socket_addr bound))"
  proof -
    have n: "n = length (''tcp://'' @ show_socket_addr bound)"
      using arg_cong [OF 3(4), where f = length] 3(2,3) by simp
    then have "0 < n" "n < 144" using length_show_socket_addr [OF assms(3)] by auto
    moreover have "utf8_valid (bytes_of (''tcp://'' @ show_socket_addr bound))"
      by (rule utf8_valid_bytes_of) simp
    ultimately show ?thesis using 3(4) by (simp add: listener_local_addr_def)
  qed
  ultimately show thesis using 3(1) that by blast
qed

lemma tcp_local_addr_of:
  assumes "listener_local_addr 0 k buf = Inr (Inr (''tcp://'' @ show_socket_addr a))" and "valid_addr a"
  shows "tcp_listener_local_addr 0 k buf = Inr (Inr a)"
  using assms parse_tcp_url_show [of "''tcp''" a]
  by (simp add: tcp_listener_local_addr_def tcp_schemes_def)

lemma listen_tests_pass_v4:
  assumes "listens_at W set_bool url_of w (V4 0x7F000001 0) (V4 0x7F000001 port)"
    and "0 < port" and "port < 65536"
  shows "test_listen_tcp_local_addr E W set_bool url_of w = Inr ()"
    and "test_listener_local_addr_url E W set_bool url_of w = Inr ()"
proof -
  from assms(3) obtain l w' n buf where b: "bind_rep0 E W set_bool (V4 0x7F000001 0) w = Inr (l, w')"
    "url_of l w' = (0, int n, buf)"
    and u: "listener_local_addr 0 (int n) buf
      = Inr (Inr (''tcp://'' @ show_socket_addr (V4 0x7F000001 port)))"
    by (auto intro: bind_rep0_binds [OF assms(1), where E = E])
  from tcp_local_addr_of [OF u] assms(2,3) b
  show "test_listen_tcp_local_addr E W set_bool url_of w = Inr ()"
    by (simp add: test_listen_tcp_local_addr_def is_ipv4_def is_loopback_def addr_port_def)
  show "test_listener_local_addr_url E W set_bool url_of w = Inr ()"
    using b u assms(2,3)
    by (simp add: test_listener_local_addr_url_def shown_parts strip_prefix_def url_into_string_def)
qed

lemma listen_test_passes_v6:
  assumes "listens_at W set_bool url_of w (V6 [0, 0, 0, 0, 0, 0, 0, 1] 0 0)
      (V6 [0, 0, 0, 0, 0, 0, 0, 1] port 0)" and "0 < port" and "port < 65536"
  shows "test_listen_tcp_local_addr_ipv6 E W set_bool url_of w = Inr ()"
proof -
  from assms(3) obtain l w' n buf where
    b: "bind_rep0 E W set_bool (V6 [0, 0, 0, 0, 0, 0, 0, 1] 0 0) w = Inr (l, w')"
    "url_of l w' = (0, int n, buf)"
    and u: "listener_local_addr 0 (int n) buf
      = Inr (Inr (''tcp://'' @ show_socket_addr (V6 [0, 0, 0, 0, 0, 0, 0, 1] port 0)))"
    by (auto intro: bind_rep0_binds [OF assms(1), where E = E])
  from tcp_local_addr_of [OF u] assms(2,3) b show ?thesis
    by (simp add: test_listen_tcp_local_addr_ipv6_def is_ipv4_def is_loopback_def addr_port_def
        del: One_nat_def)
qed

section \<open>The property\<close>

definition url_test_runs :: "ffi_env \<Rightarrow> bool \<Rightarrow> nng_sockaddr \<Rightarrow> unit run list" where
  "url_test_runs E le u =
     map (\<lambda>t. t le u)
       [test_from_nng_unspec, test_from_nng_inet, test_from_nng_inet6, test_from_nng_ipc,
        test_from_nng_inproc, test_from_nng_abstract, test_from_nng_inet_edge_cases,
        test_from_nng_empty_ipc_path, test_from_nng_zero_length_abstract,
        test_from_nng_abstract_edge_cases]
     @ [test_url_into_string, test_url_from_for_string, test_url_scheme,
        test_parse_tcp_url_schemes, test_parse_tcp_url_scope_id_preservation,
        test_parse_tcp_url_errors E]"

text \<open>The unit tests of the addresses pass: the sixteen tests of \<^verbatim>\<open>Url\<close> and \<^verbatim>\<open>parse_tcp_url\<close> on
  either byte order and whatever else is in the memory of the address union, and the three that
  listen on the loopback addresses on every NNG that listens there and reports the port it chose.\<close>

theorem url_tests_pass:
  shows "all_pass (url_test_runs E le u)
    \<and> (0 < p \<and> p < 65536 \<and> listens_at W set_bool url_of w (V4 0x7F000001 0) (V4 0x7F000001 p) \<longrightarrow>
         test_listen_tcp_local_addr E W set_bool url_of w = Inr ()
         \<and> test_listener_local_addr_url E W set_bool url_of w = Inr ())
    \<and> (0 < p \<and> p < 65536 \<and> listens_at W set_bool url_of w (V6 [0, 0, 0, 0, 0, 0, 0, 1] 0 0)
           (V6 [0, 0, 0, 0, 0, 0, 0, 1] p 0) \<longrightarrow>
         test_listen_tcp_local_addr_ipv6 E W set_bool url_of w = Inr ())"
proof (intro conjI impI)
  show "all_pass (url_test_runs E le u)"
    by (simp add: url_test_runs_def inet_tests_pass path_tests_pass abstract_tests_pass
        scheme_tests_pass parse_tests_pass)
qed (blast intro: listen_tests_pass_v4 listen_test_passes_v6)+

definition sample_url_of :: "string \<Rightarrow> nat \<Rightarrow> unit \<Rightarrow> c_int \<times> int \<times> byte list" where
  "sample_url_of text l w = (0, int (length text), zeroed 144 (bytes_of text))"

lemma sample_listens:
  assumes "length (''tcp://'' @ show_socket_addr b) \<le> 144" (is "?n \<le> _")
  shows "listens_at (sample_ep 0) (\<lambda>h s v w. (9, w))
    (sample_url_of (''tcp://'' @ show_socket_addr b)) () a b"
proof -
  let ?t = "''tcp://'' @ show_socket_addr b" and ?buf = "zeroed 144 (bytes_of (''tcp://'' @ show_socket_addr b))"
  have "length ?buf = 144" "take ?n ?buf = bytes_of ?t"
    using assms by (simp_all only: zeroed_def length_append length_replicate length_bytes_of
        append_eq_conv_conj [symmetric] take_append take_all_iff) simp_all
  then show ?thesis
    using assms unfolding listens_at_def sample_ep_def sample_url_of_def
    by (intro exI [of _ "()"] exI [of _ 9] exI [of _ 7] exI [of _ ?n] exI [of _ ?buf])
      (simp del: append_Cons)
qed

theorem url_tests_pass_witness:
  "all_pass (url_test_runs sample_env True sample_inet)
   \<and> test_listen_tcp_local_addr sample_env (sample_ep 0) (\<lambda>h s v w. (9, w))
       (sample_url_of (''tcp://'' @ show_socket_addr (V4 0x7F000001 8080))) () = Inr ()
   \<and> test_listen_tcp_local_addr_ipv6 sample_env (sample_ep 0) (\<lambda>h s v w. (9, w))
       (sample_url_of (''tcp://'' @ show_socket_addr (V6 [0, 0, 0, 0, 0, 0, 0, 1] 8080 0))) () = Inr ()"
proof -
  let ?S = "\<lambda>h s v w. (9, w)"
  note l = sample_listens [of "V4 0x7F000001 8080" "V4 0x7F000001 0"]
    sample_listens [of "V6 [0, 0, 0, 0, 0, 0, 0, 1] 8080 0" "V6 [0, 0, 0, 0, 0, 0, 0, 1] 0 0"]
  show ?thesis
    using l url_tests_pass [of sample_env True sample_inet 8080 "sample_ep 0" ?S]
      length_show_socket_addr [of "V4 0x7F000001 8080"]
      length_show_socket_addr [of "V6 [0, 0, 0, 0, 0, 0, 0, 1] 8080 0"]
    by (simp del: show_socket_addr.simps One_nat_def)
qed

end
