(* ===== verification/SettingTests.thy ===== *)
theory SettingTests
  imports Endpoint Options Addr TestKit
begin

text \<open>
  The unit tests of settings and of creating sockets: anng/src/options.rs, anng/src/init.rs and the
  test modules of anng/src/protocols/{reqrep0,pair1,pipeline0,bus0}.rs.  The tests that need NNG run
  over its functions \<open>W\<close> (theory \<open>Endpoint\<close>) and \<open>A\<close>.
\<close>

section \<open>Durations\<close>

text \<open>\<^verbatim>\<open>Duration::{ZERO, MAX, from_millis}\<close>\<close>

definition duration_zero :: duration where
  "duration_zero = \<lparr>d_secs = 0, d_nanos = 0\<rparr>"

definition duration_max :: duration where
  "duration_max = \<lparr>d_secs = 2 ^ 64 - 1, d_nanos = 999999999\<rparr>"

definition from_millis :: "nat \<Rightarrow> duration" where
  "from_millis n = \<lparr>d_secs = n div 1000, d_nanos = n mod 1000 * 1000000\<rparr>"

definition value_is :: "'a run \<Rightarrow> 'a \<Rightarrow> unit run" where
  "value_is r v = run_bind r (\<lambda>x. assert_that (x = v) (Inr ()))"

definition duration_to_nng_ms_accepts_zero :: "unit run" where
  "duration_to_nng_ms_accepts_zero = value_is (duration_to_nng_ms duration_zero) 0"

definition duration_to_nng_ms_accepts_max_i32 :: "unit run" where
  "duration_to_nng_ms_accepts_max_i32 =
     value_is (duration_to_nng_ms (from_millis (nat i32_max))) i32_max"

definition duration_to_nng_ms_rejects_overflow :: "unit run" where
  "duration_to_nng_ms_rejects_overflow =
     should_panic Explicit (duration_to_nng_ms duration_max)"

definition duration_opt_none_maps_to_infinite :: "unit run" where
  "duration_opt_none_maps_to_infinite =
     value_is (duration_opt_to_nng_ms None) NNG_DURATION_INFINITE"

definition duration_opt_zero_maps_to_zero :: "unit run" where
  "duration_opt_zero_maps_to_zero = value_is (duration_opt_to_nng_ms (Some duration_zero)) 0"

definition duration_opt_positive_maps_to_ms :: "unit run" where
  "duration_opt_positive_maps_to_ms =
     value_is (duration_opt_to_nng_ms (Some (from_millis 50))) 50"

definition duration_opt_rejects_overflow :: "unit run" where
  "duration_opt_rejects_overflow =
     should_panic Explicit (duration_opt_to_nng_ms (Some duration_max))"

section \<open>Configuration\<close>

definition test_limit_to_i16 :: "unit run" where
  "test_limit_to_i16 =
     assert_that (limit_to_i16 Unlimited = - 1) (
     assert_that (limit_to_i16 (Limit 42) = 42) (Inr ()))"

definition test_pool_num_to_i16 :: "unit run" where
  "test_pool_num_to_i16 =
     assert_that (pool_num_to_i16 None = 0) (
     assert_that (pool_num_to_i16 (Some \<lparr>pool_num = 8, pool_max = Unlimited\<rparr>) = 8) (Inr ()))"

definition test_pool_max_to_i16 :: "unit run" where
  "test_pool_max_to_i16 =
     assert_that (pool_max_to_i16 None = 0) (
     assert_that (pool_max_to_i16 (Some \<lparr>pool_num = 4, pool_max = Unlimited\<rparr>) = - 1) (
     assert_that (pool_max_to_i16 (Some \<lparr>pool_num = 4, pool_max = Limit 16\<rparr>) = 16) (Inr ())))"

definition says :: "init_error + unit \<Rightarrow> string list \<Rightarrow> bool" where
  "says r texts =
     (case r of Inl (Invalid msg) \<Rightarrow> list_all (contains msg) texts | _ \<Rightarrow> False)"

definition test_validate_pool_config :: "unit run" where
  "test_validate_pool_config =
     assert_that (is_ok (validate_pool_config ''t'' \<lparr>pool_num = 100, pool_max = Unlimited\<rparr>)) (
     assert_that (is_ok (validate_pool_config ''t'' \<lparr>pool_num = 10, pool_max = Limit 10\<rparr>)) (
     assert_that (is_ok (validate_pool_config ''t'' \<lparr>pool_num = 5, pool_max = Limit 10\<rparr>)) (
     let result = validate_pool_config ''task_threads'' \<lparr>pool_num = 15, pool_max = Limit 10\<rparr> in
     assert_that (says result [''task_threads.num'', ''15'', ''task_threads.max'', ''10'']) (
     let result = validate_pool_config ''t'' \<lparr>pool_num = - 5, pool_max = Unlimited\<rparr> in
     assert_that (says result [''positive'']) (
     let result = validate_pool_config ''t'' \<lparr>pool_num = 5, pool_max = Limit (- 10)\<rparr> in
     assert_that (says result [''positive'']) (Inr ()))))))"

section \<open>Sockets and their options\<close>

text \<open>The C functions that read and write the options of a socket or a context, by its handle.\<close>

record 'w opt_api =
  o_set_ms :: "nat \<Rightarrow> 'w set_ms"
  o_get_ms :: "nat \<Rightarrow> string \<Rightarrow> 'w \<Rightarrow> c_int \<times> int"
  o_ctx_set_ms :: "nat \<Rightarrow> 'w set_ms"
  o_ctx_get_ms :: "nat \<Rightarrow> string \<Rightarrow> 'w \<Rightarrow> c_int \<times> int"
  o_set_int :: "nat \<Rightarrow> 'w set_ms"
  o_ctx_open :: "nat \<Rightarrow> 'w \<Rightarrow> (c_int \<times> nat) \<times> 'w"

text \<open>\<^verbatim>\<open>P::socket().unwrap()\<close> and \<^verbatim>\<open>socket.context()\<close>, as the tests call them.\<close>

definition new_socket :: "('w \<Rightarrow> (nat \<times> unit socket, 'w) io_res) \<Rightarrow> 'w \<Rightarrow> (nat \<times> 'w) run" where
  "new_socket open_fn w =
     run_bind (open_fn w) (\<lambda>(r, w). run_bind (unwrap_ok r) (\<lambda>(sock, _). Inr (sock, w)))"

definition new_context :: "'w opt_api \<Rightarrow> nat \<Rightarrow> 'w \<Rightarrow> (nat \<times> 'w) run" where
  "new_context A sock w =
     (case o_ctx_open A sock w of ((errno, ctx), w) \<Rightarrow>
        run_bind (socket_context errno :: unit contextful run) (\<lambda>_. Inr (ctx, w)))"

definition ms_is :: "c_int \<times> int \<Rightarrow> int \<Rightarrow> 'a run \<Rightarrow> 'a run" where
  "ms_is r v k = assert_that (fst r = 0) (assert_that (snd r = v) k)"

definition expect_set :: "((io_error + unit) \<times> 'w) run \<Rightarrow> 'w run" where
  "expect_set r = run_bind r (\<lambda>(res, w). run_bind (unwrap_ok res) (\<lambda>_. Inr w))"

definition set_resend_option_socket_smoke ::
  "ffi_env \<Rightarrow> 'w ep_api \<Rightarrow> 'w opt_api \<Rightarrow> 'w \<Rightarrow> unit run" where
  "set_resend_option_socket_smoke E W A w =
     run_bind (new_socket (req0_socket W) w) (\<lambda>(socket, w).
     run_bind (expect_set (req0_set_resend_time E (o_set_ms A socket) None w)) (\<lambda>w.
     ms_is (o_get_ms A socket ''req:resend-time'' w) NNG_DURATION_INFINITE (
     run_bind (for_each (\<lambda>ms w.
         run_bind (expect_set (req0_set_resend_time E (o_set_ms A socket) (Some (from_millis ms)) w)) (\<lambda>w.
         ms_is (o_get_ms A socket ''req:resend-time'' w) (int ms) (Inr w)))
       [0, 1, 60000, nat i32_max] w) (\<lambda>w.
     run_bind (new_socket (req0_socket W) w) (\<lambda>(socket, w).
     run_bind (for_each (\<lambda>ms w.
         run_bind (expect_set (req0_set_resend_tick E (o_set_ms A socket) (from_millis ms) w)) (\<lambda>w.
         ms_is (o_get_ms A socket ''req:resend-tick'' w) (int ms) (Inr w)))
       [0, 1, 1000, nat i32_max] w) (\<lambda>w.
     run_bind (new_context A socket w) (\<lambda>(ctx, w).
     run_bind (expect_set (req0_ctx_set_resend_time E (o_ctx_set_ms A ctx) None w)) (\<lambda>w.
     ms_is (o_ctx_get_ms A ctx ''req:resend-time'' w) NNG_DURATION_INFINITE (
     run_bind (for_each (\<lambda>ms w.
         run_bind (expect_set (req0_ctx_set_resend_time E (o_ctx_set_ms A ctx) (Some (from_millis ms)) w)) (\<lambda>w.
         ms_is (o_ctx_get_ms A ctx ''req:resend-time'' w) (int ms) (Inr w)))
       [0, 50, 60000] w) (\<lambda>w. Inr ()))))))))))"

definition set_resend_time_socket_overflow_panics ::
  "ffi_env \<Rightarrow> 'w ep_api \<Rightarrow> 'w opt_api \<Rightarrow> 'w \<Rightarrow> unit run" where
  "set_resend_time_socket_overflow_panics E W A w =
     should_panic Explicit
       (run_bind (new_socket (req0_socket W) w) (\<lambda>(socket, w).
        req0_set_resend_time E (o_set_ms A socket) (Some (from_millis (nat i32_max + 1))) w))"

definition set_resend_time_socket_duration_max_panics ::
  "ffi_env \<Rightarrow> 'w ep_api \<Rightarrow> 'w opt_api \<Rightarrow> 'w \<Rightarrow> unit run" where
  "set_resend_time_socket_duration_max_panics E W A w =
     should_panic Explicit
       (run_bind (new_socket (req0_socket W) w) (\<lambda>(socket, w).
        req0_set_resend_time E (o_set_ms A socket) (Some duration_max) w))"

definition set_resend_tick_socket_overflow_panics ::
  "ffi_env \<Rightarrow> 'w ep_api \<Rightarrow> 'w opt_api \<Rightarrow> 'w \<Rightarrow> unit run" where
  "set_resend_tick_socket_overflow_panics E W A w =
     should_panic Explicit
       (run_bind (new_socket (req0_socket W) w) (\<lambda>(socket, w).
        req0_set_resend_tick E (o_set_ms A socket) (from_millis (nat i32_max + 1)) w))"

definition set_resend_time_context_overflow_panics ::
  "ffi_env \<Rightarrow> 'w ep_api \<Rightarrow> 'w opt_api \<Rightarrow> 'w \<Rightarrow> unit run" where
  "set_resend_time_context_overflow_panics E W A w =
     should_panic Explicit
       (run_bind (new_socket (req0_socket W) w) (\<lambda>(socket, w).
        run_bind (new_context A socket w) (\<lambda>(ctx, w).
        req0_ctx_set_resend_time E (o_ctx_set_ms A ctx) (Some (from_millis (nat i32_max + 1))) w)))"

text \<open>The tests of \<^verbatim>\<open>Pair1\<close>, \<^verbatim>\<open>Push0\<close> and \<^verbatim>\<open>Bus0\<close>.\<close>

definition test_pair_socket_creation :: "'w ep_api \<Rightarrow> 'w \<Rightarrow> unit run" where
  "test_pair_socket_creation W w =
     run_bind (pair1_socket W w) (\<lambda>(socket :: io_error + nat \<times> unit socket, w).
     assert_that (is_ok socket) (Inr ()))"

definition test_bus_socket_creation :: "'w ep_api \<Rightarrow> 'w \<Rightarrow> unit run" where
  "test_bus_socket_creation W w =
     run_bind (bus0_socket W w) (\<lambda>(socket :: io_error + nat \<times> unit socket, w).
     assert_that (is_ok socket) (Inr ()))"

definition test_max_ttl_operations :: "'w ep_api \<Rightarrow> 'w opt_api \<Rightarrow> 'w \<Rightarrow> unit run" where
  "test_max_ttl_operations W A w =
     run_bind (new_socket (pair1_socket W) w) (\<lambda>(socket, w).
     run_bind (set_max_ttl (o_set_int A socket) 5 w) (\<lambda>w.
     run_bind (set_max_ttl (o_set_int A socket) 1 w) (\<lambda>w.
     run_bind (set_max_ttl (o_set_int A socket) 15 w) (\<lambda>w. Inr ()))))"

definition test_max_ttl_invalid_zero :: "'w ep_api \<Rightarrow> 'w opt_api \<Rightarrow> 'w \<Rightarrow> unit run" where
  "test_max_ttl_invalid_zero W A w =
     should_panic AssertFailed
       (run_bind (new_socket (pair1_socket W) w) (\<lambda>(socket, w).
        set_max_ttl (o_set_int A socket) 0 w))"

definition test_max_ttl_invalid_too_high :: "'w ep_api \<Rightarrow> 'w opt_api \<Rightarrow> 'w \<Rightarrow> unit run" where
  "test_max_ttl_invalid_too_high W A w =
     should_panic AssertFailed
       (run_bind (new_socket (pair1_socket W) w) (\<lambda>(socket, w).
        set_max_ttl (o_set_int A socket) 16 w))"

text \<open>\<open>kt\<close> and \<open>os\<close> are the texts of the standard library, as for \<open>io_error_text\<close>.\<close>

definition test_send_buffer_configuration ::
  "ffi_env \<Rightarrow> (io_error_kind \<Rightarrow> string) \<Rightarrow> (int \<Rightarrow> string) \<Rightarrow> 'w ep_api \<Rightarrow> 'w opt_api \<Rightarrow> 'w \<Rightarrow> unit run" where
  "test_send_buffer_configuration E kt os W A w =
     run_bind (new_socket (push0_socket W) w) (\<lambda>(pusher, w).
     run_bind (for_each (\<lambda>n w. expect_set (set_send_buffer (o_set_int A pusher) n w))
       [0, 1, 128, 8192] w) (\<lambda>w.
     run_bind (set_send_buffer (o_set_int A pusher) 8193 w) (\<lambda>(result, w).
     assert_that (\<not> is_ok result) (
     run_bind (unwrap_err result) (\<lambda>error.
     assert_that (io_kind E error = io_error_kind.InvalidInput) (
     assert_that (contains (io_error_text kt os error) ''8193'') (
     assert_that (contains (io_error_text kt os error) ''maximum of 8192'') (Inr ()))))))))"

section \<open>They pass\<close>

lemma as_millis_from_millis [simp]: "as_millis (from_millis n) = n"
  by (simp add: as_millis_def from_millis_def)

lemma from_millis_ms:
  "duration_to_nng_ms (from_millis n) = (if int n \<le> i32_max then Inr (int n) else Inl Explicit)"
  by (simp add: duration_to_nng_ms_def)

lemma duration_tests_pass:
  "duration_to_nng_ms_accepts_zero = Inr ()"
  "duration_to_nng_ms_accepts_max_i32 = Inr ()"
  "duration_to_nng_ms_rejects_overflow = Inr ()"
  "duration_opt_none_maps_to_infinite = Inr ()"
  "duration_opt_zero_maps_to_zero = Inr ()"
  "duration_opt_positive_maps_to_ms = Inr ()"
  "duration_opt_rejects_overflow = Inr ()"
  unfolding duration_to_nng_ms_accepts_zero_def duration_to_nng_ms_accepts_max_i32_def
    duration_to_nng_ms_rejects_overflow_def duration_opt_none_maps_to_infinite_def
    duration_opt_zero_maps_to_zero_def duration_opt_positive_maps_to_ms_def
    duration_opt_rejects_overflow_def
  by (simp_all add: value_is_def should_panic_def duration_opt_to_nng_ms_def from_millis_ms)
    (simp_all add: duration_to_nng_ms_def duration_zero_def duration_max_def as_millis_def i32_max_def)

lemma pool_tests_pass:
  "test_limit_to_i16 = Inr ()"
  "test_pool_num_to_i16 = Inr ()"
  "test_pool_max_to_i16 = Inr ()"
  by (simp_all add: test_limit_to_i16_def test_pool_num_to_i16_def test_pool_max_to_i16_def
      limit_to_i16_def pool_num_to_i16_def pool_max_to_i16_def)

lemma shown_numbers: "show_int 15 = ''15''" "show_int 10 = ''10''" "show_nat 8193 = ''8193''"
  by (simp_all add: show_int_def show_nat.simps digit_char_def char_of_eq_iff)

lemma exceeds_text:
  "\<forall>t \<in> {''task_threads.num'', ''15'', ''task_threads.max'', ''10''}.
     contains (''task_threads'' @ ''.num ('' @ ''15'' @ '') exceeds '' @ ''task_threads'' @ ''.max ('' @ ''10'' @ '')'') t"
proof -
  let ?s = "''task_threads'' @ ''.num ('' @ ''15'' @ '') exceeds '' @ ''task_threads'' @ ''.max ('' @ ''10'' @ '')''"
  have "contains ?s ''task_threads.num''" by (rule contains_at [where n = 0]) simp
  moreover have "contains ?s ''15''" by (rule contains_at [where n = 18]) simp
  moreover have "contains ?s ''task_threads.max''" by (rule contains_at [where n = 30]) simp
  moreover have "contains ?s ''10''" by (rule contains_at [where n = 48]) simp
  ultimately show ?thesis by blast
qed

lemma positive_text:
  "contains (''t'' @ ''.num must be positive, got '' @ v) ''positive''"
  "contains (''t'' @ ''.max must be positive, got '' @ v) ''positive''"
  by (rule contains_at [where n = 14], simp)+

lemma validate_test_passes: "test_validate_pool_config = Inr ()"
proof -
  have "says (validate_pool_config ''task_threads'' \<lparr>pool_num = 15, pool_max = Limit 10\<rparr>)
      [''task_threads.num'', ''15'', ''task_threads.max'', ''10'']"
    using exceeds_text by (simp add: says_def validate_pool_config_def shown_numbers del: append_Cons)
  moreover have "says (validate_pool_config ''t'' \<lparr>pool_num = - 5, pool_max = Unlimited\<rparr>) [''positive'']"
    using positive_text(1) by (simp add: says_def validate_pool_config_def del: append_Cons)
  moreover have "says (validate_pool_config ''t'' \<lparr>pool_num = 5, pool_max = Limit (- 10)\<rparr>) [''positive'']"
    using positive_text(2) by (simp add: says_def validate_pool_config_def del: append_Cons)
  ultimately show ?thesis
    by (simp add: test_validate_pool_config_def) (simp add: validate_pool_config_def)
qed

text \<open>
  An NNG on which the tests can run.  \<open>opened\<close> is the function that opened a socket and \<open>owner\<close> the
  socket of a context (NNG does not use a handle twice, so both are fixed).  Opening succeeds; a \<^verbatim>\<open>REQ\<close>
  socket and its contexts take a legal resend time, and the socket a resend tick, and give it back; a
  \<^verbatim>\<open>PAIR\<close> version 1 socket takes a TTL from 1 to 15, and a \<^verbatim>\<open>PUSH\<close> socket a send buffer of up to 8192
  messages.  These are the documented ranges of the options the tests use, and nothing is asked of
  other options, values or sockets.
\<close>

definition tested_sockets :: "string list" where
  "tested_sockets = [''nng_req0_open'', ''nng_pair1_open'', ''nng_push0_open'', ''nng_bus0_open'']"

definition cooperative :: "(nat \<Rightarrow> string) \<Rightarrow> (nat \<Rightarrow> nat) \<Rightarrow> 'w ep_api \<Rightarrow> 'w opt_api \<Rightarrow> bool" where
  "cooperative opened owner W A \<longleftrightarrow>
     (\<forall>w. fst (e_init W None w) = NNG_OK)
   \<and> (\<forall>w. fst (e_aio_alloc W w) = (NNG_OK, Some ()))
   \<and> (\<forall>f w. f \<in> set tested_sockets \<longrightarrow>
        fst (fst (e_open W f w)) = 0 \<and> opened (snd (fst (e_open W f w))) = f)
   \<and> (\<forall>s w. opened s = ''nng_req0_open'' \<longrightarrow>
        fst (fst (o_ctx_open A s w)) = 0 \<and> owner (snd (fst (o_ctx_open A s w))) = s)
   \<and> (\<forall>s opt ms w. opened s = ''nng_req0_open'' \<and> nng_ms_ok ms
          \<and> (opt = ''req:resend-time'' \<or> opt = ''req:resend-tick'' \<and> 0 \<le> ms) \<longrightarrow>
        fst (o_set_ms A s opt ms w) = 0 \<and> o_get_ms A s opt (snd (o_set_ms A s opt ms w)) = (0, ms))
   \<and> (\<forall>c ms w. opened (owner c) = ''nng_req0_open'' \<and> nng_ms_ok ms \<longrightarrow>
        fst (o_ctx_set_ms A c ''req:resend-time'' ms w) = 0
      \<and> o_ctx_get_ms A c ''req:resend-time'' (snd (o_ctx_set_ms A c ''req:resend-time'' ms w)) = (0, ms))
   \<and> (\<forall>s n w. opened s = ''nng_pair1_open'' \<and> 1 \<le> n \<and> n \<le> 15 \<longrightarrow>
        fst (o_set_int A s ''ttl-max'' n w) = 0)
   \<and> (\<forall>s n w. opened s = ''nng_push0_open'' \<and> 0 \<le> n \<and> n \<le> 8192 \<longrightarrow>
        fst (o_set_int A s ''send-buffer'' n w) = 0)"

lemma cooperative_calls:
  assumes "cooperative opened owner W A"
  shows "\<exists>w'. e_init W None w = (NNG_OK, w')"
    and "\<exists>w'. e_aio_alloc W w = ((NNG_OK, Some ()), w')"
    and "f \<in> set tested_sockets \<Longrightarrow> \<exists>h w'. e_open W f w = ((0, h), w') \<and> opened h = f"
    and "opened s = ''nng_req0_open'' \<Longrightarrow> \<exists>c w'. o_ctx_open A s w = ((0, c), w') \<and> owner c = s"
    and "\<lbrakk>opened s = ''nng_pair1_open''; 1 \<le> n; n \<le> 15\<rbrakk> \<Longrightarrow> \<exists>w'. o_set_int A s ''ttl-max'' n w = (0, w')"
    and "\<lbrakk>opened s = ''nng_push0_open''; 0 \<le> n; n \<le> 8192\<rbrakk>
      \<Longrightarrow> \<exists>w'. o_set_int A s ''send-buffer'' n w = (0, w')"
proof -
  have fsts: "fst (e_init W None w) = NNG_OK" "fst (e_aio_alloc W w) = (NNG_OK, Some ())"
    "f \<in> set tested_sockets \<longrightarrow> fst (fst (e_open W f w)) = 0 \<and> opened (snd (fst (e_open W f w))) = f"
    "opened s = ''nng_req0_open'' \<longrightarrow>
       fst (fst (o_ctx_open A s w)) = 0 \<and> owner (snd (fst (o_ctx_open A s w))) = s"
    "opened s = ''nng_pair1_open'' \<and> 1 \<le> n \<and> n \<le> 15 \<longrightarrow> fst (o_set_int A s ''ttl-max'' n w) = 0"
    "opened s = ''nng_push0_open'' \<and> 0 \<le> n \<and> n \<le> 8192 \<longrightarrow> fst (o_set_int A s ''send-buffer'' n w) = 0"
    using assms unfolding cooperative_def by blast+
  show "\<exists>w'. e_init W None w = (NNG_OK, w')"
    using fsts(1) by (cases "e_init W None w") simp
  show "\<exists>w'. e_aio_alloc W w = ((NNG_OK, Some ()), w')"
    using fsts(2) by (cases "e_aio_alloc W w") simp
  show "\<exists>h w'. e_open W f w = ((0, h), w') \<and> opened h = f" if "f \<in> set tested_sockets"
    using fsts(3) that by (cases "e_open W f w") (auto simp: prod_eq_iff)
  show "\<exists>c w'. o_ctx_open A s w = ((0, c), w') \<and> owner c = s" if "opened s = ''nng_req0_open''"
    using fsts(4) that by (cases "o_ctx_open A s w") (auto simp: prod_eq_iff)
  show "\<exists>w'. o_set_int A s ''ttl-max'' n w = (0, w')"
    if "opened s = ''nng_pair1_open''" "1 \<le> n" "n \<le> 15"
    using fsts(5) that by (cases "o_set_int A s ''ttl-max'' n w") simp
  show "\<exists>w'. o_set_int A s ''send-buffer'' n w = (0, w')"
    if "opened s = ''nng_push0_open''" "0 \<le> n" "n \<le> 8192"
    using fsts(6) that by (cases "o_set_int A s ''send-buffer'' n w") simp
qed

lemma opens:
  assumes "cooperative opened owner W A" and "f \<in> set tested_sockets"
  shows "\<exists>s w'. create_socket W f w = (Inr (Inr (s, \<lparr>s_aio = aio_new, s_recovered_msg = None\<rparr>), w')
      :: (nat \<times> 'm socket, 'w) io_res) \<and> opened s = f"
proof -
  obtain w0 where 0: "e_init W None w = (NNG_OK, w0)"
    using cooperative_calls(1) [OF assms(1)] by blast
  obtain s w1 where 1: "e_open W f w0 = ((0, s), w1)" "opened s = f"
    using cooperative_calls(3) [OF assms] by blast
  obtain w2 where "e_aio_alloc W w1 = ((NNG_OK, Some ()), w2)"
    using cooperative_calls(2) [OF assms(1)] by blast
  with 0 1 show ?thesis
    by (simp add: create_socket_def init_nng_def init_result_def new_inner_def)
qed

lemma new_socket_then:
  fixes W :: "'w ep_api"
  assumes "cooperative opened owner W A" and "f \<in> set tested_sockets"
    and "\<And>s w'. opened s = f \<Longrightarrow> yields Q (k (s, w'))"
  shows "yields Q (run_bind (new_socket (create_socket W f) w) k)"
  using opens [OF assms(1,2), of w, where ?'m = unit] assms(3) by (auto simp: new_socket_def)

lemma new_context_then:
  assumes "cooperative opened owner W A" and "opened s = ''nng_req0_open''"
    and "\<And>c w'. opened (owner c) = ''nng_req0_open'' \<Longrightarrow> yields Q (k (c, w'))"
  shows "yields Q (run_bind (new_context A s w) k)"
proof -
  obtain c w' where "o_ctx_open A s w = ((0, c), w')" "owner c = s"
    using cooperative_calls(4) [OF assms(1,2)] by blast
  then show ?thesis using assms(2,3) by (simp add: new_context_def socket_context_def)
qed

lemma setter_then:
  assumes "cooperative opened owner W A" and "opened s = ''nng_req0_open''"
    and "duration_opt_to_nng_ms dur = Inr ms"
    and "opt = ''req:resend-time'' \<or> opt = ''req:resend-tick'' \<and> 0 \<le> ms"
    and "\<And>w'. o_get_ms A s opt w' = (0, ms) \<Longrightarrow> yields Q (k w')"
  shows "yields Q (run_bind (expect_set (set_socket_ms_opt E (o_set_ms A s) opt dur w)) k)"
proof -
  have "fst (o_set_ms A s opt ms w) = 0" "o_get_ms A s opt (snd (o_set_ms A s opt ms w)) = (0, ms)"
    using assms(1,2,4) duration_opt_Inr [OF assms(3)] unfolding cooperative_def by blast+
  then show ?thesis
    using assms(3,5) by (simp add: set_socket_ms_opt_def expect_set_def check_map_set_ms_errno_def
        split_beta)
qed

lemma ctx_setter_then:
  assumes "cooperative opened owner W A" and "opened (owner c) = ''nng_req0_open''"
    and "duration_opt_to_nng_ms dur = Inr ms"
    and "\<And>w'. o_ctx_get_ms A c ''req:resend-time'' w' = (0, ms) \<Longrightarrow> yields Q (k w')"
  shows "yields Q (run_bind (expect_set
    (set_ctx_ms_opt E (o_ctx_set_ms A c) ''req:resend-time'' dur w)) k)"
proof -
  have "fst (o_ctx_set_ms A c ''req:resend-time'' ms w) = 0"
    "o_ctx_get_ms A c ''req:resend-time'' (snd (o_ctx_set_ms A c ''req:resend-time'' ms w)) = (0, ms)"
    using assms(1,2) duration_opt_Inr [OF assms(3)] unfolding cooperative_def by blast+
  then show ?thesis
    using assms(3,4) by (simp add: set_ctx_ms_opt_def expect_set_def check_map_set_ms_errno_def
        split_beta)
qed

lemma tick_is_time: "set_socket_ms E S opt d w = set_socket_ms_opt E S opt (Some d) w"
  by (simp add: set_socket_ms_def set_socket_ms_opt_def duration_opt_to_nng_ms_def)

lemma ms_is_then: "\<lbrakk>r = (0, v); yields Q k\<rbrakk> \<Longrightarrow> yields Q (ms_is r v k)"
  by (simp add: ms_is_def)

lemma for_each_then:
  assumes "\<And>x w. x \<in> set xs \<Longrightarrow> yields (\<lambda>_. True) (f x w)" and "\<And>w'. yields Q (k w')"
  shows "yields Q (run_bind (for_each f xs w) k)"
proof -
  have "yields (\<lambda>_. True) (for_each f xs w)"
    using assms(1) by (induction xs arbitrary: w) (auto intro: yields_bind)
  then show ?thesis using assms(2) by (rule yields_bind)
qed

lemmas proto_sockets = req0_socket_def [abs_def] pair1_socket_def [abs_def] push0_socket_def [abs_def]
  bus0_socket_def [abs_def]

lemma millis_ok:
  "\<lbrakk>x \<in> set xs; list_all (\<lambda>x. x \<le> nat i32_max) xs\<rbrakk>
     \<Longrightarrow> duration_opt_to_nng_ms (Some (from_millis x)) = Inr (int x)"
  by (auto simp: duration_opt_to_nng_ms_def from_millis_ms list_all_iff)
    (use nat_le_iff [of i32_max] in \<open>fastforce simp: i32_max_def\<close>)

lemma tested:
  "''nng_req0_open'' \<in> set tested_sockets" "''nng_pair1_open'' \<in> set tested_sockets"
  "''nng_push0_open'' \<in> set tested_sockets" "''nng_bus0_open'' \<in> set tested_sockets"
  by (simp_all add: tested_sockets_def)

lemma resend_smoke_passes:
  assumes "cooperative opened owner W A"
  shows "set_resend_option_socket_smoke E W A w = Inr ()"
  unfolding yields_unit [symmetric] set_resend_option_socket_smoke_def proto_sockets
    req0_set_resend_time_def req0_set_resend_tick_def req0_ctx_set_resend_time_def tick_is_time
  by (rule new_socket_then [OF assms tested(1)] new_context_then [OF assms] setter_then [OF assms]
      ctx_setter_then [OF assms] for_each_then ms_is_then | assumption | unfold case_prod_conv
      | rule millis_ok, assumption
      | (simp add: duration_opt_to_nng_ms_def i32_max_def; fail))+

lemma overflow_Explicit:
  "set_socket_ms_opt E S opt (Some (from_millis (nat i32_max + 1))) w = Inl Explicit"
  "set_socket_ms_opt E S opt (Some duration_max) w = Inl Explicit"
  "set_ctx_ms_opt E S opt (Some (from_millis (nat i32_max + 1))) w = Inl Explicit"
  by (simp_all add: set_socket_ms_opt_def set_ctx_ms_opt_def duration_opt_to_nng_ms_def from_millis_ms
      i32_max_def) (simp add: duration_to_nng_ms_def duration_max_def as_millis_def i32_max_def)

lemma bind_panics:
  assumes "yields (\<lambda>_. True) r" and "\<And>x. k x = Inl p"
  shows "run_bind r k = Inl p"
  using assms by (auto simp: yields_def)

lemma socket_panics:
  assumes "cooperative opened owner W A" and "f \<in> set tested_sockets"
    and "\<And>s w'. opened s = f \<Longrightarrow> k (s, w') = Inl p"
  shows "run_bind (new_socket (create_socket W f) w) k = Inl p"
  using opens [OF assms(1,2), of w, where ?'m = unit] assms(3) by (auto simp: new_socket_def)

lemma overflow_tests_pass:
  assumes "cooperative opened owner W A"
  shows "set_resend_time_socket_overflow_panics E W A w = Inr ()"
    and "set_resend_time_socket_duration_max_panics E W A w = Inr ()"
    and "set_resend_tick_socket_overflow_panics E W A w = Inr ()"
    and "set_resend_time_context_overflow_panics E W A w = Inr ()"
proof -
  have ctx: "run_bind (new_context A s w) (\<lambda>(c, w).
      set_ctx_ms_opt E (o_ctx_set_ms A c) opt (Some (from_millis (nat i32_max + 1))) w) = Inl Explicit"
    if "opened s = ''nng_req0_open''" for s w opt
    using cooperative_calls(4) [OF assms that, of w] overflow_Explicit(3)
    by (auto simp: new_context_def socket_context_def)
  have "run_bind (new_socket (create_socket W ''nng_req0_open'') w) (\<lambda>(s, w).
      run_bind (new_context A s w) (\<lambda>(c, w). set_ctx_ms_opt E (o_ctx_set_ms A c) ''req:resend-time''
        (Some (from_millis (nat i32_max + 1))) w)) = Inl Explicit"
    by (rule socket_panics [OF assms tested(1)]) (simp only: prod.case ctx)
  then show "set_resend_time_context_overflow_panics E W A w = Inr ()"
    by (simp only: set_resend_time_context_overflow_panics_def req0_socket_def [abs_def]
        req0_ctx_set_resend_time_def) (simp add: should_panic_def)
qed (simp_all add: set_resend_time_socket_overflow_panics_def req0_socket_def [abs_def] should_panic_def
    set_resend_time_socket_duration_max_panics_def set_resend_tick_socket_overflow_panics_def
    req0_set_resend_time_def req0_set_resend_tick_def tick_is_time split_beta
    overflow_Explicit overflow_Explicit [unfolded Suc_eq_plus1 [symmetric]]
    socket_panics [OF assms tested(1)])

lemma creation_tests_pass:
  assumes "cooperative opened owner W A"
  shows "test_pair_socket_creation W w = Inr ()" and "test_bus_socket_creation W w = Inr ()"
  using opens [OF assms tested(2), of w, where ?'m = unit]
    opens [OF assms tested(4), of w, where ?'m = unit]
  by (auto simp: test_pair_socket_creation_def test_bus_socket_creation_def pair1_socket_def
      bus0_socket_def assert_that_def)

lemma ttl_then:
  assumes "cooperative opened owner W A" and "opened s = ''nng_pair1_open''" and "1 \<le> n" and "n \<le> 15"
    and "\<And>w'. yields Q (k w')"
  shows "yields Q (run_bind (set_max_ttl (o_set_int A s) n w) k)"
proof -
  obtain w' where "o_set_int A s ''ttl-max'' (int n) w = (0, w')"
    using cooperative_calls(5) [OF assms(1,2), of "int n" w] assms(3,4) by auto
  then show ?thesis using assms by (simp add: set_max_ttl_def)
qed

lemma buffer_yields:
  assumes "cooperative opened owner W A" and "opened s = ''nng_push0_open''" and "n \<le> 8192"
  shows "yields (\<lambda>_. True) (expect_set (set_send_buffer (o_set_int A s) n w))"
proof -
  obtain w' where "o_set_int A s ''send-buffer'' (int n) w = (0, w')"
    using cooperative_calls(6) [OF assms(1,2), of "int n" w] assms(3) by auto
  then show ?thesis using assms by (simp add: set_send_buffer_def expect_set_def)
qed

lemma ttl_tests_pass:
  assumes "cooperative opened owner W A"
  shows "test_max_ttl_operations W A w = Inr ()"
    and "test_max_ttl_invalid_zero W A w = Inr ()"
    and "test_max_ttl_invalid_too_high W A w = Inr ()"
proof -
  show "test_max_ttl_operations W A w = Inr ()"
    unfolding yields_unit [symmetric] test_max_ttl_operations_def proto_sockets
    by (rule new_socket_then [OF assms tested(2)] ttl_then [OF assms] | assumption | simp)+
qed (simp_all add: test_max_ttl_invalid_zero_def test_max_ttl_invalid_too_high_def should_panic_def
    pair1_socket_def [abs_def] set_max_ttl_def split_beta socket_panics [OF assms tested(2)])

lemma buffer_text:
  "contains (''send buffer size '' @ ''8193'' @ '' exceeds maximum of 8192'') ''8193''"
  "contains (''send buffer size '' @ ''8193'' @ '' exceeds maximum of 8192'') ''maximum of 8192''"
  by (rule contains_at [where n = 17], simp) (rule contains_at [where n = 30], simp)

lemma buffer_test_passes:
  assumes "cooperative opened owner W A"
  shows "test_send_buffer_configuration E kt os W A w = Inr ()"
  unfolding yields_unit [symmetric] test_send_buffer_configuration_def proto_sockets
proof (rule new_socket_then [OF assms tested(3)], unfold case_prod_conv, rule for_each_then)
  fix s n w assume "opened s = ''nng_push0_open''" "n \<in> set [0, 1, 128, 8192 :: nat]"
  then show "yields (\<lambda>_. True) (expect_set (set_send_buffer (o_set_int A s) n w))"
    by (intro buffer_yields [OF assms]) auto
qed (use buffer_text in \<open>simp add: set_send_buffer_def io_kind_def shown_numbers del: append_Cons\<close>)

section \<open>The test suites\<close>

definition plain_test_runs :: "unit run list" where
  "plain_test_runs =
     [duration_to_nng_ms_accepts_zero, duration_to_nng_ms_accepts_max_i32,
      duration_to_nng_ms_rejects_overflow, duration_opt_none_maps_to_infinite,
      duration_opt_zero_maps_to_zero, duration_opt_positive_maps_to_ms,
      duration_opt_rejects_overflow, test_limit_to_i16, test_pool_num_to_i16, test_pool_max_to_i16,
      test_validate_pool_config]"

definition socket_test_runs ::
  "ffi_env \<Rightarrow> (io_error_kind \<Rightarrow> string) \<Rightarrow> (int \<Rightarrow> string) \<Rightarrow> 'w ep_api \<Rightarrow> 'w opt_api \<Rightarrow> 'w
     \<Rightarrow> unit run list" where
  "socket_test_runs E kt os W A w =
     [set_resend_option_socket_smoke E W A w, set_resend_time_socket_overflow_panics E W A w,
      set_resend_time_socket_duration_max_panics E W A w,
      set_resend_tick_socket_overflow_panics E W A w,
      set_resend_time_context_overflow_panics E W A w, test_pair_socket_creation W w,
      test_max_ttl_operations W A w, test_max_ttl_invalid_zero W A w,
      test_max_ttl_invalid_too_high W A w, test_send_buffer_configuration E kt os W A w,
      test_bus_socket_creation W w]"

text \<open>The unit tests of the settings pass: eleven of durations and configurations, and eleven of
  sockets, on every NNG that opens the tested sockets and has their options as documented.\<close>

theorem setting_tests_pass:
  assumes "cooperative opened owner W A"
  shows "all_pass plain_test_runs
    \<and> all_pass (socket_test_runs E kt os W A w)"
  by (simp add: plain_test_runs_def socket_test_runs_def duration_tests_pass pool_tests_pass
      validate_test_passes resend_smoke_passes [OF assms] overflow_tests_pass [OF assms]
      creation_tests_pass [OF assms] ttl_tests_pass [OF assms] buffer_test_passes [OF assms])

text \<open>
  An NNG whose state is the values of the options; sockets and contexts share them.  The handle of a
  socket is the number of its kind, and a context has the handle of its socket.
\<close>

definition opened_by :: "nat \<Rightarrow> string" where
  "opened_by h =
     (if h = 0 then ''nng_req0_open'' else if h = 1 then ''nng_pair1_open''
      else if h = 2 then ''nng_push0_open'' else ''nng_bus0_open'')"

definition kind_number :: "string \<Rightarrow> nat" where
  "kind_number f =
     (if f = ''nng_req0_open'' then 0 else if f = ''nng_pair1_open'' then 1
      else if f = ''nng_push0_open'' then 2 else 3)"

definition option_nng :: "(string \<Rightarrow> int) ep_api" where
  "option_nng = \<lparr>
     e_init = (\<lambda>p w. (NNG_OK, w)), e_open = (\<lambda>f w. ((0, kind_number f), w)),
     e_aio_alloc = (\<lambda>w. ((NNG_OK, Some ()), w)),
     e_listener_create = (\<lambda>s u w. ((0, 7), w)), e_listener_start = (\<lambda>h w. (0, w)),
     e_listener_close = (\<lambda>h w. (0, w)), e_dialer_create = (\<lambda>s u w. ((0, 7), w)),
     e_dialer_start = (\<lambda>h w. (0, w)), e_dialer_close = (\<lambda>h w. (0, w)),
     e_socket_close = (\<lambda>h w. w)\<rparr>"

definition option_store :: "(string \<Rightarrow> int) opt_api" where
  "option_store = \<lparr>
     o_set_ms = (\<lambda>s opt n w. (0, w(opt := n))), o_get_ms = (\<lambda>s opt w. (0, w opt)),
     o_ctx_set_ms = (\<lambda>c opt n w. (0, w(opt := n))), o_ctx_get_ms = (\<lambda>c opt w. (0, w opt)),
     o_set_int = (\<lambda>s opt n w. (0, w(opt := n))), o_ctx_open = (\<lambda>s w. ((0, s), w))\<rparr>"

theorem setting_tests_pass_witness:
  "all_pass (socket_test_runs sample_env (\<lambda>_. []) (\<lambda>_. []) option_nng option_store (\<lambda>_. 0))"
proof -
  have "cooperative opened_by (\<lambda>c. c) option_nng option_store"
    by (auto simp: cooperative_def option_nng_def option_store_def tested_sockets_def opened_by_def
        kind_number_def)
  from setting_tests_pass [OF this] show ?thesis by blast
qed

end
