(* ===== verification/Spec2Isabelle.thy ===== *)
theory Spec2Isabelle
  imports Prelude Errors Options Init NngMsg Message NngMessage NngAio NngHandles Aio Channel Protocols
    Endpoint Addr Tcp Text BuildScript Programs DateService DelayService TaskPipeline SurveyDemo
    PubSubDemo NngDemos NngServer Lifecycle NngGlue Bindings MessageTests UrlTests SettingTests
begin

text \<open>
  A model of the Rust bindings of NNG: the asynchronous crate \<^verbatim>\<open>anng\<close>, the synchronous crate \<^verbatim>\<open>nng\<close>,
  the hand-written part of \<^verbatim>\<open>nng-sys\<close>, the build script that finds or builds the C library, and the
  example programs of both crates.  The C library itself is not part of the repository.  What the
  wrappers call of it is an argument of the definitions (a record of functions, or one function),
  and what they rely on is a named hypothesis or the \<open>assumes\<close> of a locale that a concrete instance
  meets.

  \<^bold>\<open>Parts and their theories\<close>, in the order the crates use each other.

  \<^item> \<open>Prelude\<close>: panics and \<open>run\<close> (a function returns or unwinds), the integers of the three crates,
    decimal text.
  \<^item> \<open>Errors\<close>: \<^verbatim>\<open>nng_sys::ErrorCode\<close> and \<^verbatim>\<open>ErrorKind\<close> (nng-sys/src/lib.rs), \<^verbatim>\<open>AioError\<close>
    (anng/src/aio.rs), \<^verbatim>\<open>nng::Error\<close> (nng/src/error.rs), \<^verbatim>\<open>rv2res!\<close> and \<open>validate_ptr\<close>
    (nng/src/util.rs), with their numbers, texts and conversions into \<^verbatim>\<open>io::Error\<close>.
  \<^item> \<open>Options\<close>: the duration conversions of both crates and the option setters (anng/src/options.rs
    and the setters of the protocol files).
  \<^item> \<open>Init\<close>: \<open>init_nng\<close> with its validation (anng/src/init.rs) and \<open>Params\<close> (nng/src/lib.rs).
  \<^item> \<open>NngMsg\<close>: the C message functions as a record and their documented laws as the locale
    \<open>nng_msg\<close>, interpreted on a byte-level implementation; \<open>Message\<close>: every operation of
    \<^verbatim>\<open>anng::Message\<close> (anng/src/message.rs) on header, body and read position, the \<^verbatim>\<open>io::Write\<close>,
    \<^verbatim>\<open>Buf\<close> and \<^verbatim>\<open>BufMut\<close> implementations included.
  \<^item> \<open>NngMessage\<close>: \<^verbatim>\<open>nng::Message\<close> and \<^verbatim>\<open>nng::Header\<close> (nng/src/message.rs).  The locales
    \<open>byte_buf\<close> and \<open>extend_buf\<close> are the contract of an edited byte sequence; the body and the header
    of both crates' messages meet it, by \<open>sublocale\<close>s of \<open>nng_msg\<close>.
  \<^item> \<open>NngAio\<close>: \<^verbatim>\<open>nng::Aio\<close> (nng/src/aio.rs), its atomic state word, every method and every step of
    the callback as steps of any number of threads that share clones of one handle.
  \<^item> \<open>NngHandles\<close>: sockets, raw sockets, contexts, dialers, listeners and their builders, pipes and
    devices of \<^verbatim>\<open>nng\<close> (nng/src/socket.rs, ctx.rs, dialer.rs, listener.rs, pipe.rs, device.rs,
    protocol.rs) with the reference counts behind clones.  The locale \<open>keyed\<close> is what comparison by
    number gives, \<open>ledger\<close> what an account of opened and closed handles gives; \<open>ledger\<close> is
    interpreted for sockets, contexts, dialers, listeners and the library itself.
  \<^item> \<open>Aio\<close>: the handle \<^verbatim>\<open>anng::Aio\<close> (anng/src/aio.rs), and \<open>Aio::wait\<close> with its cancellation guard as
    a step relation against NNG, the callback and a future that may be dropped at any moment.
  \<^item> \<open>Channel\<close>: \<open>send_msg\<close>, \<open>recv_msg\<close>, \<open>try_recv_msg\<close> of \<^verbatim>\<open>Socket\<close> (anng/src/lib.rs) and \<^verbatim>\<open>Context\<close>
    (anng/src/context.rs), with the message a cancelled receive recovers; the locale \<open>msg_channel\<close>
    is what the two share, interpreted on both.
  \<^item> \<open>Protocols\<close>: the operations of the ten protocol types (anng/src/protocols/*.rs) over channels.
  \<^item> \<open>Endpoint\<close>: opening sockets, listeners and dialers and the constructors of the protocol types
    (anng/src/protocols/mod.rs, anng/src/lib.rs).
  \<^item> \<open>Sockaddr\<close>: the layout of \<^verbatim>\<open>nng_sockaddr\<close> (nng-sys/src/bindings.rs) under the C layout rules,
    and the views through which both crates read its bytes; \<open>IpText\<close>: the standard library's printer
    and parser of IPv4 and IPv6 socket addresses; \<open>Addr\<close>: \<^verbatim>\<open>Url\<close>, \<open>parse_tcp_url\<close> and
    \<open>remote_addr\<close> (anng/src/pipes.rs, anng/src/message.rs), \<^verbatim>\<open>nng::SocketAddr\<close> (nng/src/addr.rs) and
    the enum conversions of nng-sys/src/lib.rs; \<open>Tcp\<close>: \<open>listen_tcp\<close> and the local address of a
    listener (anng/src/pipes.rs).
  \<^item> \<open>Text\<close>: the string functions of the standard library that the build script and the examples use.
  \<^item> \<open>BuildScript\<close>: nng-sys/build.rs as scripts on a machine with environment, files and programs;
    a script returns the directives it printed and may stop with a panic.  The programs it calls are
    parameters that read the environment too and print lines of their own among the script's.
  \<^item> \<open>Programs\<close>: what the examples share: programs that print, call the library and end in one of
    several ways, integers as bytes, and the messages they build.
  \<^item> \<open>DateService\<close>: reqrep_date.rs of \<^verbatim>\<open>anng\<close> and reqrep.rs of \<^verbatim>\<open>nng\<close>; \<open>DelayService\<close>,
    \<open>TaskPipeline\<close>, \<open>SurveyDemo\<close>, \<open>PubSubDemo\<close>: async_reqrep.rs, pipeline.rs, survey.rs and
    pubsub_basic.rs of \<^verbatim>\<open>anng\<close> (anng/examples), each from the command line to \<^verbatim>\<open>main\<close>, with the loops
    of servers on the list of what happens in their rounds.
  \<^item> \<open>NngDemos\<close>: bus.rs, pipeline.rs, pair.rs, pubsub.rs and survey.rs of \<^verbatim>\<open>nng\<close> (nng/examples);
    \<open>NngServer\<close>: async.rs, whose workers are runs of the step relation of \<open>NngAio\<close> in which the
    closure is the only user of the handle and runs as one step.
  \<^item> \<open>Lifecycle\<close>: what \<^verbatim>\<open>anng\<close>'s \<^verbatim>\<open>Aio\<close>, \<^verbatim>\<open>Socket\<close>, \<^verbatim>\<open>ContextfulSocket\<close> and \<^verbatim>\<open>Message\<close> own, the order in
    which their drops give it back, what a panic of a constructor leaves behind, and \<open>block_in_place\<close>
    (anng/src/lib.rs, context.rs, aio.rs, message.rs, protocols/mod.rs), as entries of one ledger.
  \<^item> \<open>NngGlue\<close>: conversions into \<^verbatim>\<open>nng\<close>'s messages, their slice traits and ownership, the comparison
    traits of the handles, the asynchronous methods of sockets and contexts, and the functions that C
    calls, which abort instead of unwinding (nng/src/message.rs, ctx.rs, dialer.rs, listener.rs,
    pipe.rs, socket.rs, aio.rs, util.rs).
  \<^item> \<open>Bindings\<close>: the option names of the generated bindings as C strings, \<open>opt\<close> (anng/src/options.rs),
    the initial handles and error texts of nng-sys/src/lib.rs.
  \<^item> \<open>TestKit\<close>, \<open>MessageTests\<close>, \<open>UrlTests\<close>, \<open>SettingTests\<close>: the unit tests at the end of
    anng/src/message.rs, pipes.rs, options.rs, init.rs and of the protocol files as programs over the
    models; a test that returns has passed.

  \<^bold>\<open>How code is read.\<close>  A struct is a record, an enum a datatype.  A function that can panic returns a
  \<open>run\<close>, whose left side names the construct that unwound; a \<^verbatim>\<open>Result\<close> is a sum.  State that a method
  changes through \<^verbatim>\<open>&mut self\<close> or inside NNG is an argument that is returned updated.  Integers keep
  their width (\<open>u32\<close> is a 32-bit word); \<^verbatim>\<open>usize\<close> is a natural number with its bound and the overflow of
  \<open>+\<close> written out.  A future is run by saying how its awaits end: \<open>Ran c\<close> (polled to the end, the
  operation completing as \<open>c\<close>) or \<open>DroppedAs c\<close>; that this functional reading has exactly the
  outcomes of the step relation is \<open>aio_wait_refines\<close>.  Calls into NNG that open or close something
  are logged in the state, so that what is opened and closed can be counted.

  \<^bold>\<open>What the lemmas show.\<close>  Messages: each operation computes its abstract specification, any
  interleaving keeps the read position in the body, and a run that panics stops at an operation that
  may panic so on the message it has reached; the reserve calls that NNG sees while a message is
  filled grow as the logarithm of its size.  Waits: no notification is lost, nothing panics, every
  run ends, and at every end the message is owned by exactly one side.  Channels: no sequence of operations and cancellations loses or duplicates a message.
  Protocols: what cancelled requests, replies and surveys leave behind.  Endpoints: every handle
  that is opened is closed on the error paths, and where it is not.  The synchronous messages: both
  crates' edits of the same bytes agree.  The shared \<^verbatim>\<open>Aio\<close>: at every reachable state a message has
  exactly one owner, none is lost or duplicated, some step is always possible until the work is done,
  and what dropping the last clone leaves behind.  Handles: each socket and context is closed exactly
  once, with its last clone, and the library is left as often as it was entered except where the code
  forgets it.  Build script: what it reads of the environment and announces to cargo itself,
  beside what the programs it calls read and print; where the library comes from; that the include
  directories written into \<^verbatim>\<open>CFLAGS\<close> are read back.  Examples: what the two sides of each say
  to each other, end to end over the messages and channels above, and where a program does not do
  what its documentation shows.  Drops: every resource is given back once, none before what holds on
  to it, and what is live is owned, except what a panicking constructor leaves behind.  Callbacks: no
  panic crosses into C.  Unit tests: they pass on every NNG that keeps its documented laws (the
  growth tests with the buffer sizes their comments quote), which also tests the models against what
  the authors expect of the code.  Errors, options, initialisation
  and addresses: which inputs are accepted, how each return code is reported, where two conversions
  of one thing agree, and round trips.

  \<^bold>\<open>Bounds.\<close>  Loops are structural recursions or have a measure.  The \<^verbatim>\<open>write_all\<close> loop is bounded by two
  rounds, a wait by five steps; both bounds are proved.  While a shared \<^verbatim>\<open>Aio\<close> has an owner, some step
  lowers its rank, which is at most nine.  Fuel bounds three loops of the examples: the argument loop
  of async_reqrep.rs, for which one unit more than there are arguments is enough
  (\<open>delay_parse_ends\<close>), and the receiving loops of \<^verbatim>\<open>nng\<close>, which run for a given number of rounds
  because only an error or NNG ends them.

  \<^bold>\<open>Not modelled.\<close>  Tracing, the \<^verbatim>\<open>Debug\<close> implementations of handles, and the pointer plumbing of
  callbacks.  In \<^verbatim>\<open>nng\<close>: the accessors of the \<open>ffi-module\<close> feature that give out a raw handle.  In
  \<^verbatim>\<open>nng-sys\<close>: the configuration of bindgen, and of the generated bindings the extern declarations,
  which have no body, and the enumerations of logging, TLS and HTTP, which no code of the repository
  uses.  In the examples: pauses, the text that \<^verbatim>\<open>Debug\<close> gives a duration (a parameter), the sockets
  dropped when a \<^verbatim>\<open>main\<close> ends, and the order in which the lines of concurrent tasks appear.  Two unit
  tests of anng/src/message.rs (\<^verbatim>\<open>test_unsafe_set_len\<close>, \<^verbatim>\<open>test_bufmut_chunk_mut_advance_mut\<close>) read memory
  behind the end of a body, about which no documented law speaks.  The integration tests are clients
  of the same functions and are left out.
\<close>

section \<open>The ledger of resources and the sockets of the other theories\<close>

text \<open>
  Theory \<open>Lifecycle\<close> reads \<^verbatim>\<open>create_socket\<close> and \<^verbatim>\<open>Socket::context\<close> for what they allocate, theories
  \<open>Endpoint\<close> and \<open>Channel\<close> for what they return; on the same answers of NNG the two readings return or
  panic alike.
\<close>

lemma create_socket_ledger:
  assumes "init_nng (e_init W) None w = Inr (Inr (), w1)" and "e_open W f w1 = ((errno, s), w2)"
    and "e_aio_alloc W w2 = ((rv, ptr), w3)"
  shows "run_map (\<lambda>_. ()) (fst (socket_create errno s b rv (map_option (\<lambda>_. a) ptr) L))
    = run_map (\<lambda>_. ()) (create_socket W f w :: (nat \<times> 'm socket, 'w) io_res)"
  using assms
  by (cases ptr) (simp_all add: create_socket_def socket_create_def aio_create_def aio_alloc_def
      new_inner_def errno_u32_def Let_def)

lemma context_ledger:
  assumes "new_inner rv ptr = Inr a"
  shows "run_map (\<lambda>_. ()) (fst (socket_context_open rt s errno c b rv ptr L))
    = run_map (\<lambda>_. ()) (socket_context errno :: 'm contextful run)"
  using assms
  by (simp add: socket_context_open_def socket_context_def aio_create_def aio_alloc_def
      errno_u32_def Let_def)

end
